(* ===== verification/Prelude.thy ===== *)
theory Prelude
  imports Main "HOL-Library.Word"
begin

text \<open>
  What every component shares: the machine-word types of include/types.h, the outcome of a kernel
  routine, the rules that carry outcomes through a proof, and facts about 64-bit words and about
  loops that step through memory.

  A routine of the kernel that can stop the machine has the type \<open>'a outcome\<close>: it returns, it
  calls \<open>panic\<close> (kern/printk.c: the message is printed and the hart spins for ever), it does something
  that neither C nor the hart defines (\<open>Fault\<close>), or the bound of a recursion that the source does not
  bound has been used up (\<open>NoFuel\<close>). State is passed explicitly, inside the returned value.
\<close>

unbundle bit_operations_syntax

type_synonym u8 = "8 word"
type_synonym u16 = "16 word"
type_synonym u32 = "32 word"
type_synonym u64 = "64 word"

named_theorems outcome_elims \<open>how a sequence of outcomes can have returned\<close>
named_theorems mem_frame \<open>which parts of memory an operation leaves alone\<close>

section \<open>Outcomes\<close>

datatype 'a outcome = Ret 'a | Panic string | Fault string | NoFuel

fun andThen :: "'a outcome \<Rightarrow> ('a \<Rightarrow> 'b outcome) \<Rightarrow> 'b outcome" where
  "andThen (Ret x) f = f x"
| "andThen (Panic msg) f = Panic msg"
| "andThen (Fault msg) f = Fault msg"
| "andThen NoFuel f = NoFuel"

definition returns :: "'a outcome \<Rightarrow> bool" where
  "returns r \<longleftrightarrow> (case r of Ret _ \<Rightarrow> True | _ \<Rightarrow> False)"

lemma returns_simps [simp]:
  "returns (Ret x)" "\<not> returns (Panic msg)" "\<not> returns (Fault msg)" "\<not> returns NoFuel"
  by (simp_all add: returns_def)

lemma returns_iff: "returns r \<longleftrightarrow> (\<exists>x. r = Ret x)"
  by (cases r) simp_all

lemma andThen_cong [fundef_cong]:
  "m = m' \<Longrightarrow> (\<And>x. m' = Ret x \<Longrightarrow> f x = g x) \<Longrightarrow> andThen m f = andThen m' g"
  by (cases m') simp_all

lemma andThen_RetE [elim!, outcome_elims]:
  assumes "andThen m f = Ret y"
  obtains x where "m = Ret x" and "f x = Ret y"
  using assms by (cases m) simp_all

lemma andThen_eq_Ret: "andThen m f = Ret y \<longleftrightarrow> (\<exists>x. m = Ret x \<and> f x = Ret y)"
  by (cases m) simp_all

lemma andThen_assoc: "andThen (andThen m f) g = andThen m (\<lambda>x. andThen (f x) g)"
  by (cases m) simp_all

section \<open>Words\<close>

lemma unat_add_nat:
  fixes a :: "'a::len word"
  shows "unat a + k < 2 ^ LENGTH('a) \<Longrightarrow> unat (a + word_of_nat k) = unat a + k"
  by (simp add: unat_word_ariths unat_of_nat)

lemma unat_add_word:
  fixes a b :: "'a::len word"
  shows "unat a + unat b < 2 ^ LENGTH('a) \<Longrightarrow> unat (a + b) = unat a + unat b"
  by (simp add: unat_word_ariths)

lemma unat_bound: "unat (a :: 'a::len word) < 2 ^ LENGTH('a)"
  by (rule unsigned_less)

lemma unat_lt_64: "unat (a :: u64) < 18446744073709551616"
  using unsigned_less [of a] by simp

lemma unat_plus_one: "(a :: 'a::len word) < b \<Longrightarrow> unat (a + 1) = Suc (unat a)"
  using le_less_trans [OF _ unat_bound [of b], of "Suc (unat a)"]
  by (simp add: word_less_nat_alt unat_word_ariths)

lemma unat_sub_wrap: "\<not> b \<le> a \<Longrightarrow> unat (a - b :: u64) = unat a + 2 ^ 64 - unat b"
  by (simp add: unat_sub_if_size word_size word_le_nat_alt)

text \<open>Pointers that step towards a bound: the measure of every memory loop.\<close>

lemma step_measure:
  fixes a b :: "'a::len word"
  shows "a < b \<Longrightarrow> unat b - unat (a + 1) < unat b - unat a"
    and "a + k \<le> b \<Longrightarrow> a < a + k \<Longrightarrow> unat b - unat (a + k) < unat b - unat a"
    and "a < b \<Longrightarrow> a < a + k \<Longrightarrow> unat b - unat (a + k) < unat b - unat a"
  by (auto simp: unat_plus_one) (auto simp: word_less_nat_alt word_le_nat_alt)

lemma add_nat_inject:
  fixes a :: "'a::len word"
  assumes "i < 2 ^ LENGTH('a)" and "j < 2 ^ LENGTH('a)"
  shows "a + word_of_nat i = a + word_of_nat j \<longleftrightarrow> i = j"
  using assms by (simp add: word_of_nat_eq_iff take_bit_nat_eq_self)

text \<open>An address of a block of \<open>n\<close> bytes at \<open>a\<close> is \<open>a\<close> plus an offset below \<open>n\<close>.\<close>

definition in_block :: "u64 \<Rightarrow> u64 \<Rightarrow> nat \<Rightarrow> bool" where
  "in_block x a n \<longleftrightarrow> unat (x - a) < n"

lemma in_block_iff_offset:
  assumes "n \<le> 2 ^ 64"
  shows "in_block x a n \<longleftrightarrow> (\<exists>i<n. x = a + word_of_nat i)"
proof
  assume "in_block x a n"
  then show "\<exists>i<n. x = a + word_of_nat i"
    by (auto simp: in_block_def intro!: exI [of _ "unat (x - a)"])
next
  assume "\<exists>i<n. x = a + word_of_nat i"
  then obtain i where i: "i < n" and x: "x = a + word_of_nat i" by blast
  have "unat (word_of_nat i :: u64) = i"
    using i assms by (simp add: unat_of_nat)
  then show "in_block x a n" using i x by (simp add: in_block_def)
qed

lemma in_block_range:
  assumes "unat a + n \<le> 2 ^ 64"
  shows "in_block x a n \<longleftrightarrow> unat a \<le> unat x \<and> unat x < unat a + n"
proof (cases "unat a \<le> unat x")
  case True
  then have "unat (x - a) = unat x - unat a"
    by (simp add: unat_sub word_le_nat_alt)
  with True show ?thesis by (auto simp: in_block_def)
next
  case False
  then have "unat (x - a) = unat x + 2 ^ 64 - unat a"
    by (simp add: unat_sub_wrap word_le_nat_alt)
  with False assms show ?thesis by (simp add: in_block_def)
qed

text \<open>The values a loop \<open>for (a = start; a < stop; a += 4096)\<close> gives its variable. The inner guard is
  false only when the increment wraps around the address space, which cannot happen for two
  page-aligned bounds.\<close>

function page_range :: "u64 \<Rightarrow> u64 \<Rightarrow> u64 list" where
  "page_range a stop =
     (if a < stop then a # (if a < a + 4096 then page_range (a + 4096) stop else []) else [])"
  by pat_completeness auto
termination
  by (relation "measure (\<lambda>(a, stop). unat stop - unat a)") (auto intro: step_measure)

declare page_range.simps [simp del]

end
