(* ===== verification/Queue.thy ===== *)
theory Queue
  imports Prelude
begin

text \<open>
  include/queue.h: the intrusive lists (\<open>LIST_*\<close>) and tail queues (\<open>TAILQ_*\<close>) of the kernel. An
  element is the index of a structure in an array; a pointer to one is an optional index, and the
  address of a pointer - what \<open>le_prev\<close>, \<open>tqe_prev\<close> and \<open>tqh_last\<close> hold - is a \<open>ref\<close>. The links of all
  elements are functions of the index. The lemmas show each macro to implement the operation of the
  same name on plain lists.
\<close>

section \<open>References\<close>

datatype ref = NullRef | HeadRef | NextOf nat

record list_q =
  lh_first :: "nat option"
  le_next :: "nat \<Rightarrow> nat option"
  le_prev :: "nat \<Rightarrow> ref"

record tail_q =
  tqh_first :: "nat option"
  tqh_last :: ref
  tqe_next :: "nat \<Rightarrow> nat option"
  tqe_prev :: "nat \<Rightarrow> ref"

text \<open>Reading and writing through an address.\<close>

fun le_load :: "list_q \<Rightarrow> ref \<Rightarrow> nat option" where
  "le_load q NullRef = None"
| "le_load q HeadRef = lh_first q"
| "le_load q (NextOf e) = le_next q e"

fun le_store :: "list_q \<Rightarrow> ref \<Rightarrow> nat option \<Rightarrow> list_q outcome" where
  "le_store q NullRef v = Fault ''store through a null pointer''"
| "le_store q HeadRef v = Ret (q\<lparr>lh_first := v\<rparr>)"
| "le_store q (NextOf e) v = Ret (q\<lparr>le_next := (le_next q)(e := v)\<rparr>)"

fun tqe_load :: "tail_q \<Rightarrow> ref \<Rightarrow> nat option" where
  "tqe_load q NullRef = None"
| "tqe_load q HeadRef = tqh_first q"
| "tqe_load q (NextOf e) = tqe_next q e"

fun tqe_store :: "tail_q \<Rightarrow> ref \<Rightarrow> nat option \<Rightarrow> tail_q outcome" where
  "tqe_store q NullRef v = Fault ''store through a null pointer''"
| "tqe_store q HeadRef v = Ret (q\<lparr>tqh_first := v\<rparr>)"
| "tqe_store q (NextOf e) v = Ret (q\<lparr>tqe_next := (tqe_next q)(e := v)\<rparr>)"

section \<open>Lists\<close>

definition LIST_EMPTY :: "list_q \<Rightarrow> bool" where
  "LIST_EMPTY q \<longleftrightarrow> lh_first q = None"

definition LIST_FIRST :: "list_q \<Rightarrow> nat option" where
  "LIST_FIRST q = lh_first q"

definition LIST_NEXT :: "list_q \<Rightarrow> nat \<Rightarrow> nat option" where
  "LIST_NEXT q elm = le_next q elm"

definition LIST_INIT :: "list_q \<Rightarrow> list_q" where
  "LIST_INIT q = q\<lparr>lh_first := None\<rparr>"

definition LIST_INSERT_AFTER :: "list_q \<Rightarrow> nat \<Rightarrow> nat \<Rightarrow> list_q" where
  "LIST_INSERT_AFTER q listelm elm =
     (let q = q\<lparr>le_next := (le_next q)(elm := le_next q listelm)\<rparr>;
          q = (case le_next q listelm of
                 Some n \<Rightarrow> q\<lparr>le_prev := (le_prev q)(n := NextOf elm)\<rparr> | None \<Rightarrow> q);
          q = q\<lparr>le_next := (le_next q)(listelm := Some elm)\<rparr>
      in q\<lparr>le_prev := (le_prev q)(elm := NextOf listelm)\<rparr>)"

definition LIST_INSERT_BEFORE :: "list_q \<Rightarrow> nat \<Rightarrow> nat \<Rightarrow> list_q outcome" where
  "LIST_INSERT_BEFORE q listelm elm =
     (let q = q\<lparr>le_prev := (le_prev q)(elm := le_prev q listelm)\<rparr>;
          q = q\<lparr>le_next := (le_next q)(elm := Some listelm)\<rparr> in
      andThen (le_store q (le_prev q listelm) (Some elm)) (\<lambda>q.
        Ret (q\<lparr>le_prev := (le_prev q)(listelm := NextOf elm)\<rparr>)))"

definition LIST_INSERT_HEAD :: "list_q \<Rightarrow> nat \<Rightarrow> list_q" where
  "LIST_INSERT_HEAD q elm =
     (let q = q\<lparr>le_next := (le_next q)(elm := lh_first q)\<rparr>;
          q = (case lh_first q of
                 Some n \<Rightarrow> q\<lparr>le_prev := (le_prev q)(n := NextOf elm)\<rparr> | None \<Rightarrow> q);
          q = q\<lparr>lh_first := Some elm\<rparr>
      in q\<lparr>le_prev := (le_prev q)(elm := HeadRef)\<rparr>)"

definition LIST_REMOVE :: "list_q \<Rightarrow> nat \<Rightarrow> list_q outcome" where
  "LIST_REMOVE q elm =
     (let q = (case le_next q elm of
                 Some n \<Rightarrow> q\<lparr>le_prev := (le_prev q)(n := le_prev q elm)\<rparr> | None \<Rightarrow> q)
      in le_store q (le_prev q elm) (le_next q elm))"

section \<open>Tail queues\<close>

definition TAILQ_EMPTY :: "tail_q \<Rightarrow> bool" where
  "TAILQ_EMPTY q \<longleftrightarrow> tqh_first q = None"

definition TAILQ_FIRST :: "tail_q \<Rightarrow> nat option" where
  "TAILQ_FIRST q = tqh_first q"

definition TAILQ_NEXT :: "tail_q \<Rightarrow> nat \<Rightarrow> nat option" where
  "TAILQ_NEXT q elm = tqe_next q elm"

definition TAILQ_INIT :: "tail_q \<Rightarrow> tail_q" where
  "TAILQ_INIT q = (let q = q\<lparr>tqh_first := None\<rparr> in q\<lparr>tqh_last := HeadRef\<rparr>)"

definition TAILQ_INSERT_HEAD :: "tail_q \<Rightarrow> nat \<Rightarrow> tail_q" where
  "TAILQ_INSERT_HEAD q elm =
     (let q = q\<lparr>tqe_next := (tqe_next q)(elm := tqh_first q)\<rparr>;
          q = (case tqe_next q elm of
                 Some n \<Rightarrow> q\<lparr>tqe_prev := (tqe_prev q)(n := NextOf elm)\<rparr>
               | None \<Rightarrow> q\<lparr>tqh_last := NextOf elm\<rparr>);
          q = q\<lparr>tqh_first := Some elm\<rparr>
      in q\<lparr>tqe_prev := (tqe_prev q)(elm := HeadRef)\<rparr>)"

definition TAILQ_INSERT_TAIL :: "tail_q \<Rightarrow> nat \<Rightarrow> tail_q outcome" where
  "TAILQ_INSERT_TAIL q elm =
     (let q = q\<lparr>tqe_next := (tqe_next q)(elm := None)\<rparr>;
          q = q\<lparr>tqe_prev := (tqe_prev q)(elm := tqh_last q)\<rparr> in
      andThen (tqe_store q (tqh_last q) (Some elm)) (\<lambda>q. Ret (q\<lparr>tqh_last := NextOf elm\<rparr>)))"

definition TAILQ_INSERT_AFTER :: "tail_q \<Rightarrow> nat \<Rightarrow> nat \<Rightarrow> tail_q" where
  "TAILQ_INSERT_AFTER q listelm elm =
     (let q = q\<lparr>tqe_next := (tqe_next q)(elm := tqe_next q listelm)\<rparr>;
          q = (case tqe_next q elm of
                 Some n \<Rightarrow> q\<lparr>tqe_prev := (tqe_prev q)(n := NextOf elm)\<rparr>
               | None \<Rightarrow> q\<lparr>tqh_last := NextOf elm\<rparr>);
          q = q\<lparr>tqe_next := (tqe_next q)(listelm := Some elm)\<rparr>
      in q\<lparr>tqe_prev := (tqe_prev q)(elm := NextOf listelm)\<rparr>)"

definition TAILQ_INSERT_BEFORE :: "tail_q \<Rightarrow> nat \<Rightarrow> nat \<Rightarrow> tail_q outcome" where
  "TAILQ_INSERT_BEFORE q listelm elm =
     (let q = q\<lparr>tqe_prev := (tqe_prev q)(elm := tqe_prev q listelm)\<rparr>;
          q = q\<lparr>tqe_next := (tqe_next q)(elm := Some listelm)\<rparr> in
      andThen (tqe_store q (tqe_prev q listelm) (Some elm)) (\<lambda>q.
        Ret (q\<lparr>tqe_prev := (tqe_prev q)(listelm := NextOf elm)\<rparr>)))"

definition TAILQ_REMOVE :: "tail_q \<Rightarrow> nat \<Rightarrow> tail_q outcome" where
  "TAILQ_REMOVE q elm =
     (let q = (case tqe_next q elm of
                 Some n \<Rightarrow> q\<lparr>tqe_prev := (tqe_prev q)(n := tqe_prev q elm)\<rparr>
               | None \<Rightarrow> q\<lparr>tqh_last := tqe_prev q elm\<rparr>)
      in tqe_store q (tqe_prev q elm) (tqe_next q elm))"

text \<open>\<open>TAILQ_LAST\<close> and \<open>TAILQ_PREV\<close> read the address of a \<open>tqe_next\<close> as that of a head: behind it in
  memory lies the \<open>tqe_prev\<close> of the same element, where the head has its \<open>tqh_last\<close>.\<close>

fun tqh_last_at :: "tail_q \<Rightarrow> ref \<Rightarrow> ref" where
  "tqh_last_at q NullRef = NullRef"
| "tqh_last_at q HeadRef = tqh_last q"
| "tqh_last_at q (NextOf e) = tqe_prev q e"

definition TAILQ_LAST :: "tail_q \<Rightarrow> nat option" where
  "TAILQ_LAST q = tqe_load q (tqh_last_at q (tqh_last q))"

definition TAILQ_PREV :: "tail_q \<Rightarrow> nat \<Rightarrow> nat option" where
  "TAILQ_PREV q elm = tqe_load q (tqh_last_at q (tqe_prev q elm))"

section \<open>Doubly linked segments\<close>

text \<open>\<open>seg ld pv r xs\<close>: starting at the pointer at \<open>r\<close>, the elements are \<open>xs\<close>, each with the address of the
  pointer that leads to it. \<open>last_ref r xs\<close> is the address of the pointer behind them.\<close>

fun seg :: "(ref \<Rightarrow> nat option) \<Rightarrow> (nat \<Rightarrow> ref) \<Rightarrow> ref \<Rightarrow> nat list \<Rightarrow> bool" where
  "seg ld pv r [] \<longleftrightarrow> True"
| "seg ld pv r (x # xs) \<longleftrightarrow> ld r = Some x \<and> pv x = r \<and> seg ld pv (NextOf x) xs"

definition last_ref :: "ref \<Rightarrow> nat list \<Rightarrow> ref" where
  "last_ref r xs = (if xs = [] then r else NextOf (last xs))"

definition linked :: "(ref \<Rightarrow> nat option) \<Rightarrow> (nat \<Rightarrow> ref) \<Rightarrow> nat list \<Rightarrow> bool" where
  "linked ld pv xs \<longleftrightarrow> distinct xs \<and> seg ld pv HeadRef xs \<and> ld (last_ref HeadRef xs) = None"

lemma last_ref_simps [simp]:
  "last_ref r [] = r" "last_ref r (x # xs) = last_ref (NextOf x) xs"
  "last_ref r (xs @ [x]) = NextOf x" "last_ref r (xs @ x # ys) = last_ref (NextOf x) ys"
  by (simp_all add: last_ref_def)

lemma last_ref_cases: "last_ref r xs = r \<and> xs = [] \<or> (\<exists>x\<in>set xs. last_ref r xs = NextOf x)"
  by (auto simp: last_ref_def)

lemma seg_append [simp]: "seg ld pv r (xs @ ys) \<longleftrightarrow> seg ld pv r xs \<and> seg ld pv (last_ref r xs) ys"
  by (induction xs arbitrary: r) auto

lemma seg_cong:
  "xs = [] \<or> ld' r = ld r \<Longrightarrow> (\<And>x. x \<in> set (butlast xs) \<Longrightarrow> ld' (NextOf x) = ld (NextOf x)) \<Longrightarrow>
   (\<And>x. x \<in> set xs \<Longrightarrow> pv' x = pv x) \<Longrightarrow> seg ld' pv' r xs \<longleftrightarrow> seg ld pv r xs"
proof (induction xs arbitrary: r)
  case (Cons x xs)
  have "seg ld' pv' (NextOf x) xs \<longleftrightarrow> seg ld pv (NextOf x) xs"
    by (cases xs, simp, rule Cons.IH) (use Cons.prems in simp_all)
  then show ?case using Cons.prems by simp
qed simp

lemma not_in_butlast: "distinct xs \<Longrightarrow> x \<in> set (butlast xs) \<Longrightarrow> x \<noteq> last xs"
  by (induction xs) (auto split: if_splits)

text \<open>The three changes the macros make to a linked list: a new element between two neighbours (the
  pointer that led to the right one is at \<open>last_ref HeadRef xs\<close>), and an element taken out.\<close>

lemma linked_insert:
  assumes l: "linked ld pv (xs @ ys)" and e: "e \<notin> set (xs @ ys)"
    and ld': "\<And>r. ld' r = (if r = NextOf e then ld (last_ref HeadRef xs)
                else if r = last_ref HeadRef xs then Some e else ld r)"
    and pv': "\<And>x. pv' x = (if x = e then last_ref HeadRef xs
                else if ys \<noteq> [] \<and> x = hd ys then NextOf e else pv x)"
  shows "linked ld' pv' (xs @ e # ys)"
proof -
  have d: "distinct xs" "distinct ys" "set xs \<inter> set ys = {}" "e \<notin> set xs" "e \<notin> set ys"
    using l e by (auto simp: linked_def)
  have refs: "last_ref HeadRef xs \<noteq> NextOf y" if "y \<notin> set xs" for y
    using that last_ref_cases [of HeadRef xs] by auto
  have s: "seg ld pv HeadRef xs" "seg ld pv (last_ref HeadRef xs) ys"
    and stop: "ld (last_ref (last_ref HeadRef xs) ys) = None"
    using l by (auto simp: linked_def last_ref_def)
  have "seg ld' pv' HeadRef xs"
  proof (subst seg_cong [where ld = ld and pv = pv])
    show "xs = [] \<or> ld' HeadRef = ld HeadRef" by (auto simp: ld' last_ref_def)
    show "ld' (NextOf x) = ld (NextOf x)" if "x \<in> set (butlast xs)" for x
      using that d not_in_butlast [OF d(1) that] by (auto simp: ld' last_ref_def dest: in_set_butlastD)
    show "pv' x = pv x" if "x \<in> set xs" for x using that d by (cases ys) (auto simp: pv')
  qed (rule s)
  moreover have "seg ld' pv' (NextOf e) ys \<and> ld' (last_ref (NextOf e) ys) = None"
  proof (cases ys)
    case Nil
    then show ?thesis using stop by (simp add: ld')
  next
    case (Cons y zs)
    have "seg ld' pv' (NextOf y) zs \<longleftrightarrow> seg ld pv (NextOf y) zs"
    proof (rule seg_cong)
      show "ld' (NextOf x) = ld (NextOf x)" if "x \<in> set (butlast zs)" for x
      proof -
        have "x \<noteq> e" "x \<notin> set xs" using that d Cons by (auto dest: in_set_butlastD)
        then show ?thesis using refs [of x] by (auto simp: ld')
      qed
    qed (use d Cons refs [of y] in \<open>auto simp: ld' pv'\<close>)
    moreover have "last_ref (NextOf y) zs = NextOf (last ys)" using Cons by (simp add: last_ref_def)
    moreover have "last ys \<in> set ys" using Cons by auto
    then have "last ys \<notin> set xs" "last ys \<noteq> e" using d by blast+
    moreover have "y \<noteq> e" using d Cons by auto
    ultimately show ?thesis using Cons s(2) stop refs [of "last ys"] by (simp add: ld' pv')
  qed
  moreover have "ld' (last_ref HeadRef xs) = Some e" using refs [OF d(4)] by (simp add: ld')
  ultimately show ?thesis using d by (simp add: linked_def pv')
qed

lemma linked_remove:
  assumes l: "linked ld pv (xs @ e # ys)"
    and ld': "\<And>r. r \<noteq> NextOf e \<Longrightarrow> ld' r = (if r = last_ref HeadRef xs then ld (NextOf e) else ld r)"
    and pv': "\<And>x. x \<noteq> e \<Longrightarrow> pv' x = (if ys \<noteq> [] \<and> x = hd ys then last_ref HeadRef xs else pv x)"
  shows "linked ld' pv' (xs @ ys)"
proof -
  have d: "distinct xs" "distinct ys" "set xs \<inter> set ys = {}" "e \<notin> set xs" "e \<notin> set ys"
    using l by (auto simp: linked_def)
  have refs: "last_ref HeadRef xs \<noteq> NextOf y" if "y \<notin> set xs" for y
    using that last_ref_cases [of HeadRef xs] by auto
  have s: "seg ld pv HeadRef xs" "seg ld pv (NextOf e) ys"
    and stop: "ld (last_ref (NextOf e) ys) = None"
    using l by (auto simp: linked_def)
  have "seg ld' pv' HeadRef xs"
  proof (subst seg_cong [where ld = ld and pv = pv])
    show "xs = [] \<or> ld' HeadRef = ld HeadRef" by (auto simp: ld' last_ref_def)
    show "ld' (NextOf x) = ld (NextOf x)" if "x \<in> set (butlast xs)" for x
    proof -
      have "x \<noteq> e" "NextOf x \<noteq> last_ref HeadRef xs"
        using d that not_in_butlast [OF d(1) that] by (auto simp: last_ref_def dest: in_set_butlastD)
      then show ?thesis by (simp add: ld')
    qed
    show "pv' x = pv x" if "x \<in> set xs" for x
    proof -
      have "x \<noteq> e" "\<not> (ys \<noteq> [] \<and> x = hd ys)" using d that by (auto dest: hd_in_set)
      then show ?thesis unfolding pv' [OF \<open>x \<noteq> e\<close>] by (simp only: if_False)
    qed
  qed (rule s)
  moreover have "seg ld' pv' (last_ref HeadRef xs) ys \<and> ld' (last_ref (last_ref HeadRef xs) ys) = None"
  proof (cases ys)
    case Nil
    then show ?thesis using stop refs [OF d(4)] by (simp add: ld')
  next
    case (Cons y zs)
    have "seg ld' pv' (NextOf y) zs \<longleftrightarrow> seg ld pv (NextOf y) zs"
    proof (rule seg_cong)
      show "ld' (NextOf x) = ld (NextOf x)" if "x \<in> set (butlast zs)" for x
      proof -
        have "x \<in> set ys" "x \<noteq> e" "x \<notin> set xs" using that d Cons by (auto dest: in_set_butlastD)
        then show ?thesis using refs [of x] by (auto simp: ld')
      qed
      show "pv' x = pv x" if "x \<in> set zs" for x
      proof -
        have "x \<noteq> e" "x \<noteq> y" using that d Cons by auto
        then show ?thesis using Cons by (simp add: pv')
      qed
    qed (use d Cons refs [of y] in \<open>auto simp: ld'\<close>)
    moreover have "last_ref (NextOf y) zs = NextOf (last ys)" using Cons by (simp add: last_ref_def)
    moreover have "last ys \<in> set ys" using Cons by auto
    then have "last ys \<notin> set xs" "last ys \<noteq> e" using d by blast+
    moreover have "y \<noteq> e" using d Cons by auto
    ultimately show ?thesis using Cons s(2) stop refs [of "last ys"] refs [OF d(4)] by (simp add: ld' pv')
  qed
  ultimately show ?thesis using d by (auto simp: linked_def last_ref_def last_append split: if_splits)
qed

lemma linked_at:
  assumes "linked ld pv (xs @ e # ys)"
  shows "pv e = last_ref HeadRef xs" and "ld (last_ref HeadRef xs) = Some e"
    and "ld (NextOf e) = (if ys = [] then None else Some (hd ys))"
  using assms by (cases ys; simp add: linked_def)+

lemma linked_first: "linked ld pv xs \<Longrightarrow> ld HeadRef = (if xs = [] then None else Some (hd xs))"
  by (cases xs) (auto simp: linked_def)

section \<open>The contracts\<close>

text \<open>What a client may rely on: \<open>rep q xs\<close> says that the queue \<open>q\<close> holds the elements \<open>xs\<close>, in this
  order. A tail queue can also be extended at its end.\<close>

locale intrusive_list =
  fixes rep :: "'q \<Rightarrow> nat list \<Rightarrow> bool"
    and init :: "'q \<Rightarrow> 'q"
    and first :: "'q \<Rightarrow> nat option"
    and insert_head :: "'q \<Rightarrow> nat \<Rightarrow> 'q"
    and remove :: "'q \<Rightarrow> nat \<Rightarrow> 'q outcome"
  assumes rep_distinct: "rep q xs \<Longrightarrow> distinct xs"
    and rep_init: "rep (init q) []"
    and first_rep: "rep q xs \<Longrightarrow> first q = (if xs = [] then None else Some (hd xs))"
    and insert_head_rep: "rep q xs \<Longrightarrow> e \<notin> set xs \<Longrightarrow> rep (insert_head q e) (e # xs)"
    and remove_rep: "rep q xs \<Longrightarrow> e \<in> set xs \<Longrightarrow> \<exists>q'. remove q e = Ret q' \<and> rep q' (remove1 e xs)"
begin

lemma insert_heads:
  "rep q xs \<Longrightarrow> distinct es \<Longrightarrow> set es \<inter> set xs = {} \<Longrightarrow> rep (foldl insert_head q es) (rev es @ xs)"
  by (induction es arbitrary: q xs) (auto simp: insert_head_rep)

lemma remove_first:
  assumes "rep q (x # xs)"
  obtains q' where "first q = Some x" "remove q x = Ret q'" "rep q' xs"
  using remove_rep [OF assms, of x] first_rep [OF assms] by auto

lemma remove_insert:
  assumes "rep q xs" and "e \<in> set xs"
  obtains q' where "remove q e = Ret q'" "rep (insert_head q' e) (e # remove1 e xs)"
proof -
  obtain q' where "remove q e = Ret q'" "rep q' (remove1 e xs)" using remove_rep assms by blast
  moreover have "e \<notin> set (remove1 e xs)" using rep_distinct [OF assms(1)] by simp
  ultimately show thesis using that insert_head_rep by blast
qed

end

locale intrusive_tailq = intrusive_list rep init first insert_head remove
  for rep :: "'q \<Rightarrow> nat list \<Rightarrow> bool" and init first insert_head remove +
  fixes insert_tail :: "'q \<Rightarrow> nat \<Rightarrow> 'q outcome"
  assumes insert_tail_rep: "rep q xs \<Longrightarrow> e \<notin> set xs \<Longrightarrow>
    \<exists>q'. insert_tail q e = Ret q' \<and> rep q' (xs @ [e])"
begin

text \<open>Taking an element out and putting it back at the end.\<close>

lemma move_to_tail:
  assumes "rep q xs" and "e \<in> set xs"
  obtains q' q'' where "remove q e = Ret q'" "insert_tail q' e = Ret q''" "rep q'' (remove1 e xs @ [e])"
proof -
  obtain q' where q': "remove q e = Ret q'" "rep q' (remove1 e xs)" using remove_rep assms by blast
  moreover have "e \<notin> set (remove1 e xs)" using rep_distinct [OF assms(1)] by simp
  ultimately show thesis using that insert_tail_rep by blast
qed

end

section \<open>The macros meet the contracts\<close>

definition list_rep :: "list_q \<Rightarrow> nat list \<Rightarrow> bool" where
  "list_rep q xs \<longleftrightarrow> linked (le_load q) (le_prev q) xs"

definition tailq_rep :: "tail_q \<Rightarrow> nat list \<Rightarrow> bool" where
  "tailq_rep q xs \<longleftrightarrow> linked (tqe_load q) (tqe_prev q) xs \<and> tqh_last q = last_ref HeadRef xs"

lemma le_load_update [simp]:
  "le_load (q\<lparr>lh_first := v\<rparr>) r = (if r = HeadRef then v else le_load q r)"
  "le_load (q\<lparr>le_next := (le_next q)(e := v)\<rparr>) r = (if r = NextOf e then v else le_load q r)"
  "le_load (q\<lparr>le_prev := p\<rparr>) r = le_load q r"
  "le_load (q\<lparr>le_prev := p, le_next := (le_next q)(e := v)\<rparr>) r = (if r = NextOf e then v else le_load q r)"
  by (cases r; simp)+

lemma tqe_load_update [simp]:
  "tqe_load (q\<lparr>tqh_first := v\<rparr>) r = (if r = HeadRef then v else tqe_load q r)"
  "tqe_load (q\<lparr>tqe_next := (tqe_next q)(e := v)\<rparr>) r = (if r = NextOf e then v else tqe_load q r)"
  "tqe_load (q\<lparr>tqe_prev := p, tqe_next := (tqe_next q)(e := v)\<rparr>) r = (if r = NextOf e then v else tqe_load q r)"
  "tqe_load (q\<lparr>tqe_next := (tqe_next q)(e := v), tqe_prev := p\<rparr>) r = (if r = NextOf e then v else tqe_load q r)"
  "tqe_load (q\<lparr>tqe_prev := p\<rparr>) r = tqe_load q r" "tqe_load (q\<lparr>tqh_last := l\<rparr>) r = tqe_load q r"
  by (cases r; simp)+

lemma le_store_ref:
  assumes "r \<noteq> NullRef"
  obtains q' where "le_store q r v = Ret q'" "le_load q' = (le_load q)(r := v)" "le_prev q' = le_prev q"
  using assms that by (cases r) (auto simp: fun_eq_iff)

lemma tqe_store_ref:
  assumes "r \<noteq> NullRef"
  obtains q' where "tqe_store q r v = Ret q'" "tqe_load q' = (tqe_load q)(r := v)"
    "tqe_prev q' = tqe_prev q" "tqh_last q' = tqh_last q"
  using assms that by (cases r) (auto simp: fun_eq_iff)

lemma last_ref_not_null [simp]: "last_ref HeadRef xs \<noteq> NullRef"
  by (simp add: last_ref_def)

lemma LIST_INSERT_HEAD_rep:
  assumes "list_rep q xs" and "e \<notin> set xs"
  shows "list_rep (LIST_INSERT_HEAD q e) (e # xs)"
proof -
  have "linked (le_load q) (le_prev q) ([] @ xs)" using assms(1) by (simp add: list_rep_def)
  moreover have "lh_first q = (if xs = [] then None else Some (hd xs))"
    using linked_first [OF assms(1) [unfolded list_rep_def]] by simp
  ultimately have "linked (le_load (LIST_INSERT_HEAD q e)) (le_prev (LIST_INSERT_HEAD q e)) ([] @ e # xs)"
    using assms(2)
    by (elim linked_insert) (auto simp: LIST_INSERT_HEAD_def Let_def)
  then show ?thesis by (simp add: list_rep_def)
qed

lemma LIST_REMOVE_rep:
  assumes "list_rep q (xs @ e # ys)"
  shows "\<exists>q'. LIST_REMOVE q e = Ret q' \<and> list_rep q' (xs @ ys)"
proof -
  have l: "linked (le_load q) (le_prev q) (xs @ e # ys)" using assms by (simp add: list_rep_def)
  note at = linked_at [OF l]
  have nx: "le_next q e = (if ys = [] then None else Some (hd ys))" using at(3) by simp
  define q1 where "q1 = (case le_next q e of
    Some n \<Rightarrow> q\<lparr>le_prev := (le_prev q)(n := le_prev q e)\<rparr> | None \<Rightarrow> q)"
  have q1: "le_load q1 = le_load q" "le_next q1 = le_next q" for r
    by (auto simp: q1_def fun_eq_iff split: option.splits)
  have pv: "x \<noteq> e \<Longrightarrow> le_prev q1 x = (if ys \<noteq> [] \<and> x = hd ys then last_ref HeadRef xs else le_prev q x)" for x
    using nx at(1) by (auto simp: q1_def)
  have "le_prev q1 e = last_ref HeadRef xs"
    using nx at(1) l by (auto simp: q1_def linked_def)
  then obtain q' where "LIST_REMOVE q e = Ret q'"
    and q': "le_load q' = (le_load q)(last_ref HeadRef xs := le_next q e)" "le_prev q' = le_prev q1"
    using le_store_ref [of "last_ref HeadRef xs" q1 "le_next q e"] q1
    by (auto simp: LIST_REMOVE_def q1_def [symmetric])
  moreover have "linked (le_load q') (le_prev q') (xs @ ys)"
    by (rule linked_remove [OF l]) (use q' pv in auto)
  ultimately show ?thesis by (simp add: list_rep_def)
qed

lemma LIST_INSERT_AFTER_rep:
  assumes "list_rep q (xs @ a # ys)" and e: "e \<notin> set (xs @ a # ys)"
  shows "list_rep (LIST_INSERT_AFTER q a e) (xs @ a # e # ys)"
proof -
  have l: "linked (le_load q) (le_prev q) ((xs @ [a]) @ ys)" using assms by (simp add: list_rep_def)
  have nx: "le_next q a = (if ys = [] then None else Some (hd ys))"
    using linked_at(3) [of "le_load q" "le_prev q" xs a ys] l by simp
  have "hd ys \<noteq> e" if "ys \<noteq> []" using that e by auto
  then have "linked (le_load (LIST_INSERT_AFTER q a e)) (le_prev (LIST_INSERT_AFTER q a e)) ((xs @ [a]) @ e # ys)"
    using e nx by (intro linked_insert [OF l]) (auto simp: LIST_INSERT_AFTER_def Let_def)
  then show ?thesis by (simp add: list_rep_def)
qed

lemma LIST_INSERT_BEFORE_rep:
  assumes "list_rep q (xs @ a # ys)" and e: "e \<notin> set (xs @ a # ys)"
  shows "\<exists>q'. LIST_INSERT_BEFORE q a e = Ret q' \<and> list_rep q' (xs @ e # a # ys)"
proof -
  have l: "linked (le_load q) (le_prev q) (xs @ a # ys)" using assms by (simp add: list_rep_def)
  note at = linked_at [OF l]
  let ?q = "q\<lparr>le_prev := (le_prev q)(e := le_prev q a), le_next := (le_next q)(e := Some a)\<rparr>"
  obtain q1 where "le_store ?q (last_ref HeadRef xs) (Some e) = Ret q1"
    and q1: "le_load q1 = (le_load ?q)(last_ref HeadRef xs := Some e)" "le_prev q1 = le_prev ?q"
    using le_store_ref [of "last_ref HeadRef xs" ?q "Some e"] by auto
  moreover have "a \<noteq> e" using e by auto
  ultimately have res: "LIST_INSERT_BEFORE q a e = Ret (q1\<lparr>le_prev := (le_prev q1)(a := NextOf e)\<rparr>)"
    using at(1) by (simp add: LIST_INSERT_BEFORE_def Let_def)
  have "last_ref HeadRef xs \<noteq> NextOf e" using e last_ref_cases [of HeadRef xs] by auto
  then have "linked (le_load (q1\<lparr>le_prev := (le_prev q1)(a := NextOf e)\<rparr>)) ((le_prev q1)(a := NextOf e)) (xs @ e # a # ys)"
    using q1 at \<open>a \<noteq> e\<close> by (intro linked_insert [OF l e]) (auto simp: fun_eq_iff)
  then show ?thesis using res by (simp add: list_rep_def)
qed

interpretation lists: intrusive_list list_rep LIST_INIT LIST_FIRST LIST_INSERT_HEAD LIST_REMOVE
proof unfold_locales
  show "distinct xs" if "list_rep q xs" for q xs using that by (simp add: list_rep_def linked_def)
  show "list_rep (LIST_INIT q) []" for q by (simp add: list_rep_def linked_def LIST_INIT_def)
  show "LIST_FIRST q = (if xs = [] then None else Some (hd xs))" if "list_rep q xs" for q xs
    using linked_first [OF that [unfolded list_rep_def]] by (simp add: LIST_FIRST_def)
  show "list_rep (LIST_INSERT_HEAD q e) (e # xs)" if "list_rep q xs" "e \<notin> set xs" for q xs e
    using that by (rule LIST_INSERT_HEAD_rep)
  show "\<exists>q'. LIST_REMOVE q e = Ret q' \<and> list_rep q' (remove1 e xs)" if rep: "list_rep q xs" and e: "e \<in> set xs" for q xs e
  proof -
    obtain us vs where "xs = us @ e # vs" "e \<notin> set us" using split_list_first [OF e] by blast
    then show ?thesis using LIST_REMOVE_rep rep by (auto simp: remove1_append)
  qed
qed

lemma TAILQ_INSERT_HEAD_rep:
  assumes "tailq_rep q xs" and e: "e \<notin> set xs"
  shows "tailq_rep (TAILQ_INSERT_HEAD q e) (e # xs)"
proof -
  have l: "linked (tqe_load q) (tqe_prev q) ([] @ xs)" and last: "tqh_last q = last_ref HeadRef xs"
    using assms(1) by (simp_all add: tailq_rep_def)
  have first: "tqh_first q = (if xs = [] then None else Some (hd xs))"
    using linked_first [OF l] by simp
  then have "linked (tqe_load (TAILQ_INSERT_HEAD q e)) (tqe_prev (TAILQ_INSERT_HEAD q e)) ([] @ e # xs)"
    using e by (intro linked_insert [OF l]) (auto simp: TAILQ_INSERT_HEAD_def Let_def)
  moreover have "tqh_last (TAILQ_INSERT_HEAD q e) = last_ref HeadRef (e # xs)"
    using first last by (auto simp: TAILQ_INSERT_HEAD_def Let_def last_ref_def)
  ultimately show ?thesis by (simp add: tailq_rep_def)
qed

lemma TAILQ_INSERT_TAIL_rep:
  assumes "tailq_rep q xs" and e: "e \<notin> set xs"
  shows "\<exists>q'. TAILQ_INSERT_TAIL q e = Ret q' \<and> tailq_rep q' (xs @ [e])"
proof -
  have l: "linked (tqe_load q) (tqe_prev q) (xs @ [])" and last: "tqh_last q = last_ref HeadRef xs"
    using assms(1) by (simp_all add: tailq_rep_def)
  let ?q = "q\<lparr>tqe_next := (tqe_next q)(e := None), tqe_prev := (tqe_prev q)(e := tqh_last q)\<rparr>"
  obtain q1 where "tqe_store ?q (last_ref HeadRef xs) (Some e) = Ret q1"
    and q1: "tqe_load q1 = (tqe_load ?q)(last_ref HeadRef xs := Some e)" "tqe_prev q1 = tqe_prev ?q"
    using tqe_store_ref [of "last_ref HeadRef xs" ?q "Some e"] by auto
  then have res: "TAILQ_INSERT_TAIL q e = Ret (q1\<lparr>tqh_last := NextOf e\<rparr>)"
    using last by (simp add: TAILQ_INSERT_TAIL_def Let_def)
  have "last_ref HeadRef xs \<noteq> NextOf e" using e last_ref_cases [of HeadRef xs] by auto
  then have "linked (tqe_load (q1\<lparr>tqh_last := NextOf e\<rparr>)) (tqe_prev q1) (xs @ [e])"
    using q1 l e last by (intro linked_insert [OF l]) (auto simp: linked_def fun_eq_iff)
  then show ?thesis using res by (simp add: tailq_rep_def)
qed

lemma TAILQ_REMOVE_rep:
  assumes "tailq_rep q (xs @ e # ys)"
  shows "\<exists>q'. TAILQ_REMOVE q e = Ret q' \<and> tailq_rep q' (xs @ ys)"
proof -
  have l: "linked (tqe_load q) (tqe_prev q) (xs @ e # ys)"
    and last: "tqh_last q = last_ref (NextOf e) ys" using assms by (simp_all add: tailq_rep_def)
  note at = linked_at [OF l]
  have nx: "tqe_next q e = (if ys = [] then None else Some (hd ys))" using at(3) by simp
  define q1 where "q1 = (case tqe_next q e of
    Some n \<Rightarrow> q\<lparr>tqe_prev := (tqe_prev q)(n := tqe_prev q e)\<rparr> | None \<Rightarrow> q\<lparr>tqh_last := tqe_prev q e\<rparr>)"
  have q1: "tqe_load q1 = tqe_load q" "tqe_next q1 = tqe_next q"
    by (auto simp: q1_def fun_eq_iff split: option.splits)
  have pv: "x \<noteq> e \<Longrightarrow> tqe_prev q1 x = (if ys \<noteq> [] \<and> x = hd ys then last_ref HeadRef xs else tqe_prev q x)" for x
    using nx at(1) by (auto simp: q1_def)
  have "tqe_prev q1 e = last_ref HeadRef xs"
    using nx at(1) l by (auto simp: q1_def linked_def)
  then obtain q' where "TAILQ_REMOVE q e = Ret q'"
    and q': "tqe_load q' = (tqe_load q)(last_ref HeadRef xs := tqe_next q e)" "tqe_prev q' = tqe_prev q1"
      "tqh_last q' = tqh_last q1"
    using tqe_store_ref [of "last_ref HeadRef xs" q1 "tqe_next q e"] q1
    by (auto simp: TAILQ_REMOVE_def q1_def [symmetric])
  moreover have "linked (tqe_load q') (tqe_prev q') (xs @ ys)"
    by (rule linked_remove [OF l]) (use q' pv in auto)
  moreover have "tqh_last q1 = last_ref HeadRef (xs @ ys)"
    using nx at(1) last by (auto simp: q1_def last_ref_def last_append)
  ultimately show ?thesis by (simp add: tailq_rep_def)
qed

lemma TAILQ_INSERT_AFTER_rep:
  assumes "tailq_rep q (xs @ a # ys)" and e: "e \<notin> set (xs @ a # ys)"
  shows "tailq_rep (TAILQ_INSERT_AFTER q a e) (xs @ a # e # ys)"
proof -
  have l: "linked (tqe_load q) (tqe_prev q) ((xs @ [a]) @ ys)" and last: "tqh_last q = last_ref (NextOf a) ys"
    using assms by (simp_all add: tailq_rep_def)
  have nx: "tqe_next q a = (if ys = [] then None else Some (hd ys))"
    using linked_at(3) [of "tqe_load q" "tqe_prev q" xs a ys] l by simp
  have "hd ys \<noteq> e" if "ys \<noteq> []" using that e by auto
  then have "linked (tqe_load (TAILQ_INSERT_AFTER q a e)) (tqe_prev (TAILQ_INSERT_AFTER q a e))
      ((xs @ [a]) @ e # ys)"
    using e nx by (intro linked_insert [OF l]) (auto simp: TAILQ_INSERT_AFTER_def Let_def)
  moreover have "tqh_last (TAILQ_INSERT_AFTER q a e) = last_ref (NextOf e) ys"
    using nx last by (auto simp: TAILQ_INSERT_AFTER_def Let_def last_ref_def)
  ultimately show ?thesis by (simp add: tailq_rep_def)
qed

lemma TAILQ_INSERT_BEFORE_rep:
  assumes "tailq_rep q (xs @ a # ys)" and e: "e \<notin> set (xs @ a # ys)"
  shows "\<exists>q'. TAILQ_INSERT_BEFORE q a e = Ret q' \<and> tailq_rep q' (xs @ e # a # ys)"
proof -
  have l: "linked (tqe_load q) (tqe_prev q) (xs @ a # ys)" and last: "tqh_last q = last_ref (NextOf a) ys"
    using assms by (simp_all add: tailq_rep_def)
  note at = linked_at [OF l]
  let ?q = "q\<lparr>tqe_prev := (tqe_prev q)(e := tqe_prev q a), tqe_next := (tqe_next q)(e := Some a)\<rparr>"
  obtain q1 where "tqe_store ?q (last_ref HeadRef xs) (Some e) = Ret q1"
    and q1: "tqe_load q1 = (tqe_load ?q)(last_ref HeadRef xs := Some e)" "tqe_prev q1 = tqe_prev ?q"
      "tqh_last q1 = tqh_last q"
    using tqe_store_ref [of "last_ref HeadRef xs" ?q "Some e"] by auto
  moreover have "a \<noteq> e" using e by auto
  ultimately have res: "TAILQ_INSERT_BEFORE q a e = Ret (q1\<lparr>tqe_prev := (tqe_prev q1)(a := NextOf e)\<rparr>)"
    using at(1) by (simp add: TAILQ_INSERT_BEFORE_def Let_def)
  have "last_ref HeadRef xs \<noteq> NextOf e" using e last_ref_cases [of HeadRef xs] by auto
  then have "linked (tqe_load (q1\<lparr>tqe_prev := (tqe_prev q1)(a := NextOf e)\<rparr>)) ((tqe_prev q1)(a := NextOf e))
      (xs @ e # a # ys)"
    using q1 at \<open>a \<noteq> e\<close> by (intro linked_insert [OF l e]) (auto simp: fun_eq_iff)
  then show ?thesis using res q1(3) last by (simp add: tailq_rep_def)
qed

text \<open>Reading an element's links as a head is how the last element and the one before are found.\<close>

lemma TAILQ_LAST_rep: "tailq_rep q xs \<Longrightarrow> TAILQ_LAST q = (if xs = [] then None else Some (last xs))"
  by (cases xs rule: rev_cases)
    (auto simp: TAILQ_LAST_def tailq_rep_def linked_def)

lemma TAILQ_PREV_rep:
  "tailq_rep q (xs @ e # ys) \<Longrightarrow> TAILQ_PREV q e = (if xs = [] then None else Some (last xs))"
  by (cases xs rule: rev_cases)
    (auto simp: TAILQ_PREV_def tailq_rep_def linked_def last_ref_def)

interpretation tailq: intrusive_tailq tailq_rep TAILQ_INIT TAILQ_FIRST TAILQ_INSERT_HEAD TAILQ_REMOVE TAILQ_INSERT_TAIL
proof unfold_locales
  show "distinct xs" if "tailq_rep q xs" for q xs using that by (simp add: tailq_rep_def linked_def)
  show "tailq_rep (TAILQ_INIT q) []" for q by (simp add: tailq_rep_def linked_def TAILQ_INIT_def)
  show "TAILQ_FIRST q = (if xs = [] then None else Some (hd xs))" if "tailq_rep q xs" for q xs
    using that linked_first by (auto simp: TAILQ_FIRST_def tailq_rep_def dest: linked_first)
  show "tailq_rep (TAILQ_INSERT_HEAD q e) (e # xs)" if "tailq_rep q xs" "e \<notin> set xs" for q xs e
    using that by (rule TAILQ_INSERT_HEAD_rep)
  show "\<exists>q'. TAILQ_REMOVE q e = Ret q' \<and> tailq_rep q' (remove1 e xs)" if rep: "tailq_rep q xs" and e: "e \<in> set xs" for q xs e
  proof -
    obtain us vs where "xs = us @ e # vs" "e \<notin> set us" using split_list_first [OF e] by blast
    then show ?thesis using TAILQ_REMOVE_rep rep by (auto simp: remove1_append)
  qed
  show "\<exists>q'. TAILQ_INSERT_TAIL q e = Ret q' \<and> tailq_rep q' (xs @ [e])" if "tailq_rep q xs" "e \<notin> set xs" for q xs e
    using that by (rule TAILQ_INSERT_TAIL_rep)
qed

end
