(* ===== verification/QueueLoops.thy ===== *)
theory QueueLoops
  imports Queue
begin

text \<open>
  The loops of include/queue.h over a list or a tail queue, and \<open>TAILQ_CONCAT\<close>. A loop threads a state through
  its body, which leaves the links alone; on links that form a cycle it does not end, and then there is no result.
\<close>

section \<open>Loops\<close>

partial_function (option) foreach_link :: "(nat \<Rightarrow> nat option) \<Rightarrow> (nat \<Rightarrow> 's \<Rightarrow> 's) \<Rightarrow> nat option \<Rightarrow> 's \<Rightarrow> 's option" where
  "foreach_link step body var s =
     (case var of None \<Rightarrow> Some s | Some e \<Rightarrow> foreach_link step body (step e) (body e s))"

definition LIST_FOREACH :: "list_q \<Rightarrow> (nat \<Rightarrow> 's \<Rightarrow> 's) \<Rightarrow> 's \<Rightarrow> 's option" where
  "LIST_FOREACH q body s = foreach_link (LIST_NEXT q) body (LIST_FIRST q) s"

definition TAILQ_FOREACH :: "tail_q \<Rightarrow> (nat \<Rightarrow> 's \<Rightarrow> 's) \<Rightarrow> 's \<Rightarrow> 's option" where
  "TAILQ_FOREACH q body s = foreach_link (tqe_next q) body (tqh_first q) s"

definition TAILQ_FOREACH_REVERSE :: "tail_q \<Rightarrow> (nat \<Rightarrow> 's \<Rightarrow> 's) \<Rightarrow> 's \<Rightarrow> 's option" where
  "TAILQ_FOREACH_REVERSE q body s =
     foreach_link (\<lambda>e. tqe_load q (tqh_last_at q (tqe_prev q e))) body (tqe_load q (tqh_last_at q (tqh_last q))) s"

lemma foreach_link_chain:
  "(\<And>i. i < length xs \<Longrightarrow> step (xs ! i) = (if Suc i < length xs then Some (xs ! Suc i) else None)) \<Longrightarrow>
   foreach_link step body (case xs of [] \<Rightarrow> None | x # _ \<Rightarrow> Some x) s = Some (fold body xs s)"
proof (induction xs arbitrary: s)
  case Nil
  then show ?case by (simp add: foreach_link.simps)
next
  case (Cons x xs)
  have "step (xs ! i) = (if Suc i < length xs then Some (xs ! Suc i) else None)" if "i < length xs" for i
    using Cons.prems [of "Suc i"] that by simp
  note IH = Cons.IH [OF this]
  have "step x = (case xs of [] \<Rightarrow> None | y # _ \<Rightarrow> Some y)"
    using Cons.prems [of 0] by (cases xs) simp_all
  then show ?case using IH by (simp add: foreach_link.simps [of step body "Some x"])
qed

lemma linked_step:
  assumes "linked ld pv xs" and "i < length xs"
  shows "ld (NextOf (xs ! i)) = (if Suc i < length xs then Some (xs ! Suc i) else None)"
proof -
  have "linked ld pv (take i xs @ xs ! i # drop (Suc i) xs)" using assms by (simp add: id_take_nth_drop [symmetric])
  from linked_at(3) [OF this] show ?thesis using assms(2) by (simp add: hd_drop_conv_nth)
qed

lemma LIST_FOREACH_rep:
  assumes "list_rep q xs"
  shows "LIST_FOREACH q body s = Some (fold body xs s)"
proof -
  have l: "linked (le_load q) (le_prev q) xs" using assms by (simp add: list_rep_def)
  have "LIST_FIRST q = (case xs of [] \<Rightarrow> None | x # _ \<Rightarrow> Some x)"
    using lists.first_rep [OF assms] by (simp split: list.splits)
  then show ?thesis
    using foreach_link_chain [of xs "LIST_NEXT q"] linked_step [OF l] by (simp add: LIST_FOREACH_def LIST_NEXT_def)
qed

lemma TAILQ_FOREACH_rep:
  assumes "tailq_rep q xs"
  shows "TAILQ_FOREACH q body s = Some (fold body xs s)"
proof -
  have l: "linked (tqe_load q) (tqe_prev q) xs" using assms by (simp add: tailq_rep_def)
  have "tqh_first q = (case xs of [] \<Rightarrow> None | x # _ \<Rightarrow> Some x)"
    using linked_first [OF l] by (simp split: list.splits)
  then show ?thesis
    using foreach_link_chain [of xs "tqe_next q"] linked_step [OF l] by (simp add: TAILQ_FOREACH_def)
qed

lemma TAILQ_FOREACH_REVERSE_rep:
  assumes "tailq_rep q xs"
  shows "TAILQ_FOREACH_REVERSE q body s = Some (fold body (rev xs) s)"
proof -
  have "TAILQ_PREV q (rev xs ! i) = (if Suc i < length (rev xs) then Some (rev xs ! Suc i) else None)"
    if i: "i < length (rev xs)" for i
  proof -
    let ?j = "length xs - Suc i"
    have "tailq_rep q (take ?j xs @ xs ! ?j # drop (Suc ?j) xs)"
      using assms i by (simp add: id_take_nth_drop [symmetric])
    from TAILQ_PREV_rep [OF this] show ?thesis
      using i by (auto simp: rev_nth last_conv_nth)
  qed
  moreover have "TAILQ_LAST q = (case rev xs of [] \<Rightarrow> None | x # _ \<Rightarrow> Some x)"
    using TAILQ_LAST_rep [OF assms] by (cases xs rule: rev_cases) simp_all
  ultimately show ?thesis
    using foreach_link_chain [of "rev xs" "TAILQ_PREV q"]
    unfolding TAILQ_FOREACH_REVERSE_def TAILQ_PREV_def [symmetric] TAILQ_LAST_def [symmetric] by simp
qed

section \<open>Joining two queues\<close>

text \<open>The second queue's elements lie in the same array; its head is a pair of \<open>tqh_first\<close> and \<open>tqh_last\<close>.\<close>

definition TAILQ_CONCAT :: "tail_q \<Rightarrow> nat option \<times> ref \<Rightarrow> (tail_q \<times> nat option \<times> ref) outcome" where
  "TAILQ_CONCAT head1 head2 =
     (case fst head2 of
        None \<Rightarrow> Ret (head1, head2)
      | Some e \<Rightarrow>
          andThen (tqe_store head1 (tqh_last head1) (Some e)) (\<lambda>q.
            (let q = q\<lparr>tqe_prev := (tqe_prev q)(e := tqh_last q)\<rparr>;
                 q = q\<lparr>tqh_last := snd head2\<rparr>
             in Ret (q, None, HeadRef))))"

lemma TAILQ_CONCAT_rep:
  assumes "tailq_rep q xs" and "tailq_rep (q\<lparr>tqh_first := first2, tqh_last := last2\<rparr>) ys" and "set xs \<inter> set ys = {}"
  shows "\<exists>q'. TAILQ_CONCAT q (first2, last2) = Ret (q', None, if ys = [] then last2 else HeadRef) \<and> tailq_rep q' (xs @ ys)"
proof (cases ys)
  case Nil
  then have "first2 = None" using assms(2) by (simp add: tailq_rep_def linked_def)
  then show ?thesis using assms(1) Nil by (simp add: TAILQ_CONCAT_def)
next
  case (Cons e zs)
  let ?q2 = "q\<lparr>tqh_first := first2, tqh_last := last2\<rparr>"
  have one: "linked (tqe_load q) (tqe_prev q) xs" "tqh_last q = last_ref HeadRef xs"
    using assms(1) by (simp_all add: tailq_rep_def)
  have "linked (tqe_load ?q2) (tqe_prev ?q2) ys" and end2: "tqh_last ?q2 = last_ref HeadRef ys"
    using assms(2) unfolding tailq_rep_def by blast+
  then have two: "linked (tqe_load ?q2) (tqe_prev q) (e # zs)" unfolding Cons by simp
  have first: "first2 = Some e" using two by (simp add: linked_def)
  obtain q1 where q1: "tqe_store q (last_ref HeadRef xs) (Some e) = Ret q1"
    "tqe_load q1 = (tqe_load q)(last_ref HeadRef xs := Some e)" "tqe_prev q1 = tqe_prev q" "tqh_last q1 = tqh_last q"
    using tqe_store_ref [of "last_ref HeadRef xs" q "Some e"] by auto
  let ?pv = "(tqe_prev q)(e := last_ref HeadRef xs)"
  have apart: "e \<notin> set xs" "x \<notin> set xs" if "x \<in> set zs" for x using that assms(3) Cons by auto
  have d: "distinct xs" "distinct (e # zs)" using one two by (simp_all add: linked_def)
  have load2: "tqe_load ?q2 (NextOf x) = tqe_load q (NextOf x)" for x by simp
  have refs: "last_ref HeadRef xs \<noteq> NextOf y" if "y \<notin> set xs" for y
    using that last_ref_cases [of HeadRef xs] by auto
  have "seg (tqe_load q1) ?pv HeadRef xs"
  proof (subst seg_cong [where ld = "tqe_load q" and pv = "tqe_prev q"])
    show "xs = [] \<or> tqe_load q1 HeadRef = tqe_load q HeadRef" by (auto simp: q1 last_ref_def)
    show "tqe_load q1 (NextOf x) = tqe_load q (NextOf x)" if "x \<in> set (butlast xs)" for x
      using that d not_in_butlast [OF d(1) that] by (auto simp: q1 last_ref_def dest: in_set_butlastD)
    show "?pv x = tqe_prev q x" if "x \<in> set xs" for x using that assms(3) Cons by auto
    show "seg (tqe_load q) (tqe_prev q) HeadRef xs" using one by (simp add: linked_def)
  qed
  moreover have "seg (tqe_load q1) ?pv (NextOf e) zs"
  proof (subst seg_cong [where ld = "tqe_load ?q2" and pv = "tqe_prev q"])
    have e: "e \<notin> set xs" using assms(3) Cons by auto
    show "zs = [] \<or> tqe_load q1 (NextOf e) = tqe_load ?q2 (NextOf e)" using refs [OF e] by (simp add: q1)
    show "tqe_load q1 (NextOf x) = tqe_load ?q2 (NextOf x)" if "x \<in> set (butlast zs)" for x
      using that apart(2) [of x] refs [of x] by (auto simp: q1 dest: in_set_butlastD)
    show "?pv x = tqe_prev q x" if "x \<in> set zs" for x using that d by auto
    show "seg (tqe_load ?q2) (tqe_prev q) (NextOf e) zs" using two unfolding linked_def seg.simps by blast
  qed
  moreover have "tqe_load q1 (last_ref (NextOf e) zs) = None"
  proof -
    have "last (e # zs) \<notin> set xs" using assms(3) Cons by (cases zs rule: rev_cases) auto
    then have "last_ref (NextOf e) zs \<noteq> last_ref HeadRef xs" using refs [of "last (e # zs)"]
      by (metis last_ref_def last_ref_simps(2) list.distinct(1))
    moreover have "last_ref (NextOf e) zs \<noteq> HeadRef" by (simp add: last_ref_def)
    ultimately show ?thesis using two by (simp add: linked_def q1)
  qed
  ultimately have "linked (tqe_load q1) ?pv (xs @ e # zs)"
    using d assms(3) Cons by (auto simp: linked_def q1)
  moreover have "tqe_load (q1\<lparr>tqe_prev := p, tqh_last := l\<rparr>) = tqe_load q1" for p l by (rule ext) simp
  ultimately show ?thesis
    using q1 one Cons first end2 by (simp add: TAILQ_CONCAT_def tailq_rep_def Let_def)
qed

end
