(* ===== verification/Memory.thy ===== *)
theory Memory
  imports Prelude
begin

text \<open>
  Byte-addressed memory as the hart sees it with the kernel's identity map: an address is a 64-bit
  word, every cell is a byte, and halfwords, words and doublewords are stored least significant
  byte first (RISC-V, \<open>ENDIAN := EL\<close> in include.mk). The C accesses \<open>*(uint32_t *)p\<close>,
  \<open>*(u_long *)p\<close> and the fields of the structures read from memory go through these functions.
\<close>

type_synonym mem = "u64 \<Rightarrow> u8"

fun read_le :: "mem \<Rightarrow> u64 \<Rightarrow> nat \<Rightarrow> nat" where
  "read_le m a 0 = 0"
| "read_le m a (Suc n) = unat (m a) + 256 * read_le m (a + 1) n"

fun write_le :: "mem \<Rightarrow> u64 \<Rightarrow> nat \<Rightarrow> nat \<Rightarrow> mem" where
  "write_le m a 0 v = m"
| "write_le m a (Suc n) v = write_le (m(a := word_of_nat v)) (a + 1) n (v div 256)"

definition load16 :: "mem \<Rightarrow> u64 \<Rightarrow> u16" where
  "load16 m a = word_of_nat (read_le m a 2)"

definition load32 :: "mem \<Rightarrow> u64 \<Rightarrow> u32" where
  "load32 m a = word_of_nat (read_le m a 4)"

definition load64 :: "mem \<Rightarrow> u64 \<Rightarrow> u64" where
  "load64 m a = word_of_nat (read_le m a 8)"

definition store32 :: "mem \<Rightarrow> u64 \<Rightarrow> u32 \<Rightarrow> mem" where
  "store32 m a v = write_le m a 4 (unat v)"

definition store64 :: "mem \<Rightarrow> u64 \<Rightarrow> u64 \<Rightarrow> mem" where
  "store64 m a v = write_le m a 8 (unat v)"

section \<open>Reading back what was written\<close>

lemma write_le_other: "(\<And>i. i < n \<Longrightarrow> x \<noteq> a + word_of_nat i) \<Longrightarrow> write_le m a n v x = m x"
proof (induction n arbitrary: m a v)
  case (Suc n)
  have "x \<noteq> a + 1 + word_of_nat i" if "i < n" for i
    using Suc.prems [of "Suc i"] that by (simp add: add.assoc)
  moreover have "x \<noteq> a" using Suc.prems [of 0] by simp
  ultimately show ?case by (simp add: Suc.IH)
qed simp

lemma write_le_at:
  "i < n \<Longrightarrow> n \<le> 2 ^ 64 \<Longrightarrow> write_le m a n v (a + word_of_nat i) = word_of_nat (v div 256 ^ i)"
proof (induction n arbitrary: m a v i)
  case (Suc n)
  show ?case
  proof (cases i)
    case 0
    have "a \<noteq> a + 1 + word_of_nat j" if "j < n" for j
      using add_nat_inject [of 0 "Suc j" a] that Suc.prems(2) by (simp add: add.assoc)
    then show ?thesis using 0 by (simp add: write_le_other)
  next
    case (Suc j)
    have "j < n" and "n \<le> 2 ^ 64" using Suc.prems \<open>i = Suc j\<close> by simp_all
    note Suc.IH [OF this, of "m(a := word_of_nat v)" "a + 1" "v div 256"]
    moreover have "a + word_of_nat i = a + 1 + word_of_nat j"
      using \<open>i = Suc j\<close> by (simp add: add.assoc)
    ultimately show ?thesis
      using \<open>i = Suc j\<close> by (simp only: write_le.simps div_mult2_eq power_Suc)
  qed
qed simp

lemma read_le_cong:
  "(\<And>i. i < n \<Longrightarrow> m (a + word_of_nat i) = m' (a + word_of_nat i)) \<Longrightarrow> read_le m a n = read_le m' a n"
proof (induction n arbitrary: a)
  case (Suc n)
  have "read_le m (a + 1) n = read_le m' (a + 1) n"
    using Suc.prems [of "Suc i" for i] by (intro Suc.IH) (simp add: add.assoc)
  moreover have "m a = m' a" using Suc.prems [of 0] by simp
  ultimately show ?case by simp
qed simp

lemma read_le_bound: "read_le m a n < 256 ^ n"
proof (induction n arbitrary: a)
  case (Suc n)
  have "unat (m a) < 256" using unsigned_less [of "m a"] by simp
  moreover have "read_le m (a + 1) n < 256 ^ n" by (rule Suc.IH)
  ultimately show ?case by simp
qed simp

lemma read_le_digits:
  "(\<And>i. i < n \<Longrightarrow> m (a + word_of_nat i) = word_of_nat (v div 256 ^ i)) \<Longrightarrow> read_le m a n = v mod 256 ^ n"
proof (induction n arbitrary: a v)
  case (Suc n)
  have "read_le m (a + 1) n = (v div 256) mod 256 ^ n"
    using Suc.prems [of "Suc i" for i]
    by (intro Suc.IH) (simp add: add.assoc div_mult2_eq)
  moreover have "unat (m a) = v mod 256" using Suc.prems [of 0] by (simp add: unat_of_nat)
  ultimately show ?case by (simp add: mod_mult2_eq)
qed simp

lemma read_write_le: "n \<le> 2 ^ 64 \<Longrightarrow> read_le (write_le m a n v) a n = v mod 256 ^ n"
  by (intro read_le_digits) (simp add: write_le_at)

lemma load64_store64 [simp]: "load64 (store64 m a v) a = v"
  using unat_bound [of v] by (simp add: load64_def store64_def read_write_le)

lemma load32_store32 [simp]: "load32 (store32 m a v) a = v"
  using unat_bound [of v] by (simp add: load32_def store32_def read_write_le)

lemma store64_other [mem_frame]: "\<not> in_block x a 8 \<Longrightarrow> store64 m a v x = m x"
  by (auto simp: store64_def in_block_iff_offset intro: write_le_other)

lemma load64_cong:
  "(\<And>x. in_block x a 8 \<Longrightarrow> m x = m' x) \<Longrightarrow> load64 m a = load64 m' a"
  unfolding load64_def by (rule arg_cong [of _ _ word_of_nat], rule read_le_cong)
    (auto simp: in_block_iff_offset)

lemma load64_zero: "(\<And>x. in_block x a 8 \<Longrightarrow> m x = 0) \<Longrightarrow> load64 m a = 0"
proof -
  assume "\<And>x. in_block x a 8 \<Longrightarrow> m x = 0"
  then have "load64 m a = load64 (\<lambda>_. 0) a" by (intro load64_cong) simp
  moreover have "read_le (\<lambda>_. 0) b n = 0" for b n by (induction n arbitrary: b) simp_all
  ultimately show ?thesis by (simp add: load64_def)
qed

lemma read_le_digit: "i < n \<Longrightarrow> word_of_nat (read_le m a n div 256 ^ i) = m (a + word_of_nat i)"
proof (induction n arbitrary: a i)
  case (Suc n)
  have byte: "unat (m a) < 256" using unat_bound [of "m a"] by simp
  show ?case
  proof (cases i)
    case 0
    have "(256 :: u8) = 0" by simp
    then have "(word_of_nat (unat (m a) + 256 * read_le m (a + 1) n) :: u8) = m a"
      by (simp only: of_nat_add of_nat_mult of_nat_numeral mult_zero_left add_0_right of_nat_unat ucast_id)
    then show ?thesis using 0 by simp
  next
    case (Suc j)
    have "(unat (m a) + 256 * read_le m (a + 1) n) div 256 = read_le m (a + 1) n"
      using byte by simp
    then have "read_le m a (Suc n) div 256 ^ i = read_le m (a + 1) n div 256 ^ j"
      using Suc by (simp add: div_mult2_eq)
    then show ?thesis
      using Suc Suc.prems Suc.IH [of j "a + 1"] \<open>i = Suc j\<close> by (simp add: add.assoc)
  qed
qed simp

text \<open>Copying a word through a register copies its four bytes.\<close>

lemma store32_load32:
  "store32 m d (load32 m s) x = (if in_block x d 4 then m (s + (x - d)) else m x)"
proof (cases "in_block x d 4")
  case True
  then obtain i where i: "i < 4" and x: "x = d + word_of_nat i"
    by (auto simp: in_block_iff_offset)
  have "unat (load32 m s) = read_le m s 4"
    using read_le_bound [of m s 4] by (simp add: load32_def unat_of_nat)
  then have "store32 m d (load32 m s) x = m (s + word_of_nat i)"
    using i x by (simp add: store32_def write_le_at read_le_digit)
  with x True show ?thesis by simp
next
  case False
  then show ?thesis by (auto simp: store32_def in_block_iff_offset intro!: write_le_other)
qed

lemma store32_at:
  "store32 m d v x = (if in_block x d 4 then word_of_nat (unat v div 256 ^ unat (x - d)) else m x)"
proof (cases "in_block x d 4")
  case True
  then obtain i where i: "i < 4" and x: "x = d + word_of_nat i"
    by (auto simp: in_block_iff_offset)
  then have "unat (x - d) = i" by (simp add: unat_of_nat)
  then show ?thesis using True i x by (simp add: store32_def write_le_at)
next
  case False
  then show ?thesis by (auto simp: store32_def in_block_iff_offset intro!: write_le_other)
qed

section \<open>Aligned doublewords\<close>

definition aligned8 :: "u64 \<Rightarrow> bool" where
  "aligned8 a \<longleftrightarrow> 8 dvd unat a"

lemma aligned8_block:
  assumes "aligned8 a"
  shows "in_block x a 8 \<longleftrightarrow> unat x div 8 = unat a div 8"
proof -
  have "unat a + 8 \<le> 2 ^ 64"
    using assms unat_lt_64 [of a] by (auto simp: aligned8_def)
  then have "in_block x a 8 \<longleftrightarrow> unat a \<le> unat x \<and> unat x < unat a + 8"
    by (rule in_block_range)
  then show ?thesis using assms by (auto simp: aligned8_def)
qed

lemma aligned8_disjoint:
  assumes "aligned8 a" and "aligned8 b" and "a \<noteq> b" and "in_block x b 8"
  shows "\<not> in_block x a 8"
proof
  assume "in_block x a 8"
  with assms have "unat a div 8 = unat b div 8" by (simp add: aligned8_block)
  with assms have "unat a = unat b" by (auto simp: aligned8_def)
  with \<open>a \<noteq> b\<close> show False by (simp add: word_unat_eq_iff)
qed

lemma store64_at:
  "store64 m a v x = (if in_block x a 8 then word_of_nat (unat v div 256 ^ unat (x - a)) else m x)"
proof (cases "in_block x a 8")
  case True
  then obtain i where i: "i < 8" and x: "x = a + word_of_nat i"
    by (auto simp: in_block_iff_offset)
  then have "unat (x - a) = i" by (simp add: unat_of_nat)
  then show ?thesis using True i x by (simp add: store64_def write_le_at)
qed (simp add: store64_other)

lemma store64_twice [simp]: "store64 (store64 m a v) a w = store64 m a w"
  by (simp add: fun_eq_iff store64_at)

lemma store64_commute:
  "aligned8 a \<Longrightarrow> aligned8 b \<Longrightarrow> a \<noteq> b \<Longrightarrow> store64 (store64 m a v) b w = store64 (store64 m b w) a v"
  using aligned8_disjoint [of a b] by (auto simp: fun_eq_iff store64_at)

text \<open>The contract of a store of doublewords: a cell holds what was last stored in it, and a store to
  one cell leaves every other cell alone. The clients below see a list of stores at once.\<close>

locale dword_store =
  fixes ld :: "'m \<Rightarrow> 'a \<Rightarrow> 'v" and st :: "'m \<Rightarrow> 'a \<Rightarrow> 'v \<Rightarrow> 'm" and cell :: "'a \<Rightarrow> bool"
  assumes ld_st_same: "cell a \<Longrightarrow> ld (st m a v) a = v"
    and ld_st_other: "cell a \<Longrightarrow> cell b \<Longrightarrow> a \<noteq> b \<Longrightarrow> ld (st m a v) b = ld m b"
begin

lemma ld_st: "cell a \<Longrightarrow> cell b \<Longrightarrow> ld (st m a v) b = (if a = b then v else ld m b)"
  by (simp add: ld_st_same ld_st_other)

lemma ld_foldl_st:
  "cell b \<Longrightarrow> (\<And>a v. (a, v) \<in> set ws \<Longrightarrow> cell a) \<Longrightarrow>
   ld (foldl (\<lambda>m (a, v). st m a v) m ws) b =
     (case map_of (rev ws) b of Some v \<Rightarrow> v | None \<Rightarrow> ld m b)"
proof (induction ws rule: rev_induct)
  case (snoc w ws)
  obtain a v where w: "w = (a, v)" by (cases w)
  have "cell a" using snoc.prems(2) [of a v] w by simp
  moreover have "ld (foldl (\<lambda>m (a, v). st m a v) m ws) b =
      (case map_of (rev ws) b of Some v \<Rightarrow> v | None \<Rightarrow> ld m b)"
    using snoc.prems by (intro snoc.IH) auto
  ultimately show ?case using w snoc.prems(1) by (simp add: ld_st)
qed simp

end

lemma load64_store64_other [mem_frame]:
  "aligned8 a \<Longrightarrow> aligned8 b \<Longrightarrow> a \<noteq> b \<Longrightarrow> load64 (store64 m a v) b = load64 m b"
  by (rule load64_cong) (auto intro: store64_other dest: aligned8_disjoint)

interpretation dword: dword_store load64 store64 aligned8
  by unfold_locales (auto intro: load64_store64_other)

end
