(* ===== verification/KString.thy ===== *)
theory KString
  imports Memory
begin

text \<open>
  lib/string.c on byte memory. The copying and filling routines are written with their three loops
  (up to word alignment, word by word, the remaining bytes); their specifications say what every
  byte of memory is afterwards, also for overlapping blocks where the copy runs forward. The string
  routines run until they meet a zero byte, so their loops may not end: \<open>None\<close> is a scan that goes
  round the whole address space for ever, and the specifications prove that a terminated string
  gives \<open>Some\<close>. Plain \<open>char\<close> is unsigned in the RISC-V ABI.
\<close>

section \<open>memcpy\<close>

text \<open>The loop \<open>while (dst < max) *(char *)dst++ = *(char *)src++\<close>; it gives back the memory and the
  two pointers.\<close>

function copy_bytes :: "mem \<Rightarrow> u64 \<Rightarrow> u64 \<Rightarrow> u64 \<Rightarrow> mem \<times> u64 \<times> u64" where
  "copy_bytes m dst src max' =
     (if dst < max' then copy_bytes (m(dst := m src)) (dst + 1) (src + 1) max' else (m, dst, src))"
  by pat_completeness auto
termination
  by (relation "measure (\<lambda>(m, dst, src, max'). unat max' - unat dst)") (auto intro: step_measure)

text \<open>The loop \<open>while (((u_long)dst & 3) && dst < max) *(char *)dst++ = *(char *)src++\<close>.\<close>

function copy_to_alignment :: "mem \<Rightarrow> u64 \<Rightarrow> u64 \<Rightarrow> u64 \<Rightarrow> mem \<times> u64 \<times> u64" where
  "copy_to_alignment m dst src max' =
     (if dst AND 3 \<noteq> 0 \<and> dst < max'
      then copy_to_alignment (m(dst := m src)) (dst + 1) (src + 1) max' else (m, dst, src))"
  by pat_completeness auto
termination
  by (relation "measure (\<lambda>(m, dst, src, max'). unat max' - unat dst)") (auto intro: step_measure)

text \<open>The loop \<open>while (dst + 4 <= max) { *(uint32_t *)dst = *(uint32_t *)src; dst += 4; src += 4; }\<close>.
  Pointer arithmetic past the end of the address space is undefined in C; the second guard, false
  only there, gives the loop no further iterations.\<close>

function copy_words :: "mem \<Rightarrow> u64 \<Rightarrow> u64 \<Rightarrow> u64 \<Rightarrow> mem \<times> u64 \<times> u64" where
  "copy_words m dst src max' =
     (if dst + 4 \<le> max' \<and> dst < dst + 4
      then copy_words (store32 m dst (load32 m src)) (dst + 4) (src + 4) max' else (m, dst, src))"
  by pat_completeness auto
termination
  by (relation "measure (\<lambda>(m, dst, src, max'). unat max' - unat dst)") (auto intro: step_measure)

declare copy_bytes.simps [simp del] copy_to_alignment.simps [simp del] copy_words.simps [simp del]

definition memcpy :: "mem \<Rightarrow> u64 \<Rightarrow> u64 \<Rightarrow> u64 \<Rightarrow> mem \<times> u64" where
  "memcpy m dst src n =
     (let dstaddr = dst; max' = dst + n in
      if src AND 3 \<noteq> dst AND 3
      then (let (m, dst, src) = copy_bytes m dst src max' in (m, dstaddr))
      else (let (m, dst, src) = copy_to_alignment m dst src max';
                (m, dst, src) = copy_words m dst src max';
                (m, dst, src) = copy_bytes m dst src max'
            in (m, dstaddr)))"

section \<open>memset\<close>

function fill_to_alignment :: "mem \<Rightarrow> u64 \<Rightarrow> u8 \<Rightarrow> u64 \<Rightarrow> mem \<times> u64" where
  "fill_to_alignment m dst byte max' =
     (if dst AND 3 \<noteq> 0 \<and> dst < max'
      then fill_to_alignment (m(dst := byte)) (dst + 1) byte max' else (m, dst))"
  by pat_completeness auto
termination
  by (relation "measure (\<lambda>(m, dst, byte, max'). unat max' - unat dst)") (auto intro: step_measure)

function fill_words :: "mem \<Rightarrow> u64 \<Rightarrow> u32 \<Rightarrow> u64 \<Rightarrow> mem \<times> u64" where
  "fill_words m dst word max' =
     (if dst + 4 \<le> max' \<and> dst < dst + 4
      then fill_words (store32 m dst word) (dst + 4) word max' else (m, dst))"
  by pat_completeness auto
termination
  by (relation "measure (\<lambda>(m, dst, word, max'). unat max' - unat dst)") (auto intro: step_measure)

function fill_bytes :: "mem \<Rightarrow> u64 \<Rightarrow> u8 \<Rightarrow> u64 \<Rightarrow> mem \<times> u64" where
  "fill_bytes m dst byte max' =
     (if dst < max' then fill_bytes (m(dst := byte)) (dst + 1) byte max' else (m, dst))"
  by pat_completeness auto
termination
  by (relation "measure (\<lambda>(m, dst, byte, max'). unat max' - unat dst)") (auto intro: step_measure)

declare fill_bytes.simps [simp del] fill_to_alignment.simps [simp del] fill_words.simps [simp del]

definition memset_word :: "u8 \<Rightarrow> u32" where
  "memset_word byte =
     (let b = ucast byte in b OR push_bit 8 b OR push_bit 16 b OR push_bit 24 b)"

text \<open>The fill value is an \<open>int\<close>, of which the low byte counts.\<close>

definition memset :: "mem \<Rightarrow> u64 \<Rightarrow> u32 \<Rightarrow> u64 \<Rightarrow> mem \<times> u64" where
  "memset m dst c n =
     (let dstaddr = dst; max' = dst + n; byte = ucast (c AND 255); word = memset_word byte;
          (m, dst) = fill_to_alignment m dst byte max';
          (m, dst) = fill_words m dst word max';
          (m, dst) = fill_bytes m dst byte max'
      in (m, dstaddr))"

section \<open>The string routines\<close>

text \<open>\<open>strlen\<close> counts in an \<open>int\<close>, which the return converts to \<open>size_t\<close>.\<close>

partial_function (option) strlen_loop :: "mem \<Rightarrow> u64 \<Rightarrow> u32 \<Rightarrow> u32 option" where
  "strlen_loop m s n = (if m s = 0 then Some n else strlen_loop m (s + 1) (n + 1))"

definition strlen :: "mem \<Rightarrow> u64 \<Rightarrow> u64 option" where
  "strlen m s = map_option (\<lambda>n. signed n) (strlen_loop m s 0)"

partial_function (option) strcpy_loop :: "mem \<Rightarrow> u64 \<Rightarrow> u64 \<Rightarrow> mem option" where
  "strcpy_loop m dst src =
     (let c = m src; m = m(dst := c) in
      if c \<noteq> 0 then strcpy_loop m (dst + 1) (src + 1) else Some m)"

definition strcpy :: "mem \<Rightarrow> u64 \<Rightarrow> u64 \<Rightarrow> (mem \<times> u64) option" where
  "strcpy m dst src = map_option (\<lambda>m. (m, dst)) (strcpy_loop m dst src)"

text \<open>The character compared with is an \<open>int\<close>, the null pointer is 0.\<close>

partial_function (option) strchr :: "mem \<Rightarrow> u64 \<Rightarrow> u32 \<Rightarrow> u64 option" where
  "strchr m s c =
     (if m s = 0 then Some 0 else if ucast (m s) = c then Some s else strchr m (s + 1) c)"

partial_function (option) strcmp :: "mem \<Rightarrow> u64 \<Rightarrow> u64 \<Rightarrow> int option" where
  "strcmp m p q =
     (if m p \<noteq> 0 \<and> m p = m q then strcmp m (p + 1) (q + 1)
      else if m p < m q then Some (-1) else if m p > m q then Some 1 else Some 0)"

section \<open>What a copy does\<close>

text \<open>Memory after the first \<open>k\<close> bytes of a copy.\<close>

definition copied :: "mem \<Rightarrow> u64 \<Rightarrow> u64 \<Rightarrow> nat \<Rightarrow> mem" where
  "copied m dst src k = (\<lambda>x. if in_block x dst k then m (src + (x - dst)) else m x)"

text \<open>A forward copy never reads a byte it has already overwritten, unless the destination starts
  strictly inside the source.\<close>

definition forward_safe :: "u64 \<Rightarrow> u64 \<Rightarrow> nat \<Rightarrow> bool" where
  "forward_safe dst src n \<longleftrightarrow> dst = src \<or> \<not> in_block dst src n"

lemma forward_safe_mono: "forward_safe dst src n \<Longrightarrow> k \<le> n \<Longrightarrow> forward_safe dst src k"
  by (auto simp: forward_safe_def in_block_def)

lemma forward_safe_shift: "forward_safe (dst + a) (src + a) n \<longleftrightarrow> forward_safe dst src n"
  by (simp add: forward_safe_def in_block_def)

lemma copied_0 [simp]: "copied m dst src 0 = m"
  by (simp add: copied_def in_block_def)

lemma copied_1: "copied m dst src (Suc 0) = m(dst := m src)"
proof
  fix x
  have "in_block x dst (Suc 0) \<longleftrightarrow> x = dst"
    by (auto simp: in_block_def unat_eq_0)
  then show "copied m dst src (Suc 0) x = (m(dst := m src)) x" by (auto simp: copied_def)
qed

lemma copied_4: "copied m dst src 4 = store32 m dst (load32 m src)"
  by (rule ext) (simp add: copied_def store32_load32)

lemma in_block_add:
  assumes "k + j \<le> 2 ^ 64"
  shows "in_block x (a + word_of_nat k) j \<longleftrightarrow> k \<le> unat (x - a) \<and> unat (x - a) < k + j"
proof (cases "j = 0")
  case False
  with assms have k: "unat (word_of_nat k :: u64) = k" by (simp add: unat_of_nat)
  have eq: "x - (a + word_of_nat k) = (x - a) - word_of_nat k" by simp
  show ?thesis
  proof (cases "k \<le> unat (x - a)")
    case True
    then have "unat ((x - a) - word_of_nat k) = unat (x - a) - k"
      by (subst unat_sub) (simp_all add: word_le_nat_alt k)
    with True show ?thesis by (auto simp: in_block_def eq)
  next
    case False
    then have "unat ((x - a) - word_of_nat k) = unat (x - a) + 2 ^ 64 - k"
      by (subst unat_sub_wrap) (simp_all add: word_le_nat_alt k)
    with False assms show ?thesis by (simp add: in_block_def eq)
  qed
qed (simp add: in_block_def)

lemma copied_add:
  assumes n: "k + j \<le> 2 ^ 64" and safe: "forward_safe dst src (k + j)"
  shows "copied (copied m dst src k) (dst + word_of_nat k) (src + word_of_nat k) j
    = copied m dst src (k + j)"
proof
  fix x
  define u where "u = unat (x - dst)"
  have shift: "src + word_of_nat k + (x - (dst + word_of_nat k)) = src + (x - dst)" by simp
  have block: "in_block x (dst + word_of_nat k) j \<longleftrightarrow> k \<le> u \<and> u < k + j"
    using in_block_add [OF n] by (simp add: u_def)
  have unread: "copied m dst src k (src + (x - dst)) = m (src + (x - dst))" if "k \<le> u" "u < k + j"
  proof -
    have "\<not> in_block (src + (x - dst)) dst k"
    proof (cases "dst = src")
      case True
      with that show ?thesis by (simp add: in_block_def u_def)
    next
      case False
      with safe have "k + j \<le> unat (dst - src)" by (simp add: forward_safe_def in_block_def)
      with that have less: "\<not> dst - src \<le> x - dst" by (simp add: u_def word_le_nat_alt)
      have "unat ((x - dst) - (dst - src)) = u + 2 ^ 64 - unat (dst - src)"
        unfolding u_def using less by (rule unat_sub_wrap)
      moreover have "unat (dst - src) < 2 ^ 64" using unat_bound [of "dst - src"] by simp
      ultimately have "k \<le> unat ((x - dst) - (dst - src))" using that by linarith
      moreover have "(x - dst) - (dst - src) = src + (x - dst) - dst" by simp
      ultimately show ?thesis by (simp add: in_block_def)
    qed
    then show ?thesis by (simp add: copied_def)
  qed
  show "copied (copied m dst src k) (dst + word_of_nat k) (src + word_of_nat k) j x
      = copied m dst src (k + j) x"
  proof (cases "k \<le> u \<and> u < k + j")
    case True
    then have "copied (copied m dst src k) (dst + word_of_nat k) (src + word_of_nat k) j x
        = copied m dst src k (src + (x - dst))"
      by (subst copied_def) (simp only: block shift simp_thms if_True)
    with True show ?thesis using unread by (simp add: copied_def in_block_def u_def)
  next
    case False
    then have "copied (copied m dst src k) (dst + word_of_nat k) (src + word_of_nat k) j x
        = copied m dst src k x"
      by (subst copied_def) (simp only: block if_False)
    with False show ?thesis by (auto simp: copied_def in_block_def u_def)
  qed
qed

text \<open>The three loops, from a pointer \<open>n\<close> bytes below the limit.\<close>

lemma copy_bytes_copied:
  "unat dst + n < 2 ^ 64 \<Longrightarrow> forward_safe dst src n \<Longrightarrow>
   copy_bytes m dst src (dst + word_of_nat n) =
     (copied m dst src n, dst + word_of_nat n, src + word_of_nat n)"
proof (induction n arbitrary: m dst src)
  case 0
  then show ?case by (simp add: copy_bytes.simps)
next
  case (Suc n)
  have less: "dst < dst + word_of_nat (Suc n)"
    using Suc.prems(1) by (simp add: word_less_nat_alt unat_add_nat del: of_nat_Suc)
  have lim: "dst + word_of_nat (Suc n) = (dst + 1) + word_of_nat n"
    and src: "src + word_of_nat (Suc n) = (src + 1) + word_of_nat n" by simp_all
  have "unat (dst + 1) + n < 2 ^ 64"
    using unat_plus_one [OF less] Suc.prems(1) by simp
  moreover have safe: "forward_safe (dst + 1) (src + 1) n"
    using Suc.prems(2) by (simp only: forward_safe_shift) (erule forward_safe_mono, simp)
  ultimately have "copy_bytes (m(dst := m src)) (dst + 1) (src + 1) (dst + word_of_nat (Suc n)) =
      (copied (copied m dst src (Suc 0)) (dst + 1) (src + 1) n, dst + word_of_nat (Suc n),
       src + word_of_nat (Suc n))"
    unfolding lim src copied_1 by (rule Suc.IH)
  moreover have "copied (copied m dst src (Suc 0)) (dst + 1) (src + 1) n = copied m dst src (Suc n)"
    using copied_add [of 1 n dst src m] Suc.prems by simp
  ultimately show ?case
    using less by (simp add: copy_bytes.simps [of m dst src] del: of_nat_Suc)
qed

lemma copy_to_alignment_copied:
  "unat dst + n < 2 ^ 64 \<Longrightarrow> forward_safe dst src n \<Longrightarrow>
   \<exists>k\<le>n. copy_to_alignment m dst src (dst + word_of_nat n) =
     (copied m dst src k, dst + word_of_nat k, src + word_of_nat k)"
proof (induction n arbitrary: m dst src)
  case 0
  then show ?case by (simp add: copy_to_alignment.simps)
next
  case (Suc n)
  have less: "dst < dst + word_of_nat (Suc n)"
    using Suc.prems(1) by (simp add: word_less_nat_alt unat_add_nat del: of_nat_Suc)
  show ?case
  proof (cases "dst AND 3 = 0")
    case True
    then show ?thesis by (intro exI [of _ 0]) (simp add: copy_to_alignment.simps)
  next
    case False
    have lim: "dst + word_of_nat (Suc n) = (dst + 1) + word_of_nat n" by simp
    have "unat (dst + 1) + n < 2 ^ 64"
      using unat_plus_one [OF less] Suc.prems(1) by simp
    moreover have "forward_safe (dst + 1) (src + 1) n"
      using Suc.prems(2) by (simp only: forward_safe_shift) (erule forward_safe_mono, simp)
    ultimately obtain k where k: "k \<le> n" and step:
      "copy_to_alignment (copied m dst src (Suc 0)) (dst + 1) (src + 1) (dst + 1 + word_of_nat n) =
       (copied (copied m dst src (Suc 0)) (dst + 1) (src + 1) k, dst + 1 + word_of_nat k,
        src + 1 + word_of_nat k)"
      using Suc.IH by blast
    have "copied (copied m dst src (Suc 0)) (dst + 1) (src + 1) k = copied m dst src (Suc k)"
      using copied_add [of 1 k dst src m] Suc.prems k forward_safe_mono [OF Suc.prems(2), of "Suc k"]
      by simp
    with step k False less show ?thesis
      by (intro exI [of _ "Suc k"])
        (simp add: copy_to_alignment.simps [of m dst src] lim copied_1 add.assoc)
  qed
qed

lemma copy_words_copied:
  "unat dst + n < 2 ^ 64 \<Longrightarrow> forward_safe dst src n \<Longrightarrow>
   \<exists>k\<le>n. copy_words m dst src (dst + word_of_nat n) =
     (copied m dst src k, dst + word_of_nat k, src + word_of_nat k)"
proof (induction n arbitrary: m dst src rule: less_induct)
  case (less n)
  show ?case
  proof (cases "dst + 4 \<le> dst + word_of_nat n \<and> dst < dst + 4")
    case False
    then show ?thesis
      by (intro exI [of _ 0]) (simp add: copy_words.simps [of m dst src] if_not_P [OF False])
  next
    case True
    then have dst4: "unat (dst + 4) = unat dst + 4"
      using unat_plus_simple [of dst 4] by auto
    have "unat (dst + word_of_nat n) = unat dst + n"
      by (rule unat_add_nat) (use less.prems(1) in simp)
    with True dst4 have four: "4 \<le> n" by (simp add: word_le_nat_alt)
    have lim: "dst + word_of_nat n = (dst + 4) + word_of_nat (n - 4)"
      using four by (simp add: of_nat_diff)
    have safe: "forward_safe (dst + 4) (src + 4) (n - 4)"
      using less.prems(2) by (simp only: forward_safe_shift) (erule forward_safe_mono, simp)
    have "n - 4 < n" and "unat (dst + 4) + (n - 4) < 2 ^ 64"
      using four dst4 less.prems(1) by simp_all
    with safe obtain k where k: "k \<le> n - 4" and step:
      "copy_words (copied m dst src 4) (dst + 4) (src + 4) (dst + 4 + word_of_nat (n - 4)) =
       (copied (copied m dst src 4) (dst + 4) (src + 4) k, dst + 4 + word_of_nat k,
        src + 4 + word_of_nat k)"
      using less.IH by blast
    have "copied (copied m dst src 4) (dst + 4) (src + 4) k = copied m dst src (k + 4)"
      using copied_add [of 4 k dst src m] less.prems k four
        forward_safe_mono [OF less.prems(2), of "4 + k"] by (simp add: add.commute)
    moreover have "copy_words m dst src (dst + word_of_nat n) =
        copy_words (copied m dst src 4) (dst + 4) (src + 4) (dst + word_of_nat n)"
      by (subst copy_words.simps) (simp only: if_P [OF True] copied_4)
    moreover have "dst + 4 + word_of_nat k = dst + word_of_nat (k + 4)"
      and "src + 4 + word_of_nat k = src + word_of_nat (k + 4)" by simp_all
    ultimately have "copy_words m dst src (dst + word_of_nat n) =
        (copied m dst src (k + 4), dst + word_of_nat (k + 4), src + word_of_nat (k + 4))"
      using step [folded lim] by (simp only:)
    moreover have "k + 4 \<le> n" using k four by simp
    ultimately show ?thesis by blast
  qed
qed

lemma memcpy_copied:
  assumes room: "unat dst + unat n < 2 ^ 64" and safe: "forward_safe dst src (unat n)"
  shows "memcpy m dst src n = (copied m dst src (unat n), dst)"
proof -
  let ?n = "unat n"
  have lim: "dst + n = dst + word_of_nat ?n" by simp
  show ?thesis
  proof (cases "src AND 3 = dst AND 3")
    case False
    then show ?thesis
      using copy_bytes_copied [OF room safe] by (simp add: memcpy_def)
  next
    case True
    obtain k where k: "k \<le> ?n" and head: "copy_to_alignment m dst src (dst + n) =
        (copied m dst src k, dst + word_of_nat k, src + word_of_nat k)"
      using copy_to_alignment_copied [OF room safe] lim by metis
    have k_room: "unat (dst + word_of_nat k) = unat dst + k"
      using room k by (simp add: unat_add_nat)
    have rest: "dst + n = dst + word_of_nat k + word_of_nat (?n - k)"
      using k by (simp add: of_nat_diff)
    have "forward_safe (dst + word_of_nat k) (src + word_of_nat k) (?n - k)"
      unfolding forward_safe_shift by (rule forward_safe_mono [OF safe]) simp
    then obtain j where j: "j \<le> ?n - k" and words:
      "copy_words (copied m dst src k) (dst + word_of_nat k) (src + word_of_nat k) (dst + n) =
       (copied m dst src (k + j), dst + word_of_nat (k + j), src + word_of_nat (k + j))"
      using copy_words_copied [of "dst + word_of_nat k" "?n - k" "src + word_of_nat k" "copied m dst src k"]
        copied_add [of k _ dst src m] forward_safe_mono [OF safe] k_room room k
      unfolding rest [symmetric] by (auto simp: add.assoc)
    have kj: "k + j \<le> ?n" using k j by simp
    have kj_room: "unat (dst + word_of_nat (k + j)) = unat dst + (k + j)"
      by (rule unat_add_nat) (use room kj in simp)
    have rest': "dst + n = dst + word_of_nat (k + j) + word_of_nat (?n - (k + j))"
      using kj by (simp add: of_nat_diff)
    have "forward_safe (dst + word_of_nat (k + j)) (src + word_of_nat (k + j)) (?n - (k + j))"
      unfolding forward_safe_shift by (rule forward_safe_mono [OF safe]) simp
    then have "fst (copy_bytes (copied m dst src (k + j)) (dst + word_of_nat (k + j))
        (src + word_of_nat (k + j)) (dst + n)) = copied m dst src ?n"
      using copy_bytes_copied [of "dst + word_of_nat (k + j)" "?n - (k + j)" "src + word_of_nat (k + j)"]
        copied_add [of "k + j" "?n - (k + j)" dst src m] safe kj_room room kj
      unfolding rest' [symmetric] by simp
    then show ?thesis using True head words
      by (simp add: memcpy_def Let_def split_beta)
  qed
qed

section \<open>What a fill does\<close>

definition filled :: "mem \<Rightarrow> u64 \<Rightarrow> u8 \<Rightarrow> nat \<Rightarrow> mem" where
  "filled m dst byte k = (\<lambda>x. if in_block x dst k then byte else m x)"

lemma store64_filled:
  "(\<And>x. in_block x a 8 \<Longrightarrow> \<not> in_block x p n) \<Longrightarrow> filled (store64 m a v) p b n = store64 (filled m p b n) a v"
  by (auto simp: fun_eq_iff filled_def store64_at)

lemma filled_0 [simp]: "filled m dst byte 0 = m"
  by (simp add: filled_def in_block_def)

lemma filled_1: "filled m dst byte (Suc 0) = m(dst := byte)"
  by (rule ext) (auto simp: filled_def in_block_def unat_eq_0)

lemma memset_word_digit:
  assumes "i < 4"
  shows "word_of_nat (unat (memset_word byte) div 256 ^ i) = byte"
proof -
  have "(256 :: nat) ^ i = 2 ^ (8 * i)" by (simp add: power_mult)
  then have "unat (memset_word byte) div 256 ^ i = unat (drop_bit (8 * i) (memset_word byte))"
    by (simp only: unat_drop_bit_eq, simp only: drop_bit_eq_div)
  moreover have "(ucast (drop_bit (8 * i) (memset_word byte)) :: u8) = byte"
  proof (rule bit_word_eqI)
    fix n assume "n < LENGTH(8)"
    then have n: "n < 8" by simp
    from assms have "i = 0 \<or> i = 1 \<or> i = 2 \<or> i = 3" by auto
    with n show "bit (ucast (drop_bit (8 * i) (memset_word byte)) :: u8) n = bit byte n"
      by (auto simp: memset_word_def Let_def bit_simps dest: bit_imp_le_length)
  qed
  ultimately show ?thesis by simp
qed

lemma filled_4: "filled m dst byte 4 = store32 m dst (memset_word byte)"
  by (rule ext) (auto simp: filled_def store32_at memset_word_digit in_block_def)

lemma filled_add:
  "k + j \<le> 2 ^ 64 \<Longrightarrow>
   filled (filled m dst byte k) (dst + word_of_nat k) byte j = filled m dst byte (k + j)"
  by (rule ext) (simp add: filled_def in_block_add, auto simp: in_block_def)

lemma fill_bytes_filled:
  "unat dst + n < 2 ^ 64 \<Longrightarrow>
   fill_bytes m dst byte (dst + word_of_nat n) = (filled m dst byte n, dst + word_of_nat n)"
proof (induction n arbitrary: m dst)
  case 0
  then show ?case by (simp add: fill_bytes.simps)
next
  case (Suc n)
  have less: "dst < dst + word_of_nat (Suc n)"
    using Suc.prems by (simp add: word_less_nat_alt unat_add_nat del: of_nat_Suc)
  have lim: "dst + word_of_nat (Suc n) = (dst + 1) + word_of_nat n" by simp
  have "unat (dst + 1) + n < 2 ^ 64" using unat_plus_one [OF less] Suc.prems by simp
  then have "fill_bytes (m(dst := byte)) (dst + 1) byte (dst + word_of_nat (Suc n)) =
      (filled (filled m dst byte (Suc 0)) (dst + 1) byte n, dst + word_of_nat (Suc n))"
    unfolding lim filled_1 by (rule Suc.IH)
  moreover have "filled (filled m dst byte (Suc 0)) (dst + 1) byte n = filled m dst byte (Suc n)"
    using filled_add [of 1 n m dst byte] Suc.prems by simp
  ultimately show ?case
    using less by (simp add: fill_bytes.simps [of m dst] del: of_nat_Suc)
qed

lemma fill_to_alignment_filled:
  "unat dst + n < 2 ^ 64 \<Longrightarrow>
   \<exists>k\<le>n. fill_to_alignment m dst byte (dst + word_of_nat n) =
     (filled m dst byte k, dst + word_of_nat k)"
proof (induction n arbitrary: m dst)
  case 0
  then show ?case by (simp add: fill_to_alignment.simps)
next
  case (Suc n)
  have less: "dst < dst + word_of_nat (Suc n)"
    using Suc.prems by (simp add: word_less_nat_alt unat_add_nat del: of_nat_Suc)
  show ?case
  proof (cases "dst AND 3 = 0")
    case True
    then show ?thesis by (intro exI [of _ 0]) (simp add: fill_to_alignment.simps)
  next
    case False
    have lim: "dst + word_of_nat (Suc n) = (dst + 1) + word_of_nat n" by simp
    have "unat (dst + 1) + n < 2 ^ 64" using unat_plus_one [OF less] Suc.prems by simp
    then obtain k where k: "k \<le> n" and step:
      "fill_to_alignment (filled m dst byte (Suc 0)) (dst + 1) byte (dst + 1 + word_of_nat n) =
       (filled (filled m dst byte (Suc 0)) (dst + 1) byte k, dst + 1 + word_of_nat k)"
      using Suc.IH by blast
    have "filled (filled m dst byte (Suc 0)) (dst + 1) byte k = filled m dst byte (Suc k)"
      using filled_add [of 1 k m dst byte] Suc.prems k by simp
    with step k False less show ?thesis
      by (intro exI [of _ "Suc k"])
        (simp add: fill_to_alignment.simps [of m dst] lim filled_1 add.assoc)
  qed
qed

lemma fill_words_filled:
  "unat dst + n < 2 ^ 64 \<Longrightarrow>
   \<exists>k\<le>n. fill_words m dst (memset_word byte) (dst + word_of_nat n) =
     (filled m dst byte k, dst + word_of_nat k)"
proof (induction n arbitrary: m dst rule: less_induct)
  case (less n)
  show ?case
  proof (cases "dst + 4 \<le> dst + word_of_nat n \<and> dst < dst + 4")
    case False
    then show ?thesis
      by (intro exI [of _ 0]) (simp add: fill_words.simps [of m dst] if_not_P [OF False])
  next
    case True
    then have dst4: "unat (dst + 4) = unat dst + 4"
      using unat_plus_simple [of dst 4] by auto
    have "unat (dst + word_of_nat n) = unat dst + n"
      by (rule unat_add_nat) (use less.prems in simp)
    with True dst4 have four: "4 \<le> n" by (simp add: word_le_nat_alt)
    have lim: "dst + word_of_nat n = (dst + 4) + word_of_nat (n - 4)"
      using four by (simp add: of_nat_diff)
    have "n - 4 < n" and "unat (dst + 4) + (n - 4) < 2 ^ 64"
      using four dst4 less.prems by simp_all
    then obtain k where k: "k \<le> n - 4" and step:
      "fill_words (filled m dst byte 4) (dst + 4) (memset_word byte) (dst + 4 + word_of_nat (n - 4)) =
       (filled (filled m dst byte 4) (dst + 4) byte k, dst + 4 + word_of_nat k)"
      using less.IH by blast
    have "filled (filled m dst byte 4) (dst + 4) byte k = filled m dst byte (k + 4)"
      using filled_add [of 4 k m dst byte] less.prems k four by (simp add: add.commute)
    moreover have "fill_words m dst (memset_word byte) (dst + word_of_nat n) =
        fill_words (filled m dst byte 4) (dst + 4) (memset_word byte) (dst + word_of_nat n)"
      by (subst fill_words.simps) (simp only: if_P [OF True] filled_4)
    moreover have "dst + 4 + word_of_nat k = dst + word_of_nat (k + 4)" by simp
    ultimately have "fill_words m dst (memset_word byte) (dst + word_of_nat n) =
        (filled m dst byte (k + 4), dst + word_of_nat (k + 4))"
      using step [folded lim] by (simp only:)
    moreover have "k + 4 \<le> n" using k four by simp
    ultimately show ?thesis by blast
  qed
qed

lemma memset_filled:
  assumes room: "unat dst + unat n < 2 ^ 64"
  shows "memset m dst c n = (filled m dst (ucast (c AND 255)) (unat n), dst)"
proof -
  let ?n = "unat n" and ?b = "ucast (c AND 255) :: u8"
  have lim: "dst + n = dst + word_of_nat ?n" by simp
  obtain k where k: "k \<le> ?n" and head: "fill_to_alignment m dst ?b (dst + n) =
      (filled m dst ?b k, dst + word_of_nat k)"
    using fill_to_alignment_filled [OF room] lim by metis
  have k_room: "unat (dst + word_of_nat k) = unat dst + k"
    using room k by (simp add: unat_add_nat)
  have rest: "dst + n = dst + word_of_nat k + word_of_nat (?n - k)"
    using k by (simp add: of_nat_diff)
  obtain j where j: "j \<le> ?n - k" and words:
    "fill_words (filled m dst ?b k) (dst + word_of_nat k) (memset_word ?b) (dst + n) =
     (filled m dst ?b (k + j), dst + word_of_nat (k + j))"
    using fill_words_filled [of "dst + word_of_nat k" "?n - k" "filled m dst ?b k" ?b]
      filled_add [of k _ m dst ?b] k_room room k
    unfolding rest [symmetric] by (auto simp: add.assoc)
  have kj: "k + j \<le> ?n" using k j by simp
  have kj_room: "unat (dst + word_of_nat (k + j)) = unat dst + (k + j)"
    by (rule unat_add_nat) (use room kj in simp)
  have rest': "dst + n = dst + word_of_nat (k + j) + word_of_nat (?n - (k + j))"
    using kj by (simp add: of_nat_diff)
  have "fst (fill_bytes (filled m dst ?b (k + j)) (dst + word_of_nat (k + j)) ?b (dst + n)) =
      filled m dst ?b ?n"
    using fill_bytes_filled [of "dst + word_of_nat (k + j)" "?n - (k + j)" "filled m dst ?b (k + j)" ?b]
      filled_add [of "k + j" "?n - (k + j)" m dst ?b] kj_room room kj
    unfolding rest' [symmetric] by simp
  then show ?thesis using head words by (simp add: memset_def Let_def split_beta)
qed

section \<open>Terminated strings\<close>

text \<open>The bytes \<open>cs\<close>, none of them zero, stand at \<open>a\<close> and a zero byte follows.\<close>

fun cstring_at :: "mem \<Rightarrow> u64 \<Rightarrow> u8 list \<Rightarrow> bool" where
  "cstring_at m a [] \<longleftrightarrow> m a = 0"
| "cstring_at m a (c # cs) \<longleftrightarrow> m a = c \<and> c \<noteq> 0 \<and> cstring_at m (a + 1) cs"

lemma strlen_loop_cstring:
  "cstring_at m a cs \<Longrightarrow> strlen_loop m a n = Some (n + word_of_nat (length cs))"
proof (induction cs arbitrary: a n)
  case (Cons c cs)
  then show ?case by (simp add: strlen_loop.simps [of m a] add.assoc)
qed (simp add: strlen_loop.simps)

lemma strlen_cstring:
  assumes "cstring_at m a cs" and "length cs < 2 ^ 31"
  shows "strlen m a = Some (word_of_nat (length cs))"
proof -
  have "sint (word_of_nat (length cs) :: u32) = int (length cs)"
    using assms(2) by (simp add: signed_of_nat signed_take_bit_int_eq_self)
  then have "(scast (word_of_nat (length cs) :: u32) :: u64) = word_of_nat (length cs)"
    by (metis of_int_of_nat_eq of_int_sint)
  then show ?thesis using assms(1) by (simp add: strlen_def strlen_loop_cstring)
qed

lemma strchr_cstring:
  "cstring_at m a cs \<Longrightarrow>
   strchr m a (ucast c) = Some (if c \<in> set cs
     then a + word_of_nat (length (takeWhile (\<lambda>x. x \<noteq> c) cs)) else 0)"
proof (induction cs arbitrary: a)
  case (Cons d cs)
  have "(ucast (ucast b :: u32) :: u8) = b" for b :: u8
    by (rule bit_word_eqI) (simp add: bit_simps)
  then have "(ucast d :: u32) = ucast c \<longleftrightarrow> d = c" by metis
  with Cons show ?case by (auto simp: strchr.simps [of m a])
qed (simp add: strchr.simps)

lemma cstring_at_shift:
  "(\<And>i. i \<le> length cs \<Longrightarrow> m' (b + word_of_nat i) = m (a + word_of_nat i)) \<Longrightarrow> cstring_at m' b cs \<longleftrightarrow> cstring_at m a cs"
proof (induction cs arbitrary: a b)
  case Nil
  then show ?case using Nil [of 0] by simp
next
  case (Cons c cs)
  have "m' (b + 1 + word_of_nat i) = m (a + 1 + word_of_nat i)" if "i \<le> length cs" for i
    using Cons.prems [of "Suc i"] that by (simp add: add.assoc)
  then show ?case using Cons.IH Cons.prems [of 0] by simp
qed

lemmas cstring_at_cong = cstring_at_shift [where b = a and a = a for a]

text \<open>\<open>strcpy\<close> copies the bytes and the terminator, like \<open>memcpy\<close> of that many bytes.\<close>

lemma strcpy_loop_cstring:
  "cstring_at m src cs \<Longrightarrow> forward_safe dst src (Suc (length cs)) \<Longrightarrow> Suc (length cs) \<le> 2 ^ 64 \<Longrightarrow>
   strcpy_loop m dst src = Some (copied m dst src (Suc (length cs)))"
proof (induction cs arbitrary: m dst src)
  case Nil
  then show ?case using copied_1 [of m dst src] by (simp add: strcpy_loop.simps fun_upd_def)
next
  case (Cons c cs)
  let ?m = "m(dst := c)"
  have c: "m src = c" "c \<noteq> 0" and tl: "cstring_at m (src + 1) cs" using Cons.prems(1) by simp_all
  have "?m (src + 1 + word_of_nat i) = m (src + 1 + word_of_nat i)" if "i \<le> length cs" for i
  proof (cases "dst = src + 1 + word_of_nat i")
    case True
    then have "dst - src = word_of_nat (Suc i)" by simp
    moreover have "unat (word_of_nat (Suc i) :: u64) = Suc i" unfolding unat_of_nat using that Cons.prems(3) by simp
    ultimately have "in_block dst src (Suc (length (c # cs)))" "dst \<noteq> src"
      using that by (auto simp: in_block_def)
    then show ?thesis using Cons.prems(2) by (simp add: forward_safe_def)
  qed simp
  then have "cstring_at ?m (src + 1) cs" using cstring_at_cong [of cs ?m "src + 1" m] tl by blast
  moreover have "forward_safe (dst + 1) (src + 1) (Suc (length cs))"
    using forward_safe_mono [OF Cons.prems(2), of "Suc (length cs)"] by (simp add: forward_safe_shift)
  ultimately have "strcpy_loop ?m (dst + 1) (src + 1) = Some (copied ?m (dst + 1) (src + 1) (Suc (length cs)))"
    using Cons.IH Cons.prems(3) by simp
  also have "copied ?m (dst + 1) (src + 1) (Suc (length cs)) = copied m dst src (Suc (length (c # cs)))"
    using copied_add [of 1 "Suc (length cs)" dst src m] Cons.prems(2,3) copied_1 [of m dst src] unfolding c by simp
  finally show ?case using c by (simp add: strcpy_loop.simps [of m dst src] Let_def fun_upd_def)
qed

text \<open>\<open>strcmp\<close> compares the strings as lists of bytes.\<close>

fun compare_bytes :: "u8 list \<Rightarrow> u8 list \<Rightarrow> int" where
  "compare_bytes [] [] = 0"
| "compare_bytes [] (d # ds) = -1"
| "compare_bytes (c # cs) [] = 1"
| "compare_bytes (c # cs) (d # ds) = (if c = d then compare_bytes cs ds else if c < d then -1 else 1)"

lemma strcmp_cstring:
  "cstring_at m p cs \<Longrightarrow> cstring_at m q ds \<Longrightarrow> strcmp m p q = Some (compare_bytes cs ds)"
proof (induction cs ds arbitrary: p q rule: compare_bytes.induct)
  case (4 c cs d ds)
  then show ?case by (auto simp: strcmp.simps [of m p q])
qed (auto simp: strcmp.simps word_less_nat_alt unat_gt_0 split: if_splits)

lemma compare_bytes_0: "compare_bytes cs ds = 0 \<longleftrightarrow> cs = ds"
  by (induction cs ds rule: compare_bytes.induct) auto

end
