(* ===== verification/Mmu.thy ===== *)
theory Mmu
  imports KString
begin

text \<open>
  include/mmu.h and the rounding macros of include/types.h: the memory layout, the Sv39 address and
  page table entry fields, and the conversions between them. Pointers are 64-bit words; the macros
  that shift and mask are translated operator by operator. The second half relates them to
  division and multiplication by the page size, which is what the proofs of the callers use.
\<close>

section \<open>Layout\<close>

definition NASID :: nat where "NASID = 256"
definition UART0 :: u64 where "UART0 = 0x10000000"
definition VIRTIO0 :: u64 where "VIRTIO0 = 0x10001000"
definition CLINT :: u64 where "CLINT = 0x2000000"
definition PLIC :: u64 where "PLIC = 0x0c000000"
definition KERNBASE :: u64 where "KERNBASE = 0x80200000"
definition KERNEND :: u64 where "KERNEND = 0x80400000"
definition PHYEND :: u64 where "PHYEND = 0x88000000"
definition KSTACKTOP :: u64 where "KSTACKTOP = 0x80400000"
definition PAGE_SIZE :: u64 where "PAGE_SIZE = 4096"
definition MAXVA :: u64 where "MAXVA = push_bit (9 + 9 + 9 + 12 - 1) 1"
definition UVPT :: u64 where "UVPT = MAXVA - PAGE_SIZE - 0x40000000"
definition ENVS :: "u64 \<Rightarrow> u64" where "ENVS i = UVPT - (i + 1) * PAGE_SIZE"
definition USTACKTOP :: u64 where "USTACKTOP = 0x80000000 - PAGE_SIZE"
definition SATP_SV39 :: u64 where "SATP_SV39 = push_bit 60 8"
definition MAKE_SATP :: "u64 \<Rightarrow> u64" where "MAKE_SATP pte = SATP_SV39 OR drop_bit 12 pte"

section \<open>Address and entry fields\<close>

definition VPN_SHIFT :: "nat \<Rightarrow> nat" where "VPN_SHIFT level = 12 + 9 * level"
definition VPN_L :: "nat \<Rightarrow> u64 \<Rightarrow> u64" where "VPN_L level va = drop_bit (VPN_SHIFT level) va AND 0x01ff"

definition PTE_FLAGS :: "u64 \<Rightarrow> u64" where "PTE_FLAGS pte = pte AND 0x3FF"
definition PTE_V :: u64 where "PTE_V = push_bit 0 1"
definition PTE_R :: u64 where "PTE_R = push_bit 1 1"
definition PTE_W :: u64 where "PTE_W = push_bit 2 1"
definition PTE_X :: u64 where "PTE_X = push_bit 3 1"
definition PTE_U :: u64 where "PTE_U = push_bit 4 1"

definition PA2PTE :: "u64 \<Rightarrow> u64" where "PA2PTE pa = push_bit 10 (drop_bit 12 pa)"
definition PTE2PA :: "u64 \<Rightarrow> u64" where "PTE2PA pte = push_bit 12 (drop_bit 10 pte)"

definition c_MIN :: "u64 \<Rightarrow> u64 \<Rightarrow> u64" where "c_MIN a b = (if a \<le> b then a else b)"

lemma c_MIN_min [simp]: "c_MIN a b = min a b"
  by (simp add: c_MIN_def min_def)

definition ROUND :: "u64 \<Rightarrow> u64 \<Rightarrow> u64" where "ROUND a n = (a + n - 1) AND NOT (n - 1)"
definition ROUNDDOWN :: "u64 \<Rightarrow> u64 \<Rightarrow> u64" where "ROUNDDOWN a n = a AND NOT (n - 1)"

named_theorems layout \<open>the layout constants as numerals\<close>
declare NASID_def [layout] UART0_def [layout] VIRTIO0_def [layout] CLINT_def [layout]
  PLIC_def [layout] KERNBASE_def [layout] KERNEND_def [layout] PHYEND_def [layout]
  KSTACKTOP_def [layout] PAGE_SIZE_def [layout] USTACKTOP_def [layout]

lemma MAXVA_eq [layout]: "MAXVA = 0x4000000000"
  by (simp add: MAXVA_def push_bit_eq_mult)

lemma UVPT_eq [layout]: "UVPT = 0x3fbffff000"
  by (simp add: UVPT_def MAXVA_eq PAGE_SIZE_def)

lemma pte_bits [layout]:
  "PTE_V = 1" "PTE_R = 2" "PTE_W = 4" "PTE_X = 8" "PTE_U = 16"
  by (simp_all add: PTE_V_def PTE_R_def PTE_W_def PTE_X_def PTE_U_def push_bit_eq_mult)

section \<open>Pages\<close>

text \<open>\<open>page a\<close> holds for the address of a whole page.\<close>

definition page_aligned :: "u64 \<Rightarrow> bool" where
  "page_aligned a \<longleftrightarrow> 4096 dvd unat a"

lemma mask_12: "(4095 :: u64) = mask 12" and mask_10: "(0x3FF :: u64) = mask 10"
  and mask_9: "(0x01ff :: u64) = mask 9"
  by (simp_all add: mask_eq_exp_minus_1)

lemma unat_and_mask: "unat ((a :: u64) AND mask n) = unat a mod 2 ^ n"
proof -
  have "unat (a AND mask n) = take_bit n (unat a)"
    by (simp only: take_bit_eq_mask [symmetric] unsigned_take_bit_eq)
  then show ?thesis by (simp only: take_bit_eq_mod)
qed

lemma and_not_mask: "(a :: u64) AND NOT (mask n) = push_bit n (drop_bit n a)"
  by (rule bit_word_eqI) (auto simp: bit_simps)

lemma unat_drop_push:
  "unat (push_bit n (drop_bit n (a :: u64))) = unat a div 2 ^ n * 2 ^ n"
proof -
  have "unat a div 2 ^ n * 2 ^ n < 2 ^ 64"
    by (rule le_less_trans [OF div_times_less_eq_dividend]) (use unat_bound [of a] in simp)
  moreover have "unat (push_bit n (drop_bit n a)) = take_bit 64 (push_bit n (drop_bit n (unat a)))"
    by (simp only: unsigned_push_bit_eq unat_drop_bit_eq) simp
  ultimately show ?thesis
    by (simp only: push_bit_eq_mult drop_bit_eq_div take_bit_nat_eq_self)
qed

lemma unat_ROUNDDOWN: "unat (ROUNDDOWN a PAGE_SIZE) = unat a div 4096 * 4096"
proof -
  have "ROUNDDOWN a PAGE_SIZE = push_bit 12 (drop_bit 12 a)"
    by (simp only: ROUNDDOWN_def PAGE_SIZE_def and_not_mask [symmetric] mask_12 [symmetric]) simp
  then show ?thesis by (simp add: unat_drop_push)
qed

lemma unat_ROUND:
  assumes "unat a + 4095 < 2 ^ 64"
  shows "unat (ROUND a PAGE_SIZE) = (unat a + 4095) div 4096 * 4096"
proof -
  have "ROUND a PAGE_SIZE = push_bit 12 (drop_bit 12 (a + 4095))"
    by (simp only: ROUND_def PAGE_SIZE_def and_not_mask [symmetric] mask_12 [symmetric])
      (simp add: add_diff_eq [symmetric])
  moreover have "unat (a + 4095) = unat a + 4095"
    using unat_add_nat [of a 4095] assms by simp
  ultimately show ?thesis by (simp add: unat_drop_push)
qed

lemma page_aligned_ROUNDDOWN [simp]: "page_aligned (ROUNDDOWN a PAGE_SIZE)"
  by (simp add: page_aligned_def unat_ROUNDDOWN)

lemma ROUNDDOWN_aligned: "page_aligned a \<Longrightarrow> ROUNDDOWN a PAGE_SIZE = a"
  by (rule word_unat_eq_iff [THEN iffD2]) (auto simp: page_aligned_def unat_ROUNDDOWN)

lemma page_aligned_bit: "page_aligned a \<Longrightarrow> n < 12 \<Longrightarrow> \<not> bit a n"
proof -
  assume "page_aligned a" and "n < 12"
  then have "a AND mask 12 = 0"
    by (intro word_unat_eq_iff [THEN iffD2]) (simp add: unat_and_mask page_aligned_def)
  then have "\<not> bit (a AND mask 12) n" by simp
  with \<open>n < 12\<close> show ?thesis by (simp add: bit_simps)
qed

lemma flags_bit: "PTE_FLAGS f = f \<Longrightarrow> 10 \<le> n \<Longrightarrow> \<not> bit f n"
proof -
  assume f: "PTE_FLAGS f = f" and "10 \<le> n"
  have "\<not> bit (f AND mask 10) n" using \<open>10 \<le> n\<close> by (simp add: bit_simps)
  with f show ?thesis by (simp add: PTE_FLAGS_def mask_10)
qed

text \<open>A physical address goes into an entry and comes out again, and so do its flags: Sv39 entries hold
  44 page number bits, so addresses below \<open>2\<^sup>5\<^sup>6\<close> fit.\<close>

lemma PTE2PA_PA2PTE:
  assumes pa: "page_aligned pa" "unat pa < 2 ^ 56" and f: "PTE_FLAGS f = f"
  shows "PTE2PA (PA2PTE pa OR f) = pa"
proof (rule bit_word_eqI)
  fix n assume "n < LENGTH(64)"
  then have n: "n < 64" by simp
  have high: "\<not> bit pa n" if "56 \<le> n"
  proof -
    have "unat pa < 2 ^ n" using pa(2) that power_increasing [of 56 n "2 :: nat"] by simp
    then have "pa AND mask n = pa"
      by (intro word_unat_eq_iff [THEN iffD2]) (simp add: unat_and_mask)
    then have "bit pa n = bit (pa AND mask n) n" by simp
    then show ?thesis by (simp add: bit_simps)
  qed
  show "bit (PTE2PA (PA2PTE pa OR f)) n = bit pa n"
  proof (cases "12 \<le> n")
    case True
    then have "\<not> bit f (10 + (n - 12))" by (intro flags_bit [OF f]) simp
    with True n high show ?thesis
      by (auto simp: PTE2PA_def PA2PTE_def bit_simps)
  next
    case False
    then show ?thesis using page_aligned_bit [OF pa(1), of n] by (simp add: PTE2PA_def bit_simps)
  qed
qed

lemma PTE_FLAGS_or: "PTE_FLAGS (a OR b) = PTE_FLAGS a OR PTE_FLAGS b"
  unfolding PTE_FLAGS_def mask_10 by (rule bit_word_eqI) (auto simp: bit_simps)

lemma PTE_FLAGS_PA2PTE:
  assumes f: "PTE_FLAGS f = f"
  shows "PTE_FLAGS (PA2PTE pa OR f) = f"
proof -
  have "PTE_FLAGS (PA2PTE pa) = 0"
    unfolding PTE_FLAGS_def mask_10 by (rule bit_word_eqI) (simp add: PA2PTE_def bit_simps)
  with f show ?thesis by (simp add: PTE_FLAGS_or)
qed

lemma page_aligned_PTE2PA [simp]: "page_aligned (PTE2PA pte)"
proof -
  have "PTE2PA pte AND mask 12 = 0"
    by (rule bit_word_eqI) (simp add: PTE2PA_def bit_simps)
  then have "unat (PTE2PA pte) mod 2 ^ 12 = unat (0 :: u64)"
    by (simp only: unat_and_mask [symmetric])
  then show ?thesis by (simp add: page_aligned_def dvd_eq_mod_eq_0)
qed

section \<open>The bytes of a page\<close>

lemma in_page_iff:
  assumes "page_aligned p"
  shows "in_block x p 4096 \<longleftrightarrow> unat x div 4096 = unat p div 4096"
proof -
  have "unat p + 4096 \<le> 2 ^ 64"
    using assms unat_lt_64 [of p] by (auto simp: page_aligned_def)
  then have "in_block x p 4096 \<longleftrightarrow> unat p \<le> unat x \<and> unat x < unat p + 4096"
    by (rule in_block_range)
  then show ?thesis using assms by (auto simp: page_aligned_def)
qed

lemma page_disjoint:
  assumes "page_aligned p" and "page_aligned q" and "in_block x p 4096" and "in_block x q 4096"
  shows "p = q"
proof -
  have "unat p div 4096 = unat q div 4096" using assms by (simp add: in_page_iff)
  then have "unat p = unat q" using assms(1,2) by (auto simp: page_aligned_def)
  then show ?thesis by (simp add: word_unat_eq_iff)
qed

lemma page_first_byte: "in_block p p 4096"
  by (simp add: in_block_def)

text \<open>The \<open>i\<close>-th of the 512 entries of a page table stands at \<open>entry p i\<close>.\<close>

definition entry :: "u64 \<Rightarrow> u64 \<Rightarrow> u64" where
  "entry p i = p + 8 * i"

lemma unat_entry:
  assumes "page_aligned p" and "unat i < 512"
  shows "unat (entry p i) = unat p + 8 * unat i"
proof -
  have "unat (8 * i) = 8 * unat i"
    using assms(2) by (simp add: unat_word_ariths)
  moreover have "unat p + 4096 \<le> 2 ^ 64"
    using assms(1) unat_lt_64 [of p] by (auto simp: page_aligned_def)
  ultimately show ?thesis
    using assms(2) unat_add_word [of p "8 * i"] by (simp add: entry_def)
qed

lemma entry_in_page:
  assumes "page_aligned p" and "unat i < 512" and "in_block x (entry p i) 8"
  shows "in_block x p 4096"
proof -
  have "unat (entry p i) + 8 \<le> 2 ^ 64"
    using assms(1,2) unat_lt_64 [of p] by (auto simp: unat_entry page_aligned_def)
  then have "unat (entry p i) \<le> unat x \<and> unat x < unat (entry p i) + 8"
    using assms(3) in_block_range by blast
  then have "unat p \<le> unat x \<and> unat x < unat p + 4096"
    using assms(2) by (simp add: unat_entry [OF assms(1,2)])
  moreover have "unat p + 4096 \<le> 2 ^ 64"
    using assms(1) unat_lt_64 [of p] by (auto simp: page_aligned_def)
  ultimately show ?thesis by (simp add: in_block_range)
qed

lemma aligned8_entry [simp]: "page_aligned p \<Longrightarrow> unat i < 512 \<Longrightarrow> aligned8 (entry p i)"
  by (auto simp: aligned8_def unat_entry page_aligned_def)

lemma aligned8_page [simp]: "page_aligned p \<Longrightarrow> aligned8 p"
  by (auto simp: aligned8_def page_aligned_def)

lemma entry_inject:
  assumes "page_aligned p" "page_aligned q" "unat i < 512" "unat j < 512"
  shows "entry p i = entry q j \<longleftrightarrow> p = q \<and> i = j"
proof
  assume eq: "entry p i = entry q j"
  have "in_block (entry p i) p 4096" and "in_block (entry p i) q 4096"
    using entry_in_page [of p i "entry p i"] entry_in_page [of q j "entry p i"] assms eq
    by (simp_all add: in_block_def)
  then have "p = q" using assms(1,2) page_disjoint by blast
  moreover from this have "unat i = unat j"
    using unat_entry [OF assms(1,3)] unat_entry [OF assms(2,4)] eq by simp
  ultimately show "p = q \<and> i = j" by (simp add: word_unat_eq_iff)
qed simp

lemma entry_0 [simp]: "entry p 0 = p"
  by (simp add: entry_def)

text \<open>Memory that agrees outside one page has the same entries in every other page.\<close>

lemma load64_other_page:
  assumes "\<And>x. \<not> in_block x p 4096 \<Longrightarrow> m' x = m x"
    and "page_aligned p" "page_aligned q" "q \<noteq> p" "unat i < 512"
  shows "load64 m' (entry q i) = load64 m (entry q i)"
proof (rule load64_cong)
  fix x assume "in_block x (entry q i) 8"
  then have "in_block x q 4096" by (rule entry_in_page [OF assms(3,5)])
  with assms have "\<not> in_block x p 4096" using page_disjoint by blast
  then show "m' x = m x" by (rule assms(1))
qed

lemma load64_filled_page:
  assumes "page_aligned p" and "unat i < 512"
  shows "load64 (filled m p 0 4096) (entry p i) = 0"
  by (rule load64_zero) (simp add: filled_def entry_in_page [OF assms])

text \<open>Stepping from page to page.\<close>

lemma page_step:
  assumes "page_aligned a" and "page_aligned e" and "a < e"
  shows "unat (a + 4096) = unat a + 4096" and "page_aligned (a + 4096)" and "a + 4096 \<le> e" and "a < a + 4096"
proof -
  obtain i j where i: "unat a = 4096 * i" and j: "unat e = 4096 * j"
    using assms(1,2) by (auto simp: page_aligned_def dvd_def)
  with assms(3) have "i < j" by (simp add: word_less_nat_alt)
  then have le: "unat a + 4096 \<le> unat e" using i j by simp
  then show eq: "unat (a + 4096) = unat a + 4096"
    using unat_add_nat [of a 4096] unat_lt_64 [of e] by simp
  show "page_aligned (a + 4096)" using i by (simp add: page_aligned_def eq)
  show "a + 4096 \<le> e" and "a < a + 4096"
    using le by (simp_all add: word_le_nat_alt word_less_nat_alt eq)
qed

lemma page_range_step:
  "page_aligned a \<Longrightarrow> page_aligned e \<Longrightarrow> a < e \<Longrightarrow> page_range a e = a # page_range (a + 4096) e"
  by (subst page_range.simps) (simp add: page_step)

lemma page_range_empty: "\<not> a < e \<Longrightarrow> page_range a e = []"
  by (subst page_range.simps) simp

lemma page_range_members:
  "page_aligned a \<Longrightarrow> page_aligned e \<Longrightarrow> x \<in> set (page_range a e) \<longleftrightarrow> page_aligned x \<and> a \<le> x \<and> x < e"
proof (induction a e rule: page_range.induct)
  case (1 a e)
  show ?case
  proof (cases "a < e")
    case True
    note step = page_step [OF "1.prems" True]
    have IH: "x \<in> set (page_range (a + 4096) e) \<longleftrightarrow> page_aligned x \<and> a + 4096 \<le> x \<and> x < e"
      using "1.IH" True step "1.prems"(2) by simp
    have "x = a" if "page_aligned x" "a \<le> x" "\<not> a + 4096 \<le> x"
      using that page_step(3) [OF "1.prems"(1) that(1)] by (auto simp: le_less)
    then show ?thesis
      using True step(4) IH "1.prems" by (auto simp: page_range_step)
  next
    case False
    then show ?thesis by (auto simp: page_range_empty)
  qed
qed

lemma page_range_distinct: "page_aligned a \<Longrightarrow> page_aligned e \<Longrightarrow> distinct (page_range a e)"
proof (induction a e rule: page_range.induct)
  case (1 a e)
  show ?case
  proof (cases "a < e")
    case True
    note step = page_step [OF "1.prems" True]
    then show ?thesis
      using "1.IH" True "1.prems" by (auto simp: page_range_step page_range_members)
  qed (simp add: page_range_empty)
qed

lemma page_range_length:
  "page_aligned a \<Longrightarrow> page_aligned e \<Longrightarrow> length (page_range a e) = (unat e - unat a) div 4096"
proof (induction a e rule: page_range.induct)
  case (1 a e)
  show ?case
  proof (cases "a < e")
    case True
    note step = page_step [OF "1.prems" True]
    have "unat e - unat a = 4096 + (unat e - unat (a + 4096))"
      using step(1,3) by (simp add: word_le_nat_alt)
    then have "(unat e - unat a) div 4096 = Suc ((unat e - unat (a + 4096)) div 4096)"
      by (simp only:)
    moreover have "length (page_range (a + 4096) e) = (unat e - unat (a + 4096)) div 4096"
      using "1.IH" True "1.prems" step by blast
    ultimately show ?thesis using page_range_step [OF "1.prems" True] by simp
  qed (simp add: page_range_empty word_less_nat_alt)
qed

section \<open>Virtual page numbers\<close>

lemma unat_VPN_L: "unat (VPN_L level va) = unat va div 2 ^ VPN_SHIFT level mod 512"
  by (simp only: VPN_L_def mask_9 unat_and_mask unat_drop_bit_eq, simp only: drop_bit_eq_div, simp)

lemma VPN_L_less: "unat (VPN_L level va) < 512"
  by (simp add: unat_VPN_L)

lemma radix_512:
  "x = y * 4096 + p \<Longrightarrow> y = z * 512 + i \<Longrightarrow> z = w * 512 + j \<Longrightarrow>
   x = w * 2 ^ 30 + j * 2 ^ 21 + i * 2 ^ 12 + (p :: nat)"
  by simp

text \<open>Below \<open>MAXVA\<close> the three indices and the page offset determine the address.\<close>

lemma VPN_decomposition:
  assumes "va < MAXVA"
  shows "unat va = unat (VPN_L 2 va) * 2 ^ 30 + unat (VPN_L 1 va) * 2 ^ 21 + unat (VPN_L 0 va) * 2 ^ 12
    + unat va mod 4096"
proof -
  have "unat va < 2 ^ 38" using assms by (simp add: MAXVA_eq word_less_nat_alt)
  then have "unat va div 2 ^ 30 mod 512 = unat va div 2 ^ 30"
    by (intro mod_less) (simp add: less_mult_imp_div_less)
  moreover have "unat va div 2 ^ 21 = unat va div 2 ^ 30 * 512 + unat va div 2 ^ 21 mod 512"
    using div_mult_mod_eq [of "unat va div 2 ^ 21" 512] by (simp add: div_mult2_eq [symmetric])
  moreover have "unat va div 2 ^ 12 = unat va div 2 ^ 21 * 512 + unat va div 2 ^ 12 mod 512"
    using div_mult_mod_eq [of "unat va div 2 ^ 12" 512] by (simp add: div_mult2_eq [symmetric])
  moreover have "unat va = unat va div 2 ^ 12 * 4096 + unat va mod 4096"
    using div_mult_mod_eq [of "unat va" 4096] by simp
  moreover have "VPN_SHIFT 2 = 30" "VPN_SHIFT 1 = 21" "VPN_SHIFT 0 = 12" by (simp_all add: VPN_SHIFT_def)
  ultimately show ?thesis by (simp only: unat_VPN_L) (erule (2) radix_512)
qed

lemma VPN_inject:
  assumes "va < MAXVA" and "vb < MAXVA" and "page_aligned va" and "page_aligned vb"
    and "VPN_L 2 va = VPN_L 2 vb" and "VPN_L 1 va = VPN_L 1 vb" and "VPN_L 0 va = VPN_L 0 vb"
  shows "va = vb"
proof -
  have "unat va mod 4096 = 0" and "unat vb mod 4096 = 0"
    using assms(3,4) by (simp_all add: page_aligned_def dvd_eq_mod_eq_0)
  then have "unat va = unat vb"
    using VPN_decomposition [OF assms(1)] VPN_decomposition [OF assms(2)] assms(5-7) by simp
  then show ?thesis by (simp add: word_unat_eq_iff)
qed

end
