(* ===== verification/Phypage.thy ===== *)
theory Phypage
  imports KString Mmu
begin

text \<open>
  kern/phypage.c: the allocator of physical pages. A free page's first doubleword holds the address
  of the next free page (\<open>struct run\<close>), \<open>kmem.freelist\<close> the address of the first. The abstract view
  of the allocator is the list of free pages in the order they will be given out; the contract
  other components rely on is the locale \<open>page_allocator\<close>.
\<close>

record kmem =
  mem :: mem
  freelist :: u64

definition kalloc :: "kmem \<Rightarrow> u64 \<times> kmem" where
  "kalloc k =
     (let r = freelist k in
      if r \<noteq> 0
      then (let k = k\<lparr>freelist := load64 (mem k) r\<rparr>;
                k = k\<lparr>mem := fst (memset (mem k) r 0 PAGE_SIZE)\<rparr>
            in (r, k))
      else (r, k))"

definition kfree :: "kmem \<Rightarrow> u64 \<Rightarrow> kmem outcome" where
  "kfree k pa =
     (if pa mod PAGE_SIZE \<noteq> 0 \<or> pa < KERNEND \<or> pa \<ge> PHYEND then Panic ''kfree''
      else (let k = k\<lparr>mem := fst (memset (mem k) pa 0 PAGE_SIZE)\<rparr>;
                k = k\<lparr>mem := store64 (mem k) pa (freelist k)\<rparr>;
                k = k\<lparr>freelist := pa\<rparr>
            in Ret k))"

text \<open>The loop of \<open>freerange\<close>. The second guard is false only where \<open>p + PAGE_SIZE\<close> leaves the address
  space, which is undefined in C.\<close>

function freerange_loop :: "kmem \<Rightarrow> u64 \<Rightarrow> u64 \<Rightarrow> kmem outcome" where
  "freerange_loop k p pa_end =
     (if p + PAGE_SIZE \<le> pa_end \<and> p < p + PAGE_SIZE
      then andThen (kfree k p) (\<lambda>k. freerange_loop k (p + PAGE_SIZE) pa_end)
      else Ret k)"
  by pat_completeness auto
termination
  by (relation "measure (\<lambda>(k, p, pa_end). unat pa_end - unat p)") (auto intro: step_measure)

declare freerange_loop.simps [simp del]

definition freerange :: "kmem \<Rightarrow> u64 \<Rightarrow> u64 \<Rightarrow> kmem outcome" where
  "freerange k pa_start pa_end = freerange_loop k (ROUND pa_start PAGE_SIZE) pa_end"

definition kinit :: "kmem \<Rightarrow> kmem outcome" where
  "kinit k = freerange k KERNEND PHYEND"

text \<open>The self test of the allocator; the addresses it prints are the list in the result.\<close>

definition kalloc_check :: "kmem \<Rightarrow> (u64 list \<times> kmem) outcome" where
  "kalloc_check k =
     (let f0 = freelist k; (p1, k) = kalloc k; (p2, k) = kalloc k; (p3, k) = kalloc k; (pa, k) = kalloc k in
      andThen (kfree k pa) (\<lambda>k. let f1 = freelist k in
      andThen (kfree k (pa - PAGE_SIZE)) (\<lambda>k. let f2 = freelist k in
      andThen (kfree k (pa - 2 * PAGE_SIZE)) (\<lambda>k. let f3 = freelist k in
      andThen (kfree k (pa - 3 * PAGE_SIZE)) (\<lambda>k. let f4 = freelist k in
      andThen (kfree k (pa - 4 * PAGE_SIZE)) (\<lambda>k. let f5 = freelist k in
      Ret ([f0, p1, p2, p3, pa, pa, f1, f2, f3, f4, f5], k)))))))"

section \<open>The list of free pages\<close>

definition ram_page :: "u64 \<Rightarrow> bool" where
  "ram_page p \<longleftrightarrow> page_aligned p \<and> KERNEND \<le> p \<and> p < PHYEND"

fun free_list :: "mem \<Rightarrow> u64 \<Rightarrow> u64 list \<Rightarrow> bool" where
  "free_list m p [] \<longleftrightarrow> p = 0"
| "free_list m p (q # qs) \<longleftrightarrow> p = q \<and> q \<noteq> 0 \<and> free_list m (load64 m q) qs"

definition kmem_inv :: "kmem \<Rightarrow> u64 list \<Rightarrow> bool" where
  "kmem_inv k ps \<longleftrightarrow> free_list (mem k) (freelist k) ps \<and> distinct ps \<and> (\<forall>p\<in>set ps. ram_page p)"

text \<open>What the clients of an allocator of pages rely on: \<open>inv k ps\<close> says that \<open>ps\<close> are the free pages,
  \<open>bytes k\<close> is the memory.\<close>

locale page_allocator =
  fixes alloc :: "'k \<Rightarrow> u64 \<times> 'k"
    and free :: "'k \<Rightarrow> u64 \<Rightarrow> 'k outcome"
    and inv :: "'k \<Rightarrow> u64 list \<Rightarrow> bool"
    and bytes :: "'k \<Rightarrow> mem"
    and ok :: "u64 \<Rightarrow> bool"
  assumes inv_pages: "inv k ps \<Longrightarrow> distinct ps \<and> (\<forall>p\<in>set ps. ok p)"
    and ok_page: "ok p \<Longrightarrow> page_aligned p \<and> p \<noteq> 0"
    and alloc_empty: "inv k [] \<Longrightarrow> alloc k = (0, k)"
    and alloc_page: "inv k (p # ps) \<Longrightarrow>
      \<exists>k'. alloc k = (p, k') \<and> inv k' ps \<and> bytes k' = filled (bytes k) p 0 4096"
    and free_page: "inv k ps \<Longrightarrow> ok p \<Longrightarrow> p \<notin> set ps \<Longrightarrow>
      \<exists>k'. free k p = Ret k' \<and> inv k' (p # ps) \<and>
        (\<forall>x. \<not> in_block x p 4096 \<longrightarrow> bytes k' x = bytes k x)"
begin

lemma alloc_cases:
  assumes "inv k ps" and "alloc k = (p, k')"
  obtains "p = 0" "ps = []" "k' = k"
  | qs where "ps = p # qs" "p \<noteq> 0" "page_aligned p" "ok p" "p \<notin> set qs" "inv k' qs"
      "bytes k' = filled (bytes k) p 0 4096"
proof (cases ps)
  case Nil
  then show ?thesis using assms alloc_empty [of k] that(1) by simp
next
  case (Cons q qs)
  with assms obtain "q = p" and "inv k' qs" and "bytes k' = filled (bytes k) p 0 4096"
    using alloc_page [of k q qs] by auto
  moreover have "ok p" and "p \<notin> set qs" using inv_pages [OF assms(1)] Cons \<open>q = p\<close> by auto
  ultimately show ?thesis using that(2) Cons ok_page by blast
qed

text \<open>The pages of \<open>n\<close> allocations in a row.\<close>

fun allocs :: "nat \<Rightarrow> 'k \<Rightarrow> u64 list \<times> 'k" where
  "allocs 0 k = ([], k)"
| "allocs (Suc n) k = (let (p, k) = alloc k; (ps, k) = allocs n k in (p # ps, k))"

lemma allocs_take:
  "inv k ps \<Longrightarrow> n \<le> length ps \<Longrightarrow>
   fst (allocs n k) = take n ps \<and> inv (snd (allocs n k)) (drop n ps)"
proof (induction n arbitrary: k ps)
  case (Suc n)
  then obtain p qs where ps: "ps = p # qs" by (cases ps) auto
  with Suc.prems obtain k' where "alloc k = (p, k')" and "inv k' qs" using alloc_page by blast
  then show ?case using Suc.IH [of k' qs] Suc.prems(2) ps by (simp add: split_beta)
qed simp

lemma allocs_distinct: "inv k ps \<Longrightarrow> n \<le> length ps \<Longrightarrow> distinct (fst (allocs n k))"
  using allocs_take [of k ps n] inv_pages [of k ps] by simp

lemma free_alloc:
  assumes "inv k ps" and "ok p" and "p \<notin> set ps"
  shows "\<exists>k1 k2. free k p = Ret k1 \<and> alloc k1 = (p, k2) \<and> inv k2 ps \<and>
    (\<forall>x. \<not> in_block x p 4096 \<longrightarrow> bytes k2 x = bytes k x)"
proof -
  obtain k1 where k1: "free k p = Ret k1" "inv k1 (p # ps)"
    and frame: "\<forall>x. \<not> in_block x p 4096 \<longrightarrow> bytes k1 x = bytes k x"
    using free_page [OF assms] by blast
  obtain k2 where "alloc k1 = (p, k2)" "inv k2 ps" "bytes k2 = filled (bytes k1) p 0 4096"
    using alloc_page [OF k1(2)] by blast
  with k1 frame show ?thesis by (auto simp: filled_def)
qed

end

section \<open>The allocator meets the contract\<close>

lemma ram_pageD:
  assumes "ram_page p"
  shows "page_aligned p" and "p \<noteq> 0" and "unat p + 4096 < 2 ^ 64" and "unat p < 2 ^ 56"
  using assms by (auto simp: ram_page_def layout word_le_nat_alt word_less_nat_alt)

lemma ram_page_guard:
  "ram_page p \<longleftrightarrow> \<not> (p mod PAGE_SIZE \<noteq> 0 \<or> p < KERNEND \<or> p \<ge> PHYEND)"
  by (auto simp: ram_page_def page_aligned_def PAGE_SIZE_def word_unat_eq_iff unat_mod dvd_eq_mod_eq_0)

lemma memset_page: "ram_page p \<Longrightarrow> memset m p 0 PAGE_SIZE = (filled m p 0 4096, p)"
  using memset_filled [of p PAGE_SIZE m 0] ram_pageD(3) [of p] by (simp add: PAGE_SIZE_def)

lemma free_list_cong:
  "(\<And>q. q \<in> set ps \<Longrightarrow> load64 m' q = load64 m q) \<Longrightarrow> free_list m' p ps \<longleftrightarrow> free_list m p ps"
  by (induction ps arbitrary: p) auto

lemma free_list_frame:
  assumes "\<And>x. \<not> in_block x p 4096 \<Longrightarrow> m' x = m x" and "page_aligned p"
    and "p \<notin> set ps" and "\<forall>q\<in>set ps. ram_page q"
  shows "free_list m' r ps \<longleftrightarrow> free_list m r ps"
proof (rule free_list_cong)
  fix q assume q: "q \<in> set ps"
  then have "page_aligned q" and "q \<noteq> p" using assms(3,4) ram_pageD(1) by auto
  then show "load64 m' q = load64 m q"
    using load64_other_page [OF assms(1,2), where q = q and i = 0] by simp
qed

lemma kmem_inv_frame:
  assumes "kmem_inv k ps" and "\<And>x. \<not> in_block x p 4096 \<Longrightarrow> m' x = mem k x"
    and "page_aligned p" and "p \<notin> set ps"
  shows "kmem_inv (k\<lparr>mem := m'\<rparr>) ps"
  using assms free_list_frame [OF assms(2,3,4), where r = "freelist k"] by (simp add: kmem_inv_def)

lemma kalloc_empty: "kmem_inv k [] \<Longrightarrow> kalloc k = (0, k)"
  by (simp add: kmem_inv_def kalloc_def)

lemma kalloc_page:
  assumes inv: "kmem_inv k (p # ps)"
  shows "\<exists>k'. kalloc k = (p, k') \<and> kmem_inv k' ps \<and> mem k' = filled (mem k) p 0 4096"
proof -
  let ?m = "filled (mem k) p 0 4096"
  let ?k = "k\<lparr>freelist := load64 (mem k) p, mem := ?m\<rparr>"
  have p: "ram_page p" and fresh: "p \<notin> set ps" and head: "freelist k = p" "p \<noteq> 0"
    and ps: "\<forall>q\<in>set ps. ram_page q" and rest: "free_list (mem k) (load64 (mem k) p) ps"
    using inv by (auto simp: kmem_inv_def)
  have "kalloc k = (p, ?k)"
    using head by (simp add: kalloc_def memset_page [OF p])
  moreover have "free_list ?m (load64 (mem k) p) ps"
    using free_list_frame [of p ?m "mem k" ps] rest ps fresh ram_pageD(1) [OF p]
    by (simp add: filled_def)
  then have "kmem_inv ?k ps" using inv by (simp add: kmem_inv_def)
  ultimately show ?thesis by auto
qed

lemma kfree_page:
  assumes inv: "kmem_inv k ps" and p: "ram_page p" and fresh: "p \<notin> set ps"
  shows "\<exists>k'. kfree k p = Ret k' \<and> kmem_inv k' (p # ps) \<and>
    (\<forall>x. \<not> in_block x p 4096 \<longrightarrow> mem k' x = mem k x)"
proof -
  let ?m = "store64 (filled (mem k) p 0 4096) p (freelist k)"
  let ?k = "k\<lparr>mem := ?m, freelist := p\<rparr>"
  have al: "page_aligned p" using ram_pageD(1) [OF p] .
  have frame: "?m x = mem k x" if "\<not> in_block x p 4096" for x
  proof -
    have "\<not> in_block x p 8" using that by (simp add: in_block_def)
    then show ?thesis using that by (simp add: store64_other filled_def)
  qed
  have "kfree k p = Ret ?k"
    using ram_page_guard [of p] p by (simp add: kfree_def memset_page)
  moreover have "free_list ?m (freelist k) ps"
    using free_list_frame [OF frame al fresh] inv by (simp add: kmem_inv_def)
  then have "kmem_inv ?k (p # ps)"
    using inv p fresh ram_pageD(2) [OF p] by (simp add: kmem_inv_def)
  ultimately show ?thesis using frame by auto
qed

interpretation pages: page_allocator kalloc kfree kmem_inv mem ram_page
proof unfold_locales
  show "kmem_inv k ps \<Longrightarrow> distinct ps \<and> (\<forall>p\<in>set ps. ram_page p)" for k ps
    by (simp add: kmem_inv_def)
qed (simp_all add: ram_pageD kalloc_empty kalloc_page kfree_page)

lemma kfree_panics_iff: "kfree k p = Panic ''kfree'' \<longleftrightarrow> \<not> ram_page p"
  using ram_page_guard [of p] by (simp add: kfree_def)

section \<open>Filling the list at boot\<close>

lemma freerange_loop_pages:
  "page_aligned p \<Longrightarrow> KERNEND \<le> p \<Longrightarrow> kmem_inv k ps \<Longrightarrow> (\<forall>q\<in>set ps. q < p) \<Longrightarrow>
   \<exists>k'. freerange_loop k p PHYEND = Ret k' \<and> kmem_inv k' (rev (page_range p PHYEND) @ ps) \<and>
     (\<forall>x. (\<forall>q\<in>set (page_range p PHYEND). \<not> in_block x q 4096) \<longrightarrow> mem k' x = mem k x)"
proof (induction k p PHYEND arbitrary: ps rule: freerange_loop.induct)
  case (1 k p)
  have al: "page_aligned PHYEND" by (simp add: page_aligned_def PHYEND_def)
  show ?case
  proof (cases "p < PHYEND")
    case True
    note step = page_step [OF "1.prems"(1) al True, folded PAGE_SIZE_def]
    have "ram_page p" and "p \<notin> set ps" using "1.prems" True by (auto simp: ram_page_def)
    then obtain k1 where k1: "kfree k p = Ret k1" "kmem_inv k1 (p # ps)"
      and frame1: "\<forall>x. \<not> in_block x p 4096 \<longrightarrow> mem k1 x = mem k x"
      using kfree_page "1.prems"(3) by blast
    have "KERNEND \<le> p + PAGE_SIZE" and "\<forall>q\<in>set (p # ps). q < p + PAGE_SIZE"
      using "1.prems"(2,4) step(4) by auto
    then obtain k2 where k2: "freerange_loop k1 (p + PAGE_SIZE) PHYEND = Ret k2"
        "kmem_inv k2 (rev (page_range (p + PAGE_SIZE) PHYEND) @ p # ps)"
      and frame2: "\<forall>x. (\<forall>q\<in>set (page_range (p + PAGE_SIZE) PHYEND). \<not> in_block x q 4096) \<longrightarrow>
        mem k2 x = mem k1 x"
      using "1.hyps" [OF conjI [OF step(3,4)] k1(1) step(2) _ k1(2)] by blast
    have pages: "page_range p PHYEND = p # page_range (p + PAGE_SIZE) PHYEND"
      using page_range_step [OF "1.prems"(1) al True] by (simp add: PAGE_SIZE_def)
    have "freerange_loop k p PHYEND = Ret k2"
      using step(3,4) k1(1) k2(1) by (simp add: freerange_loop.simps [of k])
    then show ?thesis using k2(2) frame1 frame2 pages by simp
  next
    case False
    then have "\<not> (p + PAGE_SIZE \<le> PHYEND \<and> p < p + PAGE_SIZE)" by auto
    then have "freerange_loop k p PHYEND = Ret k" by (subst freerange_loop.simps) (simp only: if_False)
    then show ?thesis using False "1.prems" by (simp add: page_range_empty)
  qed
qed

text \<open>After \<open>kinit\<close> every page between the kernel's end and the end of memory is free, the highest
  first.\<close>

definition boot_pages :: "u64 list" where
  "boot_pages = rev (page_range KERNEND PHYEND)"

lemma boot_pages: "set boot_pages = Collect ram_page" "distinct boot_pages" "length boot_pages = 31744"
proof -
  have al: "page_aligned KERNEND" "page_aligned PHYEND"
    by (simp_all add: page_aligned_def layout)
  show "set boot_pages = Collect ram_page"
    by (simp add: boot_pages_def ram_page_def set_eq_iff page_range_members [OF al])
  show "distinct boot_pages" using page_range_distinct [OF al] by (simp add: boot_pages_def)
  show "length boot_pages = 31744"
    using page_range_length [OF al] by (simp add: boot_pages_def layout)
qed

lemma kinit_pages:
  assumes "freelist k = 0"
  shows "\<exists>k'. kinit k = Ret k' \<and> kmem_inv k' boot_pages \<and>
    (\<forall>x. \<not> (\<exists>q. ram_page q \<and> in_block x q 4096) \<longrightarrow> mem k' x = mem k x)"
proof -
  have al: "page_aligned KERNEND" "page_aligned PHYEND"
    by (simp_all add: page_aligned_def layout)
  have "ROUND KERNEND PAGE_SIZE = KERNEND"
    by (rule word_unat_eq_iff [THEN iffD2]) (use unat_ROUND [of KERNEND] in \<open>simp add: layout\<close>)
  moreover have "kmem_inv k []" using assms by (simp add: kmem_inv_def)
  then obtain k' where "freerange_loop k KERNEND PHYEND = Ret k'"
      "kmem_inv k' (rev (page_range KERNEND PHYEND) @ [])"
      "\<forall>x. (\<forall>q\<in>set (page_range KERNEND PHYEND). \<not> in_block x q 4096) \<longrightarrow> mem k' x = mem k x"
    using freerange_loop_pages [OF al(1) order_refl, of k "[]"] by auto
  ultimately show ?thesis
    using page_range_members [OF al]
    by (auto simp: kinit_def freerange_def boot_pages_def ram_page_def)
qed

end
