(* ===== verification/Vm.thy ===== *)
theory Vm
  imports Phypage
begin

text \<open>
  kern/vm.c: Sv39 page tables in physical memory. A page table is a page of 512 entries; \<open>walk\<close>
  descends two levels to the entry of a virtual page, building tables on the way when asked to;
  \<open>mappages\<close>, \<open>uvmunmap\<close>, \<open>uvmalloc\<close>, \<open>uvmdealloc\<close>, \<open>freewalk\<close> and the rest work on top of it.
  Pointers to tables and entries are addresses, the null pointer is 0, C's \<open>int\<close> results are
  integers. The TLB flushes (\<open>sfence_vma\<close>) and the prints do not change this state.
\<close>

section \<open>Walking and mapping\<close>

text \<open>The loop \<open>for (int level = 2; level > 0; level--)\<close> of \<open>walk\<close>, followed by its last line.\<close>

fun walk_levels :: "nat \<Rightarrow> kmem \<Rightarrow> u64 \<Rightarrow> u64 \<Rightarrow> bool \<Rightarrow> u64 \<times> kmem" where
  "walk_levels 0 k pagetable va alloc = (entry pagetable (VPN_L 0 va), k)"
| "walk_levels (Suc l) k pagetable va alloc =
     (let pte = entry pagetable (VPN_L (Suc l) va) in
      if load64 (mem k) pte AND PTE_V \<noteq> 0
      then walk_levels l k (PTE2PA (load64 (mem k) pte)) va alloc
      else if alloc
      then (let (pagetable, k) = kalloc k in
            if pagetable = 0 then (0, k)
            else (let k = k\<lparr>mem := fst (memset (mem k) pagetable 0 PAGE_SIZE)\<rparr>;
                      k = k\<lparr>mem := store64 (mem k) pte (PA2PTE pagetable OR PTE_V)\<rparr>
                  in walk_levels l k pagetable va alloc))
      else (0, k))"

definition walk :: "kmem \<Rightarrow> u64 \<Rightarrow> u64 \<Rightarrow> bool \<Rightarrow> (u64 \<times> kmem) outcome" where
  "walk k pagetable va alloc =
     (if va \<ge> MAXVA then Panic ''walk'' else Ret (walk_levels 2 k pagetable va alloc))"

text \<open>\<open>lookup\<close> returns the physical address and what it stores through \<open>ppte\<close>, if anything.\<close>

definition lookup :: "kmem \<Rightarrow> u64 \<Rightarrow> u64 \<Rightarrow> (u64 \<times> u64 option \<times> kmem) outcome" where
  "lookup k pagetable va =
     andThen (walk k pagetable va False) (\<lambda>(pte, k).
       if pte = 0 \<or> load64 (mem k) pte AND PTE_V = 0 then Ret (0, None, k)
       else if load64 (mem k) pte AND PTE_U = 0 then Ret (0, None, k)
       else (let pa = PTE2PA (load64 (mem k) pte) in Ret (pa, Some pte, k)))"

text \<open>Address loops below \<open>MAXVA\<close> get closer to it.\<close>

lemma MAXVA_measure: "a < MAXVA \<Longrightarrow> unat MAXVA - unat (a + PAGE_SIZE) < unat MAXVA - unat a"
  using unat_add_nat [of a 4096] by (simp add: MAXVA_eq PAGE_SIZE_def word_less_nat_alt)

lemma walk_Ret: "walk k pt va alloc = Ret y \<Longrightarrow> va < MAXVA \<and> y = walk_levels 2 k pt va alloc"
  by (auto simp: walk_def split: if_splits)

function mappages_loop :: "kmem \<Rightarrow> u64 \<Rightarrow> u64 \<Rightarrow> u64 \<Rightarrow> u64 \<Rightarrow> u32 \<Rightarrow> (int \<times> kmem) outcome" where
  "mappages_loop k pagetable start last' pa perm =
     andThen (walk k pagetable start True) (\<lambda>(pte, k).
       if pte = 0 then Ret (-1, k)
       else if load64 (mem k) pte AND PTE_V \<noteq> 0
       then Panic ''mappages: remap; use uvmunmap first''
       else (let k = k\<lparr>mem := store64 (mem k) pte (PA2PTE pa OR scast perm OR PTE_V)\<rparr> in
             if start = last' then Ret (0, k)
             else mappages_loop k pagetable (start + PAGE_SIZE) last' (pa + PAGE_SIZE) perm))"
  by pat_completeness auto
termination
  by (relation "measure (\<lambda>(k, pagetable, start, last', pa, perm). unat MAXVA - unat start)")
    (auto dest: walk_Ret intro: MAXVA_measure)

declare mappages_loop.simps [simp del]

definition mappages :: "kmem \<Rightarrow> u64 \<Rightarrow> u64 \<Rightarrow> u64 \<Rightarrow> u64 \<Rightarrow> u32 \<Rightarrow> (int \<times> kmem) outcome" where
  "mappages k pagetable va size' pa perm =
     (if size' = 0 then Panic ''mappages: size''
      else (let start = ROUNDDOWN va PAGE_SIZE; last' = ROUNDDOWN (va + size' - 1) PAGE_SIZE in
            mappages_loop k pagetable start last' pa perm))"

definition kvmmap :: "kmem \<Rightarrow> u64 \<Rightarrow> u64 \<Rightarrow> u64 \<Rightarrow> u64 \<Rightarrow> u32 \<Rightarrow> kmem outcome" where
  "kvmmap k pagetable va pa size' perm =
     andThen (mappages k pagetable va size' pa perm) (\<lambda>(r, k).
       if r \<noteq> 0 then Panic ''kvmmap'' else Ret k)"

section \<open>Unmapping\<close>

text \<open>The loop of \<open>uvmunmap\<close>, over the values its variable \<open>a\<close> takes. The body walks to \<open>va\<close>, as the
  source does, and never uses \<open>a\<close>.\<close>

fun uvmunmap_loop :: "kmem \<Rightarrow> u64 \<Rightarrow> u64 \<Rightarrow> bool \<Rightarrow> u64 list \<Rightarrow> kmem outcome" where
  "uvmunmap_loop k pagetable va do_free [] = Ret k"
| "uvmunmap_loop k pagetable va do_free (a # as) =
     andThen (walk k pagetable va False) (\<lambda>(pte, k).
       if pte = 0 \<or> load64 (mem k) pte AND PTE_V = 0 then Panic ''uvmunmap: not mapped''
       else if PTE_FLAGS (load64 (mem k) pte) = PTE_V then Panic ''uvmunmap: not leaf''
       else andThen (if do_free then kfree k (PTE2PA (load64 (mem k) pte)) else Ret k) (\<lambda>k.
         uvmunmap_loop (k\<lparr>mem := store64 (mem k) pte 0\<rparr>) pagetable va do_free as))"

definition uvmunmap :: "kmem \<Rightarrow> u64 \<Rightarrow> u64 \<Rightarrow> u64 \<Rightarrow> bool \<Rightarrow> (int \<times> kmem) outcome" where
  "uvmunmap k pagetable va npages do_free =
     (if va mod PAGE_SIZE \<noteq> 0 then Panic ''uvmunmap: va not aligned''
      else andThen (uvmunmap_loop k pagetable va do_free (page_range va (va + npages * PAGE_SIZE)))
             (\<lambda>k. Ret (0, k)))"

text \<open>The number of pages is an \<open>int\<close>, which the call converts to \<open>u_long\<close>.\<close>

definition uvmdealloc :: "kmem \<Rightarrow> u64 \<Rightarrow> u64 \<Rightarrow> u64 \<Rightarrow> (u64 \<times> kmem) outcome" where
  "uvmdealloc k pagetable old_size new_size =
     (if new_size \<ge> old_size then Ret (old_size, k)
      else if ROUND new_size PAGE_SIZE < ROUND old_size PAGE_SIZE
      then (let npages = ucast ((ROUND old_size PAGE_SIZE - ROUND new_size PAGE_SIZE) div PAGE_SIZE) :: u32 in
            andThen (uvmunmap k pagetable (ROUND new_size PAGE_SIZE) (scast npages) True)
              (\<lambda>(r, k). Ret (new_size, k)))
      else Ret (new_size, k))"

lemma mappages_loop_Ret_start: "mappages_loop k pt start last' pa perm = Ret y \<Longrightarrow> start < MAXVA"
  by (subst (asm) mappages_loop.simps) (auto dest: walk_Ret)

lemma ROUNDDOWN_less_MAXVA: "ROUNDDOWN va PAGE_SIZE < MAXVA \<longleftrightarrow> va < MAXVA"
proof -
  have "unat va div 4096 * 4096 < 274877906944 \<longleftrightarrow> unat va < 274877906944"
    using div_less_iff_less_mult [of 4096 "unat va" 67108864] by auto
  then show ?thesis by (simp add: word_less_nat_alt unat_ROUNDDOWN MAXVA_eq)
qed

lemma mappages_Ret_va: "mappages k pt va size' pa perm = Ret y \<Longrightarrow> va < MAXVA"
  by (auto simp: mappages_def Let_def split: if_splits dest: mappages_loop_Ret_start
      intro: ROUNDDOWN_less_MAXVA [THEN iffD1])

section \<open>User memory\<close>

function uvmalloc_loop :: "kmem \<Rightarrow> u64 \<Rightarrow> u64 \<Rightarrow> u64 \<Rightarrow> u64 \<Rightarrow> u32 \<Rightarrow> (u64 \<times> kmem) outcome" where
  "uvmalloc_loop k pagetable old_size a new_size perm =
     (if a < new_size
      then (let (mem', k) = kalloc k in
            if mem' = 0
            then andThen (uvmdealloc k pagetable a old_size) (\<lambda>(r, k). Ret (0, k))
            else (let k = k\<lparr>mem := fst (memset (mem k) mem' 0 PAGE_SIZE)\<rparr> in
                  andThen (mappages k pagetable a PAGE_SIZE mem' (ucast (PTE_R OR PTE_U) OR perm)) (\<lambda>(r, k).
                    if r \<noteq> 0
                    then andThen (kfree k mem') (\<lambda>k.
                         andThen (uvmdealloc k pagetable a old_size) (\<lambda>(r, k). Ret (0, k)))
                    else uvmalloc_loop k pagetable old_size (a + PAGE_SIZE) new_size perm)))
      else Ret (new_size, k))"
  by pat_completeness auto
termination
  by (relation "measure (\<lambda>(k, pagetable, old_size, a, new_size, perm). unat MAXVA - unat a)")
    (auto dest: mappages_Ret_va intro: MAXVA_measure)

declare uvmalloc_loop.simps [simp del]

text \<open>On an error \<open>uvmalloc\<close> takes the pages it has mapped away again and returns 0.\<close>

definition uvmalloc :: "kmem \<Rightarrow> u64 \<Rightarrow> u64 \<Rightarrow> u64 \<Rightarrow> u32 \<Rightarrow> (u64 \<times> kmem) outcome" where
  "uvmalloc k pagetable old_size new_size perm =
     (if new_size < old_size then Ret (old_size, k)
      else (let old_size = ROUND old_size PAGE_SIZE in
            uvmalloc_loop k pagetable old_size old_size new_size perm))"

definition uvmcreate :: "kmem \<Rightarrow> u64 \<times> kmem" where
  "uvmcreate k =
     (let (pagetable, k) = kalloc k in
      if pagetable = 0 then (0, k)
      else (pagetable, k\<lparr>mem := fst (memset (mem k) pagetable 0 PAGE_SIZE)\<rparr>))"

text \<open>\<open>freewalk\<close> recurses into every table it finds, at any depth. The first argument bounds the depth;
  \<open>freewalk_entries\<close> is the loop over the entries \<open>i, \<dots>, 511\<close> of one table.\<close>

function (sequential) freewalk :: "nat \<Rightarrow> kmem \<Rightarrow> u64 \<Rightarrow> kmem outcome"
  and freewalk_entries :: "nat \<Rightarrow> kmem \<Rightarrow> u64 \<Rightarrow> nat \<Rightarrow> kmem outcome" where
  "freewalk 0 k pagetable = NoFuel"
| "freewalk (Suc d) k pagetable =
     andThen (freewalk_entries d k pagetable 0) (\<lambda>k. kfree k pagetable)"
| "freewalk_entries d k pagetable i =
     (if i < 512
      then (let slot = entry pagetable (word_of_nat i); pte = load64 (mem k) slot in
            if pte AND PTE_V \<noteq> 0 \<and> pte AND (PTE_R OR PTE_W OR PTE_X) = 0
            then andThen (freewalk d k (PTE2PA pte)) (\<lambda>k.
                   freewalk_entries d (k\<lparr>mem := store64 (mem k) slot 0\<rparr>) pagetable (Suc i))
            else if pte AND PTE_V \<noteq> 0 then Panic ''freewalk: leaf still mapped''
            else freewalk_entries d k pagetable (Suc i))
      else Ret k)"
  by pat_completeness auto
termination
  by (relation "measures [\<lambda>x. (case x of Inl (d, _, _) \<Rightarrow> 2 * d | Inr (d, _, _, _) \<Rightarrow> 2 * d + 1),
      \<lambda>x. (case x of Inl _ \<Rightarrow> 0 | Inr (_, _, _, i) \<Rightarrow> 512 - i)]") auto

declare freewalk_entries.simps [simp del]

definition uvmfree :: "nat \<Rightarrow> kmem \<Rightarrow> u64 \<Rightarrow> u64 \<Rightarrow> kmem outcome" where
  "uvmfree depth k pagetable size' =
     andThen (if size' > 0
              then andThen (uvmunmap k pagetable 0 (ROUND size' PAGE_SIZE div PAGE_SIZE) True)
                     (\<lambda>(r, k). Ret k)
              else Ret k)
       (\<lambda>k. freewalk depth k pagetable)"

section \<open>The kernel's table and its copies\<close>

function kvm_copy_loop :: "kmem \<Rightarrow> u64 \<Rightarrow> u64 \<Rightarrow> u64 \<Rightarrow> (int \<times> kmem) outcome" where
  "kvm_copy_loop k kernel_pagetable upgtable i =
     (if i < MAXVA
      then andThen (walk k kernel_pagetable i False) (\<lambda>(pte, k).
        if pte = 0 then kvm_copy_loop k kernel_pagetable upgtable (i + PAGE_SIZE)
        else if load64 (mem k) pte AND PTE_V = 0
        then kvm_copy_loop k kernel_pagetable upgtable (i + PAGE_SIZE)
        else (let pa = PTE2PA (load64 (mem k) pte);
                  flags = ucast (PTE_FLAGS (load64 (mem k) pte)) :: u32 in
              andThen (mappages k upgtable i PAGE_SIZE pa flags) (\<lambda>(r, k).
                if r \<noteq> 0
                then andThen (uvmunmap k upgtable 0x80000000 (i div PAGE_SIZE) False)
                       (\<lambda>(r, k). Ret (-1, k))
                else kvm_copy_loop k kernel_pagetable upgtable (i + PAGE_SIZE))))
      else Ret (0, k))"
  by pat_completeness auto
termination
  by (relation "measure (\<lambda>(k, kernel_pagetable, upgtable, i). unat MAXVA - unat i)")
    (auto intro: MAXVA_measure)

declare kvm_copy_loop.simps [simp del]

definition kvm_copy_to_user_pagetable :: "kmem \<Rightarrow> u64 \<Rightarrow> u64 \<Rightarrow> (int \<times> kmem) outcome" where
  "kvm_copy_to_user_pagetable k kernel_pagetable upgtable =
     kvm_copy_loop k kernel_pagetable upgtable 0x80000000"

text \<open>\<open>env_create_envs\<close> (kern/env.c) gives each of the 1024 environment slots a page high in the
  kernel's address space.\<close>

fun env_create_envs_from :: "nat list \<Rightarrow> kmem \<Rightarrow> u64 \<Rightarrow> kmem outcome" where
  "env_create_envs_from [] k kpagetable = Ret k"
| "env_create_envs_from (e # es) k kpagetable =
     (let (pa, k) = kalloc k in
      if pa = 0 then Panic ''env_create_envs: out of memory''
      else (let va = ENVS (word_of_nat e) in
            andThen (kvmmap k kpagetable va pa PAGE_SIZE (ucast (PTE_R OR PTE_W))) (\<lambda>k.
              env_create_envs_from es k kpagetable)))"

definition env_create_envs :: "kmem \<Rightarrow> u64 \<Rightarrow> kmem outcome" where
  "env_create_envs k kpagetable = env_create_envs_from [0..<1024] k kpagetable"

text \<open>\<open>etext\<close>, the end of the kernel's text, is set by the linker.\<close>

definition kvmcreate :: "kmem \<Rightarrow> u64 \<Rightarrow> (u64 \<times> kmem) outcome" where
  "kvmcreate k etext =
     (let (kpgtable, k) = kalloc k; k = k\<lparr>mem := fst (memset (mem k) kpgtable 0 PAGE_SIZE)\<rparr>;
          rw = ucast (PTE_R OR PTE_W) :: u32; rx = ucast (PTE_R OR PTE_X) :: u32 in
      andThen (kvmmap k kpgtable (CLINT + 0x88000000) CLINT 0x10000 rw) (\<lambda>k.
      andThen (kvmmap k kpgtable (UART0 + 0x88000000) UART0 PAGE_SIZE rw) (\<lambda>k.
      andThen (kvmmap k kpgtable (VIRTIO0 + 0x88000000) VIRTIO0 PAGE_SIZE rw) (\<lambda>k.
      andThen (kvmmap k kpgtable (PLIC + 0x88000000) PLIC 0x400000 rw) (\<lambda>k.
      andThen (kvmmap k kpgtable 0x80000000 0x80000000 (etext - 0x80000000) rx) (\<lambda>k.
      andThen (kvmmap k kpgtable (ROUND etext PAGE_SIZE) (ROUND etext PAGE_SIZE) (PHYEND - etext) rw) (\<lambda>k.
      andThen (env_create_envs k kpgtable) (\<lambda>k.
      Ret (kpgtable, k)))))))))"

end
