(* ===== verification/PageTables.thy ===== *)
theory PageTables
  imports Vm
begin

text \<open>
  The abstract view of kern/vm.c's page tables. A table is reached from its root by a path of at most
  two indices (\<open>table\<close>); a virtual page is translated by the entry its last index selects
  (\<open>translate\<close>). The invariant \<open>pt_inv\<close> says of a set of roots that their tables are distinct pages of
  memory, none of them free. Two kinds of store keep it: linking a fresh table, which changes no
  translation, and writing an entry of the last level, which changes the translation of one page.
\<close>

section \<open>Tables and translation\<close>

definition pte_at :: "mem \<Rightarrow> u64 \<Rightarrow> u64 \<Rightarrow> u64" where
  "pte_at m t i = load64 m (entry t i)"

fun table :: "mem \<Rightarrow> u64 \<Rightarrow> u64 list \<Rightarrow> u64 option" where
  "table m t [] = Some t"
| "table m t (i # is) =
     (if pte_at m t i AND PTE_V \<noteq> 0 then table m (PTE2PA (pte_at m t i)) is else None)"

definition paths :: "nat \<Rightarrow> u64 list set" where
  "paths n = {P. length P \<le> n \<and> (\<forall>i\<in>set P. unat i < 512)}"

definition vpath :: "u64 \<Rightarrow> u64 list" where
  "vpath va = [VPN_L 2 va, VPN_L 1 va]"

definition translate :: "mem \<Rightarrow> u64 \<Rightarrow> u64 \<Rightarrow> u64 option" where
  "translate m r va =
     (case table m r (vpath va) of None \<Rightarrow> None
      | Some t \<Rightarrow> (let e = pte_at m t (VPN_L 0 va) in if e AND PTE_V \<noteq> 0 then Some e else None))"

definition nodes :: "mem \<Rightarrow> u64 set \<Rightarrow> u64 set" where
  "nodes m R = {t. \<exists>r\<in>R. \<exists>P\<in>paths 2. table m r P = Some t}"

definition tables_ok :: "mem \<Rightarrow> u64 set \<Rightarrow> u64 list \<Rightarrow> bool" where
  "tables_ok m R ps \<longleftrightarrow>
     (\<forall>t\<in>nodes m R. ram_page t \<and> t \<notin> set ps) \<and>
     (\<forall>r\<in>R. \<forall>s\<in>R. \<forall>P\<in>paths 2. \<forall>Q\<in>paths 2. \<forall>t.
        table m r P = Some t \<longrightarrow> table m s Q = Some t \<longrightarrow> r = s \<and> P = Q)"

definition pt_inv :: "kmem \<Rightarrow> u64 set \<Rightarrow> u64 list \<Rightarrow> bool" where
  "pt_inv k R ps \<longleftrightarrow> kmem_inv k ps \<and> tables_ok (mem k) R ps"

lemma table_snoc:
  "table m t (P @ [i]) =
     (case table m t P of None \<Rightarrow> None
      | Some t' \<Rightarrow> if pte_at m t' i AND PTE_V \<noteq> 0 then Some (PTE2PA (pte_at m t' i)) else None)"
  by (induction P arbitrary: t) auto

lemma paths_snoc [simp]: "P @ [i] \<in> paths (Suc n) \<longleftrightarrow> P \<in> paths n \<and> unat i < 512"
  by (auto simp: paths_def)

lemma paths_mono: "P \<in> paths n \<Longrightarrow> n \<le> m \<Longrightarrow> P \<in> paths m"
  by (auto simp: paths_def)

lemma vpath_paths [simp]: "vpath va \<in> paths 2"
  by (simp add: vpath_def paths_def VPN_L_less)

lemma nodesI: "r \<in> R \<Longrightarrow> P \<in> paths 2 \<Longrightarrow> table m r P = Some t \<Longrightarrow> t \<in> nodes m R"
  by (auto simp: nodes_def)

lemma tables_okD:
  assumes "tables_ok m R ps" and "r \<in> R" and "P \<in> paths 2" and "table m r P = Some t"
  shows "ram_page t" and "t \<notin> set ps" and "page_aligned t" and "t \<in> nodes m R"
  using assms nodesI [of r R P m t] by (auto simp: tables_ok_def dest: ram_pageD)

lemma tables_ok_inject:
  "tables_ok m R ps \<Longrightarrow> r \<in> R \<Longrightarrow> s \<in> R \<Longrightarrow> P \<in> paths 2 \<Longrightarrow> Q \<in> paths 2 \<Longrightarrow>
   table m r P = Some t \<Longrightarrow> table m s Q = Some t \<Longrightarrow> r = s \<and> P = Q"
  unfolding tables_ok_def by blast

text \<open>The tables depend only on the entries of the first two levels.\<close>

lemma table_cong:
  assumes "\<And>Q t i. Q \<in> paths 1 \<Longrightarrow> table m r Q = Some t \<Longrightarrow> unat i < 512 \<Longrightarrow> pte_at m' t i = pte_at m t i"
  shows "P \<in> paths 2 \<Longrightarrow> table m' r P = table m r P"
proof (induction P rule: rev_induct)
  case (snoc i P)
  then have P: "P \<in> paths 1" and i: "unat i < 512"
    using paths_snoc [of P i 1] by (simp_all add: numeral_2_eq_2)
  then have "table m' r P = table m r P" using snoc.IH paths_mono by force
  then show ?case
    using assms [OF P _ i] by (auto simp: table_snoc split: option.splits)
qed simp

section \<open>Linking a fresh table\<close>

text \<open>\<open>q\<close>, until now the first free page, becomes the table behind the unused entry \<open>i\<close> of \<open>t\<close>, the table
  at path \<open>P\<close> below \<open>r\<close>; nothing else changes in the tables.\<close>

definition fresh_link ::
    "mem \<Rightarrow> mem \<Rightarrow> u64 set \<Rightarrow> u64 list \<Rightarrow> u64 \<Rightarrow> u64 list \<Rightarrow> u64 \<Rightarrow> u64 \<Rightarrow> u64 \<Rightarrow> bool" where
  "fresh_link m m' R ps r P t i q \<longleftrightarrow>
     tables_ok m R (q # ps) \<and> r \<in> R \<and> P \<in> paths 1 \<and> unat i < 512 \<and>
     table m r P = Some t \<and> pte_at m t i AND PTE_V = 0 \<and>
     pte_at m' t i AND PTE_V \<noteq> 0 \<and> PTE2PA (pte_at m' t i) = q \<and>
     ram_page q \<and> q \<notin> set ps \<and> (\<forall>j. unat j < 512 \<longrightarrow> pte_at m' q j = 0) \<and>
     (\<forall>t'\<in>nodes m R. \<forall>j. unat j < 512 \<longrightarrow> \<not> (t' = t \<and> j = i) \<longrightarrow> pte_at m' t' j = pte_at m t' j)"

lemma fresh_link_other:
  "fresh_link m m' R ps r P t i q \<Longrightarrow> t' \<in> nodes m R \<Longrightarrow> unat j < 512 \<Longrightarrow> \<not> (t' = t \<and> j = i) \<Longrightarrow>
   pte_at m' t' j = pte_at m t' j"
  unfolding fresh_link_def by simp

lemma fresh_linkD:
  assumes "fresh_link m m' R ps r P t i q"
  shows "P \<in> paths 2" and "P @ [i] \<in> paths 2" and "table m r (P @ [i]) = None"
    and "table m r (P @ [i, j]) = None" and "q \<notin> nodes m R"
proof -
  have P: "P \<in> paths 1" "unat i < 512" using assms by (simp_all add: fresh_link_def)
  then show "P \<in> paths 2" "P @ [i] \<in> paths 2"
    using paths_mono [of P 1 2] paths_snoc [of P i 1] by (simp_all add: numeral_2_eq_2)
  show none: "table m r (P @ [i]) = None"
    using assms by (simp add: fresh_link_def table_snoc)
  then show "table m r (P @ [i, j]) = None"
    using table_snoc [of m r "P @ [i]" j] by simp
  show "q \<notin> nodes m R" using assms by (auto simp: fresh_link_def tables_ok_def)
qed

lemma table_link:
  assumes link: "fresh_link m m' R ps r P t i q" and s: "s \<in> R"
  shows "Q \<in> paths 2 \<Longrightarrow> table m' s Q = (if s = r \<and> Q = P @ [i] then Some q else table m s Q)"
proof (induction Q rule: rev_induct)
  case (snoc j Q)
  then have Q: "Q \<in> paths 2" and j: "unat j < 512"
    using paths_snoc [of Q j 1] paths_mono [of Q 1 2] by (simp_all add: numeral_2_eq_2)
  note IH = snoc.IH [OF Q] and facts = link [unfolded fresh_link_def] and D = fresh_linkD [OF link]
  have at: "table m r P = Some t" using facts by blast
  show ?case
  proof (cases "s = r \<and> Q = P @ [i]")
    case True
    then have "table m' s (Q @ [j]) = None"
      using IH j facts by (subst table_snoc) simp
    then show ?thesis using True D(4) by simp
  next
    case no_link: False
    have IH': "table m' s Q = table m s Q" using IH unfolding if_not_P [OF no_link] .
    show ?thesis
    proof (cases "table m s Q")
      case None
      then show ?thesis using IH' facts by (auto simp: table_snoc)
    next
      case (Some t')
      show ?thesis
      proof (cases "t' = t \<and> j = i")
        case True
        then have "s = r" and "Q = P"
          using tables_ok_inject [of m R "q # ps" s r Q P t] facts s Q D(1) Some by auto
        then show ?thesis using True IH' facts by (simp add: table_snoc)
      next
        case False
        then have "pte_at m' t' j = pte_at m t' j"
          by (rule fresh_link_other [OF link nodesI [OF s Q Some] j])
        then have eq: "table m' s (Q @ [j]) = table m s (Q @ [j])"
          unfolding table_snoc IH' Some by simp
        have no: "\<not> (s = r \<and> Q @ [j] = P @ [i])"
        proof
          assume "s = r \<and> Q @ [j] = P @ [i]"
          then have "Some t' = Some t \<and> j = i" using Some at by (metis append1_eq_conv)
          with False show False by simp
        qed
        show ?thesis unfolding if_not_P [OF no] by (rule eq)
      qed
    qed
  qed
qed simp

lemma nodes_link:
  assumes link: "fresh_link m m' R ps r P t i q"
  shows "nodes m' R = insert q (nodes m R)"
proof (rule set_eqI)
  fix u
  note D = fresh_linkD [OF link]
  have "r \<in> R" using link by (simp add: fresh_link_def)
  then show "u \<in> nodes m' R \<longleftrightarrow> u \<in> insert q (nodes m R)"
    using D(2,3) table_link [OF link] by (auto simp: nodes_def split: if_splits)
      (metis option.distinct(1))+
qed

lemma tables_ok_link:
  assumes link: "fresh_link m m' R ps r P t i q"
  shows "tables_ok m' R ps"
proof -
  note facts = link [unfolded fresh_link_def] and fresh = fresh_linkD(5) [OF link]
  then have ok: "tables_ok m R (q # ps)" by blast
  have "r' = s' \<and> Q = Q'" if "r' \<in> R" "s' \<in> R" "Q \<in> paths 2" "Q' \<in> paths 2"
    "table m' r' Q = Some u" "table m' s' Q' = Some u" for r' s' Q Q' u
    using that fresh tables_ok_inject [OF ok that(1,2,3,4), of u] nodesI [OF that(1,3)] nodesI [OF that(2,4)]
      table_link [OF link that(1,3)] table_link [OF link that(2,4)]
    by (auto split: if_splits)
  then show ?thesis
    using facts unfolding tables_ok_def nodes_link [OF link] by auto
qed

lemma translate_link:
  assumes link: "fresh_link m m' R ps r P t i q" and s: "s \<in> R"
  shows "translate m' s va = translate m s va"
proof (cases "s = r \<and> vpath va = P @ [i]")
  case True
  then have "table m s (vpath va) = None" using fresh_linkD(3) [OF link] by simp
  moreover have "table m' s (vpath va) = Some q"
    using True table_link [OF link s fresh_linkD(2) [OF link]] by simp
  moreover have "pte_at m' q (VPN_L 0 va) = 0"
    using link VPN_L_less by (simp add: fresh_link_def)
  ultimately show ?thesis by (simp add: translate_def)
next
  case False
  have eq: "table m' s (vpath va) = table m s (vpath va)"
    using table_link [OF link s vpath_paths, of va] unfolding if_not_P [OF False] .
  note facts = link [unfolded fresh_link_def]
  show ?thesis
  proof (cases "table m s (vpath va)")
    case (Some u)
    have "P \<noteq> vpath va" using facts by (auto simp: paths_def vpath_def)
    then have "u \<noteq> t"
      using tables_ok_inject [of m R "q # ps" s r "vpath va" P t] facts s fresh_linkD(1) [OF link] Some
      by auto
    then have "pte_at m' u (VPN_L 0 va) = pte_at m u (VPN_L 0 va)"
      using fresh_link_other [OF link nodesI [OF s vpath_paths Some] VPN_L_less] by simp
    then show ?thesis using eq Some by (simp add: translate_def)
  qed (simp add: translate_def eq)
qed

section \<open>Writing an entry of the last level\<close>

lemma pte_at_store:
  fixes i j :: u64
  assumes "page_aligned t" "page_aligned u" "unat i < 512" "unat j < 512"
  shows "pte_at (store64 m (entry t i) e) u j = (if u = t \<and> j = i then e else pte_at m u j)"
  using dword.ld_st [of "entry t i" "entry u j" m e] assms by (auto simp: pte_at_def entry_inject)

lemma table_leaf_store:
  assumes ok: "tables_ok m R ps" and r: "r \<in> R" and t: "table m r (vpath va) = Some t"
    and i: "unat i < 512" and s: "s \<in> R" and Q: "Q \<in> paths 2"
  shows "table (store64 m (entry t i) e) s Q = table m s Q"
proof (rule table_cong [OF _ Q])
  fix P and u j :: u64 assume P: "P \<in> paths 1" "table m s P = Some u" and j: "unat j < 512"
  then have P2: "P \<in> paths 2" by (auto intro: paths_mono)
  have "P \<noteq> vpath va" using P by (auto simp: paths_def vpath_def)
  then have "u \<noteq> t" using tables_ok_inject [OF ok s r P2 vpath_paths P(2)] t by auto
  then show "pte_at (store64 m (entry t i) e) u j = pte_at m u j"
    using pte_at_store i j tables_okD(3) [OF ok s P2 P(2)] tables_okD(3) [OF ok r vpath_paths t] by simp
qed

lemma tables_ok_leaf_store:
  assumes ok: "tables_ok m R ps" and r: "r \<in> R" and t: "table m r (vpath va) = Some t"
    and i: "unat i < 512"
  shows "tables_ok (store64 m (entry t i) e) R ps" and "nodes (store64 m (entry t i) e) R = nodes m R"
proof -
  note eq = table_leaf_store [OF ok r t i]
  show nodes: "nodes (store64 m (entry t i) e) R = nodes m R"
    by (auto simp: nodes_def eq)
  show "tables_ok (store64 m (entry t i) e) R ps"
    using ok unfolding tables_ok_def nodes by (simp add: eq)
qed

definition same_page :: "u64 \<Rightarrow> u64 \<Rightarrow> bool" where
  "same_page va vb \<longleftrightarrow> vpath va = vpath vb \<and> VPN_L 0 va = VPN_L 0 vb"

lemma same_page_aligned:
  "va < MAXVA \<Longrightarrow> vb < MAXVA \<Longrightarrow> page_aligned va \<Longrightarrow> page_aligned vb \<Longrightarrow> same_page va vb \<longleftrightarrow> va = vb"
  by (auto simp: same_page_def vpath_def intro: VPN_inject)

lemma translate_leaf_store:
  assumes ok: "tables_ok m R ps" and r: "r \<in> R" and t: "table m r (vpath va) = Some t" and s: "s \<in> R"
  shows "translate (store64 m (entry t (VPN_L 0 va)) e) s vb =
    (if s = r \<and> same_page va vb then (if e AND PTE_V \<noteq> 0 then Some e else None) else translate m s vb)"
proof (cases "table m s (vpath vb)")
  case None
  then have "\<not> (s = r \<and> same_page va vb)" using t by (auto simp: same_page_def)
  with None show ?thesis
    by (auto simp: translate_def table_leaf_store [OF ok r t VPN_L_less s vpath_paths])
next
  case (Some u)
  have ut: "u = t \<longleftrightarrow> s = r \<and> vpath va = vpath vb"
    using tables_ok_inject [OF ok s r vpath_paths vpath_paths [of va] Some] t Some by auto
  have "pte_at (store64 m (entry t (VPN_L 0 va)) e) u (VPN_L 0 vb) =
      (if s = r \<and> same_page va vb then e else pte_at m u (VPN_L 0 vb))"
    using tables_okD(3) [OF ok s vpath_paths Some] tables_okD(3) [OF ok r vpath_paths t]
    by (simp only: pte_at_store VPN_L_less ut same_page_def conj_assoc eq_commute [of "VPN_L 0 vb"])
  moreover have "table (store64 m (entry t (VPN_L 0 va)) e) s (vpath vb) = Some u"
    using table_leaf_store [OF ok r t VPN_L_less s vpath_paths] Some by simp
  ultimately show ?thesis
    using Some by (cases "s = r \<and> same_page va vb") (auto simp: translate_def Let_def)
qed

section \<open>Walking with allocation\<close>

text \<open>\<open>extends R k ps k' qs\<close>: from \<open>k\<close> to \<open>k'\<close> the free pages that have been taken have become tables, no
  table has moved, and only tables and free pages have been written to. \<open>grows\<close> adds that no translation has changed.\<close>

definition extends :: "u64 set \<Rightarrow> kmem \<Rightarrow> u64 list \<Rightarrow> kmem \<Rightarrow> u64 list \<Rightarrow> bool" where
  "extends R k ps k' qs \<longleftrightarrow>
     pt_inv k' R qs \<and> (\<exists>us. ps = us @ qs \<and> set us \<subseteq> nodes (mem k') R) \<and>
     (\<forall>r\<in>R. \<forall>P\<in>paths 2. \<forall>t. table (mem k) r P = Some t \<longrightarrow> table (mem k') r P = Some t) \<and>
     nodes (mem k') R \<subseteq> nodes (mem k) R \<union> set ps \<and>
     (\<forall>x. (\<forall>p\<in>nodes (mem k) R \<union> set ps. \<not> in_block x p 4096) \<longrightarrow> mem k' x = mem k x)"

definition grows :: "u64 set \<Rightarrow> kmem \<Rightarrow> u64 list \<Rightarrow> kmem \<Rightarrow> u64 list \<Rightarrow> bool" where
  "grows R k ps k' qs \<longleftrightarrow> extends R k ps k' qs \<and>
     (\<forall>r\<in>R. \<forall>va. translate (mem k') r va = translate (mem k) r va)"

lemma nodes_mono:
  "extends R k ps k' qs \<Longrightarrow> nodes (mem k) R \<subseteq> nodes (mem k') R"
  by (fastforce simp: extends_def nodes_def)

lemma extends_frame:
  "extends R k ps k' qs \<Longrightarrow> \<forall>q\<in>nodes (mem k) R \<union> set ps. \<not> in_block x q 4096 \<Longrightarrow> mem k' x = mem k x"
  by (simp add: extends_def)

lemma extends_refl: "pt_inv k R ps \<Longrightarrow> extends R k ps k ps"
  by (simp add: extends_def)

lemma grows_refl: "pt_inv k R ps \<Longrightarrow> grows R k ps k ps"
  by (simp add: grows_def extends_refl)

lemma extends_trans:
  assumes 1: "extends R k ps k1 qs" and 2: "extends R k1 qs k2 us"
  shows "extends R k ps k2 us"
proof -
  have sub: "nodes (mem k1) R \<union> set qs \<subseteq> nodes (mem k) R \<union> set ps"
    using 1 by (auto simp: extends_def)
  show ?thesis unfolding extends_def
  proof (intro conjI ballI allI impI)
    show "pt_inv k2 R us" using 2 by (simp add: extends_def)
    obtain us1 where us1: "ps = us1 @ qs" "set us1 \<subseteq> nodes (mem k1) R" using 1 by (auto simp: extends_def)
    obtain us2 where us2: "qs = us2 @ us" "set us2 \<subseteq> nodes (mem k2) R" using 2 by (auto simp: extends_def)
    show "\<exists>vs. ps = vs @ us \<and> set vs \<subseteq> nodes (mem k2) R"
      using us1 us2 nodes_mono [OF 2] by (intro exI [of _ "us1 @ us2"]) auto
    show "nodes (mem k2) R \<subseteq> nodes (mem k) R \<union> set ps" using 2 sub by (auto simp: extends_def)
    fix x assume out: "\<forall>p\<in>nodes (mem k) R \<union> set ps. \<not> in_block x p 4096"
    then have "\<forall>p\<in>nodes (mem k1) R \<union> set qs. \<not> in_block x p 4096" using sub by blast
    then have "mem k2 x = mem k1 x" using 2 unfolding extends_def by simp
    moreover have "mem k1 x = mem k x" using 1 out unfolding extends_def by simp
    ultimately show "mem k2 x = mem k x" by simp
  qed (use 1 2 in \<open>auto simp: extends_def\<close>)
qed

lemma grows_trans: "grows R k ps k1 qs \<Longrightarrow> grows R k1 qs k2 us \<Longrightarrow> grows R k ps k2 us"
  by (auto simp: grows_def intro: extends_trans)

lemma or_PTE_V: "(e OR PTE_V) AND PTE_V \<noteq> 0"
proof
  assume "(e OR PTE_V) AND PTE_V = 0"
  then have "\<not> bit ((e OR PTE_V) AND PTE_V) 0" by simp
  then show False by (simp add: bit_simps PTE_V_def)
qed

lemma flags_PTE_V: "PTE_FLAGS PTE_V = PTE_V"
  by (simp add: PTE_FLAGS_def PTE_V_def)

lemma filled_twice: "filled (filled m p b n) p b n = filled m p b n"
  by (auto simp: filled_def)

lemma pt_invD:
  assumes "pt_inv k R ps" and "r \<in> R" and "P \<in> paths 2" and "table (mem k) r P = Some t"
  shows "ram_page t" and "t \<notin> set ps" and "page_aligned t" and "t \<in> nodes (mem k) R"
  using assms tables_okD [of "mem k" R ps r P t] by (simp_all add: pt_inv_def)

text \<open>The only tables that are new are on the way to \<open>va\<close>.\<close>

definition new_tables :: "u64 set \<Rightarrow> u64 \<Rightarrow> u64 \<Rightarrow> mem \<Rightarrow> mem \<Rightarrow> bool" where
  "new_tables R r va m m' \<longleftrightarrow>
     (\<forall>s\<in>R. \<forall>Q\<in>paths 2. table m' s Q \<noteq> None \<longrightarrow>
        table m s Q \<noteq> None \<or> s = r \<and> (Q = [VPN_L 2 va] \<or> Q = vpath va))"

lemma new_tables_refl: "new_tables R r va m m"
  by (simp add: new_tables_def)

lemma new_tables_trans: "new_tables R r va m m1 \<Longrightarrow> new_tables R r va m1 m2 \<Longrightarrow> new_tables R r va m m2"
  by (fastforce simp: new_tables_def)

text \<open>One round of the loop of \<open>walk\<close> in which a table is missing and a page can be had.\<close>

lemma alloc_table:
  assumes inv: "pt_inv k R ps" and r: "r \<in> R" and P: "P \<in> paths 1" and i: "unat i < 512"
    and t: "table (mem k) r P = Some t" and slot: "pte_at (mem k) t i AND PTE_V = 0"
    and alloc: "kalloc k = (q, k1)" and "q \<noteq> 0"
    and m': "m' = store64 (fst (memset (mem k1) q 0 PAGE_SIZE)) (entry t i) (PA2PTE q OR PTE_V)"
  shows "\<exists>qs. ps = q # qs \<and> grows R k ps (k1\<lparr>mem := m'\<rparr>) qs \<and> table m' r (P @ [i]) = Some q \<and>
    (\<forall>s\<in>R. \<forall>Q\<in>paths 2. table m' s Q \<noteq> None \<longrightarrow> table (mem k) s Q \<noteq> None \<or> s = r \<and> Q = P @ [i])"
proof -
  obtain qs where ps: "ps = q # qs" and q: "ram_page q" "q \<notin> set qs"
    and inv1: "kmem_inv k1 qs" and bytes: "mem k1 = filled (mem k) q 0 4096"
    using pages.alloc_cases [OF _ alloc] inv \<open>q \<noteq> 0\<close> by (auto simp: pt_inv_def)
  have P2: "P \<in> paths 2" using P by (rule paths_mono) simp
  note t_page = pt_invD [OF inv r P2 t] and q_page = ram_pageD [OF q(1)]
  have qt: "q \<noteq> t" using t_page(2) ps by auto
  have m'_eq: "m' = store64 (filled (mem k) q 0 4096) (entry t i) (PA2PTE q OR PTE_V)"
    by (simp add: m' bytes memset_page [OF q(1)] filled_twice)
  have filled_frame: "filled (mem k) q 0 4096 x = mem k x" if "\<not> in_block x q 4096" for x
    using that by (simp add: filled_def)
  have frame: "m' x = mem k x" if "\<not> in_block x q 4096" "\<not> in_block x t 4096" for x
  proof -
    have "\<not> in_block x (entry t i) 8" using that(2) entry_in_page [OF t_page(3) i] by blast
    then show ?thesis using that(1) by (simp add: m'_eq store64_other filled_frame)
  qed
  have other: "pte_at m' u j = pte_at (mem k) u j"
    if "u \<in> nodes (mem k) R" "unat j < 512" "\<not> (u = t \<and> j = i)" for u j
  proof -
    have u: "ram_page u" "u \<notin> set ps" using inv that(1) by (auto simp: pt_inv_def tables_ok_def)
    then have u': "page_aligned u" "u \<noteq> q" using ps ram_pageD(1) by auto
    have "pte_at m' u j = pte_at (filled (mem k) q 0 4096) u j"
      unfolding m'_eq pte_at_store [OF t_page(3) u'(1) i that(2)] if_not_P [OF that(3)] ..
    then show ?thesis
      using load64_other_page [OF filled_frame q_page(1) u' that(2)] by (simp add: pte_at_def)
  qed
  have link: "fresh_link (mem k) m' R qs r P t i q"
    unfolding fresh_link_def
  proof (intro conjI ballI allI impI)
    show "tables_ok (mem k) R (q # qs)" using inv ps by (simp add: pt_inv_def)
    have "pte_at m' t i = PA2PTE q OR PTE_V"
      using t_page(3) i by (simp add: m'_eq pte_at_store)
    then show "pte_at m' t i AND PTE_V \<noteq> 0" "PTE2PA (pte_at m' t i) = q"
      using or_PTE_V PTE2PA_PA2PTE [OF q_page(1,4) flags_PTE_V] by simp_all
    fix j :: u64 assume "unat j < 512"
    then show "pte_at m' q j = 0"
      using qt t_page(3) q_page(1) i by (simp add: m'_eq pte_at_store) (simp add: pte_at_def load64_filled_page)
  qed (use r P i t slot q other in auto)
  have "kmem_inv (k1\<lparr>mem := m'\<rparr>) qs"
  proof (rule kmem_inv_frame [OF inv1])
    show "m' x = mem k1 x" if "\<not> in_block x t 4096" for x
    proof -
      have "\<not> in_block x (entry t i) 8" using that entry_in_page [OF t_page(3) i] by blast
      then show ?thesis by (simp add: m'_eq bytes store64_other)
    qed
  qed (use t_page ps in auto)
  then have "pt_inv (k1\<lparr>mem := m'\<rparr>) R qs"
    using tables_ok_link [OF link] by (simp add: pt_inv_def)
  moreover have "table m' s Q = Some u" if "s \<in> R" "Q \<in> paths 2" "table (mem k) s Q = Some u" for s Q u
    using table_link [OF link that(1,2)] that(3) fresh_linkD(3) [OF link] by auto
  ultimately have "grows R k ps (k1\<lparr>mem := m'\<rparr>) qs"
    using ps frame t_page(4) translate_link [OF link] nodes_link [OF link]
    unfolding grows_def extends_def by auto
  moreover have "table m' r (P @ [i]) = Some q"
    using table_link [OF link r fresh_linkD(2) [OF link]] by simp
  moreover have "table (mem k) s Q \<noteq> None \<or> s = r \<and> Q = P @ [i]"
    if "s \<in> R" "Q \<in> paths 2" "table m' s Q \<noteq> None" for s Q
    using table_link [OF link that(1,2)] that(3) by (auto split: if_splits)
  ultimately show ?thesis using ps by blast
qed

lemma take_vpath [simp]: "take 2 (vpath va) = vpath va"
  by (simp add: vpath_def)

lemma take_vpath_1: "take (Suc 0) (vpath va) = [VPN_L 2 va]"
  by (simp add: vpath_def)

lemma table_vpath_None: "table m r [VPN_L 2 va] = None \<Longrightarrow> table m r (vpath va) = None"
  using table_snoc [of m r "[VPN_L 2 va]" "VPN_L 1 va"] by (simp add: vpath_def del: table.simps)

text \<open>The descent of \<open>walk\<close> from level \<open>l\<close>, with allocation: it grows the tables by at most \<open>l\<close> pages and
  finds the entry of \<open>va\<close>, unless the free pages run out.\<close>

lemma walk_levels_alloc:
  assumes "l \<le> 2" and "pt_inv k R ps" and r: "r \<in> R"
    and "table (mem k) r (take (2 - l) (vpath va)) = Some t"
    and "walk_levels l k t va True = (pte, k')"
  shows "\<exists>qs. grows R k ps k' qs \<and> new_tables R r va (mem k) (mem k') \<and> length ps \<le> length qs + l \<and>
    (pte = 0 \<and> qs = [] \<and> length ps < l \<or>
     (\<exists>t'. table (mem k') r (vpath va) = Some t' \<and> pte = entry t' (VPN_L 0 va)))"
  using assms(1,2,4,5)
proof (induction l arbitrary: k ps t)
  case 0
  then show ?case
    using grows_refl [OF "0.prems"(2)] new_tables_refl by auto
next
  case (Suc l)
  let ?P = "take (2 - Suc l) (vpath va)" and ?i = "VPN_L (Suc l) va"
  have l: "l = 0 \<or> l = 1" using Suc.prems(1) by auto
  then have path: "?P @ [?i] = take (2 - l) (vpath va)"
    by (auto simp: vpath_def numeral_2_eq_2)
  have P: "?P \<in> paths 1" using l by (auto simp: vpath_def paths_def VPN_L_less)
  show ?case
  proof (cases "pte_at (mem k) t ?i AND PTE_V = 0")
    case False
    then have "table (mem k) r (?P @ [?i]) = Some (PTE2PA (pte_at (mem k) t ?i))"
      using Suc.prems(3) by (simp add: table_snoc)
    moreover have "walk_levels l k (PTE2PA (pte_at (mem k) t ?i)) va True = (pte, k')"
      using Suc.prems(4) False by (simp add: pte_at_def Let_def)
    ultimately obtain qs where "grows R k ps k' qs" "new_tables R r va (mem k) (mem k')" "length ps \<le> length qs + l"
      "pte = 0 \<and> qs = [] \<and> length ps < l \<or>
       (\<exists>t'. table (mem k') r (vpath va) = Some t' \<and> pte = entry t' (VPN_L 0 va))"
      using Suc.IH [of k ps] Suc.prems(1,2) path by auto
    then show ?thesis by (intro exI [of _ qs]) auto
  next
    case slot: True
    obtain q k1 where alloc: "kalloc k = (q, k1)" by (cases "kalloc k")
    show ?thesis
    proof (cases "q = 0")
      case True
      then have "ps = []" and "k1 = k"
        using pages.alloc_cases [OF _ alloc] Suc.prems(2) by (auto simp: pt_inv_def)
      moreover have "pte = 0" "k' = k1"
        using Suc.prems(4) slot alloc True by (simp_all add: pte_at_def Let_def)
      ultimately show ?thesis
        using grows_refl [OF Suc.prems(2)] new_tables_refl by (intro exI [of _ "[]"]) simp
    next
      case False
      let ?m = "store64 (fst (memset (mem k1) q 0 PAGE_SIZE)) (entry t ?i) (PA2PTE q OR PTE_V)"
      obtain us where ps: "ps = q # us" and g: "grows R k ps (k1\<lparr>mem := ?m\<rparr>) us"
        and q: "table ?m r (?P @ [?i]) = Some q"
        and new: "\<forall>s\<in>R. \<forall>Q\<in>paths 2. table ?m s Q \<noteq> None \<longrightarrow> table (mem k) s Q \<noteq> None \<or> s = r \<and> Q = ?P @ [?i]"
        using alloc_table [OF Suc.prems(2) r P VPN_L_less Suc.prems(3) slot alloc False refl] by blast
      have "walk_levels l (k1\<lparr>mem := ?m\<rparr>) q va True = (pte, k')"
        using Suc.prems(4) slot alloc False by (simp add: pte_at_def Let_def)
      moreover have "pt_inv (k1\<lparr>mem := ?m\<rparr>) R us" using g by (simp add: grows_def extends_def)
      ultimately obtain qs where "grows R (k1\<lparr>mem := ?m\<rparr>) us k' qs" "new_tables R r va ?m (mem k')"
        "length us \<le> length qs + l"
        "pte = 0 \<and> qs = [] \<and> length us < l \<or>
         (\<exists>t'. table (mem k') r (vpath va) = Some t' \<and> pte = entry t' (VPN_L 0 va))"
        using Suc.IH [of "k1\<lparr>mem := ?m\<rparr>" us q] Suc.prems(1) path q by auto
      moreover have "?P @ [?i] = [VPN_L 2 va] \<or> ?P @ [?i] = vpath va"
        using l by (auto simp: vpath_def numeral_2_eq_2)
      then have "new_tables R r va (mem k) ?m" using new unfolding new_tables_def by fastforce
      ultimately show ?thesis using grows_trans [OF g] new_tables_trans ps by (intro exI [of _ qs]) fastforce
    qed
  qed
qed

lemma walk_alloc:
  assumes inv: "pt_inv k R ps" and r: "r \<in> R" and va: "va < MAXVA"
  obtains pte k' qs where "walk k r va True = Ret (pte, k')" "grows R k ps k' qs"
    "new_tables R r va (mem k) (mem k')" "length ps \<le> length qs + 2"
    "pte = 0 \<and> qs = [] \<and> length ps < 2 \<or>
     (\<exists>t. table (mem k') r (vpath va) = Some t \<and> pte = entry t (VPN_L 0 va))"
proof -
  obtain pte k' where w: "walk_levels 2 k r va True = (pte, k')" by (cases "walk_levels 2 k r va True")
  have "walk k r va True = Ret (pte, k')" using va w by (simp add: walk_def)
  then show ?thesis using that walk_levels_alloc [OF _ inv r _ w] by auto
qed

text \<open>Without allocation \<open>walk\<close> changes nothing and finds the entry exactly when both tables exist.\<close>

lemma walk_levels_find:
  "l \<le> 2 \<Longrightarrow> table (mem k) r (take (2 - l) (vpath va)) = Some t \<Longrightarrow>
   walk_levels l k t va False =
     (case table (mem k) r (vpath va) of Some t' \<Rightarrow> entry t' (VPN_L 0 va) | None \<Rightarrow> 0, k)"
proof (induction l arbitrary: t)
  case (Suc l)
  let ?P = "take (2 - Suc l) (vpath va)" and ?i = "VPN_L (Suc l) va"
  have l: "l = 0 \<or> l = 1" using Suc.prems(1) by auto
  then have path: "?P @ [?i] = take (2 - l) (vpath va)"
    by (auto simp: vpath_def numeral_2_eq_2)
  show ?case
  proof (cases "pte_at (mem k) t ?i AND PTE_V = 0")
    case True
    then have "table (mem k) r (take (2 - l) (vpath va)) = None"
      using Suc.prems(2) path [symmetric] by (simp add: table_snoc)
    then have "table (mem k) r (vpath va) = None"
      using l by (elim disjE) (simp_all add: table_vpath_None vpath_def [of va, symmetric] take_vpath_1 del: table.simps)
    with True show ?thesis by (simp add: pte_at_def Let_def)
  next
    case False
    then have "table (mem k) r (take (2 - l) (vpath va)) = Some (PTE2PA (pte_at (mem k) t ?i))"
      using Suc.prems(2) path [symmetric] by (simp add: table_snoc)
    then have "walk_levels l k (PTE2PA (pte_at (mem k) t ?i)) va False =
        (case table (mem k) r (vpath va) of Some t' \<Rightarrow> entry t' (VPN_L 0 va) | None \<Rightarrow> 0, k)"
      using Suc.IH Suc.prems(1) by simp
    with False show ?thesis by (simp add: pte_at_def Let_def)
  qed
qed simp

lemma walk_find:
  "va < MAXVA \<Longrightarrow> walk k r va False =
     Ret (case table (mem k) r (vpath va) of Some t \<Rightarrow> entry t (VPN_L 0 va) | None \<Rightarrow> 0, k)"
  using walk_levels_find [of 2 k r va r] by (simp add: walk_def)

end
