(* ===== verification/PageMap.thy ===== *)
theory PageMap
  imports PageTables
begin

text \<open>
  What \<open>mappages\<close> and its callers do to the translation of every page: the specifications of the
  mapping half of kern/vm.c. \<open>map_result\<close> describes all the ways a call can end; the lemmas below
  read off success, exhaustion and the remapping panic.
\<close>

definition leaf_pte :: "u64 \<Rightarrow> u32 \<Rightarrow> u64" where
  "leaf_pte pa perm = PA2PTE pa OR scast perm OR PTE_V"

lemma leaf_pte_valid [simp]: "leaf_pte pa perm AND PTE_V \<noteq> 0"
  using or_PTE_V [of "PA2PTE pa OR scast perm"] by (simp add: leaf_pte_def or.assoc)

text \<open>Writing the entry a walk has found.\<close>

lemma store_leaf:
  fixes e :: u64
  assumes inv: "pt_inv k R ps" and r: "r \<in> R" and t: "table (mem k) r (vpath va) = Some t"
  defines "m' \<equiv> store64 (mem k) (entry t (VPN_L 0 va)) e"
  shows "extends R k ps (k\<lparr>mem := m'\<rparr>) ps"
    and "s \<in> R \<Longrightarrow> translate m' s vb =
      (if s = r \<and> same_page va vb then (if e AND PTE_V \<noteq> 0 then Some e else None) else translate (mem k) s vb)"
proof -
  have ok: "tables_ok (mem k) R ps" and kinv: "kmem_inv k ps" using inv by (simp_all add: pt_inv_def)
  note page = pt_invD [OF inv r vpath_paths t]
  have frame: "m' x = mem k x" if "\<not> in_block x t 4096" for x
  proof -
    have "\<not> in_block x (entry t (VPN_L 0 va)) 8"
      using that entry_in_page [OF page(3) VPN_L_less] by blast
    then show ?thesis by (simp add: m'_def store64_other)
  qed
  have "kmem_inv (k\<lparr>mem := m'\<rparr>) ps"
    using kmem_inv_frame [OF kinv frame page(3,2)] .
  then show "extends R k ps (k\<lparr>mem := m'\<rparr>) ps"
    using tables_ok_leaf_store [OF ok r t VPN_L_less] frame page(4)
      table_leaf_store [OF ok r t VPN_L_less]
    unfolding extends_def pt_inv_def m'_def by auto
  show "s \<in> R \<Longrightarrow> translate m' s vb =
      (if s = r \<and> same_page va vb then (if e AND PTE_V \<noteq> 0 then Some e else None) else translate (mem k) s vb)"
    unfolding m'_def using translate_leaf_store [OF ok r t] .
qed

text \<open>One round of the loop of \<open>mappages\<close>.\<close>

lemma map_round:
  assumes inv: "pt_inv k R ps" and r: "r \<in> R" and va: "va < MAXVA"
  obtains (exhausted) k' where "walk k r va True = Ret (0, k')" "grows R k ps k' []" "length ps < 2"
      "new_tables R r va (mem k) (mem k')"
  | (found) pte k' qs where "walk k r va True = Ret (pte, k')" "pte \<noteq> 0"
      "length ps \<le> length qs + 2"
      "load64 (mem k') pte AND PTE_V = 0 \<longleftrightarrow> translate (mem k) r va = None"
      "\<And>e. extends R k ps (k'\<lparr>mem := store64 (mem k') pte e\<rparr>) qs"
      "\<And>e s vb. s \<in> R \<Longrightarrow> translate (store64 (mem k') pte e) s vb =
        (if s = r \<and> same_page va vb then (if e AND PTE_V \<noteq> 0 then Some e else None)
         else translate (mem k) s vb)"
      "\<And>e. new_tables R r va (mem k) (store64 (mem k') pte e)"
proof -
  obtain pte k' qs where w: "walk k r va True = Ret (pte, k')" and g: "grows R k ps k' qs"
    and new: "new_tables R r va (mem k) (mem k')" and len: "length ps \<le> length qs + 2"
    and res: "pte = 0 \<and> qs = [] \<and> length ps < 2 \<or>
      (\<exists>t. table (mem k') r (vpath va) = Some t \<and> pte = entry t (VPN_L 0 va))"
    using walk_alloc [OF assms] by blast
  have inv': "pt_inv k' R qs" and ext: "extends R k ps k' qs"
    using g by (simp_all add: grows_def extends_def)
  show thesis
  proof (cases "pte = 0 \<and> qs = [] \<and> length ps < 2")
    case True
    then show thesis using w g new by (intro exhausted) auto
  next
    case False
    with res obtain t where t: "table (mem k') r (vpath va) = Some t" and pte: "pte = entry t (VPN_L 0 va)"
      by blast
    note page = pt_invD [OF inv' r vpath_paths t]
    have "t \<noteq> 0" and "unat (entry t (VPN_L 0 va)) = unat t + 8 * unat (VPN_L 0 va)"
      using ram_pageD(2) [OF page(1)] unat_entry [OF page(3) VPN_L_less] by auto
    then have "pte \<noteq> 0" using pte by (metis add_is_0 unat_eq_0 unat_0)
    moreover have "load64 (mem k') pte AND PTE_V = 0 \<longleftrightarrow> translate (mem k') r va = None"
      using t pte by (simp add: translate_def pte_at_def Let_def)
    then have "load64 (mem k') pte AND PTE_V = 0 \<longleftrightarrow> translate (mem k) r va = None"
      using g r by (simp add: grows_def)
    moreover have "extends R k ps (k'\<lparr>mem := store64 (mem k') pte e\<rparr>) qs" for e
      using store_leaf(1) [OF inv' r t] extends_trans [OF ext] pte by blast
    moreover have "translate (store64 (mem k') pte e) s vb =
        (if s = r \<and> same_page va vb then (if e AND PTE_V \<noteq> 0 then Some e else None)
         else translate (mem k) s vb)" if "s \<in> R" for e s vb
      using store_leaf(2) [OF inv' r t that] g that pte by (simp add: grows_def)
    moreover have "new_tables R r va (mem k) (store64 (mem k') pte e)" for e
    proof -
      have "tables_ok (mem k') R qs" using inv' by (simp add: pt_inv_def)
      from table_leaf_store [OF this r t VPN_L_less] show ?thesis
        using new unfolding new_tables_def pte by simp
    qed
    ultimately show thesis using w len by (intro found)
  qed
qed

section \<open>All the outcomes of a mapping\<close>

text \<open>\<open>map_result\<close>: the pages from \<open>start\<close> up to (not including) \<open>stop\<close> have been mapped, none of which was
  mapped before; nothing else has changed. The loop has stopped behind the last page with 0, or
  earlier with -1 because memory ran out, or has met a page that was mapped before.\<close>

definition mapped_to :: "u64 set \<Rightarrow> u64 \<Rightarrow> kmem \<Rightarrow> u64 \<Rightarrow> u64 \<Rightarrow> u64 \<Rightarrow> u32 \<Rightarrow> kmem \<Rightarrow> bool" where
  "mapped_to R r k start stop pa perm k' \<longleftrightarrow>
     (\<forall>va. page_aligned va \<longrightarrow> va < MAXVA \<longrightarrow>
        translate (mem k') r va =
          (if start \<le> va \<and> va < stop then Some (leaf_pte (pa + (va - start)) perm) else translate (mem k) r va) \<and>
        (start \<le> va \<longrightarrow> va < stop \<longrightarrow> translate (mem k) r va = None)) \<and>
     (\<forall>s\<in>R - {r}. \<forall>va. translate (mem k') s va = translate (mem k) s va)"

definition map_result :: "u64 set \<Rightarrow> u64 \<Rightarrow> kmem \<Rightarrow> u64 list \<Rightarrow> u64 \<Rightarrow> u64 \<Rightarrow> u64 \<Rightarrow> u32 \<Rightarrow>
    (int \<times> kmem) outcome \<Rightarrow> bool" where
  "map_result R r k ps start last' pa perm res =
     (case res of
        Ret (c, k') \<Rightarrow> \<exists>qs stop. extends R k ps k' qs \<and> mapped_to R r k start stop pa perm k' \<and>
          (c = 0 \<and> stop = last' + 4096 \<or>
           c = -1 \<and> page_aligned stop \<and> start \<le> stop \<and> stop \<le> last' \<and> qs = [] \<and>
             length ps < 2 * ((unat last' - unat start) div 4096 + 1))
      | Panic msg \<Rightarrow> \<exists>va. page_aligned va \<and> start \<le> va \<and> va \<le> last' \<and> translate (mem k) r va \<noteq> None
      | _ \<Rightarrow> False)"

lemma mapped_to_none: "mapped_to R r k start start pa perm k' \<longleftrightarrow>
    (\<forall>va. page_aligned va \<longrightarrow> va < MAXVA \<longrightarrow> translate (mem k') r va = translate (mem k) r va) \<and>
    (\<forall>s\<in>R - {r}. \<forall>va. translate (mem k') s va = translate (mem k) s va)"
  by (auto simp: mapped_to_def)

lemma page_next:
  assumes "page_aligned a" "page_aligned b"
  shows "a \<le> b \<and> b \<noteq> a \<longleftrightarrow> a < b" and "a < b \<Longrightarrow> a + 4096 \<le> b"
  using page_step(3) [OF assms] by (auto simp: le_less)

text \<open>The page at \<open>start\<close> first, then the rest.\<close>

lemma mapped_to_step:
  assumes al: "page_aligned start" "start < MAXVA"
    and none: "translate (mem k) r start = None" and r: "r \<in> R"
    and first: "\<And>s vb. s \<in> R \<Longrightarrow> translate (mem k1) s vb =
        (if s = r \<and> same_page start vb then Some (leaf_pte pa perm) else translate (mem k) s vb)"
    and rest: "mapped_to R r k1 (start + 4096) stop (pa + 4096) perm k'"
    and le: "start + 4096 \<le> stop" "start < start + 4096"
  shows "mapped_to R r k start stop pa perm k'"
  unfolding mapped_to_def
proof (intro conjI allI ballI impI)
  have less: "start < stop" using le by simp
  {
    fix va assume va: "page_aligned va" "va < MAXVA"
    have after: "translate (mem k') r va =
        (if start + 4096 \<le> va \<and> va < stop then Some (leaf_pte (pa + (va - start)) perm)
         else translate (mem k1) r va)"
      and unmapped: "start + 4096 \<le> va \<Longrightarrow> va < stop \<Longrightarrow> translate (mem k1) r va = None"
      using rest va by (simp_all add: mapped_to_def)
    have k1: "translate (mem k1) r va = (if va = start then Some (leaf_pte pa perm) else translate (mem k) r va)"
      using first [OF r] same_page_aligned [OF al(2) va(2) al(1) va(1)] by auto
    show "translate (mem k') r va = (if start \<le> va \<and> va < stop
        then Some (leaf_pte (pa + (va - start)) perm) else translate (mem k) r va)"
    proof (cases "va = start")
      case True
      then show ?thesis using after k1 le less by (simp add: not_le)
    next
      case False
      then have "start \<le> va \<longleftrightarrow> start + 4096 \<le> va"
        using page_next [OF al(1) va(1)] le(2) by auto
      then show ?thesis using after k1 False by simp
    qed
    assume "start \<le> va" "va < stop"
    then show "translate (mem k) r va = None"
      using none unmapped k1 page_next [OF al(1) va(1)] by (cases "va = start") auto
  next
    fix s va assume "s \<in> R - {r}"
    then show "translate (mem k') s va = translate (mem k) s va"
      using rest first by (auto simp: mapped_to_def)
  }
qed

lemma map_result_step:
  assumes al: "page_aligned start" "page_aligned last'" and less: "start < last'" and max: "last' < MAXVA"
    and r: "r \<in> R" and free: "translate (mem k) r start = None"
    and first: "\<And>s vb. s \<in> R \<Longrightarrow> translate (mem k1) s vb =
        (if s = r \<and> same_page start vb then Some (leaf_pte pa perm) else translate (mem k) s vb)"
    and ext: "extends R k ps k1 qs" and len: "length ps \<le> length qs + 2"
    and rest: "map_result R r k1 qs (start + 4096) last' (pa + 4096) perm out"
  shows "map_result R r k ps start last' pa perm out"
proof (cases out)
  case (Ret x)
  obtain c k' where x: "x = (c, k')" by (cases x)
  note step = page_step [OF al less]
  have va: "start < MAXVA" using less max by simp
  obtain us stop where ext': "extends R k1 qs k' us"
    and map: "mapped_to R r k1 (start + 4096) stop (pa + 4096) perm k'"
    and stop: "c = 0 \<and> stop = last' + 4096 \<or>
      c = -1 \<and> page_aligned stop \<and> start + 4096 \<le> stop \<and> stop \<le> last' \<and> us = [] \<and>
        length qs < 2 * ((unat last' - unat (start + 4096)) div 4096 + 1)"
    using rest Ret x by (auto simp: map_result_def)
  have "last' \<le> last' + 4096"
    using max unat_add_nat [of last' 4096] by (simp add: MAXVA_eq word_less_nat_alt word_le_nat_alt)
  then have "start + 4096 \<le> stop" using stop step(3) by (auto intro: order_trans)
  then have "mapped_to R r k start stop pa perm k'"
    using mapped_to_step [OF al(1) va free r first map] step(4) by simp
  moreover have "(unat last' - unat start) div 4096 = Suc ((unat last' - unat (start + 4096)) div 4096)"
  proof -
    have "unat last' - unat start = 4096 + (unat last' - unat (start + 4096))"
      using step(1,3) by (simp add: word_le_nat_alt)
    then show ?thesis by (simp only:)
  qed
  ultimately show ?thesis
    using Ret x extends_trans [OF ext ext'] stop len less step(4) unfolding map_result_def
    by (auto intro!: exI [of _ us] exI [of _ stop])
next
  case (Panic msg)
  then obtain va where va: "page_aligned va" "start + 4096 \<le> va" "va \<le> last'" "translate (mem k1) r va \<noteq> None"
    using rest by (auto simp: map_result_def)
  have "start < va" using va(2) page_step(4) [OF al less] by simp
  moreover have "va < MAXVA" "start < MAXVA" using va(3) less max by simp_all
  ultimately have "\<not> same_page start va" using same_page_aligned [of start va] al(1) va(1) by auto
  then have "translate (mem k) r va \<noteq> None" using va(4) first [OF r] by simp
  then have "\<exists>va. page_aligned va \<and> start \<le> va \<and> va \<le> last' \<and> translate (mem k) r va \<noteq> None"
    using va(1,3) \<open>start < va\<close> by (intro exI [of _ va]) simp
  then show ?thesis unfolding map_result_def Panic outcome.case .
qed (use rest in \<open>simp_all add: map_result_def\<close>)

lemma mappages_loop_result:
  "pt_inv k R ps \<Longrightarrow> r \<in> R \<Longrightarrow> page_aligned start \<Longrightarrow> page_aligned last' \<Longrightarrow> start \<le> last' \<Longrightarrow> last' < MAXVA \<Longrightarrow>
   map_result R r k ps start last' pa perm (mappages_loop k r start last' pa perm)"
proof (induction k r start last' pa perm arbitrary: ps rule: mappages_loop.induct)
  case (1 k r start last' pa perm)
  note inv = "1.prems"(1) and r = "1.prems"(2) and al = "1.prems"(3,4) and le = "1.prems"(5)
  have va: "start < MAXVA" using le "1.prems"(6) by simp
  let ?n = "\<lambda>s. 2 * ((unat last' - unat s) div 4096 + 1)"
  note loop = mappages_loop.simps [of k r start last' pa perm]
  show ?case
  proof (cases rule: map_round [OF inv r va, case_names exhausted found])
    case (exhausted k')
    have "extends R k ps k' []" and "mapped_to R r k start start pa perm k'"
      using exhausted(2) r by (auto simp: grows_def mapped_to_none)
    moreover have "mappages_loop k r start last' pa perm = Ret (-1, k')"
      using exhausted(1) by (simp add: loop)
    ultimately show ?thesis
      using al(1) le exhausted(3) unfolding map_result_def
      by (auto intro!: exI [of _ "[]"] exI [of _ start])
  next
    case (found pte k' qs)
    let ?k1 = "k'\<lparr>mem := store64 (mem k') pte (PA2PTE pa OR scast perm OR PTE_V)\<rparr>"
    show ?thesis
    proof (cases "translate (mem k) r start = None")
      case False
      then obtain msg where msg: "mappages_loop k r start last' pa perm = Panic msg"
        using found(1,2,4) by (simp add: loop)
      have "\<exists>va. page_aligned va \<and> start \<le> va \<and> va \<le> last' \<and> translate (mem k) r va \<noteq> None"
        using False al(1) le by (intro exI [of _ start]) simp
      then show ?thesis unfolding map_result_def msg outcome.case .
    next
      case free: True
      have tr: "translate (mem ?k1) s vb = (if s = r \<and> same_page start vb then Some (leaf_pte pa perm)
          else translate (mem k) s vb)" if "s \<in> R" for s vb
        using found(6) [OF that, of "leaf_pte pa perm"] by (simp add: leaf_pte_def [symmetric])
      have ext: "extends R k ps ?k1 qs" by (rule found(5))
      show ?thesis
      proof (cases "start = last'")
        case True
        then have "mappages_loop k r start last' pa perm = Ret (0, ?k1)"
          unfolding loop using found(1,2,4) free by simp
        moreover have "start < start + 4096" "start + 4096 \<le> start + 4096"
          using va unat_add_nat [of start 4096] by (simp_all add: MAXVA_eq word_less_nat_alt)
        then have "mapped_to R r k start (start + 4096) pa perm ?k1"
          using mapped_to_step [OF al(1) va free r tr, where stop = "start + 4096" and k' = ?k1]
          by (simp add: mapped_to_none)
        ultimately show ?thesis using ext True unfolding map_result_def by auto
      next
        case False
        then have less: "start < last'" using le by simp
        note step = page_step [OF al less]
        have loop1: "mappages_loop k r start last' pa perm =
            mappages_loop ?k1 r (start + 4096) last' (pa + 4096) perm"
          using found(1,2,4) free False by (simp add: loop PAGE_SIZE_def)
        have "map_result R r ?k1 qs (start + 4096) last' (pa + 4096) perm
            (mappages_loop ?k1 r (start + 4096) last' (pa + 4096) perm)"
          using "1.IH" [OF found(1) refl found(2) _ refl False, of qs] found(4) free ext step r al(2) "1.prems"(6)
          by (simp add: PAGE_SIZE_def extends_def)
        from map_result_step [OF al less "1.prems"(6) r free tr ext found(3) this]
        show ?thesis unfolding loop1 by simp
      qed
    qed
  qed
qed

section \<open>Calls of \<open>mappages\<close>\<close>

lemma mappages_bounds:
  assumes "page_aligned va" and "page_aligned size'" and "size' \<noteq> 0" and "unat va + unat size' \<le> unat MAXVA"
  shows "ROUNDDOWN va PAGE_SIZE = va" and "ROUNDDOWN (va + size' - 1) PAGE_SIZE = va + size' - 4096"
    and "page_aligned (va + size' - 4096)" and "va \<le> va + size' - 4096" and "va + size' - 4096 < MAXVA"
    and "unat (va + size' - 4096) - unat va = unat size' - 4096"
    and "unat (va + size') = unat va + unat size'"
proof -
  obtain a b where a: "unat va = 4096 * a" and b: "unat size' = 4096 * b"
    using assms(1,2) by (auto simp: page_aligned_def dvd_def)
  have "b \<noteq> 0" using b assms(3) unat_eq_zero [of size'] by auto
  then obtain c where c: "unat size' = 4096 * c + 4096" using b by (cases b) auto
  show sum: "unat (va + size') = unat va + unat size'"
    using assms(4) unat_add_word [of va size'] by (simp add: MAXVA_eq)
  have l: "unat (va + size' - 1) = 4096 * (a + c) + 4095"
    using sum a c unat_sub [of 1 "va + size'"] by (simp add: word_le_nat_alt)
  have d: "unat (va + size' - 4096) = 4096 * (a + c)"
    using sum a c unat_sub [of 4096 "va + size'"] by (simp add: word_le_nat_alt)
  show "ROUNDDOWN va PAGE_SIZE = va" by (rule ROUNDDOWN_aligned [OF assms(1)])
  have q: "(4096 * n + 4095) div 4096 = n" for n :: nat by simp
  show "ROUNDDOWN (va + size' - 1) PAGE_SIZE = va + size' - 4096"
    by (rule word_unat_eq_iff [THEN iffD2]) (simp only: unat_ROUNDDOWN l d q mult.commute [of _ 4096])
  show "page_aligned (va + size' - 4096)" by (simp add: page_aligned_def d)
  show "va \<le> va + size' - 4096" using d a by (simp add: word_le_nat_alt)
  show "va + size' - 4096 < MAXVA" using d a c assms(4) by (simp add: word_less_nat_alt)
  show "unat (va + size' - 4096) - unat va = unat size' - 4096" using d a c by simp
qed

lemma mappages_result:
  assumes "pt_inv k R ps" and "r \<in> R" and "page_aligned va" and "page_aligned size'" and "size' \<noteq> 0"
    and "unat va + unat size' \<le> unat MAXVA"
  shows "map_result R r k ps va (va + size' - 4096) pa perm (mappages k r va size' pa perm)"
  using mappages_loop_result [OF assms(1,2,3)] mappages_bounds [OF assms(3-6)] assms(5)
  by (simp add: mappages_def Let_def)

text \<open>Pages that are not mapped can be mapped as long as two free pages are left for each of them.\<close>

lemma mappages_maps:
  assumes inv: "pt_inv k R ps" "r \<in> R" and va: "page_aligned va" "page_aligned size'" "size' \<noteq> 0"
      "unat va + unat size' \<le> unat MAXVA"
    and free: "\<And>vb. page_aligned vb \<Longrightarrow> va \<le> vb \<Longrightarrow> vb < va + size' \<Longrightarrow> translate (mem k) r vb = None"
    and room: "2 * (unat size' div 4096) \<le> length ps"
  obtains k' qs where "mappages k r va size' pa perm = Ret (0, k')" "extends R k ps k' qs"
    "mapped_to R r k va (va + size') pa perm k'"
proof -
  let ?last = "va + size' - 4096"
  note b = mappages_bounds [OF va]
  have b_last: "?last < va + size'"
    using b(4,6,7) va(2,3) unat_eq_zero [of size']
    by (auto simp: word_less_nat_alt page_aligned_def dvd_def word_le_nat_alt)
  have res: "map_result R r k ps va ?last pa perm (mappages k r va size' pa perm)"
    by (rule mappages_result [OF inv va])
  have count: "unat size' div 4096 = (unat ?last - unat va) div 4096 + 1"
  proof -
    obtain b where "unat size' = 4096 * b" "b \<noteq> 0"
      using va(2,3) unat_eq_zero [of size'] by (auto simp: page_aligned_def dvd_def)
    then show ?thesis using b(6) by (cases b) auto
  qed
  show thesis
  proof (cases "mappages k r va size' pa perm")
    case (Ret x)
    obtain c k' where x: "x = (c, k')" by (cases x)
    obtain qs stop where "extends R k ps k' qs" "mapped_to R r k va stop pa perm k'" and
      "c = 0 \<and> stop = ?last + 4096 \<or> c = -1 \<and> length ps < 2 * ((unat ?last - unat va) div 4096 + 1)"
      using res unfolding Ret x map_result_def by auto
    then show thesis using that [of k' qs] Ret x room count by auto
  next
    case (Panic msg)
    then obtain vb where "page_aligned vb" "va \<le> vb" "vb \<le> ?last" "translate (mem k) r vb \<noteq> None"
      using res by (auto simp: map_result_def)
    then show thesis using free [of vb] b_last by simp
  qed (use res in \<open>simp_all add: map_result_def\<close>)
qed

text \<open>A page that is mapped already makes the kernel panic, if the memory for tables lasts that long.\<close>

lemma mappages_remap:
  assumes inv: "pt_inv k R ps" "r \<in> R" and va: "page_aligned va" "page_aligned size'" "size' \<noteq> 0"
      "unat va + unat size' \<le> unat MAXVA"
    and mapped: "page_aligned vb" "va \<le> vb" "vb < va + size'" "translate (mem k) r vb \<noteq> None"
  shows "(\<exists>msg. mappages k r va size' pa perm = Panic msg) \<or>
    (\<exists>k'. mappages k r va size' pa perm = Ret (-1, k')) \<and> length ps < 2 * (unat size' div 4096)"
proof -
  let ?last = "va + size' - 4096"
  note b = mappages_bounds [OF va]
  obtain n where n: "unat size' = 4096 * n" "n \<noteq> 0"
    using va(2,3) unat_eq_zero [of size'] by (auto simp: page_aligned_def dvd_def)
  have res: "map_result R r k ps va ?last pa perm (mappages k r va size' pa perm)"
    by (rule mappages_result [OF inv va])
  show ?thesis
  proof (cases "mappages k r va size' pa perm")
    case (Ret x)
    obtain c k' where x: "x = (c, k')" by (cases x)
    obtain stop where to: "mapped_to R r k va stop pa perm k'" and
      c: "c = 0 \<and> stop = ?last + 4096 \<or> c = -1 \<and> length ps < 2 * ((unat ?last - unat va) div 4096 + 1)"
      using res unfolding Ret x map_result_def by auto
    have "vb < MAXVA" using mapped(3) b(7) va(4) by (simp add: word_less_nat_alt)
    then have "\<not> vb < stop" using to mapped by (auto simp: mapped_to_def)
    then have "c = -1 \<and> length ps < 2 * ((unat ?last - unat va) div 4096 + 1)"
      using c mapped(3) by auto
    then show ?thesis using Ret x b(6) n by (cases n) auto
  qed (use res in \<open>simp_all add: map_result_def\<close>)
qed

section \<open>Lookup and unmapping\<close>

text \<open>A walk without allocation finds the entry that translates the page.\<close>

lemma walk_translate:
  assumes "va < MAXVA" and "translate (mem k) r va = Some e"
  obtains t where "table (mem k) r (vpath va) = Some t" "walk k r va False = Ret (entry t (VPN_L 0 va), k)"
    "load64 (mem k) (entry t (VPN_L 0 va)) = e" "e AND PTE_V \<noteq> 0"
  using assms walk_find [of va k r]
  by (auto simp: translate_def pte_at_def Let_def split: option.splits if_splits)

lemma walk_no_translate:
  assumes "va < MAXVA" and "translate (mem k) r va = None"
  obtains pte where "walk k r va False = Ret (pte, k)" "pte = 0 \<or> load64 (mem k) pte AND PTE_V = 0"
  using assms walk_find [of va k r]
  by (cases "table (mem k) r (vpath va)") (auto simp: translate_def pte_at_def Let_def split: if_splits)

text \<open>Unmapping two pages or more always panics: the second round walks to the page the first round has
  just unmapped. This needs nothing of the tables but the alignment of the root.\<close>

lemma table_zero_store:
  assumes "page_aligned r" and "aligned8 a" and "table m r (vpath va) = Some t"
  shows "table (store64 m a 0) r (vpath va) = Some t \<or> table (store64 m a 0) r (vpath va) = None"
  using assms
  by (auto simp: vpath_def pte_at_def dword.ld_st VPN_L_less split: if_splits)

lemma uvmunmap_twice:
  assumes r: "page_aligned r"
  shows "uvmunmap_loop k r va False (a # b # as) \<noteq> Ret k'"
proof
  assume ret: "uvmunmap_loop k r va False (a # b # as) = Ret k'"
  then have va: "va < MAXVA" by (auto simp: walk_def split: if_splits)
  obtain t where t: "table (mem k) r (vpath va) = Some t"
    using ret by (cases "table (mem k) r (vpath va)") (auto simp: walk_find [OF va] split: if_splits)
  have t_al: "page_aligned t" using t r by (auto simp: vpath_def split: if_splits)
  let ?a = "entry t (VPN_L 0 va)"
  let ?k = "k\<lparr>mem := store64 (mem k) ?a 0\<rparr>"
  have "uvmunmap_loop ?k r va False (b # as) = Ret k'"
    using ret by (auto simp: walk_find [OF va] t simp del: uvmunmap_loop.simps(2)
        simp: uvmunmap_loop.simps(2) [of k] split: if_splits)
  moreover have "table (mem ?k) r (vpath va) = Some t \<or> table (mem ?k) r (vpath va) = None"
    using table_zero_store [OF r aligned8_entry [OF t_al VPN_L_less] t] by simp
  ultimately show False by (auto simp: walk_find [OF va] simp del: uvmunmap_loop.simps(2)
        simp: uvmunmap_loop.simps(2) [of ?k] split: if_splits)
qed

end
