(* ===== verification/PageOps.thy ===== *)
theory PageOps
  imports PageMap
begin

text \<open>
  The rest of kern/vm.c seen through translations: a new page table (\<open>uvmcreate\<close>) translates nothing and
  disturbs nobody, \<open>lookup\<close> is a reading of the translation, unmapping one page takes exactly that
  translation away, and giving a page back that is no table changes no translation.
\<close>

section \<open>New tables\<close>

text \<open>The tables depend only on the pages they lie in.\<close>

lemma tables_same:
  assumes page: "\<And>t. t \<in> nodes m R \<Longrightarrow> page_aligned t"
    and same: "\<And>t x. t \<in> nodes m R \<Longrightarrow> in_block x t 4096 \<Longrightarrow> m' x = m x" and r: "r \<in> R"
  shows "P \<in> paths 2 \<Longrightarrow> table m' r P = table m r P" and "translate m' r va = translate m r va"
proof -
  have pte: "pte_at m' t i = pte_at m t i" if "t \<in> nodes m R" "unat i < 512" for t i
    unfolding pte_at_def using that page same entry_in_page by (intro load64_cong) blast
  have tab: "table m' r Q = table m r Q" if Q: "Q \<in> paths 2" for Q
  proof (rule table_cong [OF _ Q])
    fix P t and i :: u64 assume "P \<in> paths 1" "table m r P = Some t" "unat i < 512"
    then show "pte_at m' t i = pte_at m t i" using pte nodesI [OF r paths_mono] by auto
  qed
  then show "P \<in> paths 2 \<Longrightarrow> table m' r P = table m r P" .
  show "translate m' r va = translate m r va"
  proof (cases "table m r (vpath va)")
    case (Some t)
    then have "pte_at m' t (VPN_L 0 va) = pte_at m t (VPN_L 0 va)"
      using pte nodesI [OF r vpath_paths] VPN_L_less by blast
    then show ?thesis using tab [OF vpath_paths] Some by (simp add: translate_def)
  qed (simp add: translate_def tab)
qed

lemma nodes_same:
  assumes "\<And>t. t \<in> nodes m R \<Longrightarrow> page_aligned t"
    and "\<And>t x. t \<in> nodes m R \<Longrightarrow> in_block x t 4096 \<Longrightarrow> m' x = m x"
  shows "nodes m' R = nodes m R"
  using tables_same(1) [OF assms] by (auto simp: nodes_def)

text \<open>A page that is written to and is neither a table nor a free page changes no table.\<close>

lemma tables_frame:
  assumes ok: "tables_ok m R ps" and frame: "\<And>x. \<not> in_block x p 4096 \<Longrightarrow> m' x = m x"
    and p: "page_aligned p" "p \<notin> nodes m R" and r: "r \<in> R"
  shows "P \<in> paths 2 \<Longrightarrow> table m' r P = table m r P" and "translate m' r va = translate m r va"
proof -
  have al: "page_aligned t" if "t \<in> nodes m R" for t using that ok ram_pageD(1) by (auto simp: tables_ok_def)
  have keep: "m' x = m x" if "t \<in> nodes m R" "in_block x t 4096" for t x
    using that frame page_disjoint [OF al p(1), of t x] p(2) by blast
  show "P \<in> paths 2 \<Longrightarrow> table m' r P = table m r P" "translate m' r va = translate m r va"
    using tables_same [of m R m' r, OF al keep r] by simp_all
qed

lemma empty_table:
  assumes "\<And>j. unat j < 512 \<Longrightarrow> pte_at m p j = 0" and "P \<in> paths 2"
  shows "table m p P = (if P = [] then Some p else None)" and "translate m p va = None"
proof -
  have t: "table m p (i # is) = None" if "unat i < 512" for i "is" using assms(1) [OF that] by simp
  show "table m p P = (if P = [] then Some p else None)"
    using assms(2) t by (cases P) (auto simp: paths_def)
  have "table m p (vpath va) = None" unfolding vpath_def by (rule t) (rule VPN_L_less)
  then show "translate m p va = None" by (simp add: translate_def)
qed

lemma uvmcreate_root:
  assumes inv: "pt_inv k R (p # ps)"
  obtains k' where "uvmcreate k = (p, k')" "pt_inv k' (insert p R) ps" "p \<notin> R"
    "\<And>va. translate (mem k') p va = None"
    "\<And>r va. r \<in> R \<Longrightarrow> translate (mem k') r va = translate (mem k) r va"
proof -
  have kinv: "kmem_inv k (p # ps)" and ok: "tables_ok (mem k) R (p # ps)"
    using inv by (simp_all add: pt_inv_def)
  obtain k1 where k1: "kalloc k = (p, k1)" "kmem_inv k1 ps" "mem k1 = filled (mem k) p 0 4096"
    using pages.alloc_page [OF kinv] by blast
  have p: "ram_page p" "p \<notin> set ps" using kinv by (simp_all add: kmem_inv_def)
  note page = ram_pageD [OF p(1)]
  let ?k = "k1\<lparr>mem := filled (mem k) p 0 4096\<rparr>"
  have fresh: "p \<notin> nodes (mem k) R" using ok by (auto simp: tables_ok_def)
  then have notin: "p \<notin> R" using nodesI [of p R "[]"] by (auto simp: paths_def)
  have frame: "filled (mem k) p 0 4096 x = mem k x" if "\<not> in_block x p 4096" for x
    using that by (simp add: filled_def)
  note old = tables_frame [OF ok frame page(1) fresh]
  have zero: "pte_at (mem ?k) p j = 0" if "unat j < 512" for j
    using load64_filled_page [OF page(1) that] by (simp add: pte_at_def)
  have new: "P \<in> paths 2 \<Longrightarrow> table (mem ?k) p P = (if P = [] then Some p else None)"
    "translate (mem ?k) p va = None" for P va
    by (rule empty_table, erule zero, assumption) (rule empty_table(2) [of _ _ "[]"], erule zero, simp add: paths_def)
  have own: "u = p \<and> S = [] \<and> t = p \<or> u \<in> R \<and> t \<noteq> p \<and> table (mem k) u S = Some t \<and> t \<in> nodes (mem k) R"
    if u: "u \<in> insert p R" "S \<in> paths 2" "table (mem ?k) u S = Some t" for u S t
  proof (cases "u = p")
    case True
    then show ?thesis using new(1) [OF u(2)] u(3) by (auto split: if_splits)
  next
    case False
    then have "u \<in> R" using u(1) by simp
    then have "table (mem k) u S = Some t" using old(1) u by simp
    then show ?thesis using \<open>u \<in> R\<close> nodesI [OF \<open>u \<in> R\<close> u(2)] fresh by auto
  qed
  have sub: "t \<in> nodes (mem ?k) (insert p R) \<Longrightarrow> t = p \<or> t \<in> nodes (mem k) R" for t
    using own unfolding nodes_def by blast
  have inj: "r = s \<and> P = Q"
    if "r \<in> insert p R" "s \<in> insert p R" "P \<in> paths 2" "Q \<in> paths 2"
      "table (mem ?k) r P = Some t" "table (mem ?k) s Q = Some t" for r s P Q t
    using own [OF that(1,3,5)] own [OF that(2,4,6)] tables_ok_inject [OF ok _ _ that(3,4)] by blast
  have "tables_ok (mem ?k) (insert p R) ps"
    unfolding tables_ok_def
  proof (intro conjI ballI allI impI)
    fix t assume "t \<in> nodes (mem ?k) (insert p R)"
    then show "ram_page t" "t \<notin> set ps" using sub [of t] ok p by (auto simp: tables_ok_def)
  qed (use inj in blast)+
  then have "pt_inv ?k (insert p R) ps"
    using k1(2,3) by (simp add: pt_inv_def kmem_inv_def)
  moreover have "uvmcreate k = (p, ?k)"
    using k1 page(2) by (simp add: uvmcreate_def memset_page [OF p(1)] filled_twice)
  ultimately show thesis
    using that [of ?k] new(2) old(2) notin by simp
qed

section \<open>Lookup\<close>

lemma lookup_translate:
  assumes inv: "pt_inv k R ps" and r: "r \<in> R" and va: "va < MAXVA"
  shows "lookup k r va = Ret
    (case translate (mem k) r va of
       Some e \<Rightarrow> if e AND PTE_U \<noteq> 0
         then (PTE2PA e, map_option (\<lambda>t. entry t (VPN_L 0 va)) (table (mem k) r (vpath va)), k)
         else (0, None, k)
     | None \<Rightarrow> (0, None, k))"
proof (cases "translate (mem k) r va")
  case None
  obtain pte where "walk k r va False = Ret (pte, k)" "pte = 0 \<or> load64 (mem k) pte AND PTE_V = 0"
    using walk_no_translate [OF va None] by blast
  then have "lookup k r va = Ret (0, None, k)" by (simp only: lookup_def andThen.simps prod.case if_P)
  then show ?thesis by (simp only: None option.case)
next
  case (Some e)
  obtain t where t: "table (mem k) r (vpath va) = Some t" and w: "walk k r va False = Ret (entry t (VPN_L 0 va), k)"
    and e: "load64 (mem k) (entry t (VPN_L 0 va)) = e" "e AND PTE_V \<noteq> 0"
    using walk_translate [OF va Some] by blast
  note page = pt_invD [OF inv r vpath_paths t]
  have "unat (entry t (VPN_L 0 va)) \<noteq> 0"
    using unat_entry [OF page(3) VPN_L_less] ram_pageD(2) [OF page(1)] by (simp add: unat_eq_zero)
  then have "entry t (VPN_L 0 va) \<noteq> 0" by (simp add: unat_eq_zero)
  then show ?thesis using Some t w e by (simp add: lookup_def)
qed

text \<open>The flags of a leaf entry and the page it points to.\<close>

lemma leaf_pte_fields:
  fixes perm :: u32
  assumes pa: "page_aligned pa" "unat pa < 2 ^ 56" and perm: "perm AND 0x3FF = perm"
  shows "PTE2PA (leaf_pte pa perm) = pa" and "PTE_FLAGS (leaf_pte pa perm) = ucast perm OR PTE_V"
proof -
  have s: "scast perm = (ucast perm :: u64)"
  proof (rule bit_word_eqI)
    fix n assume "n < LENGTH(64)"
    have high: "\<not> bit perm k" if "10 \<le> k" for k
    proof -
      have "bit perm k \<longleftrightarrow> bit (perm AND mask 10) k" using perm by (simp add: mask_eq_exp_minus_1)
      then show ?thesis using that by (auto simp: bit_simps)
    qed
    show "bit (scast perm :: u64) n = bit (ucast perm :: u64) n"
      using high [of n] high [of 31] by (auto simp: bit_simps min_def not_less)
  qed
  have f: "PTE_FLAGS (ucast perm OR PTE_V) = ucast perm OR PTE_V"
  proof -
    have "ucast (perm AND 0x3FF) = (ucast perm AND ucast (0x3FF :: u32) :: u64)" by (rule unsigned_and_eq)
    then have "PTE_FLAGS (ucast perm) = ucast perm" using perm by (simp add: PTE_FLAGS_def)
    then show ?thesis by (simp add: PTE_FLAGS_or flags_PTE_V)
  qed
  show "PTE2PA (leaf_pte pa perm) = pa"
    unfolding leaf_pte_def s or.assoc by (rule PTE2PA_PA2PTE [OF pa f])
  show "PTE_FLAGS (leaf_pte pa perm) = ucast perm OR PTE_V"
    unfolding leaf_pte_def s or.assoc by (rule PTE_FLAGS_PA2PTE [OF f])
qed

section \<open>Unmapping one page\<close>

text \<open>Giving a page back that is no table keeps the invariant and every translation.\<close>

lemma kfree_root:
  assumes inv: "pt_inv k R ps" and p: "ram_page p" "p \<notin> set ps" "p \<notin> nodes (mem k) R"
  obtains k' where "kfree k p = Ret k'" "pt_inv k' R (p # ps)" "nodes (mem k') R = nodes (mem k) R"
    "\<And>r P. r \<in> R \<Longrightarrow> P \<in> paths 2 \<Longrightarrow> table (mem k') r P = table (mem k) r P"
    "\<And>r va. r \<in> R \<Longrightarrow> translate (mem k') r va = translate (mem k) r va"
proof -
  have kinv: "kmem_inv k ps" and ok: "tables_ok (mem k) R ps" using inv by (simp_all add: pt_inv_def)
  obtain k' where k': "kfree k p = Ret k'" "kmem_inv k' (p # ps)"
    and frame: "\<forall>x. \<not> in_block x p 4096 \<longrightarrow> mem k' x = mem k x"
    using pages.free_page [OF kinv p(1,2)] by blast
  have tab: "r \<in> R \<Longrightarrow> P \<in> paths 2 \<Longrightarrow> table (mem k') r P = table (mem k) r P"
    "r \<in> R \<Longrightarrow> translate (mem k') r va = translate (mem k) r va" for r P va
    using tables_frame [OF ok _ ram_pageD(1) [OF p(1)] p(3), of "mem k'"] frame by blast+
  then have nodes: "nodes (mem k') R = nodes (mem k) R" by (auto simp: nodes_def)
  have "tables_ok (mem k') R (p # ps)"
    unfolding tables_ok_def nodes
  proof (intro conjI ballI allI impI)
    fix t assume "t \<in> nodes (mem k) R"
    then show "ram_page t" "t \<notin> set (p # ps)" using ok p(3) by (auto simp: tables_ok_def)
  next
    fix r s P Q t
    assume "r \<in> R" "s \<in> R" "P \<in> paths 2" "Q \<in> paths 2" "table (mem k') r P = Some t" "table (mem k') s Q = Some t"
    then show "r = s" "P = Q" using tables_ok_inject [OF ok, of r s P Q t] tab by simp_all
  qed
  then have "pt_inv k' R (p # ps)" using k'(2) by (simp add: pt_inv_def)
  then show thesis using that k'(1) nodes tab by blast
qed

lemma uvmunmap_page:
  assumes inv: "pt_inv k R ps" and r: "r \<in> R" and va: "page_aligned va" "va < MAXVA"
    and e: "translate (mem k) r va = Some e" "PTE_FLAGS e \<noteq> PTE_V"
    and free: "do_free \<Longrightarrow> ram_page (PTE2PA e) \<and> PTE2PA e \<notin> set ps \<and> PTE2PA e \<notin> nodes (mem k) R"
  obtains k' where "uvmunmap k r va 1 do_free = Ret (0, k')"
    "pt_inv k' R (if do_free then PTE2PA e # ps else ps)"
    "\<And>s vb. s \<in> R \<Longrightarrow> translate (mem k') s vb =
      (if s = r \<and> same_page va vb then None else translate (mem k) s vb)"
proof -
  obtain t where t: "table (mem k) r (vpath va) = Some t" and w: "walk k r va False = Ret (entry t (VPN_L 0 va), k)"
    and le: "load64 (mem k) (entry t (VPN_L 0 va)) = e" "e AND PTE_V \<noteq> 0"
    using walk_translate [OF va(2) e(1)] by blast
  note page = pt_invD [OF inv r vpath_paths t]
  have "unat (entry t (VPN_L 0 va)) \<noteq> 0"
    using unat_entry [OF page(3) VPN_L_less] ram_pageD(2) [OF page(1)] by (simp add: unat_eq_zero)
  then have pte: "entry t (VPN_L 0 va) \<noteq> 0" by (simp add: unat_eq_zero)
  obtain k1 where k1: "(if do_free then kfree k (PTE2PA e) else Ret k) = Ret k1"
      "pt_inv k1 R (if do_free then PTE2PA e # ps else ps)" "table (mem k1) r (vpath va) = Some t"
      "\<And>s vb. s \<in> R \<Longrightarrow> translate (mem k1) s vb = translate (mem k) s vb"
  proof (cases do_free)
    case True
    then have p: "ram_page (PTE2PA e)" "PTE2PA e \<notin> set ps" "PTE2PA e \<notin> nodes (mem k) R" using free by simp_all
    obtain k' where k': "kfree k (PTE2PA e) = Ret k'" "pt_inv k' R (PTE2PA e # ps)"
        "table (mem k') r (vpath va) = table (mem k) r (vpath va)"
        "\<And>s vb. s \<in> R \<Longrightarrow> translate (mem k') s vb = translate (mem k) s vb"
      using kfree_root [OF inv p] r vpath_paths by metis
    show thesis by (rule that [of k']) (use True k' t in simp_all)
  next
    case False
    then show thesis using that [of k] inv t by simp
  qed
  let ?k = "k1\<lparr>mem := store64 (mem k1) (entry t (VPN_L 0 va)) 0\<rparr>"
  note st = store_leaf [OF k1(2) r k1(3), where e = 0]
  have range: "page_range va (va + 1 * PAGE_SIZE) = [va]"
  proof -
    have "va < va + 4096" "page_aligned (va + 4096)"
      using va unat_add_nat [of va 4096]
      by (auto simp: MAXVA_eq word_less_nat_alt page_aligned_def)
    then show ?thesis using va(1) by (simp add: page_range_step page_range_empty PAGE_SIZE_def)
  qed
  have al: "va mod PAGE_SIZE = 0"
    using va(1) by (simp add: page_aligned_def PAGE_SIZE_def word_unat_eq_iff unat_mod dvd_eq_mod_eq_0)
  have "uvmunmap k r va 1 do_free = Ret (0, ?k)"
    using w pte le e(2) k1(1) al unfolding uvmunmap_def range by (cases do_free) simp_all
  then show thesis
    using that [of ?k] st(1) st(2) k1(4) by (auto simp: extends_def)
qed

end
