(* ===== verification/KernelSpace.thy ===== *)
theory KernelSpace
  imports PageOps
begin

text \<open>
  The kernel's address space: what \<open>kvmcreate\<close> (kern/vm.c) builds out of an allocator that holds all the RAM. The
  pages it takes are counted: the pages of tables and the free pages together stay the same in number, and all
  tables lie below two entries of the root, so that memory cannot run out on the way.
\<close>

section \<open>Counting tables\<close>

text \<open>\<open>reach S m r\<close>: the tables below \<open>r\<close> lie at paths of \<open>S\<close>.\<close>

definition reach :: "u64 list set \<Rightarrow> mem \<Rightarrow> u64 \<Rightarrow> bool" where
  "reach S m r \<longleftrightarrow> (\<forall>P\<in>paths 2. table m r P \<noteq> None \<longrightarrow> P \<in> S)"

lemma reach_nodes:
  assumes "reach S m r" and "finite S"
  shows "finite (nodes m {r})" and "card (nodes m {r}) \<le> card S"
proof -
  have "nodes m {r} \<subseteq> (\<lambda>P. the (table m r P)) ` S"
  proof
    fix t assume "t \<in> nodes m {r}"
    then obtain P where "P \<in> paths 2" "table m r P = Some t" by (auto simp: nodes_def)
    then show "t \<in> (\<lambda>P. the (table m r P)) ` S" using assms(1) by (intro image_eqI [of _ _ P]) (auto simp: reach_def)
  qed
  then show "finite (nodes m {r})" "card (nodes m {r}) \<le> card S"
    using assms(2) by (auto intro: finite_subset surj_card_le)
qed

lemma reach_new:
  "reach S m r \<Longrightarrow> new_tables R r va m m' \<Longrightarrow> r \<in> R \<Longrightarrow> [VPN_L 2 va] \<in> S \<Longrightarrow> vpath va \<in> S \<Longrightarrow> reach S m' r"
  by (fastforce simp: reach_def new_tables_def)

text \<open>The pages that are gone from the free list are tables.\<close>

lemma extends_card:
  assumes ext: "extends R k ps k' qs" and inv: "pt_inv k R ps" and fin: "finite (nodes (mem k') R)"
  shows "card (nodes (mem k') R) + length qs = card (nodes (mem k) R) + length ps"
proof -
  obtain us where us: "ps = us @ qs" "set us \<subseteq> nodes (mem k') R" using ext by (auto simp: extends_def)
  have dist: "distinct ps" using inv by (simp add: pt_inv_def kmem_inv_def)
  have "nodes (mem k') R \<inter> set qs = {}" using ext by (auto simp: extends_def pt_inv_def tables_ok_def)
  moreover have "nodes (mem k') R \<subseteq> nodes (mem k) R \<union> set ps" using ext by (auto simp: extends_def)
  ultimately have eq: "nodes (mem k') R = nodes (mem k) R \<union> set us" using us nodes_mono [OF ext] by auto
  have "nodes (mem k) R \<inter> set us = {}" using inv us(1) by (auto simp: pt_inv_def tables_ok_def)
  then have "card (nodes (mem k') R) = card (nodes (mem k) R) + card (set us)"
    using fin unfolding eq by (simp add: card_Un_disjoint)
  moreover have "card (set us) = length us" using dist us(1) by (simp add: distinct_card)
  ultimately show ?thesis using us(1) by simp
qed

lemma mappages_loop_reach:
  "pt_inv k R ps \<Longrightarrow> r \<in> R \<Longrightarrow> page_aligned start \<Longrightarrow> page_aligned last' \<Longrightarrow> start \<le> last' \<Longrightarrow> last' < MAXVA \<Longrightarrow>
   (\<And>va. start \<le> va \<Longrightarrow> va \<le> last' \<Longrightarrow> [VPN_L 2 va] \<in> S \<and> vpath va \<in> S) \<Longrightarrow> reach S (mem k) r \<Longrightarrow>
   mappages_loop k r start last' pa perm = Ret (c, k') \<Longrightarrow> reach S (mem k') r"
proof (induction k r start last' pa perm arbitrary: ps rule: mappages_loop.induct)
  case (1 k r start last' pa perm)
  note inv = "1.prems"(1) and r = "1.prems"(2) and al = "1.prems"(3,4) and le = "1.prems"(5) and S = "1.prems"(7)
  have va: "start < MAXVA" using le "1.prems"(6) by simp
  note loop = mappages_loop.simps [of k r start last' pa perm]
  show ?case
  proof (cases rule: map_round [OF inv r va, case_names exhausted found])
    case (exhausted k1)
    then have "k' = k1" using "1.prems"(9) by (simp add: loop)
    then show ?thesis using reach_new [OF "1.prems"(8) exhausted(4) r] S [of start] le by simp
  next
    case (found pte k1 qs)
    let ?k1 = "k1\<lparr>mem := store64 (mem k1) pte (PA2PTE pa OR scast perm OR PTE_V)\<rparr>"
    have free: "load64 (mem k1) pte AND PTE_V = 0" using "1.prems"(9) found(1,2) by (auto simp: loop split: if_splits)
    have reach1: "reach S (mem ?k1) r" using reach_new [OF "1.prems"(8) found(7) r] S [of start] le by simp
    show ?thesis
    proof (cases "start = last'")
      case True
      have "k' = ?k1" using "1.prems"(9) found(1,2) free unfolding loop by (simp add: True)
      then show ?thesis using reach1 by simp
    next
      case False
      then have less: "start < last'" using le by simp
      note step = page_step [OF al less]
      have "mappages_loop ?k1 r (start + PAGE_SIZE) last' (pa + PAGE_SIZE) perm = Ret (c, k')"
        using "1.prems"(9) found(1,2) free False by (simp add: loop)
      moreover have "pt_inv ?k1 R qs" using found(5) by (simp add: extends_def)
      moreover have "[VPN_L 2 va] \<in> S \<and> vpath va \<in> S" if "start + PAGE_SIZE \<le> va" "va \<le> last'" for va
        using S [of va] that step(4) by (simp add: PAGE_SIZE_def)
      ultimately show ?thesis
        using "1.IH" [OF found(1) refl found(2) _ refl False, of qs] free step r al(2) "1.prems"(6) reach1
        by (simp add: PAGE_SIZE_def)
    qed
  qed
qed

section \<open>Mapping without running out\<close>

text \<open>\<open>n\<close> pages are tables or free.\<close>

definition counted :: "u64 list set \<Rightarrow> u64 \<Rightarrow> nat \<Rightarrow> kmem \<Rightarrow> u64 list \<Rightarrow> bool" where
  "counted S r n k ps \<longleftrightarrow> pt_inv k {r} ps \<and> reach S (mem k) r \<and> card (nodes (mem k) {r}) + length ps = n"

lemma kvmmap_counted:
  assumes inv: "counted S r n k ps" and S: "finite S" "card S < n"
    and va: "page_aligned va" "page_aligned size'" "size' \<noteq> 0" "unat va + unat size' \<le> unat MAXVA"
    and paths: "\<And>vb. va \<le> vb \<Longrightarrow> vb < va + size' \<Longrightarrow> [VPN_L 2 vb] \<in> S \<and> vpath vb \<in> S"
    and free: "\<And>vb. page_aligned vb \<Longrightarrow> va \<le> vb \<Longrightarrow> vb < va + size' \<Longrightarrow> translate (mem k) r vb = None"
  obtains k' qs where "kvmmap k r va pa size' perm = Ret k'" "counted S r n k' qs" "extends {r} k ps k' qs"
    "mapped_to {r} r k va (va + size') pa perm k'"
proof -
  let ?last = "va + size' - 4096"
  note b = mappages_bounds [OF va]
  have pt: "pt_inv k {r} ps" and rc: "reach S (mem k) r" and n: "card (nodes (mem k) {r}) + length ps = n"
    using inv by (simp_all add: counted_def)
  have last: "?last < va + size'" "?last + 4096 = va + size'"
    using b(4,6,7) va(2,3) unat_eq_zero [of size'] dvd_imp_le [of 4096 "unat size'"]
    by (auto simp: word_less_nat_alt page_aligned_def)
  have upto: "vb < va + size'" if "vb \<le> ?last" for vb using that last(1) by (rule le_less_trans)
  have res: "map_result {r} r k ps va ?last pa perm (mappages k r va size' pa perm)"
    using mappages_result [OF pt _ va] by simp
  have loop: "mappages k r va size' pa perm = mappages_loop k r va ?last pa perm"
    using b va(3) by (simp add: mappages_def Let_def)
  show thesis
  proof (cases "mappages k r va size' pa perm")
    case (Ret x)
    obtain c k' where x: "x = (c, k')" by (cases x)
    obtain qs stop where ext: "extends {r} k ps k' qs" and map: "mapped_to {r} r k va stop pa perm k'"
      and stop: "c = 0 \<and> stop = ?last + 4096 \<or> c = -1 \<and> qs = []"
      using res unfolding map_result_def Ret x by auto
    have rc': "reach S (mem k') r"
      using mappages_loop_reach [OF pt _ va(1) b(3,4,5) _ rc] Ret [unfolded x] paths upto loop by auto
    note card = extends_card [OF ext pt reach_nodes(1) [OF rc' S(1)]]
    have "qs \<noteq> []" using card n S(2) reach_nodes(2) [OF rc' S(1)] by auto
    then have "c = 0" "stop = va + size'" using stop last(2) by auto
    moreover have "counted S r n k' qs" using card n rc' ext by (simp add: counted_def extends_def)
    moreover have "kvmmap k r va pa size' perm = Ret k'" using Ret x \<open>c = 0\<close> by (simp add: kvmmap_def)
    ultimately show thesis using map ext by (intro that) simp_all
  next
    case (Panic msg)
    then obtain vb where vb: "page_aligned vb" "va \<le> vb" "vb \<le> ?last" "translate (mem k) r vb \<noteq> None"
      using res unfolding map_result_def Panic outcome.case by blast
    then show thesis using free [OF vb(1,2) upto [OF vb(3)]] by simp
  qed (use res in \<open>simp_all add: map_result_def\<close>)
qed

text \<open>A free page that is taken for something else.\<close>

lemma kalloc_counted:
  assumes inv: "counted S r (Suc n) k ps" and S: "finite S" "card S \<le> n"
  obtains p k' qs where "ps = p # qs" "kalloc k = (p, k')" "p \<noteq> 0" "counted S r n k' qs"
    "\<And>va. translate (mem k') r va = translate (mem k) r va" "nodes (mem k') {r} = nodes (mem k) {r}"
    "\<And>x. \<not> in_block x p 4096 \<Longrightarrow> mem k' x = mem k x"
proof -
  have pt: "pt_inv k {r} ps" and rc: "reach S (mem k) r" and n: "card (nodes (mem k) {r}) + length ps = Suc n"
    using inv by (simp_all add: counted_def)
  have "length ps \<noteq> 0" using n S(2) reach_nodes(2) [OF rc S(1)] by linarith
  then obtain p qs where ps: "ps = p # qs" by (cases ps) auto
  have ok: "tables_ok (mem k) {r} (p # qs)" and kinv: "kmem_inv k (p # qs)" using pt ps by (simp_all add: pt_inv_def)
  obtain k' where k': "kalloc k = (p, k')" "kmem_inv k' qs" "mem k' = filled (mem k) p 0 4096"
    using pages.alloc_page [OF kinv] by blast
  have p: "ram_page p" "p \<notin> nodes (mem k) {r}" using kinv ok by (auto simp: kmem_inv_def tables_ok_def)
  have frame: "mem k' x = mem k x" if "\<not> in_block x p 4096" for x using that k'(3) by (simp add: filled_def)
  have tab: "table (mem k') r P = table (mem k) r P" "translate (mem k') r va = translate (mem k) r va"
    if "P \<in> paths 2" for P va
    using tables_frame [OF ok frame ram_pageD(1) [OF p(1)] p(2)] that by simp_all
  have nodes: "nodes (mem k') {r} = nodes (mem k) {r}" using tab(1) by (auto simp: nodes_def)
  have "tables_ok (mem k') {r} qs" using ok tab(1) unfolding tables_ok_def nodes by auto
  moreover have "reach S (mem k') r" using rc tab(1) by (simp add: reach_def)
  ultimately have "counted S r n k' qs" using k'(2) n ps nodes by (simp add: counted_def pt_inv_def)
  moreover have "p \<noteq> 0" using ram_pageD(2) [OF p(1)] by simp
  ultimately show thesis using that [OF ps k'(1)] tab(2) [of "[]"] nodes frame by (simp add: paths_def)
qed

section \<open>The tables of the kernel\<close>

text \<open>The paths of the tables below some entries of the root.\<close>

definition table_paths :: "u64 set \<Rightarrow> u64 list set" where
  "table_paths I = insert [] ((\<lambda>i. [i]) ` I \<union> (\<lambda>(i, j). [i, j]) ` (I \<times> {j. unat j < 512}))"

lemma table_paths_card:
  assumes "finite I"
  shows "finite (table_paths I)" and "card (table_paths I) \<le> 1 + 513 * card I"
proof -
  have "j \<in> word_of_nat ` {..<512}" if "unat j < 512" for j :: u64
    using that by (intro image_eqI [of _ _ "unat j"]) simp_all
  then have j: "{j :: u64. unat j < 512} \<subseteq> word_of_nat ` {..<512}" by auto
  have jf: "finite {j :: u64. unat j < 512}" using finite_subset [OF j] by simp
  have jc: "card {j :: u64. unat j < 512} \<le> 512"
    using order_trans [OF card_mono [OF _ j] card_image_le] by simp
  show "finite (table_paths I)" using assms jf by (simp add: table_paths_def)
  let ?a = "(\<lambda>i. [i]) ` I" and ?b = "(\<lambda>(i, j). [i, j]) ` (I \<times> {j. unat j < 512})"
  have "card ?a \<le> card I" using card_image_le [OF assms, of "\<lambda>i. [i]"] by simp
  moreover have "card ?b \<le> card (I \<times> {j :: u64. unat j < 512})" using assms jf by (intro card_image_le) simp
  then have "card ?b \<le> card I * 512"
    using mult_le_mono2 [OF jc, of "card I"] unfolding card_cartesian_product by (rule order_trans)
  moreover have "card (table_paths I) \<le> Suc (card (?a \<union> ?b))"
    unfolding table_paths_def by (rule card_insert_le_m1) simp_all
  ultimately show "card (table_paths I) \<le> 1 + 513 * card I" using card_Un_le [of ?a ?b] by simp
qed

text \<open>Everything the kernel maps lies below the entries 2 and 254 of the root.\<close>

definition kernel_paths :: "u64 list set" where "kernel_paths = table_paths {2, 254}"

lemma kernel_paths_card: "finite kernel_paths" "card kernel_paths \<le> 1027"
proof -
  have "card {2 :: u64, 254} = 2" by simp
  then show "finite kernel_paths" "card kernel_paths \<le> 1027"
    using table_paths_card [of "{2, 254}"] unfolding kernel_paths_def by simp_all
qed

lemma kernel_paths_below:
  assumes "VPN_L 2 va = 2 \<or> VPN_L 2 va = 254"
  shows "[VPN_L 2 va] \<in> kernel_paths \<and> vpath va \<in> kernel_paths"
  using assms VPN_L_less [of 1 va] by (auto simp: kernel_paths_def table_paths_def vpath_def)

lemma kernel_paths_low: "0x80000000 \<le> va \<Longrightarrow> va < 0xC0000000 \<Longrightarrow> [VPN_L 2 va] \<in> kernel_paths \<and> vpath va \<in> kernel_paths"
proof (rule kernel_paths_below)
  assume "0x80000000 \<le> va" "va < 0xC0000000"
  then have "unat va div 1073741824 = 2" by (simp add: word_le_nat_alt word_less_nat_alt)
  then have "unat (VPN_L 2 va) = unat (2 :: u64)" by (simp add: unat_VPN_L VPN_SHIFT_def)
  then show "VPN_L 2 va = 2 \<or> VPN_L 2 va = 254" by (simp only: word_unat_eq_iff simp_thms)
qed

lemma kernel_paths_high: "0x3f80000000 \<le> va \<Longrightarrow> va < 0x3fc0000000 \<Longrightarrow> [VPN_L 2 va] \<in> kernel_paths \<and> vpath va \<in> kernel_paths"
proof (rule kernel_paths_below)
  assume "0x3f80000000 \<le> va" "va < 0x3fc0000000"
  then have "unat va div 1073741824 = 254" by (simp add: word_le_nat_alt word_less_nat_alt)
  then have "unat (VPN_L 2 va) = unat (254 :: u64)" by (simp add: unat_VPN_L VPN_SHIFT_def)
  then show "VPN_L 2 va = 2 \<or> VPN_L 2 va = 254" by (simp only: word_unat_eq_iff simp_thms)
qed

lemma unat_ENVS:
  assumes "e < 1024"
  shows "unat (ENVS (word_of_nat e)) = 0x3fbfffe000 - 4096 * e" and "page_aligned (ENVS (word_of_nat e))"
    and "0x3f80000000 \<le> ENVS (word_of_nat e)" and "ENVS (word_of_nat e) + 4096 \<le> 0x3fc0000000"
    and "ENVS (word_of_nat e) < ENVS (word_of_nat e) + 4096"
proof -
  have m: "unat ((word_of_nat e + 1) * PAGE_SIZE :: u64) = 4096 * e + 4096"
    using assms by (simp add: PAGE_SIZE_def unat_word_ariths unat_of_nat)
  have "unat (UVPT - (word_of_nat e + 1) * PAGE_SIZE) = unat UVPT - (4096 * e + 4096)"
    using assms by (subst unat_sub) (simp_all add: word_le_nat_alt m UVPT_eq)
  then show u: "unat (ENVS (word_of_nat e)) = 0x3fbfffe000 - 4096 * e"
    by (simp add: ENVS_def UVPT_eq)
  have "0x3fbfffe000 - 4096 * e = 4096 * (66846718 - e)" using assms by simp
  then show "page_aligned (ENVS (word_of_nat e))" unfolding page_aligned_def u by simp
  have s: "unat (ENVS (word_of_nat e) + 4096) = unat (ENVS (word_of_nat e)) + 4096"
    using u unat_add_nat [of "ENVS (word_of_nat e)" 4096] by simp
  show "0x3f80000000 \<le> ENVS (word_of_nat e)" "ENVS (word_of_nat e) + 4096 \<le> 0x3fc0000000"
    "ENVS (word_of_nat e) < ENVS (word_of_nat e) + 4096"
    using assms u s by (simp_all add: word_le_nat_alt word_less_nat_alt)
qed

section \<open>The pages of the environments\<close>

abbreviation rw_perm :: u32 where "rw_perm \<equiv> ucast (PTE_R OR PTE_W)"
abbreviation rx_perm :: u32 where "rx_perm \<equiv> ucast (PTE_R OR PTE_X)"

text \<open>Every environment of the list gets a page of its own, which is neither free nor a table.\<close>

definition env_pages :: "nat list \<Rightarrow> u64 \<Rightarrow> kmem \<Rightarrow> u64 list \<Rightarrow> kmem \<Rightarrow> u64 list \<Rightarrow> (nat \<Rightarrow> u64) \<Rightarrow> bool" where
  "env_pages es r k ps k' qs f \<longleftrightarrow>
     (\<forall>e\<in>set es. translate (mem k') r (ENVS (word_of_nat e)) = Some (leaf_pte (f e) rw_perm)) \<and>
     (\<forall>va. page_aligned va \<longrightarrow> va < MAXVA \<longrightarrow> va \<notin> (\<lambda>e. ENVS (word_of_nat e)) ` set es \<longrightarrow>
        translate (mem k') r va = translate (mem k) r va) \<and>
     inj_on f (set es) \<and> f ` set es \<subseteq> set ps \<and> f ` set es \<inter> (set qs \<union> nodes (mem k') {r}) = {} \<and>
     set qs \<subseteq> set ps \<and> nodes (mem k') {r} \<subseteq> nodes (mem k) {r} \<union> set ps \<and>
     (\<forall>x. (\<forall>q\<in>nodes (mem k) {r} \<union> set ps. \<not> in_block x q 4096) \<longrightarrow> mem k' x = mem k x)"

lemma ENVS_inject: "a < 1024 \<Longrightarrow> b < 1024 \<Longrightarrow> ENVS (word_of_nat a) = ENVS (word_of_nat b) \<longleftrightarrow> a = b"
proof
  assume ab: "a < 1024" "b < 1024" "ENVS (word_of_nat a) = ENVS (word_of_nat b)"
  then have "0x3fbfffe000 - 4096 * a = 0x3fbfffe000 - 4096 * b" using unat_ENVS(1) [of a] unat_ENVS(1) [of b] by simp
  then show "a = b" using ab(1,2) by arith
qed simp

lemma env_create_envs_pages:
  "counted kernel_paths r n k ps \<Longrightarrow> 1027 + length es < n \<Longrightarrow> distinct es \<Longrightarrow> \<forall>e\<in>set es. e < 1024 \<Longrightarrow>
   \<forall>e\<in>set es. translate (mem k) r (ENVS (word_of_nat e)) = None \<Longrightarrow>
   \<exists>k' qs f. env_create_envs_from es k r = Ret k' \<and> counted kernel_paths r (n - length es) k' qs \<and>
     env_pages es r k ps k' qs f"
proof (induction es arbitrary: k ps n)
  case Nil
  then show ?case by (auto simp: env_pages_def)
next
  case (Cons e es)
  let ?va = "ENVS (word_of_nat e)"
  have e: "e < 1024" "\<forall>d\<in>set es. d < 1024" "e \<notin> set es" using Cons.prems by auto
  note va = unat_ENVS [OF e(1)]
  have small: "card kernel_paths < n - 1" using kernel_paths_card(2) Cons.prems(2) by simp
  have start: "counted kernel_paths r (Suc (n - 1)) k ps" using Cons.prems(1,2) by simp
  obtain p k1 ps1 where p: "ps = p # ps1" "kalloc k = (p, k1)" "p \<noteq> 0" "counted kernel_paths r (n - 1) k1 ps1"
    "\<And>va. translate (mem k1) r va = translate (mem k) r va" "nodes (mem k1) {r} = nodes (mem k) {r}"
    "\<And>x. \<not> in_block x p 4096 \<Longrightarrow> mem k1 x = mem k x"
    using kalloc_counted [OF start kernel_paths_card(1) less_imp_le [OF small]] by blast
  have only: "vb = ?va" if "page_aligned vb" "?va \<le> vb" "vb < ?va + PAGE_SIZE" for vb
    using page_next [OF va(2) that(1)] that(2,3) by (auto simp: PAGE_SIZE_def)
  have room: "unat ?va + unat PAGE_SIZE \<le> unat MAXVA" "page_aligned PAGE_SIZE" "PAGE_SIZE \<noteq> 0"
    using va(1) by (simp_all add: PAGE_SIZE_def MAXVA_eq page_aligned_def)
  have paths: "[VPN_L 2 vb] \<in> kernel_paths \<and> vpath vb \<in> kernel_paths" if "?va \<le> vb" "vb < ?va + PAGE_SIZE" for vb
    using that va(3,4) by (intro kernel_paths_high) (auto simp: PAGE_SIZE_def)
  have free: "translate (mem k1) r vb = None" if "page_aligned vb" "?va \<le> vb" "vb < ?va + PAGE_SIZE" for vb
    using only [OF that] p(5) Cons.prems(5) by simp
  obtain k2 qs where k2: "kvmmap k1 r ?va p PAGE_SIZE rw_perm = Ret k2" "counted kernel_paths r (n - 1) k2 qs"
    "extends {r} k1 ps1 k2 qs" "mapped_to {r} r k1 ?va (?va + PAGE_SIZE) p rw_perm k2"
    using kvmmap_counted [OF p(4) kernel_paths_card(1) small va(2) room(2,3,1) paths free] by blast
  have tr: "translate (mem k2) r vb = (if vb = ?va then Some (leaf_pte p rw_perm) else translate (mem k) r vb)"
    if "page_aligned vb" "vb < MAXVA" for vb
    using k2(4) that only [OF that(1)] va(5) p(5) unfolding mapped_to_def by (auto simp: PAGE_SIZE_def)
  have top: "?va < MAXVA" using va(1) by (simp add: MAXVA_eq word_less_nat_alt)
  have others: "\<forall>d\<in>set es. translate (mem k2) r (ENVS (word_of_nat d)) = None"
  proof
    fix d assume d: "d \<in> set es"
    then have "d < 1024" "d \<noteq> e" using e by auto
    moreover from this have "ENVS (word_of_nat d) < MAXVA" using unat_ENVS(1) [of d] by (simp add: MAXVA_eq word_less_nat_alt)
    ultimately show "translate (mem k2) r (ENVS (word_of_nat d)) = None"
      using tr [OF unat_ENVS(2)] ENVS_inject [of d e] e(1) Cons.prems(5) d by simp
  qed
  have room1: "1027 + length es < n - 1" "distinct es" using Cons.prems(2,3) by simp_all
  obtain k' us f where k': "env_create_envs_from es k2 r = Ret k'" "counted kernel_paths r (n - 1 - length es) k' us"
    "env_pages es r k2 qs k' us f"
    using Cons.IH [OF k2(2) room1 e(2) others] by blast
  have "env_create_envs_from (e # es) k r = Ret k'" using p(2,3) k2(1) k'(1) by (simp add: Let_def)
  moreover have "counted kernel_paths r (n - length (e # es)) k' us" using k'(2) by simp
  moreover have "env_pages (e # es) r k ps k' us (f(e := p))"
  proof -
    have map: "\<forall>d\<in>set es. translate (mem k') r (ENVS (word_of_nat d)) = Some (leaf_pte (f d) rw_perm)"
      and same: "\<And>vb. page_aligned vb \<Longrightarrow> vb < MAXVA \<Longrightarrow> vb \<notin> (\<lambda>d. ENVS (word_of_nat d)) ` set es \<Longrightarrow>
        translate (mem k') r vb = translate (mem k2) r vb"
      and inj: "inj_on f (set es)" and f: "f ` set es \<subseteq> set qs" "f ` set es \<inter> (set us \<union> nodes (mem k') {r}) = {}"
      and us: "set us \<subseteq> set qs" "nodes (mem k') {r} \<subseteq> nodes (mem k2) {r} \<union> set qs"
      and out: "\<And>x. \<forall>q\<in>nodes (mem k2) {r} \<union> set qs. \<not> in_block x q 4096 \<Longrightarrow> mem k' x = mem k2 x"
      using k'(3) unfolding env_pages_def by simp_all
    have sub: "set qs \<subseteq> set ps1" using k2(3) by (auto simp: extends_def)
    have own: "p \<notin> set ps1" "p \<notin> nodes (mem k) {r}"
      using Cons.prems(1) p(1) by (auto simp: counted_def pt_inv_def kmem_inv_def tables_ok_def)
    have nodes2: "nodes (mem k2) {r} \<subseteq> nodes (mem k) {r} \<union> set ps1"
      using k2(3) p(6) by (auto simp: extends_def)
    have p_new: "p \<notin> set us" "p \<notin> nodes (mem k') {r}" "p \<notin> f ` set es"
      using f(1) us sub own nodes2 by auto
    have not_e: "?va \<notin> (\<lambda>d. ENVS (word_of_nat d)) ` set es" using ENVS_inject e by auto
    have keep: "(f(e := p)) d = f d" if "d \<in> set es" for d using that e(3) by auto
    show ?thesis unfolding env_pages_def
    proof (intro conjI ballI allI impI)
      fix d assume "d \<in> set (e # es)"
      then show "translate (mem k') r (ENVS (word_of_nat d)) = Some (leaf_pte ((f(e := p)) d) rw_perm)"
        using map same [OF va(2) top not_e] tr [OF va(2) top] keep by (cases "d = e") auto
    next
      fix vb assume vb: "page_aligned vb" "vb < MAXVA" "vb \<notin> (\<lambda>d. ENVS (word_of_nat d)) ` set (e # es)"
      then show "translate (mem k') r vb = translate (mem k) r vb" using same tr [OF vb(1,2)] by simp
    next
      show "inj_on (f(e := p)) (set (e # es))" using inj p_new(3) e(3) by (auto simp: inj_on_def)
      show "(f(e := p)) ` set (e # es) \<subseteq> set ps" using f(1) sub p(1) keep by auto
      show "(f(e := p)) ` set (e # es) \<inter> (set us \<union> nodes (mem k') {r}) = {}"
        using f(2) p_new keep by auto
      show "set us \<subseteq> set ps" using us sub p(1) by auto
      show "nodes (mem k') {r} \<subseteq> nodes (mem k) {r} \<union> set ps" using us sub nodes2 p(1) by auto
      fix x assume x: "\<forall>q\<in>nodes (mem k) {r} \<union> set ps. \<not> in_block x q 4096"
      then have "mem k' x = mem k2 x" using nodes2 sub p(1) by (intro out) auto
      also have "\<dots> = mem k1 x" using x k2(3) p(1,6) by (auto simp: extends_def)
      also have "\<dots> = mem k x" using x p(1) by (intro p(7)) simp
      finally show "mem k' x = mem k x" .
    qed
  qed
  ultimately show ?case by blast
qed

section \<open>The address space\<close>

text \<open>Where an address outside the pages of the environments leads: the pages of the kernel's text, readable and
  executable; its data and the rest of the RAM, readable and writable, at their own addresses; the devices, \<open>0x88000000\<close>
  above theirs. When the text does not end on a page boundary, the data ends one page behind the RAM.\<close>

definition data_start :: "u64 \<Rightarrow> u64" where "data_start etext = ROUND etext PAGE_SIZE"

definition data_end :: "u64 \<Rightarrow> u64" where "data_end etext = ROUND etext PAGE_SIZE + ROUND (PHYEND - etext) PAGE_SIZE"

definition kernel_region :: "u64 \<Rightarrow> u64 \<Rightarrow> (u64 \<times> u32) option" where
  "kernel_region etext va =
     (if 0x80000000 \<le> va \<and> va < data_start etext then Some (va, rx_perm)
      else if data_start etext \<le> va \<and> va < data_end etext then Some (va, rw_perm)
      else if CLINT + 0x88000000 \<le> va \<and> va < CLINT + 0x88010000 then Some (va - 0x88000000, rw_perm)
      else if PLIC + 0x88000000 \<le> va \<and> va < PLIC + 0x88400000 then Some (va - 0x88000000, rw_perm)
      else if UART0 + 0x88000000 \<le> va \<and> va < UART0 + 0x88001000 then Some (va - 0x88000000, rw_perm)
      else if VIRTIO0 + 0x88000000 \<le> va \<and> va < VIRTIO0 + 0x88001000 then Some (va - 0x88000000, rw_perm)
      else None)"

definition overlay :: "u64 \<Rightarrow> u64 \<Rightarrow> u64 \<Rightarrow> u32 \<Rightarrow> (u64 \<Rightarrow> u64 option) \<Rightarrow> u64 \<Rightarrow> u64 option" where
  "overlay va size' pa perm g vb =
     (if va \<le> vb \<and> vb < va + size' then Some (leaf_pte (pa + (vb - va)) perm) else g vb)"

definition maps_as :: "kmem \<Rightarrow> u64 \<Rightarrow> (u64 \<Rightarrow> u64 option) \<Rightarrow> bool" where
  "maps_as k r g \<longleftrightarrow> (\<forall>vb. page_aligned vb \<longrightarrow> vb < MAXVA \<longrightarrow> translate (mem k) r vb = g vb)"

lemma text_end:
  assumes "0x80000000 < etext" and "etext < PHYEND"
  obtains e c where "unat (data_start etext) = 4096 * e" "unat (ROUND (PHYEND - etext) PAGE_SIZE) = 4096 * c"
    "0x80000 < e" "e \<le> 0x88000" "0 < c" "0x88000 \<le> e + c" "e + c \<le> 0x88001" "unat (data_end etext) = 4096 * (e + c)"
    "ROUND (etext - 0x80000000) PAGE_SIZE = data_start etext - 0x80000000"
proof -
  let ?x = "unat etext"
  have x: "0x80000000 < ?x" "?x < 0x88000000" using assms by (simp_all add: word_less_nat_alt PHYEND_def)
  have sub: "unat (PHYEND - etext) = 0x88000000 - ?x" "unat (etext - 0x80000000) = ?x - 0x80000000"
    using x by (simp_all add: unat_sub PHYEND_def word_le_nat_alt)
  let ?e = "(?x + 4095) div 4096" and ?c = "(0x88000000 - ?x + 4095) div 4096"
  have e: "unat (data_start etext) = 4096 * ?e" using unat_ROUND [of etext] x by (simp add: data_start_def mult.commute)
  have c: "unat (ROUND (PHYEND - etext) PAGE_SIZE) = 4096 * ?c"
    using unat_ROUND [of "PHYEND - etext"] x sub(1) by (simp add: mult.commute)
  have b: "0x80000 < ?e" "?e \<le> 0x88000" "0 < ?c" "0x88000 \<le> ?e + ?c" "?e + ?c \<le> 0x88001" using x by linarith+
  have "unat (ROUND etext PAGE_SIZE) + unat (ROUND (PHYEND - etext) PAGE_SIZE) < 2 ^ LENGTH(64)"
    unfolding e [unfolded data_start_def] c using b(5) by simp
  then have "unat (data_end etext) = 4096 * ?e + 4096 * ?c"
    unfolding data_end_def by (simp only: unat_add_word e [unfolded data_start_def] c)
  then have d: "unat (data_end etext) = 4096 * (?e + ?c)" by (simp only: distrib_left)
  have "unat (ROUND (etext - 0x80000000) PAGE_SIZE) = (?x - 0x80000000 + 4095) div 4096 * 4096"
    using unat_ROUND [of "etext - 0x80000000"] x sub(2) by simp
  moreover have "unat (data_start etext - 0x80000000) = 4096 * ?e - 0x80000000"
    using e b(1) by (simp add: unat_sub word_le_nat_alt)
  moreover have "(?x - 0x80000000 + 4095) div 4096 * 4096 = 4096 * ?e - 0x80000000"
  proof -
    obtain y where y: "?x = 0x80000000 + y" using x(1) by (metis less_imp_le le_Suc_ex)
    have "?e = (4096 * 0x80000 + (y + 4095)) div 4096" unfolding y by (simp add: add.assoc)
    also have "\<dots> = 0x80000 + (y + 4095) div 4096" by (rule div_mult_self4) simp
    finally show ?thesis unfolding y by simp
  qed
  ultimately have "ROUND (etext - 0x80000000) PAGE_SIZE = data_start etext - 0x80000000" by (simp add: word_unat_eq_iff)
  then show thesis using that [OF e c b d] by blast
qed

text \<open>A mapping goes up to the end of its last page.\<close>

lemma mappages_ROUND:
  assumes va: "page_aligned va" and sz: "size' \<noteq> 0" "unat va + unat size' + 4096 < 2 ^ 64"
  shows "mappages k r va size' pa perm = mappages k r va (ROUND size' PAGE_SIZE) pa perm"
proof -
  obtain a where a: "unat va = 4096 * a" using va by (auto simp: page_aligned_def dvd_def)
  let ?n = "unat size'" and ?c = "(unat size' + 4095) div 4096"
  have n: "0 < ?n" using sz(1) by (simp add: unat_gt_0)
  have r: "unat (ROUND size' PAGE_SIZE) = 4096 * ?c" using unat_ROUND [of size'] sz(2) by (simp add: mult.commute)
  have c: "0 < ?c" "4096 * ?c < ?n + 4096" "?n \<le> 4096 * ?c" using n by linarith+
  have u: "unat (va + s - 1) = unat va + unat s - 1" if "0 < unat s" "unat va + unat s < 2 ^ 64" for s :: u64
    using that unat_add_word [of va s] unat_sub [of 1 "va + s"] by (simp add: word_le_nat_alt)
  have "unat (ROUNDDOWN (va + size' - 1) PAGE_SIZE) = (4096 * a + ?n - 1) div 4096 * 4096"
    unfolding unat_ROUNDDOWN using u [of size'] n sz(2) a by simp
  moreover have "unat (ROUNDDOWN (va + ROUND size' PAGE_SIZE - 1) PAGE_SIZE) = (4096 * a + 4096 * ?c - 1) div 4096 * 4096"
    unfolding unat_ROUNDDOWN using u [of "ROUND size' PAGE_SIZE"] r c sz(2) a by simp
  moreover have "(4096 * a + ?n - 1) div 4096 = (4096 * a + 4096 * ?c - 1) div 4096"
  proof -
    obtain d where d: "?n = Suc d" using n by (cases ?n) auto
    have "?c = Suc (d div 4096)" using d by simp
    then have "4096 * a + 4096 * ?c - 1 = 4096 * (a + d div 4096) + 4095" "4096 * a + ?n - 1 = 4096 * a + d"
      using d by simp_all
    moreover have "(4096 * q + 4095) div 4096 = q" for q :: nat by simp
    ultimately show ?thesis by (simp only: div_mult_self4 [of 4096])
  qed
  ultimately have "ROUNDDOWN (va + size' - 1) PAGE_SIZE = ROUNDDOWN (va + ROUND size' PAGE_SIZE - 1) PAGE_SIZE"
    by (simp only: word_unat_eq_iff)
  moreover have "ROUND size' PAGE_SIZE \<noteq> 0" using r c(1) by (auto simp: word_unat_eq_iff)
  ultimately show ?thesis using sz(1) by (simp add: mappages_def)
qed

lemma kvmmap_region:
  assumes inv: "counted kernel_paths r n k ps" "1027 < n"
    and va: "4096 dvd unat va" "4096 dvd unat size'" "size' \<noteq> 0" "0x80000000 \<le> unat va" "unat va + unat size' \<le> 0xC0000000"
    and g: "maps_as k r g" and free: "\<And>vb. va \<le> vb \<Longrightarrow> vb < va + size' \<Longrightarrow> g vb = None"
  obtains k' qs where "kvmmap k r va pa size' perm = Ret k'" "counted kernel_paths r n k' qs"
    "extends {r} k ps k' qs" "maps_as k' r (overlay va size' pa perm g)"
proof -
  have al: "page_aligned va" "page_aligned size'" using va by (simp_all add: page_aligned_def)
  have room: "unat va + unat size' \<le> unat MAXVA" using va(5) by (simp add: MAXVA_eq)
  have sum: "unat (va + size') = unat va + unat size'" using mappages_bounds(7) [OF al va(3) room] .
  have paths: "[VPN_L 2 vb] \<in> kernel_paths \<and> vpath vb \<in> kernel_paths" if "va \<le> vb" "vb < va + size'" for vb
    using that sum va(4,5) by (intro kernel_paths_low) (simp_all add: word_le_nat_alt word_less_nat_alt)
  have none: "translate (mem k) r vb = None" if "page_aligned vb" "va \<le> vb" "vb < va + size'" for vb
  proof -
    have "vb < MAXVA" using that(3) sum room by (simp add: word_less_nat_alt)
    then show ?thesis using g that(1) free [OF that(2,3)] by (simp add: maps_as_def)
  qed
  have small: "card kernel_paths < n" using kernel_paths_card(2) inv(2) by simp
  obtain k' qs where k': "kvmmap k r va pa size' perm = Ret k'" "counted kernel_paths r n k' qs"
    "extends {r} k ps k' qs" "mapped_to {r} r k va (va + size') pa perm k'"
    using kvmmap_counted [OF inv(1) kernel_paths_card(1) small al va(3) room paths none] by blast
  have "maps_as k' r (overlay va size' pa perm g)"
    using k'(4) g by (simp add: maps_as_def overlay_def mapped_to_def)
  then show thesis using that k'(1,2,3) by blast
qed

lemma kernel_root:
  assumes "kmem_inv k (r # ps)"
  obtains k' where "kalloc k = (r, k')" "counted kernel_paths r (Suc (length ps)) (k'\<lparr>mem := fst (memset (mem k') r 0 PAGE_SIZE)\<rparr>) ps"
    "maps_as (k'\<lparr>mem := fst (memset (mem k') r 0 PAGE_SIZE)\<rparr>) r (\<lambda>_. None)"
    "nodes (fst (memset (mem k') r 0 PAGE_SIZE)) {r} = {r}"
    "\<And>x. \<not> in_block x r 4096 \<Longrightarrow> fst (memset (mem k') r 0 PAGE_SIZE) x = mem k x"
proof -
  have "pt_inv k {} (r # ps)" using assms by (simp add: pt_inv_def tables_ok_def nodes_def)
  then obtain k1 where k1: "uvmcreate k = (r, k1)" "pt_inv k1 {r} ps" "\<And>va. translate (mem k1) r va = None"
    using uvmcreate_root by metis
  obtain k' where k': "kalloc k = (r, k')" "mem k' = filled (mem k) r 0 4096" using pages.alloc_page [OF assms] by blast
  have "r \<noteq> 0" using assms by (auto simp: kmem_inv_def dest: ram_pageD(2))
  then have eq: "k1 = k'\<lparr>mem := fst (memset (mem k') r 0 PAGE_SIZE)\<rparr>" using k1(1) k' by (simp add: uvmcreate_def)
  have page: "ram_page r" using assms by (simp add: kmem_inv_def)
  have "pte_at (mem k1) r j = 0" if "unat j < 512" for j
    using load64_filled_page [OF ram_pageD(1) [OF page] that] by (simp add: eq pte_at_def memset_page [OF page])
  note none = empty_table(1) [OF this]
  have "reach kernel_paths (mem k1) r" "nodes (mem k1) {r} = {r}"
    using none by (auto simp: reach_def kernel_paths_def table_paths_def nodes_def paths_def split: if_splits)
  moreover have "fst (memset (mem k') r 0 PAGE_SIZE) x = mem k x" if "\<not> in_block x r 4096" for x
    using that by (simp add: memset_page [OF page] k'(2) filled_def)
  ultimately show thesis using that [OF k'(1)] k1(2,3) eq by (simp add: counted_def maps_as_def)
qed

text \<open>\<open>kvmcreate\<close> up to the pages of the environments.\<close>

lemma kernel_maps:
  assumes inv: "counted kernel_paths r n k ps" "1027 < n" and none: "maps_as k r (\<lambda>_. None)"
    and et: "0x80000000 < etext" "etext < PHYEND"
  obtains k' qs where
    "andThen (kvmmap k r (CLINT + 0x88000000) CLINT 0x10000 rw_perm) (\<lambda>k.
     andThen (kvmmap k r (UART0 + 0x88000000) UART0 PAGE_SIZE rw_perm) (\<lambda>k.
     andThen (kvmmap k r (VIRTIO0 + 0x88000000) VIRTIO0 PAGE_SIZE rw_perm) (\<lambda>k.
     andThen (kvmmap k r (PLIC + 0x88000000) PLIC 0x400000 rw_perm) (\<lambda>k.
     andThen (kvmmap k r 0x80000000 0x80000000 (etext - 0x80000000) rx_perm) (\<lambda>k.
     kvmmap k r (ROUND etext PAGE_SIZE) (ROUND etext PAGE_SIZE) (PHYEND - etext) rw_perm))))) = Ret k'"
    "counted kernel_paths r n k' qs" "extends {r} k ps k' qs"
    "maps_as k' r (\<lambda>va. map_option (\<lambda>(pa, perm). leaf_pte pa perm) (kernel_region etext va))"
proof -
  let ?t = "data_start etext" and ?s = "ROUND (PHYEND - etext) PAGE_SIZE"
  obtain e c where e: "unat ?t = 4096 * e" "unat ?s = 4096 * c" "0x80000 < e" "e \<le> 0x88000" "0 < c" "0x88000 \<le> e + c"
    "e + c \<le> 0x88001" "unat (data_end etext) = 4096 * (e + c)" "ROUND (etext - 0x80000000) PAGE_SIZE = ?t - 0x80000000"
    by (rule text_end [OF et]) (rule that)
  have size: "unat (?t - 0x80000000) = 4096 * (e - 0x80000)"
    using e by (simp add: unat_sub word_le_nat_alt)
  have nz: "?t - 0x80000000 \<noteq> 0" "?s \<noteq> 0" using e(2,5) size e(3) by (auto simp: word_unat_eq_iff)
  have ends: "0x80000000 + (?t - 0x80000000) = ?t" "?t + ?s = data_end etext" by (simp_all add: data_start_def data_end_def)
  have dec: "unat (etext - 0x80000000) < 0x8000000" "unat (PHYEND - etext) < 0x8000000"
    using et by (simp_all add: unat_sub PHYEND_def word_less_nat_alt word_le_nat_alt)
  have nz0: "etext - 0x80000000 \<noteq> 0" "PHYEND - etext \<noteq> 0" using et by auto
  have rd: "kvmmap k r 0x80000000 0x80000000 (etext - 0x80000000) rx_perm = kvmmap k r 0x80000000 0x80000000 (?t - 0x80000000) rx_perm"
    "kvmmap k r ?t ?t (PHYEND - etext) rw_perm = kvmmap k r ?t ?t ?s rw_perm" for k
    using mappages_ROUND [of "0x80000000" "etext - 0x80000000"] mappages_ROUND [of ?t "PHYEND - etext"] nz0 dec e(1,4,9)
    by (simp_all add: kvmmap_def page_aligned_def)
  let ?g1 = "overlay 0x8a000000 0x10000 CLINT rw_perm (\<lambda>_. None)"
  let ?g2 = "overlay 0x98000000 0x1000 UART0 rw_perm ?g1"
  let ?g3 = "overlay 0x98001000 0x1000 VIRTIO0 rw_perm ?g2"
  let ?g4 = "overlay 0x94000000 0x400000 PLIC rw_perm ?g3"
  let ?g5 = "overlay 0x80000000 (?t - 0x80000000) 0x80000000 rx_perm ?g4"
  let ?g6 = "overlay ?t ?s ?t rw_perm ?g5"
  obtain k1 ps1 where k1: "kvmmap k r 0x8a000000 CLINT 0x10000 rw_perm = Ret k1" "counted kernel_paths r n k1 ps1"
    "extends {r} k ps k1 ps1" "maps_as k1 r ?g1"
    by (rule kvmmap_region [OF inv, of "0x8a000000" "0x10000" "\<lambda>_. None" CLINT rw_perm]) (use none in simp_all)
  obtain k2 ps2 where k2: "kvmmap k1 r 0x98000000 UART0 0x1000 rw_perm = Ret k2" "counted kernel_paths r n k2 ps2"
    "extends {r} k1 ps1 k2 ps2" "maps_as k2 r ?g2"
    by (rule kvmmap_region [OF k1(2) inv(2), of "0x98000000" "0x1000" ?g1 UART0 rw_perm])
      (use k1(4) in \<open>auto simp: overlay_def word_le_nat_alt word_less_nat_alt\<close>)
  obtain k3 ps3 where k3: "kvmmap k2 r 0x98001000 VIRTIO0 0x1000 rw_perm = Ret k3" "counted kernel_paths r n k3 ps3"
    "extends {r} k2 ps2 k3 ps3" "maps_as k3 r ?g3"
    by (rule kvmmap_region [OF k2(2) inv(2), of "0x98001000" "0x1000" ?g2 VIRTIO0 rw_perm])
      (use k2(4) in \<open>auto simp: overlay_def word_le_nat_alt word_less_nat_alt\<close>)
  obtain k4 ps4 where k4: "kvmmap k3 r 0x94000000 PLIC 0x400000 rw_perm = Ret k4" "counted kernel_paths r n k4 ps4"
    "extends {r} k3 ps3 k4 ps4" "maps_as k4 r ?g4"
    by (rule kvmmap_region [OF k3(2) inv(2), of "0x94000000" "0x400000" ?g3 PLIC rw_perm])
      (use k3(4) in \<open>auto simp: overlay_def word_le_nat_alt word_less_nat_alt\<close>)
  have below: "?g4 vb = None" if "unat vb < 0x88001000" for vb
    using that by (auto simp: overlay_def word_le_nat_alt word_less_nat_alt)
  obtain k5 ps5 where k5: "kvmmap k4 r 0x80000000 0x80000000 (?t - 0x80000000) rx_perm = Ret k5"
    "counted kernel_paths r n k5 ps5" "extends {r} k4 ps4 k5 ps5" "maps_as k5 r ?g5"
  proof (rule kvmmap_region [OF k4(2) inv(2), of "0x80000000" "?t - 0x80000000" ?g4 "0x80000000" rx_perm])
    show "unat (0x80000000 :: u64) + unat (?t - 0x80000000) \<le> 0xC0000000" unfolding size using e(4) by simp
    show "?g4 vb = None" if "vb < 0x80000000 + (?t - 0x80000000)" for vb
      by (rule below) (use that e(1,4) ends(1) in \<open>simp add: word_less_nat_alt\<close>)
  qed (use k4(4) nz(1) size in simp_all)
  obtain k6 ps6 where k6: "kvmmap k5 r ?t ?t ?s rw_perm = Ret k6"
    "counted kernel_paths r n k6 ps6" "extends {r} k5 ps5 k6 ps6" "maps_as k6 r ?g6"
  proof (rule kvmmap_region [OF k5(2) inv(2), of ?t ?s ?g5 ?t rw_perm])
    show "unat ?t + unat ?s \<le> 0xC0000000" using e(1,2,7) by simp
    show "?g5 vb = None" if "?t \<le> vb" "vb < ?t + ?s" for vb
    proof -
      have "unat vb < 0x88001000" using that(2) e(7,8) unfolding ends(2) by (simp add: word_less_nat_alt)
      moreover have "\<not> vb < ?t" using that(1) by simp
      ultimately show ?thesis using below [of vb] ends(1) by (simp only: overlay_def [of "0x80000000"] simp_thms if_False)
    qed
  qed (use k5(4) nz(2) e in simp_all)
  have "?g6 va = map_option (\<lambda>(pa, perm). leaf_pte pa perm) (kernel_region etext va)" for va
  proof -
    have shift: "a + (va - (a + b)) = va - b" for a b :: u64 by simp
    have dev: "CLINT + (va - 0x8a000000) = va - 0x88000000" "UART0 + (va - 0x98000000) = va - 0x88000000"
      "VIRTIO0 + (va - 0x98001000) = va - 0x88000000" "PLIC + (va - 0x94000000) = va - 0x88000000"
      using shift [of CLINT "0x88000000"] shift [of UART0 "0x88000000"] shift [of VIRTIO0 "0x88000000"]
        shift [of PLIC "0x88000000"]
      by (simp_all add: CLINT_def UART0_def VIRTIO0_def PLIC_def)
    have own: "a + (va - a) = va" for a :: u64 by simp
    have limits: "0x80000000 \<le> va \<and> va < ?t \<longleftrightarrow> 0x80000000 \<le> unat va \<and> unat va < 4096 * e"
      "?t \<le> va \<and> va < data_end etext \<longleftrightarrow> 4096 * e \<le> unat va \<and> unat va < 4096 * (e + c)"
      "CLINT + 0x88000000 \<le> va \<and> va < CLINT + 0x88010000 \<longleftrightarrow> 0x8a000000 \<le> unat va \<and> unat va < 0x8a010000"
      "PLIC + 0x88000000 \<le> va \<and> va < PLIC + 0x88400000 \<longleftrightarrow> 0x94000000 \<le> unat va \<and> unat va < 0x94400000"
      "UART0 + 0x88000000 \<le> va \<and> va < UART0 + 0x88001000 \<longleftrightarrow> 0x98000000 \<le> unat va \<and> unat va < 0x98001000"
      "VIRTIO0 + 0x88000000 \<le> va \<and> va < VIRTIO0 + 0x88001000 \<longleftrightarrow> 0x98001000 \<le> unat va \<and> unat va < 0x98002000"
      "0x8a000000 \<le> va \<and> va < 0x8a000000 + 0x10000 \<longleftrightarrow> 0x8a000000 \<le> unat va \<and> unat va < 0x8a010000"
      "0x98000000 \<le> va \<and> va < 0x98000000 + 0x1000 \<longleftrightarrow> 0x98000000 \<le> unat va \<and> unat va < 0x98001000"
      "0x98001000 \<le> va \<and> va < 0x98001000 + 0x1000 \<longleftrightarrow> 0x98001000 \<le> unat va \<and> unat va < 0x98002000"
      "0x94000000 \<le> va \<and> va < 0x94000000 + 0x400000 \<longleftrightarrow> 0x94000000 \<le> unat va \<and> unat va < 0x94400000"
      by (simp_all add: word_le_nat_alt word_less_nat_alt e layout)
    show ?thesis
      unfolding overlay_def kernel_region_def ends limits dev own using e(3,4,7) by auto
  qed
  then have "maps_as k6 r (\<lambda>va. map_option (\<lambda>(pa, perm). leaf_pte pa perm) (kernel_region etext va))"
    using k6(4) by (simp add: maps_as_def)
  moreover have "extends {r} k ps k6 ps6"
    using k1(3) k2(3) k3(3) k4(3) k5(3) k6(3) by (blast intro: extends_trans)
  ultimately show thesis
    using that [of k6 ps6] k1(1) k2(1) k3(1) k4(1) k5(1) k6(1,2) 
    by (simp add: rd [unfolded data_start_def PAGE_SIZE_def] data_start_def CLINT_def UART0_def VIRTIO0_def PLIC_def PAGE_SIZE_def)
qed

lemma kernel_region_low:
  assumes "0x80000000 < etext" and "etext < PHYEND" and "kernel_region etext va \<noteq> None"
  shows "0x80000000 \<le> va" and "va < 0x98002000"
proof -
  obtain e c where "unat (data_start etext) = 4096 * e" "e \<le> 0x88000" "e + c \<le> 0x88001" "unat (data_end etext) = 4096 * (e + c)"
    "0x80000 < e"
    using text_end [OF assms(1,2)] by metis
  then show "0x80000000 \<le> va" "va < 0x98002000"
    using assms(3) by (auto simp: kernel_region_def word_le_nat_alt word_less_nat_alt layout split: if_splits)
qed

lemma kernel_region_ENVS:
  assumes "0x80000000 < etext" and "etext < PHYEND" and "e < 1024"
  shows "kernel_region etext (ENVS (word_of_nat e)) = None"
  using kernel_region_low(2) [OF assms(1,2), of "ENVS (word_of_nat e)"] unat_ENVS(1) [OF assms(3)] assms(3)
  by (cases "kernel_region etext (ENVS (word_of_nat e))") (auto simp: word_less_nat_alt)

lemma pages_up: "(x + 4095) div 4096 = x div 4096 + (if x mod 4096 = 0 then 0 else (1 :: nat))"
proof -
  obtain q m where x: "x = m + 4096 * q" "m < 4096" by (metis mod_less_divisor mod_mult_div_eq zero_less_numeral)
  have "(m + 4095) div 4096 = (if m = 0 then 0 else 1)" using x(2) by (auto intro: div_nat_eqI)
  moreover have "(x + 4095) div 4096 = q + (m + 4095) div 4096"
    using div_mult_self2 [of 4096 "m + 4095" q] by (simp add: x(1) add.commute add.left_commute)
  moreover have "x div 4096 = q" "x mod 4096 = m" using x by auto
  ultimately show ?thesis by simp
qed

text \<open>When the text does not end on a page boundary, the map reaches one page beyond the RAM.\<close>

lemma kernel_region_PHYEND:
  assumes "0x80000000 < end_of_text" and "end_of_text < PHYEND"
  shows "kernel_region end_of_text PHYEND = (if page_aligned end_of_text then None else Some (PHYEND, rw_perm))"
proof -
  let ?x = "unat end_of_text"
  have x: "0x80000000 < ?x" "?x < 0x88000000" using assms by (simp_all add: word_less_nat_alt PHYEND_def)
  have sub: "unat (PHYEND - end_of_text) = 0x88000000 - ?x" using x by (simp add: unat_sub PHYEND_def word_le_nat_alt)
  have s: "unat (data_start end_of_text) = 4096 * ((?x + 4095) div 4096)"
    using unat_ROUND [of end_of_text] x by (simp add: data_start_def mult.commute)
  have c: "unat (ROUND (PHYEND - end_of_text) PAGE_SIZE) = 4096 * ((0x88000000 - ?x + 4095) div 4096)"
    using unat_ROUND [of "PHYEND - end_of_text"] x sub by (simp add: mult.commute)
  have "(?x + 4095) div 4096 \<le> 0x88000" "(0x88000000 - ?x + 4095) div 4096 \<le> 0x8000" using x by linarith+
  then have le: "4096 * ((?x + 4095) div 4096) \<le> 0x88000000" "4096 * ((0x88000000 - ?x + 4095) div 4096) \<le> 0x8000000" by linarith+
  have d: "unat (data_end end_of_text) = 4096 * ((?x + 4095) div 4096) + 4096 * ((0x88000000 - ?x + 4095) div 4096)"
    using le unfolding data_end_def s [symmetric] c [symmetric] data_start_def by (intro unat_add_word) simp
  have al: "page_aligned end_of_text \<longleftrightarrow> unat (data_end end_of_text) \<le> 0x88000000"
  proof -
    have x4: "?x = 4096 * (?x div 4096) + ?x mod 4096" "?x mod 4096 < 4096" by simp_all
    moreover have "(?x + 4095) div 4096 = ?x div 4096 + (if ?x mod 4096 = 0 then 0 else 1)" by (rule pages_up)
    moreover have "(0x88000000 - ?x + 4095) div 4096 = 0x88000 - ?x div 4096" using x by linarith
    moreover have "?x div 4096 < 0x88000" using x by linarith
    ultimately show ?thesis unfolding d page_aligned_def dvd_eq_mod_eq_0 by (cases "?x mod 4096 = 0") (simp_all, linarith+)
  qed
  have "data_start end_of_text \<le> PHYEND" using s le(1) by (simp add: word_le_nat_alt PHYEND_def)
  moreover have "PHYEND < data_end end_of_text \<longleftrightarrow> \<not> page_aligned end_of_text"
    unfolding al by (simp add: word_less_nat_alt PHYEND_def not_le)
  ultimately show ?thesis by (auto simp: kernel_region_def layout)
qed

lemma kvmcreate_space:
  assumes "kmem_inv k ps" and "2052 < length ps" and et: "0x80000000 < etext" "etext < PHYEND"
  shows "\<exists>r k' qs f. kvmcreate k etext = Ret (r, k') \<and> pt_inv k' {r} qs \<and> inj_on f {..<1024} \<and>
    f ` {..<1024} \<subseteq> set ps \<and> f ` {..<1024} \<inter> (set qs \<union> nodes (mem k') {r}) = {} \<and>
    (\<forall>e<1024. translate (mem k') r (ENVS (word_of_nat e)) = Some (leaf_pte (f e) rw_perm)) \<and>
    (\<forall>va. page_aligned va \<and> va < MAXVA \<and> va \<notin> (\<lambda>e. ENVS (word_of_nat e)) ` {..<1024} \<longrightarrow>
       translate (mem k') r va = map_option (\<lambda>(pa, perm). leaf_pte pa perm) (kernel_region etext va)) \<and>
    length ps \<le> length qs + 2051 \<and> set qs \<subseteq> set ps \<and> (\<forall>x. (\<forall>q\<in>set ps. \<not> in_block x q 4096) \<longrightarrow> mem k' x = mem k x)"
proof -
  obtain r ps1 where ps: "ps = r # ps1" using assms(2) by (cases ps) auto
  obtain k0 where k0: "kalloc k = (r, k0)"
    "counted kernel_paths r (Suc (length ps1)) (k0\<lparr>mem := fst (memset (mem k0) r 0 PAGE_SIZE)\<rparr>) ps1"
    "maps_as (k0\<lparr>mem := fst (memset (mem k0) r 0 PAGE_SIZE)\<rparr>) r (\<lambda>_. None)"
    "nodes (fst (memset (mem k0) r 0 PAGE_SIZE)) {r} = {r}"
    "\<And>x. \<not> in_block x r 4096 \<Longrightarrow> fst (memset (mem k0) r 0 PAGE_SIZE) x = mem k x"
    using kernel_root assms(1) unfolding ps by blast
  have n: "1027 < Suc (length ps1)" "1027 + length [0..<1024] < Suc (length ps1)" using assms(2) ps by simp_all
  obtain k1 qs1 where k1: "andThen (kvmmap (k0\<lparr>mem := fst (memset (mem k0) r 0 PAGE_SIZE)\<rparr>) r (CLINT + 0x88000000) CLINT 0x10000 rw_perm) (\<lambda>k.
     andThen (kvmmap k r (UART0 + 0x88000000) UART0 PAGE_SIZE rw_perm) (\<lambda>k.
     andThen (kvmmap k r (VIRTIO0 + 0x88000000) VIRTIO0 PAGE_SIZE rw_perm) (\<lambda>k.
     andThen (kvmmap k r (PLIC + 0x88000000) PLIC 0x400000 rw_perm) (\<lambda>k.
     andThen (kvmmap k r 0x80000000 0x80000000 (etext - 0x80000000) rx_perm) (\<lambda>k.
     kvmmap k r (ROUND etext PAGE_SIZE) (ROUND etext PAGE_SIZE) (PHYEND - etext) rw_perm))))) = Ret k1"
    "counted kernel_paths r (Suc (length ps1)) k1 qs1"
    "extends {r} (k0\<lparr>mem := fst (memset (mem k0) r 0 PAGE_SIZE)\<rparr>) ps1 k1 qs1"
    "maps_as k1 r (\<lambda>va. map_option (\<lambda>(pa, perm). leaf_pte pa perm) (kernel_region etext va))"
    using kernel_maps [OF k0(2) n(1) k0(3) et] by blast
  have "\<forall>e\<in>set [0..<1024]. translate (mem k1) r (ENVS (word_of_nat e)) = None"
  proof
    fix e assume "e \<in> set [0..<1024]"
    then have e: "e < 1024" by simp
    moreover have "ENVS (word_of_nat e) < MAXVA" using unat_ENVS(1) [OF e] by (simp add: MAXVA_eq word_less_nat_alt)
    ultimately show "translate (mem k1) r (ENVS (word_of_nat e)) = None"
      using k1(4) unat_ENVS(2) [OF e] kernel_region_ENVS [OF et e] by (simp add: maps_as_def)
  qed
  then obtain k2 qs f where k2: "env_create_envs_from [0..<1024] k1 r = Ret k2"
    "counted kernel_paths r (Suc (length ps1) - length [0..<1024]) k2 qs" "env_pages [0..<1024] r k1 qs1 k2 qs f"
    using env_create_envs_pages [OF k1(2) n(2)] by fastforce
  have "kvmcreate k etext = Ret (r, k2)"
    unfolding kvmcreate_def k0(1) env_create_envs_def Let_def prod.case
    using k1(1) k2(1) by (auto simp: andThen_eq_Ret andThen_assoc)
  moreover have "pt_inv k2 {r} qs" using k2(2) by (simp add: counted_def)
  moreover have range: "set [0..<1024] = {..<1024 :: nat}" by auto
  have sub: "nodes (mem k1) {r} \<union> set qs1 \<subseteq> set ps" using k1(3) k0(4) ps by (auto simp: extends_def)
  have "f ` {..<1024} \<subseteq> set ps" "set qs \<subseteq> set ps" using k2(3) sub unfolding env_pages_def range by auto
  moreover have "length ps \<le> length qs + 2051"
  proof -
    have "card (nodes (mem k2) {r}) \<le> 1027"
      using k2(2) reach_nodes(2) [OF _ kernel_paths_card(1)] kernel_paths_card(2) unfolding counted_def by (meson order_trans)
    moreover have "card (nodes (mem k2) {r}) + length qs = Suc (length ps1) - length [0..<1024]" using k2(2) by (simp add: counted_def)
    ultimately show ?thesis unfolding ps length_upt list.size by linarith
  qed
  moreover have "mem k2 x = mem k x" if x: "\<forall>q\<in>set ps. \<not> in_block x q 4096" for x
  proof -
    have own: "mem (k0\<lparr>mem := m\<rparr>) = m" for m by simp
    have off: "\<forall>q\<in>nodes (mem k1) {r} \<union> set qs1. \<not> in_block x q 4096" using x sub by blast
    have r: "r \<in> set ps" "set ps1 \<subseteq> set ps" using ps by auto
    have "mem k2 x = mem k1 x" using k2(3) off unfolding env_pages_def by blast
    also have "mem k1 x = mem (k0\<lparr>mem := fst (memset (mem k0) r 0 PAGE_SIZE)\<rparr>) x"
    proof (rule extends_frame [OF k1(3)])
      show "\<forall>q\<in>nodes (mem (k0\<lparr>mem := fst (memset (mem k0) r 0 PAGE_SIZE)\<rparr>)) {r} \<union> set ps1. \<not> in_block x q 4096"
        using x r unfolding own k0(4) by auto
    qed
    also have "\<dots> = fst (memset (mem k0) r 0 PAGE_SIZE) x" by (simp only: own)
    also have "\<dots> = mem k x" using x r(1) by (blast intro: k0(5))
    finally show ?thesis .
  qed
  moreover have "inj_on f {..<1024}" "f ` {..<1024} \<inter> (set qs \<union> nodes (mem k2) {r}) = {}"
    "\<forall>e<1024. translate (mem k2) r (ENVS (word_of_nat e)) = Some (leaf_pte (f e) rw_perm)"
    using k2(3) unfolding env_pages_def range by simp_all
  moreover have "\<forall>va. page_aligned va \<and> va < MAXVA \<and> va \<notin> (\<lambda>e. ENVS (word_of_nat e)) ` {..<1024} \<longrightarrow>
      translate (mem k2) r va = map_option (\<lambda>(pa, perm). leaf_pte pa perm) (kernel_region etext va)"
    using k2(3) k1(4) unfolding env_pages_def range maps_as_def by simp
  ultimately show ?thesis by (intro exI [of _ r] exI [of _ k2] exI [of _ qs] exI [of _ f] conjI) (assumption | blast)+
qed

end
