(* ===== verification/Elfloader.thy ===== *)
theory Elfloader
  imports KString Mmu
begin

text \<open>
  lib/elfloader.c and the parts of include/elf.h it uses: recognising an ELF64 executable in memory and
  loading a segment page by page through a callback. The callback is a parameter of the model, with
  the state it changes; it returns C's \<open>int\<close> as an integer. The lemmas give the exact list of
  requests the callback receives and the conditions under which they cover the segment.
\<close>

section \<open>Headers\<close>

record elf64_ehdr =
  e_ident :: "u8 list"
  e_type :: u16
  e_machine :: u16
  e_version :: u32
  e_entry :: u64
  e_phoff :: u64
  e_shoff :: u64
  e_flags :: u32
  e_ehsize :: u16
  e_phentsize :: u16
  e_phnum :: u16
  e_shentsize :: u16
  e_shnum :: u16
  e_shstrndx :: u16

record elf64_phdr =
  p_type :: u32
  p_flags :: u32
  p_offset :: u64
  p_vaddr :: u64
  p_paddr :: u64
  p_filesz :: u64
  p_memsz :: u64
  p_align :: u64

definition EI_NIDENT :: nat where "EI_NIDENT = 16"
definition ELFMAG :: "u8 list" where "ELFMAG = [0x7f, 0x45, 0x4c, 0x46]"
definition PT_LOAD :: u32 where "PT_LOAD = 1"
definition PF_W :: u32 where "PF_W = push_bit 1 1"

text \<open>The structures as a compiler for RV64 lays them out.\<close>

definition sizeof_Elf64_Ehdr :: u64 where "sizeof_Elf64_Ehdr = 64"

definition load_ehdr :: "mem \<Rightarrow> u64 \<Rightarrow> elf64_ehdr" where
  "load_ehdr m a =
     \<lparr>e_ident = map (\<lambda>i. m (a + word_of_nat i)) [0..<EI_NIDENT], e_type = load16 m (a + 16),
      e_machine = load16 m (a + 18), e_version = load32 m (a + 20), e_entry = load64 m (a + 24),
      e_phoff = load64 m (a + 32), e_shoff = load64 m (a + 40), e_flags = load32 m (a + 48),
      e_ehsize = load16 m (a + 52), e_phentsize = load16 m (a + 54), e_phnum = load16 m (a + 56),
      e_shentsize = load16 m (a + 58), e_shnum = load16 m (a + 60), e_shstrndx = load16 m (a + 62)\<rparr>"

definition load_phdr :: "mem \<Rightarrow> u64 \<Rightarrow> elf64_phdr" where
  "load_phdr m a =
     \<lparr>p_type = load32 m a, p_flags = load32 m (a + 4), p_offset = load64 m (a + 8),
      p_vaddr = load64 m (a + 16), p_paddr = load64 m (a + 24), p_filesz = load64 m (a + 32),
      p_memsz = load64 m (a + 40), p_align = load64 m (a + 48)\<rparr>"

text \<open>\<open>elf_from\<close> returns its argument or the null pointer.\<close>

definition elf_from :: "mem \<Rightarrow> u64 \<Rightarrow> u64 \<Rightarrow> u64" where
  "elf_from m binary size' =
     (let ehdr = load_ehdr m binary in
      if size' \<ge> sizeof_Elf64_Ehdr \<and> e_ident ehdr ! 0 = ELFMAG ! 0 \<and> e_ident ehdr ! 1 = ELFMAG ! 1 \<and>
         e_ident ehdr ! 2 = ELFMAG ! 2 \<and> e_ident ehdr ! 3 = ELFMAG ! 3 \<and> e_type ehdr = 2
      then binary else 0)"

section \<open>Loading a segment\<close>

text \<open>The arguments of a call of \<open>map_page\<close> after \<open>data\<close>: address, offset, permissions, source, length.\<close>

type_synonym 's mapper = "'s \<Rightarrow> u64 \<Rightarrow> u64 \<Rightarrow> u32 \<Rightarrow> u64 \<Rightarrow> u64 \<Rightarrow> (int \<times> 's) outcome"

text \<open>The two loops of \<open>elf_load_seg\<close>. They return the error of a failed call (\<open>Inl\<close>) or the last value of
  \<open>i\<close> (\<open>Inr\<close>). The first argument bounds the rounds: \<open>i += PAGE_SIZE\<close> wraps around for sizes close to
  \<open>2 ^ 64\<close>, and then the loops do not end.\<close>

fun load_file_pages :: "nat \<Rightarrow> 's mapper \<Rightarrow> 's \<Rightarrow> u64 \<Rightarrow> u32 \<Rightarrow> u64 \<Rightarrow> u64 \<Rightarrow> u64 \<Rightarrow> ((int + u64) \<times> 's) outcome" where
  "load_file_pages n map_page s va perm bin bin_size i =
     (if i < bin_size
      then (case n of 0 \<Rightarrow> NoFuel
            | Suc n \<Rightarrow>
                andThen (map_page s (va + i) 0 perm (bin + i) (c_MIN (bin_size - i) PAGE_SIZE)) (\<lambda>(r, s).
                  if r \<noteq> 0 then Ret (Inl r, s)
                  else load_file_pages n map_page s va perm bin bin_size (i + PAGE_SIZE)))
      else Ret (Inr i, s))"

fun load_zero_pages :: "nat \<Rightarrow> 's mapper \<Rightarrow> 's \<Rightarrow> u64 \<Rightarrow> u32 \<Rightarrow> u64 \<Rightarrow> u64 \<Rightarrow> (int \<times> 's) outcome" where
  "load_zero_pages n map_page s va perm sgsize i =
     (if i < sgsize
      then (case n of 0 \<Rightarrow> NoFuel
            | Suc n \<Rightarrow>
                andThen (map_page s (va + i) 0 perm 0 (c_MIN (sgsize - i) PAGE_SIZE)) (\<lambda>(r, s).
                  if r \<noteq> 0 then Ret (r, s)
                  else load_zero_pages n map_page s va perm sgsize (i + PAGE_SIZE)))
      else Ret (0, s))"

declare load_file_pages.simps [simp del] load_zero_pages.simps [simp del]

definition seg_rounds :: "u64 \<Rightarrow> nat" where
  "seg_rounds size' = unat size' div 4096 + 1"

definition seg_perm :: "elf64_phdr \<Rightarrow> u32" where
  "seg_perm ph =
     (let perm = ucast (PTE_V OR PTE_R OR PTE_X OR PTE_U) in
      if p_flags ph AND PF_W \<noteq> 0 then perm OR ucast PTE_W else perm)"

definition elf_load_seg :: "elf64_phdr \<Rightarrow> u64 \<Rightarrow> 's mapper \<Rightarrow> 's \<Rightarrow> (int \<times> 's) outcome" where
  "elf_load_seg ph bin map_page s =
     (let va = p_vaddr ph; bin_size = p_filesz ph; sgsize = p_memsz ph; perm = seg_perm ph;
          offset = va - ROUNDDOWN va PAGE_SIZE in
      andThen (if offset \<noteq> 0 then map_page s va offset perm bin (c_MIN bin_size (PAGE_SIZE - offset))
               else Ret (0, s)) (\<lambda>(r, s).
        if r \<noteq> 0 then Ret (r, s)
        else andThen (load_file_pages (seg_rounds bin_size) map_page s va perm bin bin_size
                        (if offset \<noteq> 0 then c_MIN bin_size (PAGE_SIZE - offset) else 0)) (\<lambda>(i, s).
               case i of Inl r \<Rightarrow> Ret (r, s)
               | Inr i \<Rightarrow> load_zero_pages (seg_rounds sgsize) map_page s va perm sgsize i)))"

section \<open>The requests of a segment\<close>

text \<open>A request to the callback; \<open>mapM_requests\<close> issues requests until one fails.\<close>

type_synonym request = "u64 \<times> u64 \<times> u64 \<times> u64"

fun mapM_requests :: "'s mapper \<Rightarrow> u32 \<Rightarrow> request list \<Rightarrow> 's \<Rightarrow> (int \<times> 's) outcome" where
  "mapM_requests map_page perm [] s = Ret (0, s)"
| "mapM_requests map_page perm ((va, offset, src, len) # rs) s =
     andThen (map_page s va offset perm src len) (\<lambda>(r, s).
       if r \<noteq> 0 then Ret (r, s) else mapM_requests map_page perm rs s)"

definition page_offsets :: "nat \<Rightarrow> nat \<Rightarrow> nat list" where
  "page_offsets i n = map (\<lambda>k. i + 4096 * k) [0..<(n - i + 4095) div 4096]"

definition file_requests :: "u64 \<Rightarrow> u64 \<Rightarrow> nat \<Rightarrow> nat \<Rightarrow> request list" where
  "file_requests va bin n i =
     map (\<lambda>j. (va + word_of_nat j, 0, bin + word_of_nat j, word_of_nat (min (n - j) 4096))) (page_offsets i n)"

definition zero_requests :: "u64 \<Rightarrow> nat \<Rightarrow> nat \<Rightarrow> request list" where
  "zero_requests va n i =
     map (\<lambda>j. (va + word_of_nat j, 0, 0, word_of_nat (min (n - j) 4096))) (page_offsets i n)"

lemma page_offsets_step: "i < n \<Longrightarrow> page_offsets i n = i # page_offsets (i + 4096) n"
proof -
  assume "i < n"
  then obtain d where d: "n - i = Suc d" by (metis Suc_diff_Suc)
  have "(n - i + 4095) div 4096 = Suc (d div 4096)" using d by simp
  also have "d div 4096 = (n - (i + 4096) + 4095) div 4096"
  proof (cases "d < 4096")
    case True
    then have "n - (i + 4096) = 0" using d by linarith
    then show ?thesis using True by simp
  next
    case False
    then have "n - (i + 4096) + 4095 = d" using d by linarith
    then show ?thesis by simp
  qed
  finally have len: "(n - i + 4095) div 4096 = Suc ((n - (i + 4096) + 4095) div 4096)" .
  show ?thesis
    unfolding page_offsets_def len by (simp add: upt_conv_Cons map_Suc_upt [symmetric] add.assoc del: upt_Suc)
qed

lemma page_offsets_done [simp]: "n \<le> i \<Longrightarrow> page_offsets i n = []"
  by (simp add: page_offsets_def)

text \<open>The loops issue exactly these requests, as long as no offset wraps around.\<close>

lemma load_file_pages_requests:
  assumes "unat bin_size + 4096 < 2 ^ 64"
  shows "unat bin_size - unat i \<le> 4096 * n \<Longrightarrow>
    load_file_pages n map_page s va perm bin bin_size i =
      andThen (mapM_requests map_page perm (file_requests va bin (unat bin_size) (unat i)) s) (\<lambda>(r, s).
        Ret (if r \<noteq> 0 then Inl r
             else Inr (i + word_of_nat (4096 * length (page_offsets (unat i) (unat bin_size)))), s))"
proof (induction n arbitrary: i s)
  case (Suc n)
  show ?case
  proof (cases "i < bin_size")
    case True
    have i: "unat (i + 4096) = unat i + 4096"
      using True assms unat_add_nat [of i 4096] by (simp add: word_less_nat_alt)
    have len: "word_of_nat (min (unat bin_size - unat i) 4096) = min (bin_size - i) PAGE_SIZE"
      using True by (simp add: min_def PAGE_SIZE_def word_le_nat_alt unat_sub word_less_nat_alt of_nat_diff)
    have reqs: "file_requests va bin (unat bin_size) (unat i) =
        (va + i, 0, bin + i, min (bin_size - i) PAGE_SIZE) # file_requests va bin (unat bin_size) (unat (i + 4096))"
      using True len i by (simp add: file_requests_def page_offsets_step word_less_nat_alt)
    have "unat bin_size - unat (i + 4096) \<le> 4096 * n" using Suc.prems i by simp
    note IH = Suc.IH [OF this]
    show ?thesis
      using True i unfolding reqs
      by (simp add: load_file_pages.simps [of "Suc n"] IH andThen_assoc page_offsets_step PAGE_SIZE_def
          word_less_nat_alt split_beta cong: if_cong)
        (rule andThen_cong [OF refl], clarsimp, rule andThen_cong [OF refl], clarsimp simp: add.assoc)
  next
    case False
    then show ?thesis
      by (simp add: load_file_pages.simps file_requests_def word_less_nat_alt not_less)
  qed
qed (simp add: load_file_pages.simps file_requests_def word_less_nat_alt not_less)

lemma load_zero_pages_requests:
  assumes "unat sgsize + 4096 < 2 ^ 64"
  shows "unat sgsize - unat i \<le> 4096 * n \<Longrightarrow>
    load_zero_pages n map_page s va perm sgsize i =
      mapM_requests map_page perm (zero_requests va (unat sgsize) (unat i)) s"
proof (induction n arbitrary: i s)
  case (Suc n)
  show ?case
  proof (cases "i < sgsize")
    case True
    have i: "unat (i + 4096) = unat i + 4096"
      using True assms unat_add_nat [of i 4096] by (simp add: word_less_nat_alt)
    have len: "word_of_nat (min (unat sgsize - unat i) 4096) = min (sgsize - i) PAGE_SIZE"
      using True by (simp add: min_def PAGE_SIZE_def word_le_nat_alt unat_sub word_less_nat_alt of_nat_diff)
    have reqs: "zero_requests va (unat sgsize) (unat i) =
        (va + i, 0, 0, min (sgsize - i) PAGE_SIZE) # zero_requests va (unat sgsize) (unat (i + 4096))"
      using True len i by (simp add: zero_requests_def page_offsets_step word_less_nat_alt)
    have "unat sgsize - unat (i + 4096) \<le> 4096 * n" using Suc.prems i by simp
    note IH = Suc.IH [OF this]
    show ?thesis
      using True unfolding reqs
      by (simp add: load_zero_pages.simps [of "Suc n"] IH [folded PAGE_SIZE_def] PAGE_SIZE_def [symmetric] split_beta
          cong: if_cong)
  next
    case False
    then show ?thesis
      by (simp add: load_zero_pages.simps zero_requests_def word_less_nat_alt not_less)
  qed
qed (simp add: load_zero_pages.simps zero_requests_def word_less_nat_alt not_less)

lemma mapM_requests_append:
  "mapM_requests map_page perm (rs @ rs') s =
     andThen (mapM_requests map_page perm rs s) (\<lambda>(r, s).
       if r \<noteq> 0 then Ret (r, s) else mapM_requests map_page perm rs' s)"
proof (induction rs arbitrary: s)
  case (Cons q rs)
  obtain va off src len where "q = (va, off, src, len)" by (cases q)
  then show ?case
    by (simp add: Cons.IH andThen_assoc split_beta cong: if_cong)
      (rule andThen_cong [OF refl], clarsimp)
qed simp

text \<open>All requests of a segment: the page it starts in, if it starts inside one; the pages of the file's
  part; the pages of zeros, from where the last page of the file's part ends.\<close>

definition first_bytes :: "elf64_phdr \<Rightarrow> nat" where
  "first_bytes ph = (if unat (p_vaddr ph) mod 4096 = 0 then 0
     else min (unat (p_filesz ph)) (4096 - unat (p_vaddr ph) mod 4096))"

definition file_end :: "elf64_phdr \<Rightarrow> nat" where
  "file_end ph = first_bytes ph + 4096 * length (page_offsets (first_bytes ph) (unat (p_filesz ph)))"

definition seg_requests :: "elf64_phdr \<Rightarrow> u64 \<Rightarrow> request list" where
  "seg_requests ph bin =
     (let va = p_vaddr ph; n = unat (p_filesz ph); k = first_bytes ph in
      (if unat va mod 4096 = 0 then []
       else [(va, word_of_nat (unat va mod 4096), bin, word_of_nat k)]) @
      file_requests va bin n k @ zero_requests va (unat (p_memsz ph)) (file_end ph))"

lemma offset_in_page: "va - ROUNDDOWN va PAGE_SIZE = word_of_nat (unat va mod 4096)"
proof -
  have "unat (va - ROUNDDOWN va PAGE_SIZE) = unat va mod 4096"
    using unat_sub [of "ROUNDDOWN va PAGE_SIZE" va]
    by (simp add: unat_ROUNDDOWN word_le_nat_alt minus_div_mult_eq_mod)
  then have "word_of_nat (unat (va - ROUNDDOWN va PAGE_SIZE)) = (word_of_nat (unat va mod 4096) :: u64)"
    by (simp only:)
  then show ?thesis by simp
qed

lemma page_offsets_end: "i \<le> n \<Longrightarrow> i + 4096 * length (page_offsets i n) < n + 4096"
  using div_times_less_eq_dividend [of "n - i + 4095" 4096] by (simp add: page_offsets_def)

lemma elf_load_seg_requests:
  assumes fsz: "unat (p_filesz ph) + 4096 < 2 ^ 64" and msz: "unat (p_memsz ph) + 4096 < 2 ^ 64"
  shows "elf_load_seg ph bin map_page s = mapM_requests map_page (seg_perm ph) (seg_requests ph bin) s"
proof -
  let ?va = "p_vaddr ph" and ?n = "unat (p_filesz ph)" and ?k = "first_bytes ph"
  let ?off = "unat ?va mod 4096"
  have k: "?k \<le> ?n" by (simp add: first_bytes_def)
  have k_word: "word_of_nat ?k = (if ?off = 0 then 0 else min (p_filesz ph) (PAGE_SIZE - word_of_nat ?off))"
  proof -
    have "unat (PAGE_SIZE - word_of_nat ?off) = 4096 - ?off"
      using unat_sub [of "word_of_nat ?off" PAGE_SIZE] by (simp add: PAGE_SIZE_def word_le_nat_alt unat_of_nat)
    moreover from this have "PAGE_SIZE - word_of_nat ?off = (word_of_nat (4096 - ?off) :: u64)"
      by (simp add: word_unat_eq_iff unat_of_nat PAGE_SIZE_def)
    ultimately show ?thesis
      by (simp add: first_bytes_def min_def word_le_nat_alt)
  qed
  have unat_k: "unat (word_of_nat ?k :: u64) = ?k"
    using k unat_lt_64 [of "p_filesz ph"] by (simp add: unat_of_nat)
  have off0: "word_of_nat ?off \<noteq> (0 :: u64) \<longleftrightarrow> ?off \<noteq> 0"
    by (simp add: word_unat_eq_iff unat_of_nat)
  have fend: "unat (word_of_nat ?k + word_of_nat (4096 * length (page_offsets ?k ?n)) :: u64) = file_end ph"
    using page_offsets_end [OF k] fsz by (simp add: file_end_def unat_of_nat flip: of_nat_add of_nat_mult)
  have rounds: "?n - ?k \<le> 4096 * seg_rounds (p_filesz ph)"
    "unat (p_memsz ph) - file_end ph \<le> 4096 * seg_rounds (p_memsz ph)"
    by (simp_all add: seg_rounds_def)
  have files: "load_file_pages (seg_rounds (p_filesz ph)) map_page s ?va (seg_perm ph) bin (p_filesz ph) (word_of_nat ?k) =
      andThen (mapM_requests map_page (seg_perm ph) (file_requests ?va bin ?n ?k) s) (\<lambda>(r, s).
        Ret (if r \<noteq> 0 then Inl r
             else Inr (word_of_nat ?k + word_of_nat (4096 * length (page_offsets ?k ?n))), s))" for s
    by (rule load_file_pages_requests [OF fsz, where i = "word_of_nat ?k", unfolded unat_k, OF rounds(1)])
  have zeros: "load_zero_pages (seg_rounds (p_memsz ph)) map_page s ?va (seg_perm ph) (p_memsz ph)
      (word_of_nat ?k + word_of_nat (4096 * length (page_offsets ?k ?n))) =
      mapM_requests map_page (seg_perm ph) (zero_requests ?va (unat (p_memsz ph)) (file_end ph)) s" for s
    by (rule load_zero_pages_requests [OF msz,
          where i = "word_of_nat ?k + word_of_nat (4096 * length (page_offsets ?k ?n))", unfolded fend, OF rounds(2)])
  let ?rest = "\<lambda>s. andThen (mapM_requests map_page (seg_perm ph) (file_requests ?va bin ?n ?k) s) (\<lambda>(r, s).
       if r \<noteq> 0 then Ret (r, s)
       else mapM_requests map_page (seg_perm ph) (zero_requests ?va (unat (p_memsz ph)) (file_end ph)) s)"
  have rest: "andThen (load_file_pages (seg_rounds (p_filesz ph)) map_page s ?va (seg_perm ph) bin (p_filesz ph) (word_of_nat ?k))
      (\<lambda>(i, s). case i of Inl r \<Rightarrow> Ret (r, s)
         | Inr i \<Rightarrow> load_zero_pages (seg_rounds (p_memsz ph)) map_page s ?va (seg_perm ph) (p_memsz ph) i) = ?rest s" for s
    unfolding files andThen_assoc
    by (rule andThen_cong [OF refl]) (auto simp: zeros simp del: of_nat_mult)
  show ?thesis
  proof (cases "?off = 0")
    case True
    then show ?thesis
      using rest [of s] k_word unfolding elf_load_seg_def c_MIN_min Let_def offset_in_page off0 seg_requests_def
      by (simp add: mapM_requests_append)
  next
    case False
    have k: "min (p_filesz ph) (PAGE_SIZE - word_of_nat ?off) = word_of_nat ?k"
      using k_word unfolding if_not_P [OF False] by (rule sym)
    show ?thesis
      unfolding elf_load_seg_def c_MIN_min Let_def offset_in_page off0 seg_requests_def if_not_P [OF False] if_P [OF False]
        k append_Cons append_Nil mapM_requests.simps
      by (rule andThen_cong [OF refl]) (clarsimp simp: mapM_requests_append rest)
  qed
qed

text \<open>For a segment that starts on a page boundary: one request per page, in order, the file's bytes first.\<close>

lemma seg_requests_aligned:
  assumes al: "page_aligned (p_vaddr ph)" and le: "p_filesz ph \<le> p_memsz ph"
  shows "seg_requests ph bin =
    map (\<lambda>i. if 4096 * i < unat (p_filesz ph)
             then (p_vaddr ph + word_of_nat (4096 * i), 0, bin + word_of_nat (4096 * i),
                   word_of_nat (min (unat (p_filesz ph) - 4096 * i) 4096))
             else (p_vaddr ph + word_of_nat (4096 * i), 0, 0, word_of_nat (min (unat (p_memsz ph) - 4096 * i) 4096)))
      [0..<(unat (p_memsz ph) + 4095) div 4096]"
proof -
  let ?n = "unat (p_filesz ph)" and ?m = "unat (p_memsz ph)"
  let ?req = "\<lambda>i. if 4096 * i < ?n
    then (p_vaddr ph + word_of_nat (4096 * i), 0, bin + word_of_nat (4096 * i), word_of_nat (min (?n - 4096 * i) 4096))
    else (p_vaddr ph + word_of_nat (4096 * i), 0, 0, word_of_nat (min (?m - 4096 * i) 4096))"
  let ?f = "(?n + 4095) div 4096" and ?t = "(?m + 4095) div 4096"
  have first: "first_bytes ph = 0" using al by (simp add: first_bytes_def page_aligned_def dvd_eq_mod_eq_0)
  have stop: "file_end ph = 4096 * ?f" by (simp add: file_end_def first page_offsets_def)
  have ft: "?f \<le> ?t" using le by (intro div_le_mono) (simp add: word_le_nat_alt)
  have inside: "4096 * i < n \<longleftrightarrow> i < (n + 4095) div 4096" for i n :: nat by linarith
  have rest: "(m - 4096 * f + 4095) div 4096 = (m + 4095) div 4096 - f" for m f :: nat
  proof (cases "4096 * f \<le> m")
    case True
    then show ?thesis by linarith
  next
    case False
    then have "(m + 4095) div 4096 \<le> f" by linarith
    then show ?thesis using False by simp
  qed
  have "[0..<?t] = [0..<?f] @ map (\<lambda>k. k + ?f) [0..<?t - ?f]"
    using ft upt_add_eq_append [of 0 ?f "?t - ?f"] by (simp add: map_add_upt)
  moreover have aligned: "unat (p_vaddr ph) mod 4096 = 0" using al by (simp add: page_aligned_def dvd_eq_mod_eq_0)
  have "file_requests (p_vaddr ph) bin ?n 0 = map ?req [0..<?f]"
    by (simp add: file_requests_def page_offsets_def inside)
  moreover have out: "\<not> 4096 * (k + ?f) < ?n" for k using inside [of "k + ?f" ?n] by linarith
  have "zero_requests (p_vaddr ph) ?m (file_end ph) = map (?req \<circ> (\<lambda>k. k + ?f)) [0..<?t - ?f]"
    unfolding zero_requests_def page_offsets_def stop rest map_map
    using out by (intro map_cong) (simp_all add: add_mult_distrib2 add.commute)
  ultimately show ?thesis
    by (simp only: seg_requests_def Let_def first aligned simp_thms if_True append_Nil map_append map_map)
qed

end
