(* ===== verification/Errors.thy ===== *)
theory Errors
  imports Prelude
begin

text \<open>
  include/error.h: the error codes of the system, of which the kernel returns the negatives, and the macro that
  passes an error on.
\<close>

definition E_UNSPECIFIED :: int where "E_UNSPECIFIED = 1"
definition E_BAD_ENV :: int where "E_BAD_ENV = 2"
definition E_INVAL :: int where "E_INVAL = 3"
definition E_NO_MEM :: int where "E_NO_MEM = 4"
definition E_NO_SYS :: int where "E_NO_SYS = 5"
definition E_NO_FREE_ENV :: int where "E_NO_FREE_ENV = 6"
definition E_IPC_NOT_RECV :: int where "E_IPC_NOT_RECV = 7"
definition E_NO_DISK :: int where "E_NO_DISK = 8"
definition E_MAX_OPEN :: int where "E_MAX_OPEN = 9"
definition E_NOT_FOUND :: int where "E_NOT_FOUND = 10"
definition E_BAD_PATH :: int where "E_BAD_PATH = 11"
definition E_FILE_EXISTS :: int where "E_FILE_EXISTS = 12"
definition E_NOT_EXEC :: int where "E_NOT_EXEC = 13"

definition error_codes :: "int list" where
  "error_codes = [E_UNSPECIFIED, E_BAD_ENV, E_INVAL, E_NO_MEM, E_NO_SYS, E_NO_FREE_ENV, E_IPC_NOT_RECV, E_NO_DISK, E_MAX_OPEN, E_NOT_FOUND, E_BAD_PATH, E_FILE_EXISTS, E_NOT_EXEC]"

lemmas error_code_defs = E_UNSPECIFIED_def E_BAD_ENV_def E_INVAL_def E_NO_MEM_def E_NO_SYS_def E_NO_FREE_ENV_def E_IPC_NOT_RECV_def E_NO_DISK_def E_MAX_OPEN_def E_NOT_FOUND_def E_BAD_PATH_def E_FILE_EXISTS_def E_NOT_EXEC_def

lemma error_codes_distinct: "distinct error_codes" "\<forall>e\<in>set error_codes. - e < 0"
  by (simp_all add: error_codes_def error_code_defs)

text \<open>\<open>try\<close>: a function that returns 0 or an error code is left with the code when it is not 0.\<close>

definition try_int :: "(int \<times> 's) outcome \<Rightarrow> ('s \<Rightarrow> (int \<times> 's) outcome) \<Rightarrow> (int \<times> 's) outcome" where
  "try_int m f = andThen m (\<lambda>(r, s). if r \<noteq> 0 then Ret (r, s) else f s)"

lemma try_int_simps [simp]:
  "try_int (Ret (0, s)) f = f s" "r \<noteq> 0 \<Longrightarrow> try_int (Ret (r, s)) f = Ret (r, s)"
  "try_int (Panic msg) f = Panic msg" "try_int (Fault msg) f = Fault msg"
  by (simp_all add: try_int_def)

end
