(* ===== verification/Registers.thy ===== *)
theory Registers
  imports Prelude
begin

text \<open>
  include/registers.h: the accessors of the control and status registers. A hart is its privilege mode, its
  general registers, its control registers and the translations its TLB holds. The number of a control register
  says which mode may access it and whether it is read-only; an access that is not allowed is an illegal
  instruction, a \<open>Fault\<close>. The supervisor registers \<open>sstatus\<close>, \<open>sie\<close> and \<open>sip\<close> are views of the machine's. What a
  register does with reserved values is not modelled.
\<close>

section \<open>The hart\<close>

datatype csr = Mhartid | Mstatus | Mepc | Sstatus | Sip | Sie | Mip | Mie | Sepc | Medeleg | Mideleg | Stvec | Mtvec
  | Pmpcfg0 | Pmpaddr0 | Satp | Mscratch | Scause | Stval | Mcounteren | Time

record cpu =
  mode :: nat
  gpr :: "nat \<Rightarrow> u64"
  csrs :: "csr \<Rightarrow> u64"
  tlb :: "(u64 \<times> u64) list"

fun csr_number :: "csr \<Rightarrow> nat" where
  "csr_number Mhartid = 0xF14"
| "csr_number Mstatus = 0x300"
| "csr_number Mepc = 0x341"
| "csr_number Sstatus = 0x100"
| "csr_number Sip = 0x144"
| "csr_number Sie = 0x104"
| "csr_number Mip = 0x344"
| "csr_number Mie = 0x304"
| "csr_number Sepc = 0x141"
| "csr_number Medeleg = 0x302"
| "csr_number Mideleg = 0x303"
| "csr_number Stvec = 0x105"
| "csr_number Mtvec = 0x305"
| "csr_number Pmpcfg0 = 0x3A0"
| "csr_number Pmpaddr0 = 0x3B0"
| "csr_number Satp = 0x180"
| "csr_number Mscratch = 0x340"
| "csr_number Scause = 0x142"
| "csr_number Stval = 0x143"
| "csr_number Mcounteren = 0x306"
| "csr_number Time = 0xC01"

text \<open>Bits 9 and 8 of the number are the lowest mode, bits 11 and 10 are set for a read-only register; the clock
  can be kept from the lower modes.\<close>

definition csr_mode :: "csr \<Rightarrow> nat" where
  "csr_mode c = csr_number c div 256 mod 4"

definition read_only :: "csr \<Rightarrow> bool" where
  "read_only c \<longleftrightarrow> csr_number c div 1024 = 3"

definition readable :: "csr \<Rightarrow> cpu \<Rightarrow> bool" where
  "readable c h \<longleftrightarrow> csr_mode c \<le> mode h \<and> (c = Time \<longrightarrow> 3 \<le> mode h \<or> bit (csrs h Mcounteren) 1)"

definition sstatus_mask :: u64 where "sstatus_mask = 0x80000003000de762"

definition masked_write :: "u64 \<Rightarrow> u64 \<Rightarrow> u64 \<Rightarrow> u64" where
  "masked_write msk old x = (old AND NOT msk) OR (x AND msk)"

definition csr_value :: "csr \<Rightarrow> cpu \<Rightarrow> u64" where
  "csr_value c h =
     (case c of
        Sstatus \<Rightarrow> csrs h Mstatus AND sstatus_mask
      | Sie \<Rightarrow> csrs h Mie AND csrs h Mideleg
      | Sip \<Rightarrow> csrs h Mip AND csrs h Mideleg
      | _ \<Rightarrow> csrs h c)"

definition csr_update :: "csr \<Rightarrow> u64 \<Rightarrow> cpu \<Rightarrow> cpu" where
  "csr_update c x h =
     (case c of
        Sstatus \<Rightarrow> h\<lparr>csrs := (csrs h)(Mstatus := masked_write sstatus_mask (csrs h Mstatus) x)\<rparr>
      | Sie \<Rightarrow> h\<lparr>csrs := (csrs h)(Mie := masked_write (csrs h Mideleg) (csrs h Mie) x)\<rparr>
      | Sip \<Rightarrow> h\<lparr>csrs := (csrs h)(Mip := masked_write (csrs h Mideleg AND 2) (csrs h Mip) x)\<rparr>
      | _ \<Rightarrow> h\<lparr>csrs := (csrs h)(c := x)\<rparr>)"

text \<open>The instructions \<open>csrr\<close> and \<open>csrw\<close>.\<close>

definition csrr :: "csr \<Rightarrow> cpu \<Rightarrow> u64 outcome" where
  "csrr c h = (if readable c h then Ret (csr_value c h) else Fault ''illegal instruction'')"

definition csrw :: "csr \<Rightarrow> u64 \<Rightarrow> cpu \<Rightarrow> cpu outcome" where
  "csrw c x h = (if csr_mode c \<le> mode h \<and> \<not> read_only c then Ret (csr_update c x h) else Fault ''illegal instruction'')"

section \<open>Fields\<close>

definition MSTATUS_MPP_MASK :: u64 where "MSTATUS_MPP_MASK = push_bit 11 3"
definition MSTATUS_MPP_M :: u64 where "MSTATUS_MPP_M = push_bit 11 3"
definition MSTATUS_MPP_S :: u64 where "MSTATUS_MPP_S = push_bit 11 1"
definition MSTATUS_MPP_U :: u64 where "MSTATUS_MPP_U = push_bit 11 0"
definition MSTATUS_MIE :: u64 where "MSTATUS_MIE = push_bit 3 1"
definition SSTATUS_SPP :: u64 where "SSTATUS_SPP = push_bit 8 1"
definition SSTATUS_SPIE :: u64 where "SSTATUS_SPIE = push_bit 5 1"
definition SSTATUS_UPIE :: u64 where "SSTATUS_UPIE = push_bit 4 1"
definition SSTATUS_SIE :: u64 where "SSTATUS_SIE = push_bit 1 1"
definition SSTATUS_UIE :: u64 where "SSTATUS_UIE = push_bit 0 1"
definition SIE_SEIE :: u64 where "SIE_SEIE = push_bit 9 1"
definition SIE_STIE :: u64 where "SIE_STIE = push_bit 5 1"
definition SIE_SSIE :: u64 where "SIE_SSIE = push_bit 1 1"
definition MIE_MEIE :: u64 where "MIE_MEIE = push_bit 11 1"
definition MIE_MTIE :: u64 where "MIE_MTIE = push_bit 7 1"
definition MIE_MSIE :: u64 where "MIE_MSIE = push_bit 3 1"

section \<open>Accessors\<close>

definition r_mhartid :: "cpu \<Rightarrow> u64 outcome" where "r_mhartid h = csrr Mhartid h"
definition r_mstatus :: "cpu \<Rightarrow> u64 outcome" where "r_mstatus h = csrr Mstatus h"
definition w_mstatus :: "u64 \<Rightarrow> cpu \<Rightarrow> cpu outcome" where "w_mstatus x h = csrw Mstatus x h"
definition w_mepc :: "u64 \<Rightarrow> cpu \<Rightarrow> cpu outcome" where "w_mepc x h = csrw Mepc x h"
definition r_sstatus :: "cpu \<Rightarrow> u64 outcome" where "r_sstatus h = csrr Sstatus h"
definition w_sstatus :: "u64 \<Rightarrow> cpu \<Rightarrow> cpu outcome" where "w_sstatus x h = csrw Sstatus x h"
definition r_sip :: "cpu \<Rightarrow> u64 outcome" where "r_sip h = csrr Sip h"
definition w_sip :: "u64 \<Rightarrow> cpu \<Rightarrow> cpu outcome" where "w_sip x h = csrw Sip x h"
definition r_sie :: "cpu \<Rightarrow> u64 outcome" where "r_sie h = csrr Sie h"
definition w_sie :: "u64 \<Rightarrow> cpu \<Rightarrow> cpu outcome" where "w_sie x h = csrw Sie x h"
definition r_mie :: "cpu \<Rightarrow> u64 outcome" where "r_mie h = csrr Mie h"
definition w_mie :: "u64 \<Rightarrow> cpu \<Rightarrow> cpu outcome" where "w_mie x h = csrw Mie x h"
definition w_sepc :: "u64 \<Rightarrow> cpu \<Rightarrow> cpu outcome" where "w_sepc x h = csrw Sepc x h"
definition r_sepc :: "cpu \<Rightarrow> u64 outcome" where "r_sepc h = csrr Sepc h"
definition r_medeleg :: "cpu \<Rightarrow> u64 outcome" where "r_medeleg h = csrr Medeleg h"
definition w_medeleg :: "u64 \<Rightarrow> cpu \<Rightarrow> cpu outcome" where "w_medeleg x h = csrw Medeleg x h"
definition r_mideleg :: "cpu \<Rightarrow> u64 outcome" where "r_mideleg h = csrr Mideleg h"
definition w_mideleg :: "u64 \<Rightarrow> cpu \<Rightarrow> cpu outcome" where "w_mideleg x h = csrw Mideleg x h"
definition w_stvec :: "u64 \<Rightarrow> cpu \<Rightarrow> cpu outcome" where "w_stvec x h = csrw Stvec x h"
definition r_stvec :: "cpu \<Rightarrow> u64 outcome" where "r_stvec h = csrr Stvec h"
definition w_mtvec :: "u64 \<Rightarrow> cpu \<Rightarrow> cpu outcome" where "w_mtvec x h = csrw Mtvec x h"
definition w_pmpcfg0 :: "u64 \<Rightarrow> cpu \<Rightarrow> cpu outcome" where "w_pmpcfg0 x h = csrw Pmpcfg0 x h"
definition w_pmpaddr0 :: "u64 \<Rightarrow> cpu \<Rightarrow> cpu outcome" where "w_pmpaddr0 x h = csrw Pmpaddr0 x h"
definition w_satp :: "u64 \<Rightarrow> cpu \<Rightarrow> cpu outcome" where "w_satp x h = csrw Satp x h"
definition r_satp :: "cpu \<Rightarrow> u64 outcome" where "r_satp h = csrr Satp h"
definition w_mscratch :: "u64 \<Rightarrow> cpu \<Rightarrow> cpu outcome" where "w_mscratch x h = csrw Mscratch x h"
definition r_scause :: "cpu \<Rightarrow> u64 outcome" where "r_scause h = csrr Scause h"
definition r_stval :: "cpu \<Rightarrow> u64 outcome" where "r_stval h = csrr Stval h"
definition w_mcounteren :: "u64 \<Rightarrow> cpu \<Rightarrow> cpu outcome" where "w_mcounteren x h = csrw Mcounteren x h"
definition r_mcounteren :: "cpu \<Rightarrow> u64 outcome" where "r_mcounteren h = csrr Mcounteren h"
definition r_time :: "cpu \<Rightarrow> u64 outcome" where "r_time h = csrr Time h"

definition intr_on :: "cpu \<Rightarrow> cpu outcome" where
  "intr_on h = andThen (r_sstatus h) (\<lambda>x. w_sstatus (x OR SSTATUS_SIE) h)"

definition intr_off :: "cpu \<Rightarrow> cpu outcome" where
  "intr_off h = andThen (r_sstatus h) (\<lambda>x. w_sstatus (x AND NOT SSTATUS_SIE) h)"

definition intr_get :: "cpu \<Rightarrow> int outcome" where
  "intr_get h = andThen (r_sstatus h) (\<lambda>x. Ret (if x AND SSTATUS_SIE \<noteq> 0 then 1 else 0))"

definition r_sp :: "cpu \<Rightarrow> u64" where "r_sp h = gpr h 2"
definition r_tp :: "cpu \<Rightarrow> u64" where "r_tp h = gpr h 4"
definition w_tp :: "u64 \<Rightarrow> cpu \<Rightarrow> cpu" where "w_tp x h = h\<lparr>gpr := (gpr h)(4 := x)\<rparr>"
definition r_ra :: "cpu \<Rightarrow> u64" where "r_ra h = gpr h 1"

definition sfence_vma :: "cpu \<Rightarrow> cpu outcome" where
  "sfence_vma h = (if 1 \<le> mode h then Ret (h\<lparr>tlb := []\<rparr>) else Fault ''illegal instruction'')"

lemmas accessors = r_mhartid_def r_mstatus_def w_mstatus_def w_mepc_def r_sstatus_def w_sstatus_def r_sip_def w_sip_def
  r_sie_def w_sie_def r_mie_def w_mie_def w_sepc_def r_sepc_def r_medeleg_def w_medeleg_def r_mideleg_def w_mideleg_def
  w_stvec_def r_stvec_def w_mtvec_def w_pmpcfg0_def w_pmpaddr0_def w_satp_def r_satp_def w_mscratch_def r_scause_def
  r_stval_def w_mcounteren_def r_mcounteren_def r_time_def

section \<open>Which accessors a mode may use\<close>

text \<open>The two kinds of accessors and the register each is for.\<close>

definition readers :: "((cpu \<Rightarrow> u64 outcome) \<times> csr) list" where
  "readers = [(r_mhartid, Mhartid), (r_mstatus, Mstatus), (r_sstatus, Sstatus), (r_sip, Sip), (r_sie, Sie), (r_mie, Mie),
     (r_sepc, Sepc), (r_medeleg, Medeleg), (r_mideleg, Mideleg), (r_stvec, Stvec), (r_satp, Satp), (r_scause, Scause),
     (r_stval, Stval), (r_mcounteren, Mcounteren), (r_time, Time)]"

definition writers :: "((u64 \<Rightarrow> cpu \<Rightarrow> cpu outcome) \<times> csr) list" where
  "writers = [(w_mstatus, Mstatus), (w_mepc, Mepc), (w_sstatus, Sstatus), (w_sip, Sip), (w_sie, Sie), (w_mie, Mie),
     (w_sepc, Sepc), (w_medeleg, Medeleg), (w_mideleg, Mideleg), (w_stvec, Stvec), (w_mtvec, Mtvec), (w_pmpcfg0, Pmpcfg0),
     (w_pmpaddr0, Pmpaddr0), (w_satp, Satp), (w_mscratch, Mscratch), (w_mcounteren, Mcounteren)]"

definition supervisor_csr :: "csr \<Rightarrow> bool" where
  "supervisor_csr c \<longleftrightarrow> c \<in> {Sstatus, Sip, Sie, Sepc, Stvec, Satp, Scause, Stval}"

lemma readers_csrr: "(r, c) \<in> set readers \<Longrightarrow> r h = csrr c h"
  by (auto simp: readers_def accessors)

lemma writers_csrw: "(w, c) \<in> set writers \<Longrightarrow> w x h = csrw c x h"
  by (auto simp: writers_def accessors)

lemma csr_mode_supervisor: "csr_mode c \<le> 1 \<longleftrightarrow> supervisor_csr c \<or> c = Time"
  by (cases c) (simp_all add: csr_mode_def supervisor_csr_def)

lemma writable_csr: "(w, c) \<in> set writers \<Longrightarrow> \<not> read_only c \<and> c \<noteq> Time"
  by (auto simp: writers_def read_only_def)

section \<open>Views\<close>

lemma masked_write_view: "masked_write msk old x AND msk = x AND msk"
  unfolding masked_write_def by (rule bit_word_eqI) (auto simp: bit_simps)

lemma masked_write_rest: "masked_write msk old x AND NOT msk = old AND NOT msk"
  unfolding masked_write_def by (rule bit_word_eqI) (auto simp: bit_simps)

lemma bit_masked_write: "bit (masked_write msk old x) n = (if bit msk n then bit x n else bit old n)"
  by (auto simp: masked_write_def bit_simps dest: bit_imp_le_length)

lemma sstatus_mask_SIE: "bit sstatus_mask (Suc 0)"
  by (simp add: sstatus_mask_def)

lemma bit_SSTATUS_SIE: "bit SSTATUS_SIE n \<longleftrightarrow> n = 1"
  by (auto simp: SSTATUS_SIE_def bit_simps)

lemma and_SSTATUS_SIE: "x AND SSTATUS_SIE \<noteq> 0 \<longleftrightarrow> bit x 1"
  by (auto simp: SSTATUS_SIE_def bit_iff_and_push_bit_not_eq_0)

lemma intr_switch:
  assumes "1 \<le> mode h"
  shows "\<exists>h1. intr_on h = Ret h1 \<and> intr_get h1 = Ret 1 \<and>
      (\<forall>n. n \<noteq> 1 \<longrightarrow> bit (csrs h1 Mstatus) n = bit (csrs h Mstatus) n) \<and> (\<forall>c. c \<noteq> Mstatus \<longrightarrow> csrs h1 c = csrs h c)"
    "\<exists>h0. intr_off h = Ret h0 \<and> intr_get h0 = Ret 0 \<and>
      (\<forall>n. n \<noteq> 1 \<longrightarrow> bit (csrs h0 Mstatus) n = bit (csrs h Mstatus) n) \<and> (\<forall>c. c \<noteq> Mstatus \<longrightarrow> csrs h0 c = csrs h c)"
  using assms sstatus_mask_SIE
  by (simp_all add: intr_on_def intr_off_def intr_get_def accessors csrr_def csrw_def readable_def csr_mode_def read_only_def
      csr_value_def csr_update_def and_SSTATUS_SIE bit_masked_write bit_SSTATUS_SIE bit_and_iff bit_or_iff bit_not_iff)
    (auto dest: bit_imp_le_length)

end
