(* ===== verification/Env.thy ===== *)
theory Env
  imports PageMap Queue Elfloader Errors Registers
begin

text \<open>
  kern/env.c: the environments (processes) of the kernel, with the state the rest of the kernel keeps.
  A pointer to a \<open>struct Env\<close> is an index into \<open>envs\<close>; the links of the two queues, which the source
  keeps inside the structures, are in the queues' own records. The contexts (\<open>env_tf\<close>) of the
  environments are values, the frame at the top of the kernel stack is in memory.
\<close>

section \<open>State\<close>

definition LOG2NENV :: nat where "LOG2NENV = 10"
definition NENV :: nat where "NENV = 1024"
definition ENVX :: "u32 \<Rightarrow> nat" where "ENVX envid = unat (envid AND (word_of_nat NENV - 1))"
definition ENV_FREE :: u32 where "ENV_FREE = 0"
definition ENV_RUNNABLE :: u32 where "ENV_RUNNABLE = 1"
definition ENV_NOT_RUNNABLE :: u32 where "ENV_NOT_RUNNABLE = 2"

record trapframe =
  tf_regs :: "u64 list"
  tf_sstatus :: u64
  tf_sepc :: u64
  tf_stval :: u64
  tf_scause :: u64

record env =
  env_tf :: trapframe
  env_id :: u32
  env_asid :: u32
  env_parent_id :: u32
  env_status :: u32
  env_pgtable :: u64
  env_pri :: u32
  env_ipc_value :: u32
  env_ipc_from :: u32
  env_ipc_recving :: u32
  env_ipc_dstva :: u32
  env_ipc_perm :: u32
  env_runs :: u32

text \<open>The global and static variables of the kernel, and the control registers it writes. \<open>timecmp\<close> is the
  argument of the last \<open>sbi_set_timer\<close>, \<open>slices\<close> the static variable \<open>count\<close> of \<open>schedule\<close>, \<open>last_env\<close> that
  of \<open>mkenvid\<close>.\<close>

record kernel =
  phys :: kmem
  kernel_pagetable :: u64
  envs :: "env list"
  curenv :: "nat option"
  env_free_list :: list_q
  env_sched_list :: tail_q
  asid_bitmap :: "u32 list"
  last_env :: u32
  slices :: u32
  ticks :: u32
  timecmp :: u64
  satp :: u64
  sie :: u64

definition upd_env :: "(env \<Rightarrow> env) \<Rightarrow> nat \<Rightarrow> kernel \<Rightarrow> kernel" where
  "upd_env f e s = s\<lparr>envs := (envs s)[e := f (envs s ! e)]\<rparr>"

section \<open>Identifiers\<close>

function asid_alloc_from :: "u32 list \<Rightarrow> nat \<Rightarrow> (u32 \<times> u32 list) option" where
  "asid_alloc_from bitmap i =
     (if i < NASID
      then (let index = i div 32; inner = i mod 32 in
            if (bitmap ! index) AND push_bit inner 1 = 0
            then Some (word_of_nat i, bitmap[index := (bitmap ! index) OR push_bit inner 1])
            else asid_alloc_from bitmap (Suc i))
      else None)"
  by pat_completeness auto
termination by (relation "measure (\<lambda>(bitmap, i). NASID - i)") auto

declare asid_alloc_from.simps [simp del]

text \<open>The result, what \<open>*asid\<close> is set to, and the state.\<close>

definition asid_alloc :: "kernel \<Rightarrow> int \<times> u32 option \<times> kernel" where
  "asid_alloc s =
     (case asid_alloc_from (asid_bitmap s) 0 of
        Some (i, bitmap) \<Rightarrow> (0, Some i, s\<lparr>asid_bitmap := bitmap\<rparr>)
      | None \<Rightarrow> (- E_NO_FREE_ENV, None, s))"

definition asid_free :: "kernel \<Rightarrow> u32 \<Rightarrow> kernel" where
  "asid_free s i =
     (let index = unat (drop_bit 5 i); inner = unat (i AND 31) in
      s\<lparr>asid_bitmap := (asid_bitmap s)[index := (asid_bitmap s ! index) AND NOT (push_bit inner 1)]\<rparr>)"

definition mkenvid :: "kernel \<Rightarrow> nat \<Rightarrow> u32 \<times> kernel" where
  "mkenvid s e =
     (let i = last_env s + 1; s = s\<lparr>last_env := i\<rparr> in
      (push_bit (1 + LOG2NENV) i OR word_of_nat e, s))"

text \<open>The result and what \<open>*penv\<close> is set to: nothing, or a pointer.\<close>

definition envid2env :: "kernel \<Rightarrow> u32 \<Rightarrow> bool \<Rightarrow> (int \<times> nat option option) outcome" where
  "envid2env s envid checkperm =
     (if envid = 0 then Ret (0, Some (curenv s))
      else (let e = ENVX envid in
        if env_status (envs s ! e) = ENV_FREE \<or> env_id (envs s ! e) \<noteq> envid then Ret (- E_BAD_ENV, None)
        else if checkperm
        then (if curenv s = Some e then Ret (0, Some (Some e))
              else (case curenv s of
                      None \<Rightarrow> Fault ''read through a null pointer''
                    | Some c \<Rightarrow>
                        if env_parent_id (envs s ! e) = env_id (envs s ! c) then Ret (0, Some (Some e))
                        else Ret (- E_BAD_ENV, None)))
        else Ret (0, Some (Some e))))"

section \<open>Creation\<close>

text \<open>The loop \<open>for (i = NENV; i >= 0; i--)\<close>. Its first round inserts \<open>envs[NENV]\<close>, one past the array.\<close>

definition env_init :: "kernel \<Rightarrow> kernel" where
  "env_init s =
     (let s = s\<lparr>env_free_list := LIST_INIT (env_free_list s)\<rparr>;
          s = s\<lparr>env_sched_list := TAILQ_INIT (env_sched_list s)\<rparr>
      in foldl (\<lambda>s i. s\<lparr>env_free_list := LIST_INSERT_HEAD (env_free_list s) i\<rparr>) s (rev [0..<Suc NENV]))"

definition env_setup_vm :: "kernel \<Rightarrow> nat \<Rightarrow> (int \<times> kernel) outcome" where
  "env_setup_vm s e =
     (let (pagetable, k) = uvmcreate (phys s); s = s\<lparr>phys := k\<rparr> in
      if pagetable = 0 then Ret (- E_NO_MEM, s)
      else andThen (kvm_copy_to_user_pagetable (phys s) (kernel_pagetable s) pagetable) (\<lambda>(r, k).
        if r \<noteq> 0 then Panic ''env_setup_vm: copy kernel pagetable error''
        else (let s = s\<lparr>phys := k\<rparr>;
                  s = upd_env (\<lambda>v. v\<lparr>env_pgtable := pagetable\<rparr>) e s;
                  pt = env_pgtable (envs s ! e);
                  m = store64 (mem (phys s)) (entry pt (VPN_L 2 UVPT))
                        (PA2PTE pt OR PTE_V OR PTE_R OR PTE_U)
              in Ret (0, s\<lparr>phys := (phys s)\<lparr>mem := m\<rparr>\<rparr>))))"

text \<open>The second component of the result is what \<open>*new\<close> is set to.\<close>

definition env_alloc :: "kernel \<Rightarrow> u32 \<Rightarrow> (int \<times> nat option \<times> kernel) outcome" where
  "env_alloc s parent_id =
     (case LIST_FIRST (env_free_list s) of
        None \<Rightarrow> Ret (- E_NO_FREE_ENV, None, s)
      | Some e \<Rightarrow>
          if e \<ge> NENV then Fault ''access behind the end of envs''
          else andThen (env_setup_vm s e) (\<lambda>(r, s).
            if r \<noteq> 0 then Ret (r, None, s)
            else (let s = upd_env (\<lambda>v. v\<lparr>env_runs := 0\<rparr>) e s;
                      (i, s) = mkenvid s e;
                      s = upd_env (\<lambda>v. v\<lparr>env_id := i\<rparr>) e s;
                      (r, asid, s) = asid_alloc s in
              if r \<noteq> 0 then Ret (r, None, s)
              else (let s = upd_env (\<lambda>v. v\<lparr>env_asid := the asid\<rparr>) e s;
                        s = upd_env (\<lambda>v. v\<lparr>env_parent_id := parent_id\<rparr>) e s;
                        s = upd_env (\<lambda>v. v\<lparr>env_tf := (env_tf v)\<lparr>tf_sstatus := SSTATUS_SPIE\<rparr>\<rparr>) e s;
                        s = upd_env (\<lambda>v. v\<lparr>env_tf := (env_tf v)\<lparr>tf_regs :=
                              (tf_regs (env_tf v))[29 := USTACKTOP - 4 - 8]\<rparr>\<rparr>) e s in
                andThen (LIST_REMOVE (env_free_list s) e) (\<lambda>q.
                  Ret (0, Some e, s\<lparr>env_free_list := q\<rparr>))))))"

text \<open>\<open>load_icode_mapper\<close> does not look at the result of \<open>kalloc\<close>: with no page left it copies to the null
  pointer.\<close>

definition load_icode_mapper :: "u64 \<Rightarrow> kmem mapper" where
  "load_icode_mapper pgtable k va offset perm src len =
     (let (pa, k) = kalloc k in
      if src \<noteq> 0 \<and> pa = 0 \<and> len \<noteq> 0 then Fault ''store through a null pointer''
      else (let k = (if src \<noteq> 0 then k\<lparr>mem := fst (memcpy (mem k) (pa + offset) src len)\<rparr> else k) in
            mappages k pgtable va PAGE_SIZE pa perm))"

text \<open>The loop \<open>ELF_FOREACH_PHDR_OFF\<close>, which reads the number and size of the headers in every round.\<close>

function load_phdrs :: "kmem \<Rightarrow> u64 \<Rightarrow> u64 \<Rightarrow> nat \<Rightarrow> u64 \<Rightarrow> kmem outcome" where
  "load_phdrs k pgtable binary idx ph_off =
     (let ehdr = load_ehdr (mem k) binary in
      if idx < unat (e_phnum ehdr)
      then (let ph = load_phdr (mem k) (binary + ph_off) in
            andThen (if p_type ph = PT_LOAD
                     then andThen (elf_load_seg ph (binary + p_offset ph) (load_icode_mapper pgtable) k)
                            (\<lambda>(r, k). Ret k)
                     else Ret k) (\<lambda>k.
              load_phdrs k pgtable binary (Suc idx)
                (ph_off + ucast (e_phentsize (load_ehdr (mem k) binary)))))
      else Ret k)"
  by pat_completeness auto
termination
proof (relation "measure (\<lambda>(k, pgtable, binary, idx, ph_off). 65536 - idx)")
  fix k :: kmem and pgtable binary :: u64 and idx and ph_off :: u64 and x xa k'
  assume x: "x = load_ehdr (mem k) binary" and idx: "idx < unat (e_phnum x)"
  have "unat (e_phnum x) < 65536" using unat_bound [of "e_phnum x"] by simp
  then show "((k', pgtable, binary, Suc idx, ph_off + ucast (e_phentsize (load_ehdr (mem k') binary))),
      k, pgtable, binary, idx, ph_off) \<in> measure (\<lambda>(k, pgtable, binary, idx, ph_off). 65536 - idx)"
    using idx by simp
qed simp

declare load_phdrs.simps [simp del]

definition load_icode :: "kernel \<Rightarrow> nat \<Rightarrow> u64 \<Rightarrow> u64 \<Rightarrow> kernel outcome" where
  "load_icode s e binary size' =
     (let ehdr = elf_from (mem (phys s)) binary size' in
      if ehdr = 0 then Panic ''load icode: bad elf''
      else andThen (load_phdrs (phys s) (env_pgtable (envs s ! e)) binary 0
                      (e_phoff (load_ehdr (mem (phys s)) ehdr))) (\<lambda>k.
        (let s = s\<lparr>phys := k\<rparr> in
         Ret (upd_env (\<lambda>v. v\<lparr>env_tf := (env_tf v)\<lparr>tf_sepc := e_entry (load_ehdr (mem k) ehdr)\<rparr>\<rparr>) e s))))"

text \<open>\<open>env_create\<close> ignores the result of \<open>env_alloc\<close>: when that fails, \<open>e\<close> is an uninitialised pointer.\<close>

definition env_create :: "kernel \<Rightarrow> u64 \<Rightarrow> u64 \<Rightarrow> u32 \<Rightarrow> (nat \<times> kernel) outcome" where
  "env_create s binary size' priority =
     andThen (env_alloc s 0) (\<lambda>(r, new, s).
       case new of
         None \<Rightarrow> Fault ''use of an uninitialised pointer''
       | Some e \<Rightarrow>
           (let s = upd_env (\<lambda>v. v\<lparr>env_pri := priority\<rparr>) e s;
                s = upd_env (\<lambda>v. v\<lparr>env_status := ENV_RUNNABLE\<rparr>) e s in
            andThen (load_icode s e binary size') (\<lambda>s.
              Ret (e, s\<lparr>env_sched_list := TAILQ_INSERT_HEAD (env_sched_list s) e\<rparr>))))"

section \<open>Destruction and switching\<close>

text \<open>Freeing an environment. The recursion of \<open>freewalk\<close> below \<open>uvmfree\<close> is bounded by \<open>depth\<close>.\<close>

definition env_free :: "nat \<Rightarrow> kernel \<Rightarrow> nat \<Rightarrow> kernel outcome" where
  "env_free depth s e =
     (let pt = env_pgtable (envs s ! e) in
      andThen (uvmunmap (phys s) pt 0x80000000 (MAXVA div PAGE_SIZE) False) (\<lambda>(r, k).
      andThen (uvmfree depth k pt USTACKTOP) (\<lambda>k.
        (let s = s\<lparr>phys := k\<rparr>;
             s = asid_free s (env_asid (envs s ! e));
             s = upd_env (\<lambda>v. v\<lparr>env_status := ENV_FREE\<rparr>) e s;
             s = s\<lparr>env_free_list := LIST_INSERT_HEAD (env_free_list s) e\<rparr> in
         andThen (TAILQ_REMOVE (env_sched_list s) e) (\<lambda>q.
           Ret (s\<lparr>env_sched_list := q\<rparr>))))))"

text \<open>The frame at an address: 32 registers and four control registers.\<close>

definition sizeof_Trapframe :: u64 where "sizeof_Trapframe = 288"

definition load_trapframe :: "mem \<Rightarrow> u64 \<Rightarrow> trapframe" where
  "load_trapframe m a =
     \<lparr>tf_regs = map (\<lambda>i. load64 m (a + word_of_nat (8 * i))) [0..<32],
      tf_sstatus = load64 m (a + 256), tf_sepc = load64 m (a + 264),
      tf_stval = load64 m (a + 272), tf_scause = load64 m (a + 280)\<rparr>"

text \<open>\<open>env_run\<close> ends in \<open>env_pop_tf\<close>, which does not return: the result is the frame that is loaded into the
  registers, and the state in which user code then runs.\<close>

definition env_run :: "kernel \<Rightarrow> nat \<Rightarrow> (trapframe \<times> kernel) outcome" where
  "env_run s e =
     (if env_status (envs s ! e) \<noteq> ENV_RUNNABLE then Panic ''env_run: not runnable env!''
      else (let s = (case curenv s of
                       Some c \<Rightarrow> upd_env (\<lambda>v. v\<lparr>env_tf :=
                                   load_trapframe (mem (phys s)) (KSTACKTOP - sizeof_Trapframe)\<rparr>) c s
                     | None \<Rightarrow> s);
                s = s\<lparr>curenv := Some e\<rparr>;
                s = upd_env (\<lambda>v. v\<lparr>env_runs := env_runs v + 1\<rparr>) e s;
                s = s\<lparr>satp := MAKE_SATP (env_pgtable (envs s ! e))\<rparr>
            in Ret (env_tf (envs s ! e), s)))"

section \<open>The identifiers are what they promise\<close>

text \<open>An allocator of small numbers: \<open>used\<close> is the set of those given out, \<open>full\<close> the error.\<close>

locale id_allocator =
  fixes used :: "'s \<Rightarrow> nat set" and ok :: "'s \<Rightarrow> bool" and N :: nat and full :: int
    and alloc :: "'s \<Rightarrow> int \<times> u32 option \<times> 's" and release :: "'s \<Rightarrow> u32 \<Rightarrow> 's"
  assumes used_bound: "used s \<subseteq> {..<N}"
    and alloc_full: "ok s \<Longrightarrow> used s = {..<N} \<Longrightarrow> alloc s = (full, None, s)"
    and alloc_free: "ok s \<Longrightarrow> used s \<noteq> {..<N} \<Longrightarrow> \<exists>i s'. alloc s = (0, Some i, s') \<and>
      unat i < N \<and> unat i \<notin> used s \<and> {..<unat i} \<subseteq> used s \<and> used s' = insert (unat i) (used s) \<and> ok s'"
    and release: "ok s \<Longrightarrow> unat i < N \<Longrightarrow> used (release s i) = used s - {unat i} \<and> ok (release s i)"
begin

text \<open>The number given out is the least free one, and the last number to be released comes back.\<close>

lemma alloc_least:
  assumes "ok s" and "used s \<noteq> {..<N}"
  obtains i s' where "alloc s = (0, Some i, s')" "unat i = (LEAST n. n \<notin> used s)" "unat i < N" "ok s'"
    "used s' = insert (unat i) (used s)"
proof -
  obtain i s' where a: "alloc s = (0, Some i, s')" "unat i < N" "unat i \<notin> used s" "{..<unat i} \<subseteq> used s"
      "used s' = insert (unat i) (used s)" "ok s'"
    using alloc_free [OF assms] by blast
  moreover have "unat i = (LEAST n. n \<notin> used s)"
    using a by (intro Least_equality [symmetric]) (auto simp: subset_iff not_less [symmetric])
  ultimately show thesis using that by blast
qed

lemma release_alloc:
  assumes "ok s" and "unat i < N" and "used s = {..<N}"
  obtains s' where "alloc (release s i) = (0, Some i, s')" "used s' = used s"
proof -
  have u: "used (release s i) = {..<N} - {unat i}" and "ok (release s i)"
    using release [OF assms(1,2)] assms(3) by simp_all
  moreover have "used (release s i) \<noteq> {..<N}" using u assms(2) by auto
  ultimately obtain j s' where a: "alloc (release s i) = (0, Some j, s')" "unat j < N"
      "unat j \<notin> used (release s i)" "used s' = insert (unat j) (used (release s i))"
    using alloc_free by blast
  have "unat j = unat i" using a u by auto
  then show thesis using that a u assms(2,3) by (auto simp: word_unat_eq_iff)
qed

end

definition asids :: "u32 list \<Rightarrow> nat set" where
  "asids bitmap = {i. i < NASID \<and> bit (bitmap ! (i div 32)) (i mod 32)}"

definition asid_bitmap_ok :: "u32 list \<Rightarrow> bool" where
  "asid_bitmap_ok bitmap \<longleftrightarrow> length bitmap = NASID div 32"

lemma and_single_bit: "(w :: 'a::len word) AND push_bit n 1 = 0 \<longleftrightarrow> \<not> bit w n"
  by (simp only: bit_iff_and_push_bit_not_eq_0 not_not)

lemma asids_set:
  assumes "asid_bitmap_ok bitmap" and "i < NASID"
  shows "asids (bitmap[i div 32 := (bitmap ! (i div 32)) OR push_bit (i mod 32) 1]) = insert i (asids bitmap)"
    and "asids (bitmap[i div 32 := (bitmap ! (i div 32)) AND NOT (push_bit (i mod 32) 1)]) = asids bitmap - {i}"
proof -
  have len: "i div 32 < length bitmap" using assms by (simp add: asid_bitmap_ok_def NASID_def)
  have "j div 32 = i div 32 \<Longrightarrow> j mod 32 = i mod 32 \<Longrightarrow> j = i" for j by (metis div_mult_mod_eq)
  then show "asids (bitmap[i div 32 := (bitmap ! (i div 32)) OR push_bit (i mod 32) 1]) = insert i (asids bitmap)"
    and "asids (bitmap[i div 32 := (bitmap ! (i div 32)) AND NOT (push_bit (i mod 32) 1)]) = asids bitmap - {i}"
    using len assms(2) by (auto simp: asids_def nth_list_update bit_simps split: if_splits)
qed

lemma asid_alloc_from_Some:
  "asid_bitmap_ok bitmap \<Longrightarrow> asid_alloc_from bitmap n = Some (i, bitmap') \<Longrightarrow>
   n \<le> unat i \<and> unat i < NASID \<and> unat i \<notin> asids bitmap \<and> {n..<unat i} \<subseteq> asids bitmap \<and>
   asids bitmap' = insert (unat i) (asids bitmap) \<and> asid_bitmap_ok bitmap'"
proof (induction bitmap n rule: asid_alloc_from.induct)
  case (1 bitmap n)
  have n: "n < NASID" using "1.prems"(2) by (simp add: asid_alloc_from.simps split: if_splits)
  then have unat: "unat (word_of_nat n :: u32) = n" by (simp add: unat_of_nat NASID_def)
  show ?case
  proof (cases "(bitmap ! (n div 32)) AND push_bit (n mod 32) 1 = 0")
    case True
    then have "i = word_of_nat n" "bitmap' = bitmap[n div 32 := (bitmap ! (n div 32)) OR push_bit (n mod 32) 1]"
      using "1.prems"(2) n by (simp_all add: asid_alloc_from.simps [of bitmap n] Let_def)
    then show ?thesis
      using True n unat asids_set(1) [OF "1.prems"(1) n] "1.prems"(1)
      by (simp add: asids_def and_single_bit asid_bitmap_ok_def del: push_bit_of_1)
  next
    case False
    then have "n \<in> asids bitmap" using n by (simp add: asids_def and_single_bit del: push_bit_of_1)
    moreover have "asid_alloc_from bitmap (Suc n) = Some (i, bitmap')"
      using "1.prems"(2) n False by (simp add: asid_alloc_from.simps [of bitmap n])
    moreover have "{n..<unat i} \<subseteq> insert n {Suc n..<unat i}" by auto
    ultimately show ?thesis
      using "1.IH" [OF n refl refl False "1.prems"(1)] by auto
  qed
qed

lemma asid_alloc_from_None:
  "asid_alloc_from bitmap n = None \<longleftrightarrow> {n..<NASID} \<subseteq> asids bitmap"
proof (induction bitmap n rule: asid_alloc_from.induct)
  case (1 bitmap n)
  show ?case
  proof (cases "n < NASID")
    case True
    then have "{n..<NASID} = insert n {Suc n..<NASID}" by auto
    then show ?thesis
      using 1 True
      by (simp add: asid_alloc_from.simps [of bitmap n] asids_def and_single_bit Let_def del: push_bit_of_1)
  qed (simp add: asid_alloc_from.simps)
qed

lemma asid_free_eq:
  "asid_bitmap (asid_free s i) = (asid_bitmap s)[unat i div 32 :=
     (asid_bitmap s ! (unat i div 32)) AND NOT (push_bit (unat i mod 32) 1)]"
proof -
  have "i AND 31 = take_bit 5 i" by (simp add: take_bit_eq_mask mask_eq_exp_minus_1)
  then have "unat (i AND 31) = unat i mod 32" by (simp add: unsigned_take_bit_eq take_bit_eq_mod unat_mod)
  moreover have "unat (drop_bit 5 i) = unat i div 32" by (simp add: unsigned_drop_bit_eq drop_bit_eq_div unat_div)
  ultimately show ?thesis by (simp add: asid_free_def Let_def)
qed

interpretation asid: id_allocator "\<lambda>s. asids (asid_bitmap s)" "\<lambda>s. asid_bitmap_ok (asid_bitmap s)"
  NASID "- E_NO_FREE_ENV" asid_alloc asid_free
proof unfold_locales
  show bound: "asids (asid_bitmap s) \<subseteq> {..<NASID}" for s :: kernel by (auto simp: asids_def)
  have none: "asid_alloc_from b 0 = None \<longleftrightarrow> asids b = {..<NASID}" for b
    by (auto simp: asid_alloc_from_None lessThan_atLeast0 asids_def)
  show "asid_alloc s = (- E_NO_FREE_ENV, None, s)" if "asids (asid_bitmap s) = {..<NASID}" for s :: kernel
    using none [THEN iffD2, OF that] by (simp add: asid_alloc_def)
  show "\<exists>i s'. asid_alloc s = (0, Some i, s') \<and> unat i < NASID \<and> unat i \<notin> asids (asid_bitmap s) \<and>
      {..<unat i} \<subseteq> asids (asid_bitmap s) \<and> asids (asid_bitmap s') = insert (unat i) (asids (asid_bitmap s)) \<and>
      asid_bitmap_ok (asid_bitmap s')"
    if ok: "asid_bitmap_ok (asid_bitmap s)" and free: "asids (asid_bitmap s) \<noteq> {..<NASID}" for s :: kernel
  proof -
    obtain i b where a: "asid_alloc_from (asid_bitmap s) 0 = Some (i, b)"
      using free none [of "asid_bitmap s"] by (cases "asid_alloc_from (asid_bitmap s) 0") auto
    show ?thesis using asid_alloc_from_Some [OF ok a] a by (auto simp: asid_alloc_def lessThan_atLeast0)
  qed
  show "asids (asid_bitmap (asid_free s i)) = asids (asid_bitmap s) - {unat i} \<and> asid_bitmap_ok (asid_bitmap (asid_free s i))"
    if "asid_bitmap_ok (asid_bitmap s)" "unat i < NASID" for s :: kernel and i
    using asids_set(2) [OF that] that by (simp add: asid_free_eq asid_bitmap_ok_def)
qed

text \<open>\<open>mkenvid\<close> puts the index of the slot into the low bits of an identifier and a counter above them.\<close>

lemma ENVX_bits: "ENVX i = unat i mod 1024"
proof -
  have "i AND 1023 = take_bit 10 i" by (simp add: take_bit_eq_mask mask_eq_exp_minus_1)
  then show ?thesis by (simp add: ENVX_def NENV_def take_bit_eq_mod unat_mod)
qed

lemma unat_push_11: "unat (push_bit 11 (i :: u32)) = 2048 * (unat i mod 2097152)"
proof -
  have "unat (push_bit 11 i) = push_bit 11 (unat i) mod 2 ^ 32"
    unfolding unsigned_push_bit_eq take_bit_eq_mod by simp
  then show ?thesis by (simp add: push_bit_eq_mult mult_mod_right mult.commute del: push_bit_numeral)
qed

lemma mkenvid_value:
  assumes e: "e < NENV" and j: "mkenvid s e = (j, s')"
  shows "unat j = 2048 * (unat (last_env s + 1) mod 2097152) + e" and "last_env s' = last_env s + 1"
proof -
  let ?i = "last_env s + 1"
  have "push_bit 11 ?i AND word_of_nat e = 0"
  proof (rule bit_word_eqI)
    fix n assume "n < LENGTH(32)"
    have "e < 2 ^ 11" using e by (simp add: NENV_def)
    have "\<not> bit (word_of_nat e :: u32) n" if "11 \<le> n"
    proof -
      have "e < 2 ^ n" using \<open>e < 2 ^ 11\<close> that by (meson less_le_trans one_le_numeral power_increasing)
      then show ?thesis by (simp add: bit_simps bit_nat_def)
    qed
    then show "bit (push_bit 11 ?i AND word_of_nat e) n = bit 0 n"
      by (auto simp: bit_simps)
  qed
  then have "push_bit 11 ?i OR word_of_nat e = push_bit 11 ?i + word_of_nat e"
    by (simp add: disjunctive_add_eq_or)
  moreover have "unat (push_bit 11 ?i) = 2048 * (unat ?i mod 2097152)"
    by (rule unat_push_11)
  moreover have "unat (word_of_nat e :: u32) = e" using e by (simp add: unat_of_nat NENV_def)
  ultimately have "unat (push_bit 11 ?i OR word_of_nat e) = 2048 * (unat ?i mod 2097152) + e"
    using unat_add_word [of "push_bit 11 ?i" "word_of_nat e"] e by (simp add: NENV_def)
  then show "unat j = 2048 * (unat ?i mod 2097152) + e"
    using j by (auto simp: mkenvid_def LOG2NENV_def Let_def)
  show "last_env s' = last_env s + 1" using j by (auto simp: mkenvid_def)
qed

lemma mkenvid_ENVX:
  assumes "e < NENV" and "mkenvid s e = (j, s')"
  shows "ENVX j = e"
proof -
  have "(2048 * x + e) mod 1024 = e mod 1024" for x
    using mod_mult_self1 [of e "2 * x" 1024] by (simp add: algebra_simps)
  then show ?thesis using mkenvid_value(1) [OF assms] assms(1) by (simp add: ENVX_bits NENV_def)
qed

text \<open>The identifiers of a series of calls.\<close>

fun mkenvids :: "kernel \<Rightarrow> nat list \<Rightarrow> u32 list \<times> kernel" where
  "mkenvids s [] = ([], s)"
| "mkenvids s (e # es) = (let (j, s) = mkenvid s e; (js, s) = mkenvids s es in (j # js, s))"

lemma mkenvids_nth:
  "\<forall>e\<in>set es. e < NENV \<Longrightarrow> length (fst (mkenvids s es)) = length es \<and>
   (\<forall>n<length es. unat (fst (mkenvids s es) ! n) = 2048 * ((unat (last_env s) + 1 + n) mod 2097152) + es ! n)"
proof (induction es arbitrary: s)
  case (Cons e es)
  obtain j s' where j: "mkenvid s e = (j, s')" by (cases "mkenvid s e")
  have e: "e < NENV" using Cons.prems by simp
  have wrap: "unat (w + 1) mod 2097152 = (unat w + 1) mod 2097152" for w :: u32
    by (simp add: unat_word_ariths mod_mod_cancel)
  have first: "unat j = 2048 * ((unat (last_env s) + 1) mod 2097152) + e"
    using mkenvid_value(1) [OF e j] by (simp only: wrap)
  have "last_env s' = last_env s + 1" using mkenvid_value(2) [OF e j] .
  then have rest: "(unat (last_env s') + 1 + n) mod 2097152 = (unat (last_env s) + 1 + Suc n) mod 2097152" for n
    using wrap [of "last_env s"] mod_add_left_eq [of "unat (last_env s + 1)" 2097152 "1 + n"]
      mod_add_left_eq [of "unat (last_env s) + 1" 2097152 "1 + n"] by simp
  have IH: "length (fst (mkenvids s' es)) = length es"
    "n < length es \<Longrightarrow> unat (fst (mkenvids s' es) ! n) = 2048 * ((unat (last_env s) + 1 + Suc n) mod 2097152) + es ! n" for n
    using Cons.IH [of s'] Cons.prems unfolding rest by auto
  have m: "fst (mkenvids s (e # es)) = j # fst (mkenvids s' es)" using j by (simp add: split_beta)
  show ?case unfolding m
  proof (intro conjI allI impI)
    fix n assume n: "n < length (e # es)"
    show "unat ((j # fst (mkenvids s' es)) ! n) =
        2048 * ((unat (last_env s) + 1 + n) mod 2097152) + (e # es) ! n"
      by (cases n) (use first IH(2) n in auto)
  qed (simp add: IH)
qed simp

lemma mod_shift_inject:
  fixes a b c m :: nat
  assumes "a < m" "b < m" "(c + a) mod m = (c + b) mod m"
  shows "a = b"
proof -
  have le: "x = y" if "x \<le> y" "y < m" "(c + x) mod m = (c + y) mod m" for x y
  proof -
    have "m dvd (c + y) - (c + x)" using that mod_eq_dvd_iff_nat [of "c + x" "c + y" m] by simp
    then show ?thesis using that by (auto dest: dvd_imp_le)
  qed
  show ?thesis using le [of a b] le [of b a] assms by (cases "a \<le> b") auto
qed

lemma mkenvids_distinct:
  assumes "\<forall>e\<in>set es. e < NENV" and "length es \<le> 2097152"
  shows "distinct (fst (mkenvids s es))"
proof -
  note ids = mkenvids_nth [OF assms(1), of s]
  have "i = k" if "i < length es" "k < length es" "fst (mkenvids s es) ! i = fst (mkenvids s es) ! k" for i k
  proof -
    let ?c = "\<lambda>n. (unat (last_env s) + 1 + n) mod 2097152"
    have small: "es ! i < 2048" "es ! k < 2048" using assms(1) that by (auto simp: NENV_def dest!: nth_mem)
    have eq: "2048 * ?c i + es ! i = 2048 * ?c k + es ! k" using ids that by metis
    have "?c i = (2048 * ?c i + es ! i) div 2048" "?c k = (2048 * ?c k + es ! k) div 2048"
      using small by simp_all
    then have "?c i = ?c k" using eq by simp
    then show ?thesis using mod_shift_inject [of i 2097152 k "unat (last_env s) + 1"] that assms(2) by simp
  qed
  then show ?thesis using ids by (auto simp: distinct_conv_nth)
qed

section \<open>Looking an environment up\<close>

text \<open>The table is consistent when every environment in use has an identifier that leads back to its slot.\<close>

definition env_ids_ok :: "kernel \<Rightarrow> bool" where
  "env_ids_ok s \<longleftrightarrow> length (envs s) = NENV \<and>
     (\<forall>e<NENV. env_status (envs s ! e) \<noteq> ENV_FREE \<longrightarrow> ENVX (env_id (envs s ! e)) = e)"

lemma ENVX_less: "ENVX i < NENV"
  by (simp add: ENVX_bits NENV_def)

lemma envid2env_found:
  assumes "env_ids_ok s" and "envid \<noteq> 0"
  shows "envid2env s envid False = Ret (0, Some (Some e)) \<longleftrightarrow>
    e < NENV \<and> env_status (envs s ! e) \<noteq> ENV_FREE \<and> env_id (envs s ! e) = envid"
  using assms ENVX_less [of envid] by (auto simp: envid2env_def Let_def env_ids_ok_def E_BAD_ENV_def)

lemma envid2env_perm:
  assumes "curenv s = Some c" and "envid \<noteq> 0"
  shows "envid2env s envid True = Ret (0, Some (Some e)) \<longleftrightarrow>
    envid2env s envid False = Ret (0, Some (Some e)) \<and>
    (e = c \<or> env_parent_id (envs s ! e) = env_id (envs s ! c))"
  using assms by (auto simp: envid2env_def Let_def E_BAD_ENV_def)

lemma envid2env_error:
  "envid2env s envid False = Ret (r, p) \<Longrightarrow> r = 0 \<and> p \<noteq> None \<or> r = - E_BAD_ENV \<and> p = None"
  by (auto simp: envid2env_def Let_def split: if_splits)

section \<open>The queues at boot\<close>

lemma env_init_free_list:
  "env_free_list (foldl (\<lambda>s i. s\<lparr>env_free_list := LIST_INSERT_HEAD (env_free_list s) i\<rparr>) s is) =
     foldl LIST_INSERT_HEAD (env_free_list s) is"
  by (induction "is" arbitrary: s) simp_all

lemma env_init_rest:
  "env_sched_list (foldl (\<lambda>s i. s\<lparr>env_free_list := LIST_INSERT_HEAD (env_free_list s) i\<rparr>) s is) = env_sched_list s"
  "envs (foldl (\<lambda>s i. s\<lparr>env_free_list := LIST_INSERT_HEAD (env_free_list s) i\<rparr>) s is) = envs s"
  by (induction "is" arbitrary: s) simp_all

lemma env_init_queues:
  "list_rep (env_free_list (env_init s)) [0..<Suc NENV] \<and> tailq_rep (env_sched_list (env_init s)) []"
proof -
  have "list_rep (foldl LIST_INSERT_HEAD (LIST_INIT (env_free_list s)) (rev [0..<Suc NENV])) (rev (rev [0..<Suc NENV]) @ [])"
    by (rule lists.insert_heads [OF lists.rep_init]) auto
  then show ?thesis
    using tailq.rep_init by (simp add: env_init_def Let_def env_init_free_list env_init_rest del: upt_Suc)
qed

section \<open>Freeing an environment\<close>

text \<open>\<open>env_free\<close> unmaps more than one page, so it never gets past its first step.\<close>

lemma env_free_no_return:
  assumes "page_aligned (env_pgtable (envs s ! e))"
  shows "env_free depth s e \<noteq> Ret s'"
proof
  let ?stop = "0x80000000 + MAXVA div PAGE_SIZE * PAGE_SIZE :: u64"
  assume "env_free depth s e = Ret s'"
  then obtain k where "uvmunmap_loop (phys s) (env_pgtable (envs s ! e)) 0x80000000 False
      (page_range 0x80000000 ?stop) = Ret k"
    by (auto simp: env_free_def Let_def uvmunmap_def split: if_splits)
  moreover have "page_range 0x80000000 ?stop = 0x80000000 # page_range (0x80000000 + 4096) ?stop"
    by (rule page_range_step) (simp_all add: page_aligned_def layout)
  moreover have "page_range (0x80000000 + 4096) ?stop =
      (0x80000000 + 4096) # page_range (0x80000000 + 4096 + 4096) ?stop"
    by (rule page_range_step) (simp_all add: page_aligned_def layout)
  ultimately show False using uvmunmap_twice [OF assms] by metis
qed

end
