(* ===== verification/UserSpace.thy ===== *)
theory UserSpace
  imports KernelSpace Env
begin

text \<open>
  The address space of an environment (kern/env.c, kern/vm.c): \<open>env_setup_vm\<close> makes a root, copies every entry of the
  kernel's table into tables below it (\<open>kvm_copy_to_user_pagetable\<close>) and writes the root's own address into one of its
  entries. With this self link the tables are no tree any more. \<open>unlink\<close> and \<open>self_link\<close> take it out and put it back, and
  the lemmas of the last section show that the operations on other addresses commute with it, so that the
  invariant \<open>pt_inv\<close> and all that rests on it can be used for the tables without the link.
\<close>

section \<open>The kernel's entries copied\<close>

text \<open>What is mapped as what: the entries a copy of a table reproduces.\<close>

definition plain_pte :: "u64 \<Rightarrow> bool" where
  "plain_pte e \<longleftrightarrow> (\<exists>pa perm. e = leaf_pte pa perm \<and> page_aligned pa \<and> unat pa < 2 ^ 56 \<and> perm AND 0x3FF = perm)"

lemma copied_pte:
  assumes "plain_pte e"
  shows "leaf_pte (PTE2PA e) (ucast (PTE_FLAGS e)) = e" and "e AND PTE_V \<noteq> 0"
proof -
  obtain pa perm where e: "e = leaf_pte pa perm" "page_aligned pa" "unat pa < 2 ^ 56" "perm AND 0x3FF = perm"
    using assms by (auto simp: plain_pte_def)
  have high: "\<not> bit perm k" if "10 \<le> k" for k
  proof -
    have "bit perm k \<longleftrightarrow> bit (perm AND mask 10) k" using e(4) by (simp add: mask_eq_exp_minus_1)
    then show ?thesis using that by (auto simp: bit_simps)
  qed
  have "scast (ucast (ucast perm OR PTE_V :: u64) :: u32) OR PTE_V = scast perm OR (PTE_V :: u64)"
    using high [of 31] by (intro bit_word_eqI) (auto simp: bit_simps PTE_V_def min_def)
  then show "leaf_pte (PTE2PA e) (ucast (PTE_FLAGS e)) = e"
    using leaf_pte_fields [OF e(2-4)] unfolding e(1) by (simp add: leaf_pte_def or.assoc)
  show "e AND PTE_V \<noteq> 0" using e(1) by simp
qed

text \<open>One page, by \<open>mappages\<close>, without running out of memory.\<close>

lemma mappages_counted:
  assumes inv: "counted S r n k ps" and S: "finite S" "card S < n"
    and va: "page_aligned va" "va < MAXVA" and paths: "[VPN_L 2 va] \<in> S" "vpath va \<in> S"
    and free: "translate (mem k) r va = None"
  obtains k' qs where "mappages k r va PAGE_SIZE pa perm = Ret (0, k')" "counted S r n k' qs" "extends {r} k ps k' qs"
    "\<And>vb. page_aligned vb \<Longrightarrow> vb < MAXVA \<Longrightarrow>
      translate (mem k') r vb = (if vb = va then Some (leaf_pte pa perm) else translate (mem k) r vb)"
proof -
  obtain a where a: "unat va = 4096 * a" using va(1) by (auto simp: page_aligned_def dvd_def)
  have room: "unat va + unat PAGE_SIZE \<le> unat MAXVA"
    using va(2) a by (simp add: MAXVA_eq PAGE_SIZE_def word_less_nat_alt)
  have next_va: "va < va + PAGE_SIZE" "unat (va + PAGE_SIZE) = unat va + 4096"
    using room unat_add_nat [of va 4096] by (simp_all add: MAXVA_eq PAGE_SIZE_def word_less_nat_alt)
  have inside: "VPN_L 2 vb = VPN_L 2 va \<and> vpath vb = vpath va" if "va \<le> vb" "vb < va + PAGE_SIZE" for vb
  proof -
    have "unat vb div 4096 = unat va div 4096" using that a next_va(2) by (simp add: word_le_nat_alt word_less_nat_alt)
    then have d: "unat vb div 2 ^ (12 + j) = unat va div 2 ^ (12 + j)" for j
      by (simp add: power_add div_mult2_eq)
    show ?thesis using d [of 9] d [of 18] by (simp add: vpath_def word_unat_eq_iff unat_VPN_L VPN_SHIFT_def)
  qed
  have only: "vb = va" if "page_aligned vb" "va \<le> vb" "vb < va + PAGE_SIZE" for vb
    using page_next [OF va(1) that(1)] that(2,3) by (auto simp: PAGE_SIZE_def)
  have sz: "page_aligned PAGE_SIZE" "PAGE_SIZE \<noteq> 0" by (simp_all add: PAGE_SIZE_def page_aligned_def)
  have S_all: "[VPN_L 2 vb] \<in> S \<and> vpath vb \<in> S" if "va \<le> vb" "vb < va + PAGE_SIZE" for vb
    using inside [OF that] paths by simp
  have none: "translate (mem k) r vb = None" if "page_aligned vb" "va \<le> vb" "vb < va + PAGE_SIZE" for vb
    using only [OF that] free by simp
  obtain k' qs where k': "kvmmap k r va pa PAGE_SIZE perm = Ret k'" "counted S r n k' qs" "extends {r} k ps k' qs"
    "mapped_to {r} r k va (va + PAGE_SIZE) pa perm k'"
    using kvmmap_counted [OF inv S va(1) sz room S_all none] by blast
  have "mappages k r va PAGE_SIZE pa perm = Ret (0, k')"
    using k'(1) by (auto simp: kvmmap_def split: if_splits)
  moreover have "translate (mem k') r vb = (if vb = va then Some (leaf_pte pa perm) else translate (mem k) r vb)"
    if "page_aligned vb" "vb < MAXVA" for vb
    using k'(4) that only [OF that(1)] next_va(1) unfolding mapped_to_def by auto
  ultimately show thesis using that k'(2,3) by blast
qed

text \<open>The pages a copy goes over.\<close>

definition copy_to :: "(u64 \<Rightarrow> u64 option) \<Rightarrow> u64 \<Rightarrow> u64 \<Rightarrow> u64 option" where
  "copy_to g i va = (if 0x80000000 \<le> va \<and> va < i then g va else None)"

lemma kvm_copy_loop_copies:
  assumes S: "finite S" "card S < n" and K: "\<And>t. t \<in> K \<Longrightarrow> ram_page t"
    and g: "\<And>va e. page_aligned va \<Longrightarrow> va < MAXVA \<Longrightarrow> g va = Some e \<Longrightarrow> plain_pte e \<and> [VPN_L 2 va] \<in> S \<and> vpath va \<in> S"
  shows "counted S p n k ps \<Longrightarrow> nodes (mem k) {r} = K \<Longrightarrow> maps_as k r g \<Longrightarrow>
    K \<inter> (nodes (mem k) {p} \<union> set ps) = {} \<Longrightarrow> page_aligned i \<Longrightarrow> 0x80000000 \<le> i \<Longrightarrow> i \<le> MAXVA \<Longrightarrow>
    maps_as k p (copy_to g i) \<Longrightarrow>
    \<exists>k' qs. kvm_copy_loop k r p i = Ret (0, k') \<and> counted S p n k' qs \<and> extends {p} k ps k' qs \<and>
      maps_as k' p (copy_to g MAXVA)"
proof (induction k r p i arbitrary: ps rule: kvm_copy_loop.induct)
  case (1 k r p i)
  note inv = "1.prems"(1) and Kr = "1.prems"(2) and mr = "1.prems"(3) and dis = "1.prems"(4)
    and i = "1.prems"(5,6,7) and mp = "1.prems"(8)
  note loop = kvm_copy_loop.simps [of k r p i]
  have pt: "pt_inv k {p} ps" using inv by (simp add: counted_def)
  show ?case
  proof (cases "i < MAXVA")
    case False
    then have "i = MAXVA" using i(3) by simp
    then have "maps_as k p (copy_to g MAXVA)" using mp by simp
    moreover have "kvm_copy_loop k r p i = Ret (0, k)" using False by (simp add: loop)
    ultimately show ?thesis using inv extends_refl [OF pt] by blast
  next
    case True
    have al: "page_aligned MAXVA" by (simp add: page_aligned_def MAXVA_eq)
    note step = page_step [OF i(1) al True]
    have next_i: "page_aligned (i + PAGE_SIZE)" "0x80000000 \<le> i + PAGE_SIZE" "i + PAGE_SIZE \<le> MAXVA"
      using step i(2) by (auto simp: PAGE_SIZE_def)
    have grow: "copy_to g (i + PAGE_SIZE) va = (if va = i then g i else copy_to g i va)" if "page_aligned va" for va
      using i(2) step(4) page_next [OF i(1) that] page_next [OF that i(1)] unfolding copy_to_def PAGE_SIZE_def
      by (auto simp: not_less dest: less_trans)
    have tr: "translate (mem k) r i = g i" using mr i(1) True by (simp add: maps_as_def)
    show ?thesis
    proof (cases "g i")
      case None
      obtain pte where w: "walk k r i False = Ret (pte, k)" "pte = 0 \<or> load64 (mem k) pte AND PTE_V = 0"
        using walk_no_translate [OF True] tr None by metis
      have l: "kvm_copy_loop k r p i = kvm_copy_loop k r p (i + PAGE_SIZE)"
        using w True by (auto simp: loop)
      have mp': "maps_as k p (copy_to g (i + PAGE_SIZE))"
        using mp grow None i(1) unfolding maps_as_def copy_to_def by auto
      show ?thesis
      proof (cases "pte = 0")
        case True
        then show ?thesis using "1.IH"(1) [OF \<open>i < MAXVA\<close> w(1) refl True inv Kr mr dis next_i mp'] l by simp
      next
        case False
        then show ?thesis using "1.IH"(2) [OF \<open>i < MAXVA\<close> w(1) refl False _ inv Kr mr dis next_i mp'] l w(2) by simp
      qed
    next
      case (Some e)
      obtain t where t: "table (mem k) r (vpath i) = Some t" and w: "walk k r i False = Ret (entry t (VPN_L 0 i), k)"
        and e: "load64 (mem k) (entry t (VPN_L 0 i)) = e" "e AND PTE_V \<noteq> 0"
        using walk_translate [OF True] tr Some by metis
      have "t \<in> K" using nodesI [of r "{r}" "vpath i" "mem k" t] t Kr by simp
      note page = ram_pageD [OF K [OF this]]
      have "unat (entry t (VPN_L 0 i)) \<noteq> 0"
        using unat_entry [OF page(1) VPN_L_less] page(2) by (simp add: unat_eq_zero)
      then have pte: "entry t (VPN_L 0 i) \<noteq> 0" by (simp add: unat_eq_zero)
      have ge: "plain_pte e" "[VPN_L 2 i] \<in> S" "vpath i \<in> S" using g [OF i(1) True Some] by simp_all
      have free: "translate (mem k) p i = None" using mp i(1) True by (simp add: maps_as_def copy_to_def)
      obtain k1 qs where k1: "mappages k p i PAGE_SIZE (PTE2PA e) (ucast (PTE_FLAGS e)) = Ret (0, k1)"
        "counted S p n k1 qs" "extends {p} k ps k1 qs"
        "\<And>vb. page_aligned vb \<Longrightarrow> vb < MAXVA \<Longrightarrow>
          translate (mem k1) p vb = (if vb = i then Some (leaf_pte (PTE2PA e) (ucast (PTE_FLAGS e))) else translate (mem k) p vb)"
        using mappages_counted [OF inv S i(1) True ge(2,3) free] by blast
      have mp': "maps_as k1 p (copy_to g (i + PAGE_SIZE))"
        using mp k1(4) grow Some unfolding maps_as_def copied_pte(1) [OF ge(1)] by auto
      have frame: "mem k1 x = mem k x" if "u \<in> nodes (mem k) {r}" "in_block x u 4096" for u x
      proof -
        have "\<forall>q\<in>nodes (mem k) {p} \<union> set ps. \<not> in_block x q 4096"
        proof
          fix q assume q: "q \<in> nodes (mem k) {p} \<union> set ps"
          then have "ram_page q" using pt by (auto simp: pt_inv_def tables_ok_def kmem_inv_def)
          moreover have "q \<noteq> u" using q that(1) dis Kr by auto
          ultimately show "\<not> in_block x q 4096"
            using page_disjoint [of u q x] that K [of u] Kr ram_pageD(1) by blast
        qed
        then show ?thesis using k1(3) by (simp add: extends_def)
      qed
      have al: "page_aligned u" if "u \<in> nodes (mem k) {r}" for u using that K Kr ram_pageD(1) by blast
      have Kr': "nodes (mem k1) {r} = K" using nodes_same [where m = "mem k" and m' = "mem k1" and R = "{r}", OF al frame] Kr by simp
      have mr': "maps_as k1 r g" using mr tables_same(2) [where m = "mem k" and m' = "mem k1" and R = "{r}" and r = r, OF al frame] by (simp add: maps_as_def)
      have dis': "K \<inter> (nodes (mem k1) {p} \<union> set qs) = {}" using dis k1(3) by (auto simp: extends_def)
      have l: "kvm_copy_loop k r p i = kvm_copy_loop k1 r p (i + PAGE_SIZE)"
        using w pte e k1(1) True by (simp add: loop)
      obtain k' us where "kvm_copy_loop k1 r p (i + PAGE_SIZE) = Ret (0, k')" "counted S p n k' us"
        "extends {p} k1 qs k' us" "maps_as k' p (copy_to g MAXVA)"
        using "1.IH"(3) [OF True w refl pte _ refl refl _ refl _ k1(2) Kr' mr' dis' next_i mp'] e k1(1) by auto
      then show ?thesis using l extends_trans [OF k1(3)] by auto
    qed
  qed
qed

section \<open>The root\<close>

text \<open>The root of a new address space.\<close>

lemma user_root:
  assumes "kmem_inv k (p # ps)"
  obtains k1 where "uvmcreate k = (p, k1)" "p \<noteq> 0" "counted kernel_paths p (Suc (length ps)) k1 ps" "maps_as k1 p (\<lambda>_. None)"
    "nodes (mem k1) {p} = {p}" "\<And>x. \<not> in_block x p 4096 \<Longrightarrow> mem k1 x = mem k x"
proof -
  obtain k' where k': "kalloc k = (p, k')" "mem k' = filled (mem k) p 0 4096"
    using pages.alloc_page [OF assms] by blast
  let ?k = "k'\<lparr>mem := fst (memset (mem k') p 0 PAGE_SIZE)\<rparr>"
  have page: "ram_page p" using assms by (simp add: kmem_inv_def)
  have root: "counted kernel_paths p (Suc (length ps)) ?k ps" "maps_as ?k p (\<lambda>_. None)" "nodes (mem ?k) {p} = {p}"
    "\<And>x. \<not> in_block x p 4096 \<Longrightarrow> mem ?k x = mem k x"
    using kernel_root [OF assms] k'(1) by auto
  moreover have "uvmcreate k = (p, ?k)" "p \<noteq> 0" using k'(1) ram_pageD(2) [OF page] by (simp_all add: uvmcreate_def)
  ultimately show thesis using that by blast
qed

section \<open>An entry of the root taken out\<close>

definition unlink :: "u64 \<Rightarrow> u64 \<Rightarrow> kmem \<Rightarrow> kmem" where
  "unlink p i k = k\<lparr>mem := store64 (mem k) (entry p i) 0\<rparr>"

lemma list_path2:
  assumes "P \<in> paths 2"
  obtains "P = []" | a where "P = [a]" "unat a < 512" | a b where "P = [a, b]" "unat a < 512" "unat b < 512"
proof (cases P)
  case (Cons a Q)
  then show thesis using assms that(2) that(3) by (cases Q) (auto simp: paths_def)
qed (use that(1) in simp)

lemma table_unlink:
  assumes ok: "tables_ok (mem k) {p} ps" and i: "unat i < 512" and P: "P \<in> paths 2"
  shows "table (mem (unlink p i k)) p P = (if P \<noteq> [] \<and> hd P = i then None else table (mem k) p P)"
proof -
  have p: "page_aligned p" using tables_okD(3) [OF ok, of p "[]" p] by (simp add: paths_def)
  have root: "pte_at (mem (unlink p i k)) p a = (if a = i then 0 else pte_at (mem k) p a)" if "unat a < 512" for a
    using pte_at_store [OF p p i that] by (simp add: unlink_def)
  have below: "pte_at (mem (unlink p i k)) t b = pte_at (mem k) t b"
    if "table (mem k) p [a] = Some t" "unat a < 512" "unat b < 512" for a b t
  proof -
    have path: "[a] \<in> paths 2" "[] \<in> paths 2" using that(2) by (simp_all add: paths_def)
    have "t \<noteq> p" using tables_ok_inject [OF ok _ _ path(1,2), of p p t] that(1) by auto
    then show ?thesis using pte_at_store [OF p tables_okD(3) [OF ok _ path(1) that(1)] i that(3)] by (simp add: unlink_def)
  qed
  consider "P = []" | a where "P = [a]" "unat a < 512" | a b where "P = [a, b]" "unat a < 512" "unat b < 512"
    using P list_path2 by blast
  then show ?thesis
  proof cases
    case (3 a b)
    then show ?thesis using root [of a] below [of a "PTE2PA (pte_at (mem k) p a)" b] by auto
  qed (auto simp: root)
qed

lemma unlink_ok:
  assumes inv: "pt_inv k {p} ps" and i: "unat i < 512"
  shows "pt_inv (unlink p i k) {p} ps" and "nodes (mem (unlink p i k)) {p} \<subseteq> nodes (mem k) {p}"
    and "translate (mem (unlink p i k)) p va = (if VPN_L 2 va = i then None else translate (mem k) p va)"
proof -
  have ok: "tables_ok (mem k) {p} ps" and kinv: "kmem_inv k ps" using inv by (simp_all add: pt_inv_def)
  note tab = table_unlink [OF ok i]
  have root: "table (mem k) p [] = Some p" "[] \<in> paths 2" by (simp_all add: paths_def)
  note page = pt_invD [OF inv _ root(2,1)]
  show nodes: "nodes (mem (unlink p i k)) {p} \<subseteq> nodes (mem k) {p}"
  proof
    fix t assume "t \<in> nodes (mem (unlink p i k)) {p}"
    then obtain P where "P \<in> paths 2" "table (mem (unlink p i k)) p P = Some t" by (auto simp: nodes_def)
    then show "t \<in> nodes (mem k) {p}" using tab [of P] nodesI [of p "{p}" P "mem k" t] by (auto split: if_splits)
  qed
  have "tables_ok (mem (unlink p i k)) {p} ps"
    unfolding tables_ok_def
  proof (intro conjI ballI allI impI)
    fix t assume "t \<in> nodes (mem (unlink p i k)) {p}"
    then show "ram_page t" "t \<notin> set ps" using nodes ok by (auto simp: tables_ok_def)
  next
    fix r s P Q t assume "r \<in> {p}" "s \<in> {p}" "P \<in> paths 2" "Q \<in> paths 2"
      "table (mem (unlink p i k)) r P = Some t" "table (mem (unlink p i k)) s Q = Some t"
    then show "r = s" "P = Q" using tab tables_ok_inject [OF ok, of p p P Q t] by (auto split: if_splits)
  qed
  moreover have frame: "mem (unlink p i k) x = mem k x" if "\<not> in_block x p 4096" for x
    using that entry_in_page [OF page(3) i] by (auto simp: unlink_def intro: store64_other)
  have "kmem_inv (k\<lparr>mem := mem (unlink p i k)\<rparr>) ps" using kmem_inv_frame [OF kinv frame page(3,2)] by simp
  ultimately show "pt_inv (unlink p i k) {p} ps" by (simp add: pt_inv_def unlink_def)
  have "translate (mem (unlink p i k)) p va = translate (mem k) p va" if "VPN_L 2 va \<noteq> i"
  proof (cases "table (mem k) p (vpath va)")
    case (Some t)
    have "vpath va \<noteq> []" by (simp add: vpath_def)
    then have "t \<noteq> p" using tables_ok_inject [OF ok _ _ vpath_paths root(2), of p p va t] Some by auto
    then have "pte_at (mem (unlink p i k)) t (VPN_L 0 va) = pte_at (mem k) t (VPN_L 0 va)"
      using pte_at_store [OF page(3) tables_okD(3) [OF ok _ vpath_paths Some] i VPN_L_less] by (simp add: unlink_def)
    then show ?thesis using tab [OF vpath_paths, of va] that Some by (simp add: translate_def vpath_def)
  next
    case None
    then show ?thesis using tab [OF vpath_paths, of va] by (simp add: translate_def)
  qed
  moreover have "translate (mem (unlink p i k)) p va = None" if "VPN_L 2 va = i"
    using tab [OF vpath_paths, of va] that by (simp add: translate_def vpath_def)
  ultimately show "translate (mem (unlink p i k)) p va = (if VPN_L 2 va = i then None else translate (mem k) p va)"
    by simp
qed

section \<open>The self link\<close>

text \<open>The entry of the root through which an environment is to see its own page table.\<close>

abbreviation self_slot :: u64 where "self_slot \<equiv> VPN_L 2 UVPT"

definition self_pte :: "u64 \<Rightarrow> u64" where
  "self_pte p = PA2PTE p OR PTE_V OR PTE_R OR PTE_U"

definition self_link :: "u64 \<Rightarrow> kmem \<Rightarrow> kmem" where
  "self_link p k = k\<lparr>mem := store64 (mem k) (entry p self_slot) (self_pte p)\<rparr>"

lemma self_slot: "self_slot = 254"
  by (simp add: VPN_L_def VPN_SHIFT_def UVPT_eq)

lemma link_unlink [simp]: "self_link p (unlink p self_slot k) = self_link p k"
  by (simp add: self_link_def unlink_def)

lemma link_other:
  "page_aligned p \<Longrightarrow> \<not> in_block x p 4096 \<Longrightarrow> mem (self_link p k) x = mem k x"
  using entry_in_page [OF _ VPN_L_less] by (auto simp: self_link_def intro: store64_other)

lemma link_pte:
  "page_aligned p \<Longrightarrow> page_aligned t \<Longrightarrow> unat i < 512 \<Longrightarrow>
   pte_at (mem (self_link p k)) t i = (if t = p \<and> i = self_slot then self_pte p else pte_at (mem k) t i)"
  using pte_at_store [OF _ _ VPN_L_less] by (simp add: self_link_def)

text \<open>A set of tables that is not written to stays what it was.\<close>

definition untouched :: "kmem \<Rightarrow> u64 set \<Rightarrow> kmem \<Rightarrow> bool" where
  "untouched k T k' \<longleftrightarrow> (\<forall>t\<in>T. \<forall>x. in_block x t 4096 \<longrightarrow> mem k' x = mem k x)"

lemma tables_stay:
  assumes inv: "pt_inv k R ps" and same: "untouched k (nodes (mem k) R) k'"
    and free: "kmem_inv k' qs" "set qs \<subseteq> set ps"
  shows "pt_inv k' R qs" and "nodes (mem k') R = nodes (mem k) R" and "r \<in> R \<Longrightarrow> maps_as k r g \<Longrightarrow> maps_as k' r g"
    and "r \<in> R \<Longrightarrow> translate (mem k') r va = translate (mem k) r va"
proof -
  have ok: "tables_ok (mem k) R ps" using inv by (simp add: pt_inv_def)
  have al: "page_aligned t" if "t \<in> nodes (mem k) R" for t using ok that ram_pageD(1) by (auto simp: tables_ok_def)
  have keep: "mem k' x = mem k x" if "t \<in> nodes (mem k) R" "in_block x t 4096" for t x
    using same that by (simp add: untouched_def)
  note tab = tables_same [where m = "mem k" and m' = "mem k'" and R = R, OF al keep]
  show nodes: "nodes (mem k') R = nodes (mem k) R"
    using nodes_same [where m = "mem k" and m' = "mem k'" and R = R, OF al keep] .
  have "tables_ok (mem k') R qs"
    unfolding tables_ok_def nodes
  proof (intro conjI ballI allI impI)
    fix t assume "t \<in> nodes (mem k) R"
    then show "ram_page t" "t \<notin> set qs" using ok free(2) by (auto simp: tables_ok_def)
  next
    fix r s P Q t assume "r \<in> R" "s \<in> R" "P \<in> paths 2" "Q \<in> paths 2"
      "table (mem k') r P = Some t" "table (mem k') s Q = Some t"
    then show "r = s" "P = Q" using tab(1) tables_ok_inject [OF ok, of r s P Q t] by simp_all
  qed
  then show "pt_inv k' R qs" using free(1) by (simp add: pt_inv_def)
  show "r \<in> R \<Longrightarrow> translate (mem k') r va = translate (mem k) r va" by (rule tab(2))
  then show "r \<in> R \<Longrightarrow> maps_as k r g \<Longrightarrow> maps_as k' r g" using tab(2) by (simp add: maps_as_def)
qed

text \<open>Writing below \<open>p\<close> and into free pages leaves other pages alone.\<close>

lemma extends_untouched:
  assumes ext: "extends {p} k ps k' qs" and inv: "pt_inv k {p} ps" and T: "\<And>t. t \<in> T \<Longrightarrow> ram_page t"
    and dis: "T \<inter> (nodes (mem k) {p} \<union> set ps) = {}"
  shows "untouched k T k'"
  unfolding untouched_def
proof (intro ballI allI impI)
  fix t x assume t: "t \<in> T" "in_block x t 4096"
  have "\<forall>q\<in>nodes (mem k) {p} \<union> set ps. \<not> in_block x q 4096"
  proof
    fix q assume q: "q \<in> nodes (mem k) {p} \<union> set ps"
    then have "ram_page q" using inv by (auto simp: pt_inv_def tables_ok_def kmem_inv_def)
    then show "\<not> in_block x q 4096"
      using page_disjoint [of t q x] t T [OF t(1)] ram_pageD(1) dis q by blast
  qed
  then show "mem k' x = mem k x" using ext by (simp add: extends_def)
qed

section \<open>A new address space\<close>

text \<open>What the kernel's table translates: entries that are plain leaves, all in the upper half.\<close>

definition kernel_view :: "(u64 \<Rightarrow> u64 option) \<Rightarrow> bool" where
  "kernel_view g \<longleftrightarrow> (\<forall>va e. page_aligned va \<longrightarrow> va < MAXVA \<longrightarrow> g va = Some e \<longrightarrow>
     0x80000000 \<le> va \<and> plain_pte e \<and> [VPN_L 2 va] \<in> kernel_paths \<and> vpath va \<in> kernel_paths)"

text \<open>The address space of an environment, seen through its table without the self link: \<open>h\<close> is what it maps.\<close>

definition user_space :: "kmem \<Rightarrow> u64 \<Rightarrow> u64 list \<Rightarrow> (u64 \<Rightarrow> u64 option) \<Rightarrow> bool" where
  "user_space k p ps h \<longleftrightarrow> pt_inv k {p} ps \<and> maps_as k p h \<and> pte_at (mem k) p self_slot = 0"

definition user_half :: "(u64 \<Rightarrow> u64 option) \<Rightarrow> u64 \<Rightarrow> u64 option" where
  "user_half g va = (if VPN_L 2 va = self_slot then None else g va)"

definition env_pgtable_set :: "u64 \<Rightarrow> nat \<Rightarrow> kmem \<Rightarrow> kernel \<Rightarrow> kernel" where
  "env_pgtable_set p e k s = upd_env (\<lambda>v. v\<lparr>env_pgtable := p\<rparr>) e (s\<lparr>phys := k\<rparr>)"

lemma env_setup_vm_space:
  assumes inv: "pt_inv (phys s) {r} (p # ps)" and r: "kernel_pagetable s = r" and room: "1027 \<le> length ps"
    and e: "e < length (envs s)" and view: "kernel_view g" "maps_as (phys s) r g"
  obtains k qs where "env_setup_vm s e = Ret (0, env_pgtable_set p e (self_link p k) s)"
    "user_space k p qs (user_half g)" "pt_inv (self_link p k) {r} qs" "maps_as (self_link p k) r g"
    "set qs \<subseteq> set ps" "length ps \<le> length qs + 1027" "nodes (mem k) {p} \<subseteq> set (p # ps)" "reach kernel_paths (mem k) p"
    "\<And>x. \<forall>q\<in>set (p # ps). \<not> in_block x q 4096 \<Longrightarrow> mem (self_link p k) x = mem (phys s) x"
proof -
  have kinv: "kmem_inv (phys s) (p # ps)" and ok: "tables_ok (mem (phys s)) {r} (p # ps)"
    using inv by (simp_all add: pt_inv_def)
  obtain k1 where k1: "uvmcreate (phys s) = (p, k1)" "p \<noteq> 0" "counted kernel_paths p (Suc (length ps)) k1 ps"
    "maps_as k1 p (\<lambda>_. None)" "nodes (mem k1) {p} = {p}"
    "\<And>x. \<not> in_block x p 4096 \<Longrightarrow> mem k1 x = mem (phys s) x"
    using user_root [OF kinv] by blast
  let ?K = "nodes (mem (phys s)) {r}"
  have K: "ram_page t" if "t \<in> ?K" for t using ok that by (auto simp: tables_ok_def)
  have dis: "?K \<inter> set (p # ps) = {}" using ok unfolding tables_ok_def by blast
  have p: "page_aligned p" "ram_page p" using kinv ram_pageD(1) by (auto simp: kmem_inv_def)
  have un1: "untouched (phys s) ?K k1"
    unfolding untouched_def
  proof (intro ballI allI impI)
    fix t x assume "t \<in> ?K" "in_block x t 4096"
    then show "mem k1 x = mem (phys s) x" using k1(6) page_disjoint [of t p x] K [of t] ram_pageD(1) p(1) dis by auto
  qed
  have pt1: "pt_inv k1 {p} ps" using k1(3) by (simp add: counted_def)
  then have "kmem_inv k1 ps" by (simp add: pt_inv_def)
  then have r1: "pt_inv k1 {r} ps" "nodes (mem k1) {r} = ?K" "maps_as k1 r g"
    using tables_stay [OF inv un1, of ps] view(2) by auto
  have card: "finite kernel_paths" "card kernel_paths < Suc (length ps)" using kernel_paths_card room by simp_all
  have dis1: "?K \<inter> (nodes (mem k1) {p} \<union> set ps) = {}" using dis k1(5) by auto
  have al: "page_aligned 0x80000000" by (simp add: page_aligned_def)
  have start: "(0x80000000 :: u64) \<le> 0x80000000" "0x80000000 \<le> MAXVA" by (simp_all add: MAXVA_eq)
  have none: "maps_as k1 p (copy_to g 0x80000000)" using k1(4) by (auto simp: maps_as_def copy_to_def)
  have g: "plain_pte e \<and> [VPN_L 2 va] \<in> kernel_paths \<and> vpath va \<in> kernel_paths"
    if "page_aligned va" "va < MAXVA" "g va = Some e" for va e
    using view(1) that by (simp add: kernel_view_def)
  obtain k2 qs where k2: "kvm_copy_loop k1 r p 0x80000000 = Ret (0, k2)" "counted kernel_paths p (Suc (length ps)) k2 qs"
    "extends {p} k1 ps k2 qs" "maps_as k2 p (copy_to g MAXVA)"
    using kvm_copy_loop_copies [OF card K g k1(3) r1(2,3) dis1 al start none] by blast
  let ?k = "unlink p self_slot k2"
  have pt2: "pt_inv k2 {p} qs" and len: "card (nodes (mem k2) {p}) + length qs = Suc (length ps)"
    and reach: "reach kernel_paths (mem k2) p" using k2(2) by (simp_all add: counted_def)
  note un = unlink_ok [OF pt2 VPN_L_less [of 2 UVPT]]
  have "translate (mem ?k) p va = user_half g va" if "page_aligned va" "va < MAXVA" for va
  proof -
    have "copy_to g MAXVA va = g va" using view(1) that by (cases "g va") (auto simp: copy_to_def kernel_view_def)
    then show ?thesis using k2(4) that un(3) by (simp add: maps_as_def user_half_def)
  qed
  then have space: "user_space ?k p qs (user_half g)"
    using un(1) pte_at_store [OF p(1) p(1) VPN_L_less VPN_L_less] by (simp add: user_space_def maps_as_def unlink_def)
  have sub: "nodes (mem k2) {p} \<union> set qs \<subseteq> set (p # ps)" using k2(3) k1(5) by (auto simp: extends_def)
  have out: "mem (self_link p k2) x = mem k1 x" if "\<forall>q\<in>set (p # ps). \<not> in_block x q 4096" for x
    using that k2(3) k1(5) link_other [OF p(1), of x k2] by (auto simp: extends_def)
  have "untouched k1 ?K (self_link p k2)"
    unfolding untouched_def
  proof (intro ballI allI impI)
    fix t x assume t: "t \<in> ?K" "in_block x t 4096"
    have "ram_page q" if "q \<in> set (p # ps)" for q using kinv that by (auto simp: kmem_inv_def)
    then show "mem (self_link p k2) x = mem k1 x"
      using out [of x] page_disjoint [of t _ x] t K [OF t(1)] ram_pageD(1) dis by blast
  qed
  moreover have "p \<notin> set qs" using pt2 pt_invD(2) [of k2 "{p}" qs p "[]" p] by (simp add: paths_def)
  then have "kmem_inv (self_link p k2) qs"
    using kmem_inv_frame [of k2 qs p "mem (self_link p k2)"] pt2 link_other [OF p(1)] p(1)
    by (simp add: pt_inv_def self_link_def)
  ultimately have "pt_inv (self_link p k2) {r} qs" "maps_as (self_link p k2) r g"
    using tables_stay(1,3) [OF r1(1), of "self_link p k2" qs] r1(2,3) sub pt2 k2(3) by (auto simp: extends_def)
  moreover have "env_setup_vm s e = Ret (0, env_pgtable_set p e (self_link p k2) s)"
    using k1(1,2) k2(1) e r
    by (simp add: env_setup_vm_def kvm_copy_to_user_pagetable_def env_pgtable_set_def upd_env_def self_link_def self_pte_def)
  moreover have "length ps \<le> length qs + 1027"
    using len reach_nodes(2) [OF reach kernel_paths_card(1)] kernel_paths_card(2) by simp
  moreover have "set qs \<subseteq> set ps" using k2(3) by (auto simp: extends_def)
  moreover have "mem (self_link p k2) x = mem (phys s) x" if "\<forall>q\<in>set (p # ps). \<not> in_block x q 4096" for x
    using out [OF that] k1(6) that by simp
  moreover have "nodes (mem ?k) {p} \<subseteq> set (p # ps)" using un(2) sub by auto
  moreover have "reach kernel_paths (mem ?k) p"
    using reach table_unlink [of k2 p qs self_slot] pt2 by (auto simp: reach_def pt_inv_def VPN_L_less split: if_splits)
  ultimately show thesis using that [of ?k qs] space by simp
qed

section \<open>The self link is out of the way\<close>

lemma pt_root:
  assumes "pt_inv k {p} ps"
  shows "ram_page p" "page_aligned p" "p \<notin> set ps" "p \<in> nodes (mem k) {p}"
  using pt_invD [OF assms, of p "[]" p] by (simp_all add: paths_def)

lemma link_load:
  "page_aligned p \<Longrightarrow> page_aligned q \<Longrightarrow> q \<noteq> p \<Longrightarrow> unat i < 512 \<Longrightarrow>
   load64 (mem (self_link p k)) (entry q i) = load64 (mem k) (entry q i)"
  using link_pte [of p q i k] by (simp add: pte_at_def)

lemma kalloc_link:
  assumes inv: "pt_inv k {p} ps"
  shows "kalloc (self_link p k) = (fst (kalloc k), self_link p (snd (kalloc k)))"
proof (cases ps)
  case Nil
  then have "freelist k = 0" using inv by (simp add: pt_inv_def kmem_inv_def)
  then show ?thesis by (simp add: kalloc_def self_link_def)
next
  case (Cons q qs)
  note p = pt_root [OF inv]
  have q: "freelist k = q" "ram_page q" using inv Cons by (simp_all add: pt_inv_def kmem_inv_def)
  have ne: "q \<noteq> p" using p(3) Cons by auto
  have "load64 (mem (self_link p k)) q = load64 (mem k) q"
    using link_load [OF p(2) ram_pageD(1) [OF q(2)] ne, of 0 k] by simp
  moreover have "filled (mem (self_link p k)) q 0 4096 = store64 (filled (mem k) q 0 4096) (entry p self_slot) (self_pte p)"
    unfolding self_link_def
    using entry_in_page [OF p(2) VPN_L_less] page_disjoint [OF p(2) ram_pageD(1) [OF q(2)]] ne
    by (simp, intro store64_filled) blast
  ultimately show ?thesis
    using q(1) ram_pageD(2) [OF q(2)] by (simp add: kalloc_def memset_page [OF q(2)] self_link_def)
qed

lemma walk_levels_link:
  assumes "l \<le> 2" and "pt_inv k {p} ps" and "table (mem k) p (take (2 - l) (vpath va)) = Some t"
    and va: "VPN_L 2 va \<noteq> self_slot"
  shows "walk_levels l (self_link p k) t va True =
    (fst (walk_levels l k t va True), self_link p (snd (walk_levels l k t va True)))"
  using assms(1-3)
proof (induction l arbitrary: k ps t)
  case (Suc l)
  let ?P = "take (2 - Suc l) (vpath va)" and ?i = "VPN_L (Suc l) va"
  note p = pt_root [OF Suc.prems(2)]
  have l: "l = 0 \<or> l = 1" using Suc.prems(1) by auto
  then have path: "?P @ [?i] = take (2 - l) (vpath va)" by (auto simp: vpath_def numeral_2_eq_2)
  have P: "?P \<in> paths 1" using l by (auto simp: vpath_def paths_def VPN_L_less)
  note page = pt_invD [OF Suc.prems(2) _ paths_mono [OF P one_le_numeral] Suc.prems(3)]
  have slot: "t = p \<Longrightarrow> ?i \<noteq> self_slot"
  proof -
    assume tp: "t = p"
    have ok: "tables_ok (mem k) {p} ps" using Suc.prems(2) by (simp add: pt_inv_def)
    have "?P \<in> paths 2" "[] \<in> paths 2" "table (mem k) p [] = Some p"
      by (rule paths_mono [OF P]) (simp_all add: paths_def)
    then have "?P = []" using tables_ok_inject [OF ok, of p p ?P "[]" p] Suc.prems(3) unfolding tp by blast
    then have "l = 1" using l by (auto simp: vpath_def)
    then show "?i \<noteq> self_slot" using va by (simp add: numeral_2_eq_2)
  qed
  have ld: "load64 (mem (self_link p k)) (entry t ?i) = load64 (mem k) (entry t ?i)"
    using link_pte [OF p(2) page(3) VPN_L_less, of k "Suc l" va] slot by (auto simp: pte_at_def)
  have addr: "entry t ?i \<noteq> entry p self_slot"
    using entry_inject [OF page(3) p(2) VPN_L_less VPN_L_less] slot by auto
  show ?case
  proof (cases "load64 (mem k) (entry t ?i) AND PTE_V = 0")
    case False
    then have "table (mem k) p (?P @ [?i]) = Some (PTE2PA (load64 (mem k) (entry t ?i)))"
      using Suc.prems(3) by (simp add: table_snoc pte_at_def)
    then show ?thesis using Suc.IH [of k ps] Suc.prems(1,2) False ld path by (simp add: Let_def)
  next
    case unused: True
    obtain q k1 where alloc: "kalloc k = (q, k1)" by (cases "kalloc k")
    note al = kalloc_link [OF Suc.prems(2), unfolded alloc, simplified]
    show ?thesis
    proof (cases "q = 0")
      case True
      then show ?thesis using unused ld alloc al by (simp add: Let_def)
    next
      case False
      let ?m = "store64 (fst (memset (mem k1) q 0 PAGE_SIZE)) (entry t ?i) (PA2PTE q OR PTE_V)"
      obtain us where ps: "ps = q # us" and g: "grows {p} k ps (k1\<lparr>mem := ?m\<rparr>) us"
        and q: "table ?m p (?P @ [?i]) = Some q"
        using alloc_table [OF Suc.prems(2) singletonI P VPN_L_less Suc.prems(3) unused [folded pte_at_def] alloc False refl]
        by blast
      have qp: "ram_page q" "q \<noteq> p" using Suc.prems(2) ps p(3) by (auto simp: pt_inv_def kmem_inv_def)
      have "filled (mem (self_link p k1)) q 0 4096 = store64 (filled (mem k1) q 0 4096) (entry p self_slot) (self_pte p)"
        unfolding self_link_def
        using entry_in_page [OF p(2) VPN_L_less] page_disjoint [OF p(2) ram_pageD(1) [OF qp(1)]] qp(2)
        by (simp, intro store64_filled) blast
      then have "self_link p (k1\<lparr>mem := ?m\<rparr>) = self_link p k1\<lparr>mem := store64 (fst (memset (mem (self_link p k1)) q 0 PAGE_SIZE)) (entry t ?i) (PA2PTE q OR PTE_V)\<rparr>"
        using addr page(3) p(2) by (simp add: memset_page [OF qp(1)] self_link_def store64_commute [of "entry p self_slot" "entry t ?i"] VPN_L_less)
      moreover have "pt_inv (k1\<lparr>mem := ?m\<rparr>) {p} us" using g by (simp add: grows_def extends_def)
      then have "walk_levels l (self_link p (k1\<lparr>mem := ?m\<rparr>)) q va True =
          (fst (walk_levels l (k1\<lparr>mem := ?m\<rparr>) q va True), self_link p (snd (walk_levels l (k1\<lparr>mem := ?m\<rparr>) q va True)))"
        using Suc.IH [of "k1\<lparr>mem := ?m\<rparr>" us q] Suc.prems(1) path q by simp
      ultimately show ?thesis using unused ld alloc al False by (simp add: Let_def)
    qed
  qed
qed simp

lemma mappages_link:
  assumes inv: "pt_inv k {p} ps" and va: "page_aligned va" "va < MAXVA" "VPN_L 2 va \<noteq> self_slot"
  shows "mappages (self_link p k) p va PAGE_SIZE pa perm =
    andThen (mappages k p va PAGE_SIZE pa perm) (\<lambda>(r, k). Ret (r, self_link p k))"
proof -
  obtain a where a: "unat va = 4096 * a" using va(1) by (auto simp: page_aligned_def dvd_def)
  have room: "unat va + unat PAGE_SIZE \<le> unat MAXVA"
    using va(2) a by (simp add: MAXVA_eq PAGE_SIZE_def word_less_nat_alt)
  have sz: "page_aligned PAGE_SIZE" "PAGE_SIZE \<noteq> 0" by (simp_all add: PAGE_SIZE_def page_aligned_def)
  note b = mappages_bounds [OF va(1) sz room]
  have last: "va + PAGE_SIZE - 4096 = va" by (simp add: PAGE_SIZE_def)
  have one: "mappages k' p va PAGE_SIZE pa perm = mappages_loop k' p va va pa perm" for k'
    using b(1,2) sz(2) last by (simp add: mappages_def Let_def)
  have root: "table (mem k) p (take (2 - 2) (vpath va)) = Some p" by simp
  obtain pte k1 qs where w: "walk k p va True = Ret (pte, k1)" "grows {p} k ps k1 qs"
    and res: "pte = 0 \<and> qs = [] \<and> length ps < 2 \<or> (\<exists>t. table (mem k1) p (vpath va) = Some t \<and> pte = entry t (VPN_L 0 va))"
    by (rule walk_alloc [OF inv singletonI va(2)])
  have "walk_levels 2 k p va True = (pte, k1)" using walk_Ret [OF w(1)] by (elim conjE) (rule sym)
  then have "walk_levels 2 (self_link p k) p va True = (pte, self_link p k1)"
    using walk_levels_link [OF order_refl inv root va(3)] by (simp only: fst_conv snd_conv)
  then have w': "walk (self_link p k) p va True = Ret (pte, self_link p k1)"
    using va(2) unfolding walk_def not_le by (simp only: if_not_P not_less_iff_gr_or_eq simp_thms if_False not_less [symmetric])
  show ?thesis
  proof (cases "pte = 0")
    case True
    then show ?thesis using w(1) w' by (simp add: one mappages_loop.simps [of _ p va va])
  next
    case False
    then obtain t where t: "table (mem k1) p (vpath va) = Some t" and pte: "pte = entry t (VPN_L 0 va)" using res by blast
    have inv1: "pt_inv k1 {p} qs" using w(2) by (simp add: grows_def extends_def)
    note p = pt_root [OF inv] and page = pt_invD [OF inv1 _ vpath_paths t]
    have ok: "tables_ok (mem k1) {p} qs" using inv1 by (simp add: pt_inv_def)
    have "t \<noteq> p" using tables_ok_inject [OF ok _ _ vpath_paths, of p p "[]" va t] t by (auto simp: paths_def vpath_def)
    then have ld: "load64 (mem (self_link p k1)) pte = load64 (mem k1) pte" and addr: "pte \<noteq> entry p self_slot"
      using link_load [OF p(2) page(3) _ VPN_L_less] entry_inject [OF page(3) p(2) VPN_L_less VPN_L_less] pte by auto
    have "self_link p k1\<lparr>mem := store64 (mem (self_link p k1)) pte v\<rparr> = self_link p (k1\<lparr>mem := store64 (mem k1) pte v\<rparr>)" for v
      using addr page(3) p(2) store64_commute [of "entry p self_slot" pte] by (simp add: self_link_def pte VPN_L_less)
    then show ?thesis using w(1) w' ld False by (simp add: one mappages_loop.simps [of _ p va va])
  qed
qed

end
