(* ===== verification/LoadIcode.thy ===== *)
theory LoadIcode
  imports UserSpace
begin

text \<open>
  Loading a program into an address space (kern/env.c: \<open>load_icode_mapper\<close>, \<open>load_icode\<close>, with lib/elfloader.c). A
  request for a page takes a free page, fills it and maps it; \<open>loaded\<close> says what a list of requests has done, and the
  lists of all segments of a program are put together by \<open>loaded_append\<close>. \<open>program_space\<close> is what comes out of it, byte by
  byte: the segments of the file in place, zeros behind them, and what was mapped before everywhere else.
\<close>

section \<open>Where the tables of a program lie\<close>

definition user_paths :: "u64 list set" where "user_paths = table_paths {0, 1, 2, 254}"

lemma user_paths_card: "finite user_paths" "card user_paths \<le> 2053"
proof -
  have "card {0 :: u64, 1, 2, 254} = 4" by simp
  then show "finite user_paths" "card user_paths \<le> 2053"
    using table_paths_card [of "{0, 1, 2, 254}"] unfolding user_paths_def by simp_all
qed

lemma kernel_paths_user: "kernel_paths \<subseteq> user_paths"
  unfolding kernel_paths_def user_paths_def table_paths_def by auto

lemma reach_mono: "reach S m r \<Longrightarrow> S \<subseteq> T \<Longrightarrow> reach T m r"
  by (auto simp: reach_def)

lemma user_va:
  assumes "va < 0x80000000"
  shows "[VPN_L 2 va] \<in> user_paths" and "vpath va \<in> user_paths" and "VPN_L 2 va \<noteq> self_slot" and "va < MAXVA"
proof -
  have "unat va div 1073741824 < 2" using assms by (simp add: word_less_nat_alt)
  then have "unat (VPN_L 2 va) < 2" by (simp add: unat_VPN_L VPN_SHIFT_def)
  then have v: "VPN_L 2 va = 0 \<or> VPN_L 2 va = 1" by (auto simp: less_2_cases_iff word_unat_eq_iff)
  then show "[VPN_L 2 va] \<in> user_paths" "vpath va \<in> user_paths"
    using VPN_L_less [of 1 va] by (auto simp: user_paths_def table_paths_def vpath_def)
  show "VPN_L 2 va \<noteq> self_slot" using v by (auto simp: self_slot)
  show "va < MAXVA" using assms by (simp add: MAXVA_eq word_less_nat_alt)
qed

section \<open>Pages of a program\<close>

text \<open>Memory that no page of the allocator contains: there the kernel and the embedded programs lie.\<close>

definition kernel_image :: "u64 \<Rightarrow> nat \<Rightarrow> bool" where
  "kernel_image a n \<longleftrightarrow> (\<forall>j<n. a + word_of_nat j < KERNEND)"

text \<open>A page to be loaded: its address, permissions, source and length.\<close>

type_synonym page_req = "u64 \<times> u32 \<times> u64 \<times> u64"

definition page_byte :: "mem \<Rightarrow> u64 \<Rightarrow> u64 \<Rightarrow> nat \<Rightarrow> u8" where
  "page_byte m src len j = (if src \<noteq> 0 \<and> j < unat len then m (src + word_of_nat j) else 0)"

definition req_ok :: "page_req \<Rightarrow> bool" where
  "req_ok r = (case r of (va, perm, src, len) \<Rightarrow>
     page_aligned va \<and> va < 0x80000000 \<and> (src \<noteq> 0 \<longrightarrow> unat len \<le> 4096 \<and> kernel_image src (unat len)))"

definition req_perm :: "page_req list \<Rightarrow> u64 \<Rightarrow> u32 option" where
  "req_perm rs = map_of (map (\<lambda>(va, perm, src, len). (va, perm)) rs)"

text \<open>\<open>loaded p k ps rs f k' qs\<close>: from \<open>k\<close> to \<open>k'\<close> every page of \<open>rs\<close> has got a physical page \<open>f va\<close> of its own, with
  the bytes it is to have; nothing else has been mapped below \<open>p\<close>, and only tables and free pages have been written to.\<close>

definition loaded :: "u64 \<Rightarrow> kmem \<Rightarrow> u64 list \<Rightarrow> page_req list \<Rightarrow> (u64 \<Rightarrow> u64) \<Rightarrow> kmem \<Rightarrow> u64 list \<Rightarrow> bool" where
  "loaded p k ps rs f k' qs \<longleftrightarrow>
     set qs \<subseteq> set ps \<and> nodes (mem k') {p} \<subseteq> nodes (mem k) {p} \<union> set ps \<and>
     (\<forall>vb. page_aligned vb \<longrightarrow> vb < MAXVA \<longrightarrow> translate (mem k') p vb =
        (case req_perm rs vb of Some perm \<Rightarrow> Some (leaf_pte (f vb) perm) | None \<Rightarrow> translate (mem k) p vb)) \<and>
     (\<forall>va\<in>fst ` set rs. f va \<in> set ps \<and> f va \<notin> set qs \<and> f va \<notin> nodes (mem k') {p}) \<and> inj_on f (fst ` set rs) \<and>
     (\<forall>va perm src len. (va, perm, src, len) \<in> set rs \<longrightarrow>
        (\<forall>j<4096. mem k' (f va + word_of_nat j) = page_byte (mem k) src len j)) \<and>
     (\<forall>x. (\<forall>q\<in>nodes (mem k) {p} \<union> set ps. \<not> in_block x q 4096) \<longrightarrow> mem k' x = mem k x)"

lemma req_perm_None: "req_perm rs va = None \<longleftrightarrow> va \<notin> fst ` set rs"
  by (auto simp: req_perm_def map_of_eq_None_iff split_def image_image)

lemma kernel_image_out: "kernel_image a n \<Longrightarrow> j < n \<Longrightarrow> ram_page q \<Longrightarrow> \<not> in_block (a + word_of_nat j) q 4096"
proof
  assume a: "kernel_image a n" "j < n" and q: "ram_page q" "in_block (a + word_of_nat j) q 4096"
  have "unat q + 4096 \<le> 2 ^ 64" using ram_pageD(3) [OF q(1)] by simp
  then have "q \<le> a + word_of_nat j" using in_block_range [of q 4096 "a + word_of_nat j"] q(2) by (simp add: word_le_nat_alt)
  moreover have "KERNEND \<le> q" using q(1) by (simp add: ram_page_def)
  ultimately show False using a by (fastforce simp: kernel_image_def)
qed

lemma pt_pages: "pt_inv k {p} ps \<Longrightarrow> q \<in> nodes (mem k) {p} \<union> set ps \<Longrightarrow> ram_page q"
  by (auto simp: pt_inv_def tables_ok_def kmem_inv_def)

lemma loaded_nil: "loaded p k ps [] f k ps"
  by (simp add: loaded_def req_perm_def)

lemma loaded_append:
  assumes 1: "loaded p k ps rs f k1 ps1" and 2: "loaded p k1 ps1 us g k2 ps2" and inv: "pt_inv k {p} ps"
    and rs: "distinct (map fst (rs @ us))" "\<forall>r\<in>set us. req_ok r"
  shows "loaded p k ps (rs @ us) (\<lambda>va. if va \<in> fst ` set rs then f va else g va) k2 ps2"
proof -
  let ?A = "nodes (mem k) {p} \<union> set ps" and ?B = "nodes (mem k1) {p} \<union> set ps1"
  let ?h = "\<lambda>va. if va \<in> fst ` set rs then f va else g va"
  have sub: "?B \<subseteq> ?A" "set ps2 \<subseteq> set ps1" "nodes (mem k2) {p} \<subseteq> ?B" using 1 2 by (auto simp: loaded_def)
  have s1: "set ps1 \<subseteq> set ps" using 1 by (simp add: loaded_def)
  have apart: "va \<notin> fst ` set rs" if "va \<in> fst ` set us" for va using rs(1) that by auto
  have f: "f va \<in> set ps" "f va \<notin> ?B" if "va \<in> fst ` set rs" for va using 1 that by (auto simp: loaded_def)
  have apart_page: "\<not> in_block x q 4096" if "va \<in> fst ` set rs" "in_block x (f va) 4096" "q \<in> ?B" for va x q
  proof
    assume "in_block x q 4096"
    moreover have "ram_page q" "ram_page (f va)" using pt_pages [OF inv] that(3) sub(1) f(1) [OF that(1)] by blast+
    ultimately have "q = f va" using page_disjoint [of q "f va" x] that(2) ram_pageD(1) by blast
    then show False using that(3) f(2) [OF that(1)] by simp
  qed
  have g: "g va \<in> set ps1" "g va \<notin> set ps2" "g va \<notin> nodes (mem k2) {p}" if "va \<in> fst ` set us" for va
    using 2 that by (auto simp: loaded_def)
  show ?thesis
    unfolding loaded_def
  proof (intro conjI allI impI ballI)
    show "set ps2 \<subseteq> set ps" "nodes (mem k2) {p} \<subseteq> ?A" using sub 1 by (auto simp: loaded_def)
    fix vb assume vb: "page_aligned vb" "vb < MAXVA"
    have t1: "translate (mem k1) p vb = (case req_perm rs vb of Some perm \<Rightarrow> Some (leaf_pte (f vb) perm) | None \<Rightarrow> translate (mem k) p vb)"
      and t2: "translate (mem k2) p vb = (case req_perm us vb of Some perm \<Rightarrow> Some (leaf_pte (g vb) perm) | None \<Rightarrow> translate (mem k1) p vb)"
      using 1 2 vb by (simp_all add: loaded_def)
    have app: "req_perm (rs @ us) vb = (case req_perm rs vb of Some perm \<Rightarrow> Some perm | None \<Rightarrow> req_perm us vb)"
      by (simp add: req_perm_def map_add_def map_add_Some_iff split: option.splits)
    show "translate (mem k2) p vb = (case req_perm (rs @ us) vb of Some perm \<Rightarrow> Some (leaf_pte (?h vb) perm) | None \<Rightarrow> translate (mem k) p vb)"
    proof (cases "req_perm rs vb")
      case None
      then show ?thesis using t1 t2 app req_perm_None [of rs vb] by (simp split: option.splits)
    next
      case (Some perm)
      then have "vb \<in> fst ` set rs" using req_perm_None [of rs vb] by auto
      moreover from this have "req_perm us vb = None" unfolding req_perm_None using apart by blast
      ultimately show ?thesis using Some t1 t2 app by simp
    qed
  next
    fix va assume "va \<in> fst ` set (rs @ us)"
    then consider "va \<in> fst ` set rs" | "va \<in> fst ` set us" "va \<notin> fst ` set rs" by fastforce
    then have "?h va \<in> set ps \<and> ?h va \<notin> set ps2 \<and> ?h va \<notin> nodes (mem k2) {p}"
      by cases (use f [of va] g [of va] sub s1 in \<open>simp_all, blast+\<close>)
    then show "?h va \<in> set ps" "?h va \<notin> set ps2" "?h va \<notin> nodes (mem k2) {p}" by simp_all
  next
    have inj: "inj_on f (fst ` set rs)" "inj_on g (fst ` set us)" using 1 2 by (simp_all add: loaded_def)
    have mix: "f a \<noteq> g b" if "a \<in> fst ` set rs" "b \<in> fst ` set us" for a b using f [OF that(1)] g [OF that(2)] by auto
    show "inj_on ?h (fst ` set (rs @ us))"
    proof (rule inj_onI)
      fix a b assume "a \<in> fst ` set (rs @ us)" "b \<in> fst ` set (rs @ us)" and eq: "?h a = ?h b"
      then have "a \<in> fst ` set rs \<or> a \<in> fst ` set us" "b \<in> fst ` set rs \<or> b \<in> fst ` set us"
        by (simp_all only: set_append image_Un Un_iff)
      then show "a = b"
        using eq inj mix [of a b] mix [of b a] inj_onD [OF inj(1), of a b] inj_onD [OF inj(2), of a b]
        by (cases "a \<in> fst ` set rs"; cases "b \<in> fst ` set rs") (simp_all only: if_P if_not_P simp_thms, auto)
    qed
  next
    fix va perm src len j assume r: "(va, perm, src, len) \<in> set (rs @ us)" and j: "j < (4096 :: nat)"
    show "mem k2 (?h va + word_of_nat j) = page_byte (mem k) src len j"
    proof (cases "(va, perm, src, len) \<in> set rs")
      case True
      then have va: "va \<in> fst ` set rs" by force
      have "in_block (f va + word_of_nat j) (f va) 4096" using j by (auto simp: in_block_iff_offset)
      then have "\<forall>q\<in>?B. \<not> in_block (f va + word_of_nat j) q 4096"
        using apart_page [of va] va by blast
      then have "mem k2 (f va + word_of_nat j) = mem k1 (f va + word_of_nat j)" using 2 by (simp add: loaded_def)
      then show ?thesis using True va 1 j by (simp add: loaded_def)
    next
      case False
      then have u: "(va, perm, src, len) \<in> set us" using r by simp
      then have va: "va \<in> fst ` set us" by force
      have "mem k1 (src + word_of_nat i) = mem k (src + word_of_nat i)" if "src \<noteq> 0" "i < unat len" for i
      proof -
        have "kernel_image src (unat len)" using rs(2) u that(1) by (auto simp: req_ok_def)
        then have "\<forall>q\<in>?A. \<not> in_block (src + word_of_nat i) q 4096"
          using kernel_image_out [OF _ that(2)] pt_pages [OF inv] by blast
        then show ?thesis using 1 by (simp add: loaded_def)
      qed
      then have "page_byte (mem k1) src len j = page_byte (mem k) src len j" by (simp add: page_byte_def)
      then show ?thesis using apart [OF va] 2 u j by (simp add: loaded_def)
    qed
  next
    fix x assume x: "\<forall>q\<in>?A. \<not> in_block x q 4096"
    then have "\<forall>q\<in>?B. \<not> in_block x q 4096" using sub(1) by blast
    then have "mem k2 x = mem k1 x" "mem k1 x = mem k x" using 1 2 x by (simp_all add: loaded_def)
    then show "mem k2 x = mem k x" by simp
  qed
qed

lemma copied_link:
  assumes p: "page_aligned p" and pg: "page_aligned pg" "pg \<noteq> p" and n: "n \<le> 4096"
    and src: "\<And>j. j < n \<Longrightarrow> \<not> in_block (src + word_of_nat j) p 4096"
  shows "copied (mem (self_link p k)) pg src n = mem (self_link p (k\<lparr>mem := copied (mem k) pg src n\<rparr>))"
proof
  fix x
  show "copied (mem (self_link p k)) pg src n x = mem (self_link p (k\<lparr>mem := copied (mem k) pg src n\<rparr>)) x"
  proof (cases "in_block x pg n")
    case True
    then obtain j where j: "j < n" "x = pg + word_of_nat j" using in_block_iff_offset [of n x pg] n by auto
    then have "in_block x pg 4096" using True n by (simp add: in_block_def)
    then have "\<not> in_block x p 4096" using page_disjoint [OF pg(1) p] pg(2) by blast
    then have "mem (self_link p (k\<lparr>mem := copied (mem k) pg src n\<rparr>)) x = copied (mem k) pg src n x"
      using link_other [OF p] by simp
    then show ?thesis using True j link_other [OF p src [OF j(1)]] by (simp add: copied_def)
  next
    case False
    then show ?thesis by (simp add: copied_def self_link_def store64_at)
  qed
qed

text \<open>A page out of the free list that is given its bytes.\<close>

lemma mapper_data:
  assumes inv: "pt_inv k {p} (pg # ps)" and src: "src \<noteq> 0 \<longrightarrow> unat len \<le> 4096 \<and> kernel_image src (unat len)"
  obtains k1 where "(let (pa, k) = kalloc (self_link p k) in
      if src \<noteq> 0 \<and> pa = 0 \<and> len \<noteq> 0 then Fault ''store through a null pointer''
      else (let k = (if src \<noteq> 0 then k\<lparr>mem := fst (memcpy (mem k) (pa + 0) src len)\<rparr> else k) in Ret (pa, k))) =
      Ret (pg, self_link p k1)"
    "pt_inv k1 {p} ps" "nodes (mem k1) {p} = nodes (mem k) {p}"
    "\<And>va. translate (mem k1) p va = translate (mem k) p va"
    "\<And>P. P \<in> paths 2 \<Longrightarrow> table (mem k1) p P = table (mem k) p P"
    "\<And>j. j < 4096 \<Longrightarrow> mem k1 (pg + word_of_nat j) = page_byte (mem k) src len j"
    "\<And>x. \<not> in_block x pg 4096 \<Longrightarrow> mem k1 x = mem k x"
proof -
  have kinv: "kmem_inv k (pg # ps)" and ok: "tables_ok (mem k) {p} (pg # ps)" using inv by (simp_all add: pt_inv_def)
  note p = pt_root [OF inv]
  have pg: "ram_page pg" "pg \<notin> set ps" "pg \<notin> nodes (mem k) {p}" using kinv ok by (auto simp: kmem_inv_def tables_ok_def)
  note page = ram_pageD [OF pg(1)]
  have ne: "pg \<noteq> p" using p(3) by auto
  obtain k0 where k0: "kalloc k = (pg, k0)" "kmem_inv k0 ps" "mem k0 = filled (mem k) pg 0 4096"
    using pages.alloc_page [OF kinv] by blast
  have al: "kalloc (self_link p k) = (pg, self_link p k0)" using kalloc_link [OF inv] k0(1) by simp
  let ?n = "if src = 0 then 0 else unat len"
  let ?k1 = "k0\<lparr>mem := copied (mem k0) pg src ?n\<rparr>"
  have n: "?n \<le> 4096" and img: "kernel_image src ?n" using src by (auto simp: kernel_image_def)
  have out: "\<not> in_block (src + word_of_nat j) q 4096" if "j < ?n" "ram_page q" for j q
    by (rule kernel_image_out [OF img that])
  have frame: "mem ?k1 x = mem k x" if "\<not> in_block x pg 4096" for x
  proof -
    have "\<not> in_block x pg ?n" using that n by (simp add: in_block_def)
    then show ?thesis using that k0(3) by (simp add: copied_def filled_def)
  qed
  have "kmem_inv (k0\<lparr>mem := mem ?k1\<rparr>) ps"
    by (rule kmem_inv_frame [OF k0(2) _ page(1) pg(2)]) (rule trans [OF frame], simp_all add: k0(3) filled_def)
  then have kinv1: "kmem_inv ?k1 ps" by simp
  have copy: "fst (memcpy (mem (self_link p k0)) (pg + 0) src len) = mem (self_link p ?k1)" if nz: "src \<noteq> 0"
  proof -
    have "unat pg + unat len < 2 ^ 64" using page(3) src that by simp
    moreover have "\<not> in_block pg src (unat len)"
    proof
      assume "in_block pg src (unat len)"
      then obtain j where "j < ?n" "pg = src + word_of_nat j"
        using in_block_iff_offset [of "unat len" pg src] src nz by auto
      then show False using out [OF _ pg(1), of j] page_first_byte [of pg] by simp
    qed
    then have "forward_safe pg src (unat len)" by (simp add: forward_safe_def)
    ultimately have "fst (memcpy (mem (self_link p k0)) pg src len) = copied (mem (self_link p k0)) pg src ?n"
      using memcpy_copied that by simp
    also have "\<dots> = mem (self_link p ?k1)" using copied_link [OF p(2) page(1) ne n out] p(1) by blast
    finally show ?thesis by simp
  qed
  have same: "untouched k (nodes (mem k) {p}) ?k1"
    unfolding untouched_def
  proof (intro ballI allI impI)
    fix t x assume t: "t \<in> nodes (mem k) {p}" "in_block x t 4096"
    then have "ram_page t" using pt_pages [OF inv] by blast
    then show "mem ?k1 x = mem k x" using frame page_disjoint [of t pg x] t pg(3) ram_pageD(1) page(1) by blast
  qed
  note stay = tables_stay [OF inv same kinv1]
  have sub: "set ps \<subseteq> set (pg # ps)" by auto
  have al': "page_aligned t" if "t \<in> nodes (mem k) {p}" for t using pt_pages [OF inv] that ram_pageD(1) by blast
  have tab: "table (mem ?k1) p P = table (mem k) p P" if "P \<in> paths 2" for P
    using tables_same(1) [where m = "mem k" and m' = "mem ?k1" and R = "{p}", OF al' _ _ that] same by (simp add: untouched_def)
  have bytes: "mem ?k1 (pg + word_of_nat j) = page_byte (mem k) src len j" if "j < 4096" for j
  proof -
    have j: "in_block (pg + word_of_nat j) pg i \<longleftrightarrow> j < i" if "i \<le> 4096" for i
      using \<open>j < 4096\<close> that page(3) unat_add_nat [of pg j] by (auto simp: in_block_range)
    have "mem k0 (src + word_of_nat j) = mem k (src + word_of_nat j)" if "j < ?n"
      using out [OF that pg(1)] k0(3) by (simp add: filled_def)
    then show ?thesis using j [OF n] j [OF order_refl] that k0(3) by (auto simp: copied_def page_byte_def filled_def)
  qed
  have "(let (pa, k) = kalloc (self_link p k) in
      if src \<noteq> 0 \<and> pa = 0 \<and> len \<noteq> 0 then Fault ''store through a null pointer''
      else (let k = (if src \<noteq> 0 then k\<lparr>mem := fst (memcpy (mem k) (pa + 0) src len)\<rparr> else k) in Ret (pa, k))) =
      Ret (pg, self_link p ?k1)"
  proof (cases "src = 0")
    case True
    then show ?thesis by (simp add: al)
  next
    case False
    have "self_link p k0\<lparr>mem := mem (self_link p ?k1)\<rparr> = self_link p ?k1" by (simp add: self_link_def)
    then show ?thesis using False copy page(2) by (simp add: al)
  qed
  then show thesis
    using that [of ?k1] stay(1,2) [OF sub] stay(4) [OF sub] tab bytes frame by blast
qed

lemma mapper_page:
  assumes inv: "counted user_paths p (Suc n) k ps" "2053 < n" and ok: "req_ok (va, perm, src, len)"
    and free: "translate (mem k) p va = None"
  obtains k' pg qs where "load_icode_mapper p (self_link p k) va 0 perm src len = Ret (0, self_link p k')"
    "counted user_paths p n k' qs" "loaded p k ps [(va, perm, src, len)] (\<lambda>_. pg) k' qs"
proof -
  have pt: "pt_inv k {p} ps" and reach: "reach user_paths (mem k) p" and n: "card (nodes (mem k) {p}) + length ps = Suc n"
    using inv(1) by (simp_all add: counted_def)
  have "length ps \<noteq> 0" using n inv(2) reach_nodes(2) [OF reach user_paths_card(1)] user_paths_card(2) by linarith
  then obtain pg ps1 where ps: "ps = pg # ps1" by (cases ps) auto
  have va: "page_aligned va" "va < 0x80000000" and src: "src \<noteq> 0 \<longrightarrow> unat len \<le> 4096 \<and> kernel_image src (unat len)"
    using ok by (simp_all add: req_ok_def)
  note uv = user_va [OF va(2)]
  obtain k1 where k1: "(let (pa, k) = kalloc (self_link p k) in
      if src \<noteq> 0 \<and> pa = 0 \<and> len \<noteq> 0 then Fault ''store through a null pointer''
      else (let k = (if src \<noteq> 0 then k\<lparr>mem := fst (memcpy (mem k) (pa + 0) src len)\<rparr> else k) in Ret (pa, k))) =
      Ret (pg, self_link p k1)"
    and pt1: "pt_inv k1 {p} ps1" and nodes1: "nodes (mem k1) {p} = nodes (mem k) {p}"
    and tr1: "\<And>va. translate (mem k1) p va = translate (mem k) p va"
    and tab1: "\<And>P. P \<in> paths 2 \<Longrightarrow> table (mem k1) p P = table (mem k) p P"
    and bytes: "\<And>j. j < 4096 \<Longrightarrow> mem k1 (pg + word_of_nat j) = page_byte (mem k) src len j"
    and frame: "\<And>x. \<not> in_block x pg 4096 \<Longrightarrow> mem k1 x = mem k x"
    using mapper_data [OF pt [unfolded ps] src] by blast
  have start: "counted user_paths p n k1 ps1"
    using pt1 reach tab1 n ps nodes1 by (simp add: counted_def reach_def)
  have small: "card user_paths < n" using user_paths_card(2) inv(2) by simp
  have free1: "translate (mem k1) p va = None" using free tr1 by simp
  obtain k' qs where k': "mappages k1 p va PAGE_SIZE pg perm = Ret (0, k')" "counted user_paths p n k' qs"
    "extends {p} k1 ps1 k' qs"
    "\<And>vb. page_aligned vb \<Longrightarrow> vb < MAXVA \<Longrightarrow>
      translate (mem k') p vb = (if vb = va then Some (leaf_pte pg perm) else translate (mem k1) p vb)"
    using mappages_counted [OF start user_paths_card(1) small va(1) uv(4,1,2) free1] by blast
  have "load_icode_mapper p (self_link p k) va 0 perm src len =
      andThen (Ret (pg, self_link p k1)) (\<lambda>(pa, k). mappages k p va PAGE_SIZE pa perm)"
    unfolding k1 [symmetric] load_icode_mapper_def by (simp add: Let_def split_beta)
  then have run: "load_icode_mapper p (self_link p k) va 0 perm src len = Ret (0, self_link p k')"
    using mappages_link [OF pt1 va(1) uv(4,3)] k'(1) by simp
  have pg: "ram_page pg" "pg \<notin> set ps1" "pg \<notin> nodes (mem k) {p}"
    using pt ps by (auto simp: pt_inv_def kmem_inv_def tables_ok_def)
  have sub: "set qs \<subseteq> set ps1" "nodes (mem k') {p} \<subseteq> nodes (mem k) {p} \<union> set ps1"
    using k'(3) nodes1 by (auto simp: extends_def)
  have out: "mem k' x = mem k1 x" if "\<forall>q\<in>nodes (mem k) {p} \<union> set ps1. \<not> in_block x q 4096" for x
    using that k'(3) nodes1 by (simp add: extends_def)
  have "loaded p k ps [(va, perm, src, len)] (\<lambda>_. pg) k' qs"
    unfolding loaded_def
  proof (intro conjI allI impI ballI)
    show "set qs \<subseteq> set ps" "nodes (mem k') {p} \<subseteq> nodes (mem k) {p} \<union> set ps" using sub ps by auto
    fix vb assume "page_aligned vb" "vb < MAXVA"
    then show "translate (mem k') p vb = (case req_perm [(va, perm, src, len)] vb of
        Some perm \<Rightarrow> Some (leaf_pte pg perm) | None \<Rightarrow> translate (mem k) p vb)"
      using k'(4) tr1 by (simp add: req_perm_def)
  next
    fix v assume "v \<in> fst ` set [(va, perm, src, len)]"
    show "pg \<in> set ps" "pg \<notin> set qs" "pg \<notin> nodes (mem k') {p}" using ps pg(2,3) sub by auto
  next
    fix v perm' s l j assume r: "(v, perm', s, l) \<in> set [(va, perm, src, len)]" and j: "j < (4096 :: nat)"
    have x: "in_block (pg + word_of_nat j) pg 4096" using j by (auto simp: in_block_iff_offset)
    have "\<not> in_block (pg + word_of_nat j) q 4096" if "q \<in> nodes (mem k) {p} \<union> set ps1" for q
    proof -
      have "ram_page q" "q \<noteq> pg" using pt_pages [OF pt] that ps pg(2,3) by auto
      then show ?thesis using page_disjoint [of q pg] x pg(1) ram_pageD(1) by blast
    qed
    then show "mem k' (pg + word_of_nat j) = page_byte (mem k) s l j" using out bytes [OF j] r by simp
  next
    fix x assume x: "\<forall>q\<in>nodes (mem k) {p} \<union> set ps. \<not> in_block x q 4096"
    then show "mem k' x = mem k x" using out [of x] frame [of x] ps by simp
  qed simp
  then show thesis using that run k'(2) by blast
qed

text \<open>A list of requests, each with the permissions of the segment.\<close>

definition with_perm :: "u32 \<Rightarrow> request list \<Rightarrow> page_req list" where
  "with_perm perm rs = map (\<lambda>(va, off, src, len). (va, perm, src, len)) rs"

lemma with_perm_simps [simp]:
  "with_perm perm [] = []" "with_perm perm ((va, off, src, len) # rs) = (va, perm, src, len) # with_perm perm rs"
  "map fst (with_perm perm rs) = map fst rs"
  by (simp_all add: with_perm_def split_def)

lemma mapper_requests:
  "counted user_paths p n k ps \<Longrightarrow> 2053 + length rs < n \<Longrightarrow> distinct (map fst rs) \<Longrightarrow>
   \<forall>(va, off, src, len)\<in>set rs. off = 0 \<and> req_ok (va, perm, src, len) \<and> translate (mem k) p va = None \<Longrightarrow>
   \<exists>k' qs f. mapM_requests (load_icode_mapper p) perm rs (self_link p k) = Ret (0, self_link p k') \<and>
     counted user_paths p (n - length rs) k' qs \<and>
     loaded p k ps (with_perm perm rs) f k' qs"
proof (induction rs arbitrary: n k ps)
  case Nil
  then have "mapM_requests (load_icode_mapper p) perm [] (self_link p k) = Ret (0, self_link p k) \<and>
      counted user_paths p (n - length []) k ps \<and> loaded p k ps (with_perm perm []) id k ps"
    by (simp add: loaded_nil)
  then show ?case by blast
next
  case (Cons r rs)
  obtain va off src len where r: "r = (va, off, src, len)" by (cases r)
  have first: "off = 0" "req_ok (va, perm, src, len)" "translate (mem k) p va = None" using Cons.prems(4) r by auto
  have pt: "pt_inv k {p} ps" using Cons.prems(1) by (simp add: counted_def)
  have start: "counted user_paths p (Suc (n - 1)) k ps" "2053 < n - 1" using Cons.prems(1,2) by simp_all
  obtain k1 pg ps1 where k1: "load_icode_mapper p (self_link p k) va 0 perm src len = Ret (0, self_link p k1)"
    "counted user_paths p (n - 1) k1 ps1" "loaded p k ps [(va, perm, src, len)] (\<lambda>_. pg) k1 ps1"
    using mapper_page [OF start first(2,3)] by blast
  have free: "\<forall>(va, off, src, len)\<in>set rs. off = 0 \<and> req_ok (va, perm, src, len) \<and> translate (mem k1) p va = None"
  proof (clarify, intro conjI)
    fix va' off' src' len' assume r': "(va', off', src', len') \<in> set rs"
    then show "off' = 0" and ok: "req_ok (va', perm, src', len')" using Cons.prems(4) by auto
    have "page_aligned va'" "va' < MAXVA" using ok user_va(4) by (auto simp: req_ok_def)
    moreover have "va' \<noteq> va" using r' Cons.prems(3) r by force
    moreover have "translate (mem k) p va' = None" using r' Cons.prems(4) by auto
    ultimately show "translate (mem k1) p va' = None" using k1(3) by (simp add: loaded_def req_perm_def)
  qed
  have room: "2053 + length rs < n - 1" "distinct (map fst rs)" using Cons.prems(2,3) by simp_all
  obtain k' qs f where k': "mapM_requests (load_icode_mapper p) perm rs (self_link p k1) = Ret (0, self_link p k')"
    "counted user_paths p (n - 1 - length rs) k' qs" "loaded p k1 ps1 (with_perm perm rs) f k' qs"
    using Cons.IH [OF k1(2) room free] by blast
  have "distinct (map fst ([(va, perm, src, len)] @ with_perm perm rs))"
    using Cons.prems(3) by (simp add: r)
  moreover have "\<forall>u\<in>set (with_perm perm rs). req_ok u" using Cons.prems(4) by (auto simp: with_perm_def)
  ultimately have "loaded p k ps ([(va, perm, src, len)] @ with_perm perm rs)
      (\<lambda>v. if v \<in> fst ` set [(va, perm, src, len)] then pg else f v) k' qs"
    by (rule loaded_append [OF k1(3) k'(3) pt])
  moreover have "[(va, perm, src, len)] @ with_perm perm rs = with_perm perm (r # rs)" by (simp add: r)
  moreover have "mapM_requests (load_icode_mapper p) perm (r # rs) (self_link p k) = Ret (0, self_link p k')"
    using k1(1) k'(1) by (simp add: r first(1))
  moreover have "counted user_paths p (n - length (r # rs)) k' qs" using k'(2) by simp
  ultimately show ?case by auto
qed

section \<open>Program headers\<close>

text \<open>The headers a program has in memory, and the pages its segments ask for.\<close>

definition phdr_of :: "mem \<Rightarrow> u64 \<Rightarrow> nat \<Rightarrow> elf64_phdr" where
  "phdr_of m binary i = (let ehdr = load_ehdr m binary in
     load_phdr m (binary + (e_phoff ehdr + word_of_nat i * ucast (e_phentsize ehdr))))"

definition phdr_reqs :: "mem \<Rightarrow> u64 \<Rightarrow> nat \<Rightarrow> page_req list" where
  "phdr_reqs m binary i = (let ph = phdr_of m binary i in
     if p_type ph = PT_LOAD then with_perm (seg_perm ph) (seg_requests ph (binary + p_offset ph)) else [])"

definition program_reqs :: "mem \<Rightarrow> u64 \<Rightarrow> nat \<Rightarrow> page_req list" where
  "program_reqs m binary i = concat (map (phdr_reqs m binary) [i..<unat (e_phnum (load_ehdr m binary))])"

text \<open>A segment that starts on a page boundary, lies in the lower half and has its bytes in the file.\<close>

definition seg_ok :: "u64 \<Rightarrow> elf64_phdr \<Rightarrow> bool" where
  "seg_ok size' ph \<longleftrightarrow> page_aligned (p_vaddr ph) \<and> p_filesz ph \<le> p_memsz ph \<and>
     unat (p_vaddr ph) + unat (p_memsz ph) \<le> 0x80000000 \<and> unat (p_offset ph) + unat (p_filesz ph) \<le> unat size'"

definition program_ok :: "mem \<Rightarrow> u64 \<Rightarrow> u64 \<Rightarrow> bool" where
  "program_ok m binary size' \<longleftrightarrow> elf_from m binary size' = binary \<and> binary \<noteq> 0 \<and>
     unat binary + unat size' \<le> unat KERNEND \<and>
     (\<forall>i<unat (e_phnum (load_ehdr m binary)).
        unat (e_phoff (load_ehdr m binary)) + i * unat (e_phentsize (load_ehdr m binary)) + 56 \<le> unat size' \<and>
        (p_type (phdr_of m binary i) = PT_LOAD \<longrightarrow> seg_ok size' (phdr_of m binary i))) \<and>
     distinct (map fst (program_reqs m binary 0))"

lemma read_le_part:
  assumes "\<And>j. j < n \<Longrightarrow> m' (a + word_of_nat j) = m (a + word_of_nat j)" and "b = a + word_of_nat i" "i + l \<le> n"
  shows "read_le m' b l = read_le m b l"
proof (rule read_le_cong)
  fix j assume "j < l"
  then show "m' (b + word_of_nat j) = m (b + word_of_nat j)"
    using assms(1) [of "i + j"] assms(2,3) by (simp add: add.assoc)
qed

lemma load_ehdr_same:
  assumes same: "\<And>j. j < 64 \<Longrightarrow> m' (a + word_of_nat j) = m (a + word_of_nat j)"
  shows "load_ehdr m' a = load_ehdr m a"
proof -
  have part: "read_le m' (a + word_of_nat i) l = read_le m (a + word_of_nat i) l" if "i + l \<le> 64" for i l
    by (rule read_le_part [where m = m and m' = m' and a = a, OF same refl that])
  show ?thesis
    using part [of 16 2] part [of 18 2] part [of 20 4] part [of 24 8] part [of 32 8] part [of 40 8] part [of 48 4]
      part [of 52 2] part [of 54 2] part [of 56 2] part [of 58 2] part [of 60 2] part [of 62 2] same
    by (simp add: load_ehdr_def load16_def load32_def load64_def EI_NIDENT_def)
qed

lemma load_phdr_same:
  assumes same: "\<And>j. j < 56 \<Longrightarrow> m' (a + word_of_nat j) = m (a + word_of_nat j)"
  shows "load_phdr m' a = load_phdr m a"
proof -
  have part: "read_le m' (a + word_of_nat i) l = read_le m (a + word_of_nat i) l" if "i + l \<le> 56" for i l
    by (rule read_le_part [where m = m and m' = m' and a = a, OF same refl that])
  show ?thesis
    using part [of 0 4] part [of 4 4] part [of 8 8] part [of 16 8] part [of 24 8] part [of 32 8] part [of 40 8]
      part [of 48 8]
    by (simp add: load_phdr_def load32_def load64_def)
qed

text \<open>The image is the same in two memories.\<close>

definition same_image :: "mem \<Rightarrow> mem \<Rightarrow> u64 \<Rightarrow> u64 \<Rightarrow> bool" where
  "same_image m m' binary size' \<longleftrightarrow> (\<forall>j<unat size'. m' (binary + word_of_nat j) = m (binary + word_of_nat j))"

lemma same_image_headers:
  assumes ok: "program_ok m binary size'" and same: "same_image m m' binary size'"
  shows "load_ehdr m' binary = load_ehdr m binary"
    and "i < unat (e_phnum (load_ehdr m binary)) \<Longrightarrow> phdr_of m' binary i = phdr_of m binary i"
proof -
  let ?h = "load_ehdr m binary"
  have "sizeof_Elf64_Ehdr \<le> size'" using ok by (auto simp: program_ok_def elf_from_def Let_def split: if_splits)
  then have "64 \<le> unat size'" by (simp add: sizeof_Elf64_Ehdr_def word_le_nat_alt)
  then show eh: "load_ehdr m' binary = ?h"
    using same by (intro load_ehdr_same) (simp add: same_image_def)
  assume i: "i < unat (e_phnum ?h)"
  let ?n = "unat (e_phoff ?h) + i * unat (e_phentsize ?h)"
  have n: "?n + 56 \<le> unat size'" using ok i by (simp add: program_ok_def)
  have a: "binary + (e_phoff ?h + word_of_nat i * ucast (e_phentsize ?h)) = binary + word_of_nat ?n"
    by simp
  show "phdr_of m' binary i = phdr_of m binary i"
    unfolding phdr_of_def eh Let_def a
  proof (rule load_phdr_same)
    fix j assume "j < (56 :: nat)"
    then have "?n + j < unat size'" using n by simp
    then have "m' (binary + word_of_nat (?n + j)) = m (binary + word_of_nat (?n + j))"
      using same unfolding same_image_def by blast
    then show "m' (binary + word_of_nat ?n + word_of_nat j) = m (binary + word_of_nat ?n + word_of_nat j)"
      by (simp only: of_nat_add add.assoc)
  qed
qed

lemma seg_requests_ok:
  assumes seg: "seg_ok size' ph" and img: "binary \<noteq> 0" "unat binary + unat size' \<le> unat KERNEND"
    and r: "(va, off, src, len) \<in> set (seg_requests ph (binary + p_offset ph))"
  shows "off = 0 \<and> req_ok (va, perm, src, len)"
proof -
  let ?f = "unat (p_filesz ph)" and ?m = "unat (p_memsz ph)" and ?o = "unat (p_offset ph)" and ?b = "binary + p_offset ph"
  have s: "page_aligned (p_vaddr ph)" "p_filesz ph \<le> p_memsz ph" "unat (p_vaddr ph) + ?m \<le> 0x80000000" "?o + ?f \<le> unat size'"
    using seg by (simp_all add: seg_ok_def)
  have k: "unat KERNEND = 0x80400000" by (simp add: KERNEND_def)
  obtain i where i: "i < (?m + 4095) div 4096" and q: "(va, off, src, len) = (if 4096 * i < ?f
      then (p_vaddr ph + word_of_nat (4096 * i), 0, ?b + word_of_nat (4096 * i), word_of_nat (min (?f - 4096 * i) 4096))
      else (p_vaddr ph + word_of_nat (4096 * i), 0, 0, word_of_nat (min (?m - 4096 * i) 4096)))"
    using r unfolding seg_requests_aligned [OF s(1,2)] by auto
  have im: "4096 * i < ?m" using i by linarith
  have va: "va = p_vaddr ph + word_of_nat (4096 * i)" "off = 0" using q by (auto split: if_splits)
  have uva: "unat va = unat (p_vaddr ph) + 4096 * i" unfolding va using im s(3) by (intro unat_add_nat) simp
  have "page_aligned va" using s(1) uva by (simp add: page_aligned_def)
  moreover have "va < 0x80000000" using uva im s(3) by (simp add: word_less_nat_alt)
  moreover have "unat len \<le> 4096 \<and> kernel_image src (unat len)" if "src \<noteq> 0"
  proof -
    have fi: "4096 * i < ?f" using q that by (auto split: if_splits)
    then have src: "src = ?b + word_of_nat (4096 * i)" and len: "len = word_of_nat (min (?f - 4096 * i) 4096)"
      using q by simp_all
    have ul: "unat len = min (?f - 4096 * i) 4096" unfolding len by (simp add: unat_of_nat)
    have bin: "unat (binary + word_of_nat n) = unat binary + n" if "n \<le> unat size'" for n
      using img(2) k that by (intro unat_add_nat) simp
    have src': "src + word_of_nat j = binary + word_of_nat (?o + 4096 * i + j)" for j by (simp add: src add.assoc)
    have "src + word_of_nat j < KERNEND" if "j < unat len" for j
    proof -
      have "?o + 4096 * i + j < unat size'" using s(4) that fi unfolding ul min_less_iff_conj by linarith
      then show ?thesis unfolding src' using bin [of "?o + 4096 * i + j"] img(2) by (simp only: word_less_nat_alt)
    qed
    then show ?thesis using ul by (simp add: kernel_image_def)
  qed
  ultimately show ?thesis using va(2) by (simp add: req_ok_def)
qed

lemma load_segment:
  assumes seg: "seg_ok size' ph" and img: "binary \<noteq> 0" "unat binary + unat size' \<le> unat KERNEND"
    and inv: "counted user_paths p n k ps" "2053 + length (seg_requests ph (binary + p_offset ph)) < n"
    and new: "distinct (map fst (seg_requests ph (binary + p_offset ph)))"
      "\<forall>va\<in>fst ` set (seg_requests ph (binary + p_offset ph)). translate (mem k) p va = None"
  obtains k' qs f where "elf_load_seg ph (binary + p_offset ph) (load_icode_mapper p) (self_link p k) = Ret (0, self_link p k')"
    "counted user_paths p (n - length (seg_requests ph (binary + p_offset ph))) k' qs"
    "loaded p k ps (with_perm (seg_perm ph) (seg_requests ph (binary + p_offset ph))) f k' qs"
proof -
  let ?rs = "seg_requests ph (binary + p_offset ph)"
  have sz: "unat (p_memsz ph) \<le> 0x80000000" "unat (p_filesz ph) \<le> unat (p_memsz ph)"
    using seg by (simp_all add: seg_ok_def word_le_nat_alt)
  have "\<forall>(va, off, src, len)\<in>set ?rs. off = 0 \<and> req_ok (va, seg_perm ph, src, len) \<and> translate (mem k) p va = None"
    using seg_requests_ok [OF seg img] new(2) by fastforce
  then obtain k' qs f where "mapM_requests (load_icode_mapper p) (seg_perm ph) ?rs (self_link p k) = Ret (0, self_link p k')"
    "counted user_paths p (n - length ?rs) k' qs" "loaded p k ps (with_perm (seg_perm ph) ?rs) f k' qs"
    using mapper_requests [OF inv new(1)] by blast
  moreover have "elf_load_seg ph (binary + p_offset ph) (load_icode_mapper p) (self_link p k) =
      mapM_requests (load_icode_mapper p) (seg_perm ph) ?rs (self_link p k)"
    using sz by (intro elf_load_seg_requests) simp_all
  ultimately show thesis using that by simp
qed

lemma with_perm_length [simp]: "length (with_perm perm rs) = length rs"
  by (simp add: with_perm_def)

lemma image_in_kernel:
  assumes "unat binary + unat size' \<le> unat KERNEND"
  shows "kernel_image binary (unat size')"
proof -
  have k: "unat KERNEND = 0x80400000" by (simp add: KERNEND_def)
  have "unat (binary + word_of_nat i) = unat binary + i" if "i < unat size'" for i
    using assms k that by (intro unat_add_nat) simp
  then show ?thesis using assms by (simp add: kernel_image_def word_less_nat_alt)
qed

lemma loaded_same_image:
  assumes "loaded p k ps rs f k' qs" and "pt_inv k {p} ps" and "unat binary + unat size' \<le> unat KERNEND"
    and "same_image m (mem k) binary size'"
  shows "same_image m (mem k') binary size'"
  unfolding same_image_def
proof (intro allI impI)
  fix j assume j: "j < unat size'"
  have "kernel_image binary (unat size')" by (rule image_in_kernel [OF assms(3)])
  then have "\<forall>q\<in>nodes (mem k) {p} \<union> set ps. \<not> in_block (binary + word_of_nat j) q 4096"
    using kernel_image_out [OF _ j] pt_pages [OF assms(2)] by blast
  then have "mem k' (binary + word_of_nat j) = mem k (binary + word_of_nat j)" using assms(1) by (simp add: loaded_def)
  then show "mem k' (binary + word_of_nat j) = m (binary + word_of_nat j)" using assms(4) j by (simp add: same_image_def)
qed

lemma link_same_image:
  assumes "ram_page p" and "unat binary + unat size' \<le> unat KERNEND" and "same_image m (mem k) binary size'"
  shows "same_image m (mem (self_link p k)) binary size'"
  unfolding same_image_def
proof (intro allI impI)
  fix j assume j: "j < unat size'"
  have "kernel_image binary (unat size')" by (rule image_in_kernel [OF assms(2)])
  then have "mem (self_link p k) (binary + word_of_nat j) = mem k (binary + word_of_nat j)"
    using link_other [OF ram_pageD(1) [OF assms(1)]] kernel_image_out [OF _ j assms(1)] by blast
  then show "mem (self_link p k) (binary + word_of_nat j) = m (binary + word_of_nat j)" using assms(3) j by (simp add: same_image_def)
qed

lemma program_reqs_step:
  "i < unat (e_phnum (load_ehdr m binary)) \<Longrightarrow> program_reqs m binary i = phdr_reqs m binary i @ program_reqs m binary (Suc i)"
  by (simp add: program_reqs_def upt_conv_Cons)

lemma program_reqs_done: "unat (e_phnum (load_ehdr m binary)) \<le> i \<Longrightarrow> program_reqs m binary i = []"
  by (simp add: program_reqs_def)

lemma program_okD:
  assumes "program_ok m binary size'"
  shows "binary \<noteq> 0" and "unat binary + unat size' \<le> unat KERNEND" and "elf_from m binary size' = binary"
    and "i < unat (e_phnum (load_ehdr m binary)) \<Longrightarrow> p_type (phdr_of m binary i) = PT_LOAD \<Longrightarrow> seg_ok size' (phdr_of m binary i)"
    and "distinct (map fst (program_reqs m binary 0))"
  using assms by (simp_all add: program_ok_def)

lemma program_reqs_ok:
  assumes "program_ok m binary size'" and "r \<in> set (program_reqs m binary i)"
  shows "req_ok r"
proof -
  obtain j where j: "j < unat (e_phnum (load_ehdr m binary))" "r \<in> set (phdr_reqs m binary j)"
    using assms(2) by (auto simp: program_reqs_def)
  let ?ph = "phdr_of m binary j"
  have load: "p_type ?ph = PT_LOAD" "r \<in> set (with_perm (seg_perm ?ph) (seg_requests ?ph (binary + p_offset ?ph)))"
    using j(2) by (auto simp: phdr_reqs_def Let_def split: if_splits)
  note D = program_okD [OF assms(1)]
  show ?thesis
    using load(2) seg_requests_ok [OF D(4) [OF j(1) load(1)] D(1,2)] by (auto simp: with_perm_def)
qed

lemma load_phdrs_loads:
  assumes ok: "program_ok m binary size'"
  defines "h \<equiv> load_ehdr m binary"
  shows "idx \<le> unat (e_phnum h) \<Longrightarrow> counted user_paths p n k ps \<Longrightarrow> same_image m (mem k) binary size' \<Longrightarrow>
    2053 + length (program_reqs m binary idx) < n \<Longrightarrow> distinct (map fst (program_reqs m binary idx)) \<Longrightarrow>
    \<forall>va\<in>fst ` set (program_reqs m binary idx). translate (mem k) p va = None \<Longrightarrow>
    \<exists>k' qs f. load_phdrs (self_link p k) p binary idx (e_phoff h + word_of_nat idx * ucast (e_phentsize h)) = Ret (self_link p k') \<and>
      counted user_paths p (n - length (program_reqs m binary idx)) k' qs \<and> loaded p k ps (program_reqs m binary idx) f k' qs \<and>
      same_image m (mem k') binary size'"
proof (induction "unat (e_phnum h) - idx" arbitrary: idx n k ps)
  case 0
  then have idx: "idx = unat (e_phnum h)" by simp
  have pt: "pt_inv k {p} ps" using "0.prems"(2) by (simp add: counted_def)
  note D = program_okD [OF ok]
  have eh: "load_ehdr (mem (self_link p k)) binary = h"
    using same_image_headers(1) [OF ok link_same_image [OF pt_root(1) [OF pt] D(2) "0.prems"(3)]] by (simp add: h_def)
  have none: "program_reqs m binary idx = []" using program_reqs_done idx by (simp add: h_def)
  have "load_phdrs (self_link p k) p binary idx (e_phoff h + word_of_nat idx * ucast (e_phentsize h)) = Ret (self_link p k)"
    by (subst load_phdrs.simps) (simp only: eh idx Let_def less_irrefl if_False)
  moreover have "loaded p k ps (program_reqs m binary idx) id k ps" by (simp only: none loaded_nil)
  moreover have "counted user_paths p (n - length (program_reqs m binary idx)) k ps" using "0.prems"(2) by (simp add: none)
  ultimately show ?case using "0.prems"(3) by blast
next
  case (Suc d)
  then have idx: "idx < unat (e_phnum h)" by simp
  let ?ph = "phdr_of m binary idx" and ?rs = "phdr_reqs m binary idx" and ?us = "program_reqs m binary (Suc idx)"
  let ?off = "e_phoff h + word_of_nat idx * ucast (e_phentsize h)"
  have pt: "pt_inv k {p} ps" using Suc.prems(2) by (simp add: counted_def)
  note D = program_okD [OF ok]
  note img = link_same_image [OF pt_root(1) [OF pt] D(2) Suc.prems(3)]
  have eh: "load_ehdr (mem (self_link p k)) binary = h" using same_image_headers(1) [OF ok img] by (simp add: h_def)
  have ph: "load_phdr (mem (self_link p k)) (binary + ?off) = ?ph"
    using same_image_headers(2) [OF ok img] idx eh by (simp add: h_def phdr_of_def Let_def)
  have split: "program_reqs m binary idx = ?rs @ ?us" using program_reqs_step idx by (simp add: h_def)
  have dist: "distinct (map fst ?rs)" "distinct (map fst ?us)" "distinct (map fst (?rs @ ?us))"
    using Suc.prems(5) unfolding split by simp_all
  have "\<exists>k1 ps1 f. (if p_type ?ph = PT_LOAD
       then andThen (elf_load_seg ?ph (binary + p_offset ?ph) (load_icode_mapper p) (self_link p k)) (\<lambda>(r, k). Ret k)
       else Ret (self_link p k)) = Ret (self_link p k1) \<and> counted user_paths p (n - length ?rs) k1 ps1 \<and> loaded p k ps ?rs f k1 ps1"
  proof (cases "p_type ?ph = PT_LOAD")
    case True
    let ?q = "seg_requests ?ph (binary + p_offset ?ph)"
    have rs: "?rs = with_perm (seg_perm ?ph) ?q" using True by (simp add: phdr_reqs_def Let_def)
    have vas: "fst ` set ?rs = fst ` set ?q" unfolding rs by (metis list.set_map with_perm_simps(3))
    have room: "2053 + length ?q < n" using Suc.prems(4) unfolding split rs by simp
    have q: "distinct (map fst ?q)" "\<forall>va\<in>fst ` set ?q. translate (mem k) p va = None"
      using dist(1) Suc.prems(6) unfolding split rs [symmetric] vas [symmetric] by (simp_all add: rs image_Un ball_Un)
    have seg: "seg_ok size' ?ph" using D(4) idx True by (simp add: h_def)
    show ?thesis
      using load_segment [OF seg D(1,2) Suc.prems(2) room q] True rs by (metis (no_types, lifting) andThen.simps(1) case_prod_conv with_perm_length)
  next
    case False
    then have "?rs = []" by (simp add: phdr_reqs_def Let_def)
    then show ?thesis using False Suc.prems(2) loaded_nil [of p k ps id] by auto
  qed
  then obtain k1 ps1 f where k1: "(if p_type ?ph = PT_LOAD
       then andThen (elf_load_seg ?ph (binary + p_offset ?ph) (load_icode_mapper p) (self_link p k)) (\<lambda>(r, k). Ret k)
       else Ret (self_link p k)) = Ret (self_link p k1)" "counted user_paths p (n - length ?rs) k1 ps1" "loaded p k ps ?rs f k1 ps1"
    by blast
  have pt1: "pt_inv k1 {p} ps1" using k1(2) by (simp add: counted_def)
  have img1: "same_image m (mem k1) binary size'" by (rule loaded_same_image [OF k1(3) pt D(2) Suc.prems(3)])
  have eh1: "load_ehdr (mem (self_link p k1)) binary = h"
    using same_image_headers(1) [OF ok link_same_image [OF pt_root(1) [OF pt1] D(2) img1]] by (simp add: h_def)
  have reqs: "\<forall>r\<in>set ?us. req_ok r" using program_reqs_ok [OF ok] by blast
  have free: "\<forall>va\<in>fst ` set ?us. translate (mem k1) p va = None"
  proof
    fix va assume va: "va \<in> fst ` set ?us"
    then have "page_aligned va" "va < MAXVA" using reqs user_va(4) by (auto simp: req_ok_def)
    moreover have "req_perm ?rs va = None" unfolding req_perm_None using va dist(3) by auto
    moreover have "translate (mem k) p va = None" using va Suc.prems(6) unfolding split by auto
    ultimately show "translate (mem k1) p va = None" using k1(3) by (simp add: loaded_def)
  qed
  have room: "2053 + length ?us < n - length ?rs" using Suc.prems(4) unfolding split by simp
  have d: "d = unat (e_phnum h) - Suc idx" "Suc idx \<le> unat (e_phnum h)" using Suc.hyps(2) idx by simp_all
  obtain k' qs g where k': "load_phdrs (self_link p k1) p binary (Suc idx) (e_phoff h + word_of_nat (Suc idx) * ucast (e_phentsize h)) = Ret (self_link p k')"
    "counted user_paths p (n - length ?rs - length ?us) k' qs" "loaded p k1 ps1 ?us g k' qs" "same_image m (mem k') binary size'"
    using Suc.hyps(1) [OF d k1(2) img1 room dist(2) free] by blast
  have "load_phdrs (self_link p k) p binary idx ?off = load_phdrs (self_link p k1) p binary (Suc idx) (?off + ucast (e_phentsize h))"
    using idx k1(1) eh1 by (subst load_phdrs.simps) (simp only: eh ph Let_def if_True andThen.simps)
  moreover have "?off + ucast (e_phentsize h) = e_phoff h + word_of_nat (Suc idx) * ucast (e_phentsize h)"
    by (simp add: algebra_simps)
  ultimately have "load_phdrs (self_link p k) p binary idx ?off = Ret (self_link p k')" using k'(1) by (simp only:)
  moreover have "counted user_paths p (n - length (program_reqs m binary idx)) k' qs" using k'(2) unfolding split by simp
  ultimately show ?case
    using loaded_append [OF k1(3) k'(3) pt dist(3) reqs] k'(4) unfolding split by blast
qed

section \<open>The address space of a program\<close>

lemma path_same:
  assumes inv: "pt_inv k {p} ps" and va: "VPN_L 2 va \<noteq> self_slot"
    and same: "\<And>t i. t \<in> nodes (mem k) {p} \<Longrightarrow> unat i < 512 \<Longrightarrow> t = p \<longrightarrow> i \<noteq> self_slot \<Longrightarrow> pte_at m' t i = pte_at (mem k) t i"
  shows "translate m' p va = translate (mem k) p va"
proof -
  have ok: "tables_ok (mem k) {p} ps" using inv by (simp add: pt_inv_def)
  have below: "t \<noteq> p" "t \<in> nodes (mem k) {p}" if "table (mem k) p P = Some t" "P \<in> paths 2" "P \<noteq> []" for P t
    using that tables_ok_inject [OF ok, of p p P "[]" t] nodesI [of p "{p}" P "mem k" t] by (auto simp: paths_def)
  have P: "[VPN_L 2 va] \<in> paths 2" by (simp add: paths_def VPN_L_less)
  have root: "pte_at m' p (VPN_L 2 va) = pte_at (mem k) p (VPN_L 2 va)"
    by (rule same [OF pt_root(4) [OF inv] VPN_L_less]) (use va in simp)
  have mid: "pte_at m' t (VPN_L 1 va) = pte_at (mem k) t (VPN_L 1 va)" if "table (mem k) p [VPN_L 2 va] = Some t" for t
    using below [OF that P] by (intro same VPN_L_less) auto
  have leaf: "pte_at m' t (VPN_L 0 va) = pte_at (mem k) t (VPN_L 0 va)" if "table (mem k) p (vpath va) = Some t" for t
    using below [OF that vpath_paths] by (intro same VPN_L_less) (auto simp: vpath_def)
  have tab: "table m' p (vpath va) = table (mem k) p (vpath va)" using root mid by (simp add: vpath_def)
  show ?thesis using tab leaf by (cases "table (mem k) p (vpath va)") (simp_all add: translate_def)
qed

lemma link_translate:
  assumes inv: "pt_inv k {p} ps" and va: "VPN_L 2 va \<noteq> self_slot"
  shows "translate (mem (self_link p k)) p va = translate (mem k) p va"
proof (rule path_same [OF inv va])
  fix t and i :: u64 assume t: "t \<in> nodes (mem k) {p}" "unat i < 512" "t = p \<longrightarrow> i \<noteq> self_slot"
  then have "page_aligned t" using pt_pages [OF inv] ram_pageD(1) by blast
  then show "pte_at (mem (self_link p k)) t i = pte_at (mem k) t i"
    using link_pte [OF pt_root(2) [OF inv] _ t(2), of t k] t(3) by auto
qed

text \<open>Below \<open>p\<close> lies a program: what \<open>binary\<close> in the memory \<open>m0\<close> holds, above it what \<open>g\<close> maps. Every byte of a segment is
  in a page with the permissions of the segment: the bytes of the file, then zeros.\<close>

definition seg_page :: "elf64_phdr \<Rightarrow> u64 \<Rightarrow> bool" where
  "seg_page ph va \<longleftrightarrow> (\<exists>j<unat (p_memsz ph). va = p_vaddr ph + word_of_nat (j - j mod 4096))"

definition program_space :: "mem \<Rightarrow> u64 \<Rightarrow> (u64 \<Rightarrow> u64 option) \<Rightarrow> mem \<Rightarrow> u64 \<Rightarrow> bool" where
  "program_space m0 binary g m p \<longleftrightarrow>
     (\<forall>i<unat (e_phnum (load_ehdr m0 binary)). let ph = phdr_of m0 binary i in p_type ph = PT_LOAD \<longrightarrow>
        (\<forall>j<unat (p_memsz ph). \<exists>pg. ram_page pg \<and>
           translate m p (p_vaddr ph + word_of_nat (j - j mod 4096)) = Some (leaf_pte pg (seg_perm ph)) \<and>
           m (pg + word_of_nat (j mod 4096)) =
             (if j < unat (p_filesz ph) then m0 (binary + p_offset ph + word_of_nat j) else 0))) \<and>
     (\<forall>va. page_aligned va \<longrightarrow> va < MAXVA \<longrightarrow> VPN_L 2 va \<noteq> self_slot \<longrightarrow>
        (\<forall>i<unat (e_phnum (load_ehdr m0 binary)). p_type (phdr_of m0 binary i) = PT_LOAD \<longrightarrow>
           \<not> seg_page (phdr_of m0 binary i) va) \<longrightarrow>
        translate m p va = g va)"

lemma seg_request_of:
  assumes seg: "seg_ok size' ph" and j: "j < unat (p_memsz ph)"
  obtains src len where "(p_vaddr ph + word_of_nat (j - j mod 4096), 0, src, len) \<in> set (seg_requests ph bin)"
    "bin \<noteq> 0 \<Longrightarrow> (\<And>i. i < unat (p_filesz ph) \<Longrightarrow> bin + word_of_nat i \<noteq> 0) \<Longrightarrow>
      page_byte m src len (j mod 4096) = (if j < unat (p_filesz ph) then m (bin + word_of_nat j) else 0)"
proof -
  let ?f = "unat (p_filesz ph)" and ?m = "unat (p_memsz ph)" and ?i = "j div 4096"
  have s: "page_aligned (p_vaddr ph)" "p_filesz ph \<le> p_memsz ph" using seg by (simp_all add: seg_ok_def)
  have i: "?i < (?m + 4095) div 4096" using j by linarith
  have off: "j - j mod 4096 = 4096 * ?i" by (simp add: minus_mod_eq_mult_div)
  let ?src = "if 4096 * ?i < ?f then bin + word_of_nat (4096 * ?i) else 0"
  let ?len = "word_of_nat (if 4096 * ?i < ?f then min (?f - 4096 * ?i) 4096 else min (?m - 4096 * ?i) 4096) :: u64"
  have "(p_vaddr ph + word_of_nat (j - j mod 4096), 0, ?src, ?len) \<in> set (seg_requests ph bin)"
    unfolding seg_requests_aligned [OF s] off set_map using i by (intro image_eqI [of _ _ ?i]) auto
  moreover have "page_byte m ?src ?len (j mod 4096) = (if j < ?f then m (bin + word_of_nat j) else 0)"
    if nz: "\<And>i. i < ?f \<Longrightarrow> bin + word_of_nat i \<noteq> 0"
  proof (cases "4096 * ?i < ?f")
    case True
    have "unat ?len = min (?f - 4096 * ?i) 4096" using True by (simp add: unat_of_nat)
    moreover have "j mod 4096 < min (?f - 4096 * ?i) 4096 \<longleftrightarrow> j < ?f" by (auto simp: modulo_nat_def)
    moreover have "word_of_nat (4096 * ?i) + word_of_nat (j mod 4096) = (word_of_nat j :: u64)"
      by (simp only: of_nat_add [symmetric] mult_div_mod_eq)
    ultimately show ?thesis using True nz [OF True] by (simp add: page_byte_def add.assoc del: of_nat_mult)
  next
    case False
    then have "\<not> j < ?f" by linarith
    then show ?thesis using False by (simp add: page_byte_def)
  qed
  ultimately show thesis using that by blast
qed

lemma loadedD:
  assumes "loaded p k ps rs f k' qs"
  shows "va \<in> fst ` set rs \<Longrightarrow> f va \<in> set ps" and "va \<in> fst ` set rs \<Longrightarrow> f va \<notin> set qs"
    and "va \<in> fst ` set rs \<Longrightarrow> f va \<notin> nodes (mem k') {p}"
    and "(va, perm, src, len) \<in> set rs \<Longrightarrow> j < 4096 \<Longrightarrow> mem k' (f va + word_of_nat j) = page_byte (mem k) src len j"
    and "page_aligned va \<Longrightarrow> va < MAXVA \<Longrightarrow> req_perm rs va = Some perm \<Longrightarrow> translate (mem k') p va = Some (leaf_pte (f va) perm)"
    and "page_aligned va \<Longrightarrow> va < MAXVA \<Longrightarrow> va \<notin> fst ` set rs \<Longrightarrow> translate (mem k') p va = translate (mem k) p va"
    and "set qs \<subseteq> set ps" and "nodes (mem k') {p} \<subseteq> nodes (mem k) {p} \<union> set ps"
proof -
  note l = assms [unfolded loaded_def]
  show "va \<in> fst ` set rs \<Longrightarrow> f va \<in> set ps" "va \<in> fst ` set rs \<Longrightarrow> f va \<notin> set qs"
    "va \<in> fst ` set rs \<Longrightarrow> f va \<notin> nodes (mem k') {p}" using l by blast+
  show "(va, perm, src, len) \<in> set rs \<Longrightarrow> j < 4096 \<Longrightarrow> mem k' (f va + word_of_nat j) = page_byte (mem k) src len j"
    using l by blast
  show "page_aligned va \<Longrightarrow> va < MAXVA \<Longrightarrow> req_perm rs va = Some perm \<Longrightarrow> translate (mem k') p va = Some (leaf_pte (f va) perm)"
    "page_aligned va \<Longrightarrow> va < MAXVA \<Longrightarrow> va \<notin> fst ` set rs \<Longrightarrow> translate (mem k') p va = translate (mem k) p va"
    unfolding req_perm_None [symmetric] using l by simp_all
  show "set qs \<subseteq> set ps" "nodes (mem k') {p} \<subseteq> nodes (mem k) {p} \<union> set ps" using l by blast+
qed

lemma program_in_place:
  assumes ok: "program_ok m0 binary size'" and space: "user_space k p ps (user_half g)" and view: "kernel_view g"
    and load: "loaded p k ps (program_reqs m0 binary 0) f k' qs" and inv': "pt_inv k' {p} qs"
    and img: "same_image m0 (mem k) binary size'"
    and same: "\<forall>t\<in>nodes (mem k') {p} \<union> f ` fst ` set (program_reqs m0 binary 0). \<forall>x. in_block x t 4096 \<longrightarrow> m x = mem (self_link p k') x"
  shows "program_space m0 binary g m p"
proof -
  let ?rs = "program_reqs m0 binary 0" and ?n = "unat (e_phnum (load_ehdr m0 binary))"
  note D = program_okD [OF ok]
  have pt: "pt_inv k {p} ps" using space by (simp add: user_space_def)
  note p = pt_root [OF inv']
  have pages: "page_aligned t" if "t \<in> nodes (mem k') {p}" for t using pt_pages [OF inv'] that ram_pageD(1) by blast
  have tr: "translate m p va = translate (mem k') p va" if "VPN_L 2 va \<noteq> self_slot" for va
  proof (rule path_same [OF inv' that])
    fix t and i :: u64 assume t: "t \<in> nodes (mem k') {p}" and i: "unat i < 512" "t = p \<longrightarrow> i \<noteq> self_slot"
    have "pte_at m t i = pte_at (mem (self_link p k')) t i"
      unfolding pte_at_def using same t entry_in_page [OF pages [OF t] i(1)] by (intro load64_cong) blast
    moreover have "\<not> (t = p \<and> i = self_slot)" using i(2) by blast
    ultimately show "pte_at m t i = pte_at (mem k') t i"
      using link_pte [OF p(2) pages [OF t] i(1), of k'] by (simp only: if_not_P if_False)
  qed
  have req: "req_perm ?rs va = Some perm" if "(va, perm, src, len) \<in> set ?rs" for va perm src len
    unfolding req_perm_def
    using D(5) that by (intro map_of_is_SomeI) (force simp: split_def comp_def)+
  have segs: "\<exists>pg. ram_page pg \<and> translate m p (p_vaddr ph + word_of_nat (j - j mod 4096)) = Some (leaf_pte pg (seg_perm ph)) \<and>
      m (pg + word_of_nat (j mod 4096)) = (if j < unat (p_filesz ph) then m0 (binary + p_offset ph + word_of_nat j) else 0)"
    if i: "i < ?n" and ph: "ph = phdr_of m0 binary i" and type: "p_type ph = PT_LOAD" and j: "j < unat (p_memsz ph)" for i ph j
  proof -
    have seg: "seg_ok size' ph" using D(4) i ph type by simp
    let ?va = "p_vaddr ph + word_of_nat (j - j mod 4096)" and ?bin = "binary + p_offset ph"
    obtain src len where r: "(?va, 0, src, len) \<in> set (seg_requests ph ?bin)"
      and byte: "?bin \<noteq> 0 \<Longrightarrow> (\<And>i. i < unat (p_filesz ph) \<Longrightarrow> ?bin + word_of_nat i \<noteq> 0) \<Longrightarrow>
        page_byte (mem k) src len (j mod 4096) = (if j < unat (p_filesz ph) then mem k (?bin + word_of_nat j) else 0)"
      using seg_request_of [OF seg j] by blast
    then have "(?va, seg_perm ph, src, len) \<in> set (phdr_reqs m0 binary i)"
      using type ph by (force simp: phdr_reqs_def Let_def with_perm_def)
    then have in_rs: "(?va, seg_perm ph, src, len) \<in> set ?rs" using i by (auto simp: program_reqs_def)
    then have va: "?va \<in> fst ` set ?rs" by force
    have rok: "page_aligned ?va" "?va < 0x80000000" using program_reqs_ok [OF ok in_rs] by (simp_all add: req_ok_def)
    have k: "unat KERNEND = 0x80400000" by (simp add: KERNEND_def)
    have addr: "?bin + word_of_nat i = binary + word_of_nat (unat (p_offset ph) + i)" for i by (simp add: add.assoc)
    have u: "unat (binary + word_of_nat i) = unat binary + i" if "i \<le> unat size'" for i
      using D(2) k that by (intro unat_add_nat) simp
    have b0: "unat binary \<noteq> 0" using D(1) by (simp add: unat_eq_zero)
    have lim: "unat (p_offset ph) + unat (p_filesz ph) \<le> unat size'" using seg by (simp add: seg_ok_def)
    have nz: "?bin + word_of_nat i \<noteq> 0" if "unat (p_offset ph) + i \<le> unat size'" for i
      unfolding addr using u [OF that] b0 by (metis add_is_0 unat_0)
    have "page_byte (mem k) src len (j mod 4096) = (if j < unat (p_filesz ph) then mem k (?bin + word_of_nat j) else 0)"
      using nz [of 0] nz lim by (intro byte) simp_all
    also have "\<dots> = (if j < unat (p_filesz ph) then m0 (?bin + word_of_nat j) else 0)"
      using img [unfolded same_image_def, rule_format, of "unat (p_offset ph) + j"] lim unfolding addr by simp
    finally have data: "mem k' (f ?va + word_of_nat (j mod 4096)) = (if j < unat (p_filesz ph) then m0 (?bin + word_of_nat j) else 0)"
      using loadedD(4) [OF load in_rs, of "j mod 4096"] by simp
    note pg = loadedD(1,3) [OF load va]
    then have ram: "ram_page (f ?va)" using pt_pages [OF pt] by blast
    have blk: "in_block (f ?va + word_of_nat (j mod 4096)) (f ?va) 4096" by (simp add: in_block_def unat_of_nat)
    have "f ?va \<noteq> p" using pg(2) p(4) by auto
    then have "\<not> in_block (f ?va + word_of_nat (j mod 4096)) p 4096"
      using page_disjoint [of "f ?va" p] blk ram_pageD(1) [OF ram] p(2) by blast
    moreover have "f ?va \<in> f ` fst ` set ?rs" by (rule imageI [OF va])
    then have "m (f ?va + word_of_nat (j mod 4096)) = mem (self_link p k') (f ?va + word_of_nat (j mod 4096))"
      using same blk by blast
    ultimately have "m (f ?va + word_of_nat (j mod 4096)) = mem k' (f ?va + word_of_nat (j mod 4096))"
      using link_other [OF p(2)] by (simp only:)
    then have "m (f ?va + word_of_nat (j mod 4096)) = (if j < unat (p_filesz ph) then m0 (?bin + word_of_nat j) else 0)"
      using data by (simp only:)
    moreover have "translate m p ?va = Some (leaf_pte (f ?va) (seg_perm ph))"
      using tr [OF user_va(3) [OF rok(2)]] loadedD(5) [OF load rok(1) user_va(4) [OF rok(2)] req [OF in_rs]] by (simp only:)
    ultimately show ?thesis using ram by blast
  qed
  have rest: "translate m p va = g va"
    if va: "page_aligned va" "va < MAXVA" "VPN_L 2 va \<noteq> self_slot"
      and out: "\<forall>i<?n. p_type (phdr_of m0 binary i) = PT_LOAD \<longrightarrow> \<not> seg_page (phdr_of m0 binary i) va" for va
  proof -
    have "va \<notin> fst ` set ?rs"
    proof
      assume "va \<in> fst ` set ?rs"
      then obtain i where i: "i < ?n" "va \<in> fst ` set (phdr_reqs m0 binary i)" by (force simp: program_reqs_def)
      let ?ph = "phdr_of m0 binary i"
      have type: "p_type ?ph = PT_LOAD" using i(2) by (auto simp: phdr_reqs_def Let_def split: if_splits)
      have "va \<in> set (map fst (with_perm (seg_perm ?ph) (seg_requests ?ph (binary + p_offset ?ph))))"
        using i(2) unfolding phdr_reqs_def Let_def if_P [OF type] set_map .
      moreover have s: "page_aligned (p_vaddr ?ph)" "p_filesz ?ph \<le> p_memsz ?ph" using D(4) [OF i(1) type] by (simp_all add: seg_ok_def)
      ultimately obtain n where n: "n < (unat (p_memsz ?ph) + 4095) div 4096" "va = p_vaddr ?ph + word_of_nat (4096 * n)"
        unfolding with_perm_simps(3) seg_requests_aligned [OF s] by (auto split: if_splits)
      have "4096 * n < unat (p_memsz ?ph)" using n(1) by linarith
      then have "seg_page ?ph va" using n(2) unfolding seg_page_def by (intro exI [of _ "4096 * n"]) simp
      then show False using out i(1) type by blast
    qed
    then have "translate (mem k') p va = translate (mem k) p va"
      by (rule loadedD(6) [OF load va(1,2)])
    also have "\<dots> = g va" using space va by (simp add: user_space_def maps_as_def user_half_def)
    finally show ?thesis using tr [OF va(3)] by simp
  qed
  show ?thesis unfolding program_space_def Let_def using segs rest by blast
qed

end
