(* ===== verification/Sched.thy ===== *)
theory Sched
  imports Env
begin

text \<open>
  kern/timer.c and kern/sched.c: the timer tick and the scheduler it drives. What the hart's clock says
  is an argument of the operations. The scheduler is shown to implement a round robin in which an
  environment keeps the hart for as many ticks as its priority says.
\<close>

section \<open>The timer\<close>

definition TIMEBASE :: u64 where "TIMEBASE = 1000000"

definition sbi_set_timer :: "kernel \<Rightarrow> u64 \<Rightarrow> kernel" where
  "sbi_set_timer s stime_value = s\<lparr>timecmp := stime_value\<rparr>"

definition timer_set_next_event :: "u64 \<Rightarrow> kernel \<Rightarrow> kernel" where
  "timer_set_next_event time s = sbi_set_timer s (time + TIMEBASE)"

definition timerinit :: "u64 \<Rightarrow> kernel \<Rightarrow> kernel" where
  "timerinit time s =
     (let s = s\<lparr>ticks := 0\<rparr>; s = s\<lparr>sie := sie s OR SIE_STIE\<rparr> in timer_set_next_event time s)"

definition do_timer :: "u64 \<Rightarrow> kernel \<Rightarrow> kernel" where
  "do_timer time s =
     (let s = timer_set_next_event time s; s = s\<lparr>ticks := ticks s + 1\<rparr> in
      if ticks s = 100 then s\<lparr>ticks := 0\<rparr> else s)"

section \<open>The scheduler\<close>

definition schedule :: "bool \<Rightarrow> u64 \<Rightarrow> kernel \<Rightarrow> (trapframe \<times> kernel) outcome" where
  "schedule yield' time s =
     (let s = do_timer time s; e = curenv s;
          runnable = (case e of Some c \<Rightarrow> env_status (envs s ! c) = ENV_RUNNABLE | None \<Rightarrow> False) in
      andThen
        (if yield' \<or> slices s = 0 \<or> e = None \<or> \<not> runnable
         then andThen
                (case e of
                   Some c \<Rightarrow>
                     if runnable
                     then andThen (TAILQ_REMOVE (env_sched_list s) c) (\<lambda>q.
                            andThen (TAILQ_INSERT_TAIL q c) (\<lambda>q. Ret (s\<lparr>env_sched_list := q\<rparr>)))
                     else Ret s
                 | None \<Rightarrow> Ret s) (\<lambda>s.
                if TAILQ_EMPTY (env_sched_list s) then Panic ''schedule: no runnable envs''
                else (let e = the (TAILQ_FIRST (env_sched_list s)) in
                      Ret (e, s\<lparr>slices := env_pri (envs s ! e)\<rparr>)))
         else Ret (the e, s)) (\<lambda>(e, s).
        (let s = s\<lparr>slices := slices s - 1\<rparr> in env_run s e)))"

text \<open>\<open>env_destroy\<close> (kern/env.c) ends in the scheduler when it frees the current environment.\<close>

definition env_destroy :: "nat \<Rightarrow> u64 \<Rightarrow> kernel \<Rightarrow> nat \<Rightarrow> (trapframe option \<times> kernel) outcome" where
  "env_destroy depth time s e =
     andThen (env_free depth s e) (\<lambda>s.
       if curenv s = Some e
       then (let s = s\<lparr>curenv := None\<rparr> in andThen (schedule True time s) (\<lambda>(tf, s). Ret (Some tf, s)))
       else Ret (None, s))"

section \<open>The abstract round robin\<close>

text \<open>Who has the hart, for how many ticks more, and the queue of those who can have it.\<close>

type_synonym rr = "nat option \<times> u32 \<times> nat list"

definition to_tail :: "nat option \<Rightarrow> nat list \<Rightarrow> nat list" where
  "to_tail cur xs = (case cur of Some c \<Rightarrow> if c \<in> set xs then remove1 c xs @ [c] else xs | None \<Rightarrow> xs)"

definition rr_next :: "(nat \<Rightarrow> u32) \<Rightarrow> nat list \<Rightarrow> rr option" where
  "rr_next pri xs = (if xs = [] then None else Some (Some (hd xs), pri (hd xs) - 1, xs))"

fun rr_step :: "(nat \<Rightarrow> u32) \<Rightarrow> bool \<Rightarrow> rr \<Rightarrow> rr option" where
  "rr_step pri yield' (cur, n, xs) =
     (if \<not> yield' \<and> n \<noteq> 0 \<and> (\<exists>c. cur = Some c \<and> c \<in> set xs) then Some (cur, n - 1, xs)
      else rr_next pri (to_tail cur xs))"

text \<open>The queue holds the runnable environments, and no others (the invariant kern/env.c states).\<close>

definition sched_inv :: "kernel \<Rightarrow> nat list \<Rightarrow> bool" where
  "sched_inv s xs \<longleftrightarrow> length (envs s) = NENV \<and> tailq_rep (env_sched_list s) xs \<and>
     (\<forall>e. e \<in> set xs \<longleftrightarrow> e < NENV \<and> env_status (envs s ! e) = ENV_RUNNABLE) \<and>
     (\<forall>c. curenv s = Some c \<longrightarrow> c < NENV)"

text \<open>What \<open>env_run\<close> leaves alone.\<close>

lemma env_run_result:
  assumes "length (envs s) = NENV" and "e < NENV" and "\<And>c. curenv s = Some c \<Longrightarrow> c < NENV"
    and "env_status (envs s ! e) = ENV_RUNNABLE"
  obtains s' where "env_run s e = Ret (env_tf (envs s' ! e), s')" "curenv s' = Some e"
    "satp s' = MAKE_SATP (env_pgtable (envs s ! e))" "length (envs s') = NENV"
    "\<And>i. i < NENV \<Longrightarrow> env_status (envs s' ! i) = env_status (envs s ! i) \<and>
       env_pri (envs s' ! i) = env_pri (envs s ! i) \<and> env_pgtable (envs s' ! i) = env_pgtable (envs s ! i)"
    "env_sched_list s' = env_sched_list s" "slices s' = slices s"
proof -
  obtain tf s' where run: "env_run s e = Ret (tf, s')"
    using assms(4) by (simp add: env_run_def Let_def)
  show thesis
    by (rule that [of s'])
      (use run assms in \<open>auto simp: env_run_def Let_def upd_env_def nth_list_update split: option.splits\<close>)
qed

lemma do_timer_fields [simp]:
  "envs (do_timer time s) = envs s" "curenv (do_timer time s) = curenv s"
  "env_sched_list (do_timer time s) = env_sched_list s" "slices (do_timer time s) = slices s"
  by (simp_all add: do_timer_def Let_def timer_set_next_event_def sbi_set_timer_def)

definition sched_result :: "kernel \<Rightarrow> rr option \<Rightarrow> (trapframe \<times> kernel) outcome \<Rightarrow> bool" where
  "sched_result s r out =
     (case r of
        None \<Rightarrow> out = Panic ''schedule: no runnable envs''
      | Some (cur, n, ys) \<Rightarrow> \<exists>e s'. cur = Some e \<and> e \<in> set ys \<and> out = Ret (env_tf (envs s' ! e), s') \<and>
          sched_inv s' ys \<and> curenv s' = Some e \<and> slices s' = n \<and> satp s' = MAKE_SATP (env_pgtable (envs s ! e)) \<and>
          (\<forall>i<NENV. env_pri (envs s' ! i) = env_pri (envs s ! i) \<and>
             env_pgtable (envs s' ! i) = env_pgtable (envs s ! i)))"

lemma run_result:
  assumes inv: "sched_inv s xs" and e: "e \<in> set xs"
  shows "sched_result s (Some (Some e, slices s, xs)) (env_run s e)"
proof -
  have "e < NENV" "env_status (envs s ! e) = ENV_RUNNABLE" "length (envs s) = NENV"
    "\<And>c. curenv s = Some c \<Longrightarrow> c < NENV"
    using inv e by (auto simp: sched_inv_def)
  then obtain s' where "env_run s e = Ret (env_tf (envs s' ! e), s')" "curenv s' = Some e"
    "satp s' = MAKE_SATP (env_pgtable (envs s ! e))" "length (envs s') = NENV"
    "\<And>i. i < NENV \<Longrightarrow> env_status (envs s' ! i) = env_status (envs s ! i) \<and>
       env_pri (envs s' ! i) = env_pri (envs s ! i) \<and> env_pgtable (envs s' ! i) = env_pgtable (envs s ! i)"
    "env_sched_list s' = env_sched_list s" "slices s' = slices s"
    using env_run_result [of s e] by blast
  then show ?thesis using inv e \<open>e < NENV\<close> by (auto simp: sched_result_def sched_inv_def)
qed

lemma schedule_rr:
  assumes inv: "sched_inv s xs"
  shows "sched_result s (rr_step (\<lambda>e. env_pri (envs s ! e)) yield' (curenv s, slices s, xs)) (schedule yield' time s)"
proof -
  let ?pri = "\<lambda>e. env_pri (envs s ! e)" and ?t = "do_timer time s"
  have run: "(case curenv s of Some c \<Rightarrow> env_status (envs s ! c) = ENV_RUNNABLE | None \<Rightarrow> False) \<longleftrightarrow>
      (\<exists>c. curenv s = Some c \<and> c \<in> set xs)"
    using inv by (auto simp: sched_inv_def split: option.splits)
  have inv_t: "sched_inv (?t\<lparr>env_sched_list := q, slices := n\<rparr>) ys" if "tailq_rep q ys" "set ys = set xs" for q n ys
    using inv that by (simp add: sched_inv_def)
  have next': "sched_result s (rr_next ?pri ys)
      (andThen (if TAILQ_EMPTY q then Panic ''schedule: no runnable envs''
        else Ret (the (TAILQ_FIRST q), ?t\<lparr>env_sched_list := q, slices := ?pri (the (TAILQ_FIRST q))\<rparr>))
        (\<lambda>(e, s). env_run (s\<lparr>slices := slices s - 1\<rparr>) e))"
    if ys: "tailq_rep q ys" "set ys = set xs" for q ys
  proof (cases ys)
    case Nil
    then show ?thesis
      using tailq.first_rep [OF ys(1)] by (simp add: rr_next_def sched_result_def TAILQ_EMPTY_def TAILQ_FIRST_def)
  next
    case (Cons y zs)
    have "sched_result (?t\<lparr>env_sched_list := q, slices := ?pri y - 1\<rparr>) (Some (Some y, ?pri y - 1, ys))
        (env_run (?t\<lparr>env_sched_list := q, slices := ?pri y - 1\<rparr>) y)"
      using run_result [OF inv_t [OF ys], of y "?pri y - 1"] Cons by simp
    then show ?thesis
      using tailq.first_rep [OF ys(1)] Cons
      by (simp add: rr_next_def sched_result_def TAILQ_EMPTY_def TAILQ_FIRST_def)
  qed
  show ?thesis
  proof (cases "\<not> yield' \<and> slices s \<noteq> 0 \<and> (\<exists>c. curenv s = Some c \<and> c \<in> set xs)")
    case True
    then obtain c where c: "curenv s = Some c" "c \<in> set xs" by blast
    have "sched_inv (?t\<lparr>slices := slices s - 1\<rparr>) xs" using inv by (simp add: sched_inv_def)
    from run_result [OF this c(2)] show ?thesis
      using True c run by (simp add: schedule_def sched_result_def Let_def)
  next
    case False
    then have out: "schedule yield' time s =
        andThen (andThen (case curenv s of
            Some c \<Rightarrow> if c \<in> set xs then andThen (TAILQ_REMOVE (env_sched_list s) c) (\<lambda>q.
              andThen (TAILQ_INSERT_TAIL q c) (\<lambda>q. Ret (?t\<lparr>env_sched_list := q\<rparr>))) else Ret ?t
          | None \<Rightarrow> Ret ?t) (\<lambda>s. if TAILQ_EMPTY (env_sched_list s) then Panic ''schedule: no runnable envs''
            else (let e = the (TAILQ_FIRST (env_sched_list s)) in Ret (e, s\<lparr>slices := env_pri (envs s ! e)\<rparr>))))
        (\<lambda>(e, s). env_run (s\<lparr>slices := slices s - 1\<rparr>) e)"
      using run unfolding schedule_def Let_def
      by (cases "curenv s") (auto cong: if_cong)
    have rr: "rr_step ?pri yield' (curenv s, slices s, xs) = rr_next ?pri (to_tail (curenv s) xs)"
      using False by auto
    have q: "tailq_rep (env_sched_list s) xs" using inv by (simp add: sched_inv_def)
    show ?thesis
    proof (cases "\<exists>c. curenv s = Some c \<and> c \<in> set xs")
      case True
      then obtain c where c: "curenv s = Some c" "c \<in> set xs" by blast
      obtain q' where move: "\<And>f :: tail_q \<Rightarrow> kernel outcome. andThen (TAILQ_REMOVE (env_sched_list s) c) (\<lambda>q. andThen (TAILQ_INSERT_TAIL q c) f) = f q'"
        and q': "tailq_rep q' (remove1 c xs @ [c])"
        using tailq.move_to_tail [OF q c(2)] by (metis andThen.simps(1))
      have "distinct xs" using q by (rule tailq.rep_distinct)
      then have "set (remove1 c xs @ [c]) = set xs" using c(2) by auto
      from next' [OF q' this] show ?thesis
        using c unfolding out rr by (simp add: move to_tail_def Let_def split: if_splits)
    next
      case no: False
      have same: "?t\<lparr>env_sched_list := env_sched_list s, slices := n\<rparr> = ?t\<lparr>slices := n\<rparr>" for n
        by (cases "?t") (use do_timer_fields(3) [of time s] in simp)
      show ?thesis
        using no next' [OF q refl, unfolded same] unfolding out rr by (auto simp: to_tail_def Let_def split: option.splits)
    qed
  qed
qed

section \<open>Every runnable environment gets its ticks\<close>

text \<open>\<open>n\<close> timer ticks: who runs in each.\<close>

fun rr_run :: "(nat \<Rightarrow> u32) \<Rightarrow> nat \<Rightarrow> rr \<Rightarrow> (nat list \<times> rr) option" where
  "rr_run pri 0 r = Some ([], r)"
| "rr_run pri (Suc n) r =
     (case rr_step pri False r of
        Some (Some e, k, xs) \<Rightarrow>
          (case rr_run pri n (Some e, k, xs) of Some (es, r) \<Rightarrow> Some (e # es, r) | None \<Rightarrow> None)
      | _ \<Rightarrow> None)"

lemma rr_run_add:
  "rr_run pri (m + n) r =
     (case rr_run pri m r of None \<Rightarrow> None
      | Some (es, r') \<Rightarrow> (case rr_run pri n r' of Some (fs, r'') \<Rightarrow> Some (es @ fs, r'') | None \<Rightarrow> None))"
proof (induction m arbitrary: r)
  case (Suc m)
  show ?case
  proof (cases "rr_step pri False r")
    case (Some a)
    obtain cur k xs where "a = (cur, k, xs)" by (cases a)
    then show ?thesis using Some by (cases cur) (auto simp: Suc.IH split: option.splits)
  qed simp
qed (auto split: option.splits)

lemma rr_run_length: "rr_run pri n r = Some (es, r') \<Longrightarrow> length es = n"
  by (induction n arbitrary: r es) (auto split: option.splits prod.splits)

text \<open>The current environment keeps the hart until its ticks are used up.\<close>

lemma rr_run_slice:
  "c \<in> set xs \<Longrightarrow> unat k = n \<Longrightarrow> rr_run pri n (Some c, k, xs) = Some (replicate n c, (Some c, 0, xs))"
proof (induction n arbitrary: k)
  case 0
  then have "k = 0" by (simp add: unat_eq_zero)
  then show ?case by simp
next
  case (Suc n)
  then have "k \<noteq> 0" by auto
  then have "unat (k - 1) = n" using Suc.prems(2) unat_sub [of 1 k] by (simp add: word_le_nat_alt)
  then show ?case using Suc.IH [of "k - 1"] Suc.prems(1) \<open>k \<noteq> 0\<close> by simp
qed

text \<open>Then the next one gets all of its own.\<close>

lemma rr_run_turn:
  assumes d: "distinct (c # x # xs)" and pri: "pri x \<noteq> 0"
  shows "rr_run pri (unat (pri x)) (Some c, 0, c # x # xs) =
    Some (replicate (unat (pri x)) x, (Some x, 0, x # xs @ [c]))"
proof -
  have p: "unat (pri x) = Suc (unat (pri x - 1))"
    using pri unat_sub [of 1 "pri x"] by (simp add: word_le_nat_alt unat_gt_0 Suc_le_eq)
  have "rr_step pri False (Some c, 0, c # x # xs) = Some (Some x, pri x - 1, x # xs @ [c])"
    by (simp add: to_tail_def rr_next_def)
  then show ?thesis unfolding p using rr_run_slice [of x "x # xs @ [c]" "pri x - 1" _ pri] by simp
qed

lemma rr_run_alone:
  assumes "pri c \<noteq> 0"
  shows "rr_run pri (unat (pri c)) (Some c, 0, [c]) = Some (replicate (unat (pri c)) c, (Some c, 0, [c]))"
proof -
  have p: "unat (pri c) = Suc (unat (pri c - 1))"
    using assms unat_sub [of 1 "pri c"] by (simp add: word_le_nat_alt unat_gt_0 Suc_le_eq)
  have "rr_step pri False (Some c, 0, [c]) = Some (Some c, pri c - 1, [c])"
    by (simp add: to_tail_def rr_next_def)
  then show ?thesis unfolding p using rr_run_slice [of c "[c]" "pri c - 1" _ pri] by simp
qed

lemma rr_run_turns:
  "distinct (ys @ c # xs) \<Longrightarrow> \<forall>x\<in>set xs. pri x \<noteq> 0 \<Longrightarrow>
   rr_run pri (\<Sum>x\<leftarrow>xs. unat (pri x)) (Some c, 0, c # xs @ ys) =
     Some (concat (map (\<lambda>x. replicate (unat (pri x)) x) xs),
       (Some (last (c # xs)), 0, last (c # xs) # ys @ butlast (c # xs)))"
proof (induction xs arbitrary: c ys)
  case (Cons x xs)
  have "rr_run pri (unat (pri x)) (Some c, 0, c # x # xs @ ys) =
      Some (replicate (unat (pri x)) x, (Some x, 0, x # (xs @ ys) @ [c]))"
    using rr_run_turn [of c x "xs @ ys" pri] Cons.prems by (auto simp: Int_commute)
  moreover have "distinct ((ys @ [c]) @ x # xs)" using Cons.prems(1) by auto
  note Cons.IH [OF this]
  ultimately show ?case using Cons.prems(2) by (simp add: rr_run_add)
qed simp

text \<open>A whole round: starting with the current environment at the head of the queue and its ticks used up,
  every environment runs for as many ticks as its priority says, in the order of the queue, and
  the round ends where it started.\<close>

lemma rr_round:
  assumes d: "distinct (c # xs)" and pri: "\<forall>x\<in>set (c # xs). pri x \<noteq> 0"
  shows "rr_run pri (\<Sum>x\<leftarrow>xs @ [c]. unat (pri x)) (Some c, 0, c # xs) =
    Some (concat (map (\<lambda>x. replicate (unat (pri x)) x) (xs @ [c])), (Some c, 0, c # xs))"
proof (cases xs rule: rev_cases)
  case Nil
  then show ?thesis using rr_run_alone pri by simp
next
  case (snoc ys y)
  have "rr_run pri (\<Sum>x\<leftarrow>xs. unat (pri x)) (Some c, 0, c # xs @ []) =
      Some (concat (map (\<lambda>x. replicate (unat (pri x)) x) xs), (Some y, 0, y # [] @ butlast (c # xs)))"
    using rr_run_turns [of "[]" c xs pri] d pri snoc by simp
  moreover have "rr_run pri (unat (pri c)) (Some y, 0, y # c # ys) =
      Some (replicate (unat (pri c)) c, (Some c, 0, c # ys @ [y]))"
    using rr_run_turn [of y c ys pri] d pri snoc by auto
  moreover have sum: "(\<Sum>x\<leftarrow>xs @ [c]. unat (pri x)) = (\<Sum>x\<leftarrow>xs. unat (pri x)) + unat (pri c)" by simp
  ultimately show ?thesis unfolding sum rr_run_add by (simp add: snoc butlast_append)
qed

text \<open>The kernel's own ticks: a list of calls of \<open>schedule(0)\<close> at the given clock values.\<close>

fun ticks_run :: "u64 list \<Rightarrow> kernel \<Rightarrow> (nat list \<times> kernel) outcome" where
  "ticks_run [] s = Ret ([], s)"
| "ticks_run (clock # clocks) s =
     andThen (schedule False clock s) (\<lambda>(tf, s).
       andThen (ticks_run clocks s) (\<lambda>(es, s'). Ret (the (curenv s) # es, s')))"

lemma rr_step_cong:
  assumes "\<And>x. x \<in> set xs \<Longrightarrow> pri' x = pri x"
  shows "rr_step pri' y (cur, n, xs) = rr_step pri y (cur, n, xs)"
proof -
  have "set (to_tail cur xs) \<subseteq> set xs"
    using set_remove1_subset [of _ xs] by (auto simp: to_tail_def split: option.splits)
  then have "rr_next pri' (to_tail cur xs) = rr_next pri (to_tail cur xs)"
    using assms by (cases "to_tail cur xs") (auto simp: rr_next_def)
  then show ?thesis by (simp only: rr_step.simps)
qed

lemma ticks_run_rr:
  "sched_inv s xs \<Longrightarrow> (\<And>e. e < NENV \<Longrightarrow> pri e = env_pri (envs s ! e)) \<Longrightarrow>
   rr_run pri (length clocks) (curenv s, slices s, xs) = Some (es, (cur, k, ys)) \<Longrightarrow>
   \<exists>s'. ticks_run clocks s = Ret (es, s') \<and> sched_inv s' ys \<and> curenv s' = cur \<and> slices s' = k \<and>
     (\<forall>e<NENV. env_pri (envs s' ! e) = env_pri (envs s ! e))"
proof (induction clocks arbitrary: s xs es)
  case (Cons clock clocks)
  note inv = Cons.prems(1) and pri = Cons.prems(2)
  have eq: "rr_step (\<lambda>e. env_pri (envs s ! e)) False (curenv s, slices s, xs) =
      rr_step pri False (curenv s, slices s, xs)"
    by (rule rr_step_cong) (use inv pri in \<open>auto simp: sched_inv_def\<close>)
  note result = schedule_rr [OF inv, of False clock, unfolded eq]
  obtain e k' zs fs where step: "rr_step pri False (curenv s, slices s, xs) = Some (Some e, k', zs)"
    and run: "rr_run pri (length clocks) (Some e, k', zs) = Some (fs, (cur, k, ys))" and es: "es = e # fs"
    using Cons.prems(3) by (auto simp del: rr_step.simps split: option.splits prod.splits)
  obtain tf s1 where s1: "schedule False clock s = Ret (tf, s1)" "sched_inv s1 zs" "curenv s1 = Some e"
      "slices s1 = k'" "\<forall>i<NENV. env_pri (envs s1 ! i) = env_pri (envs s ! i)"
    using result unfolding step by (auto simp: sched_result_def)
  have "rr_run pri (length clocks) (curenv s1, slices s1, zs) = Some (fs, (cur, k, ys))"
    using run s1 by simp
  from Cons.IH [OF s1(2) _ this] show ?case
    using s1 es pri by auto
qed simp

lemma ticks_round:
  assumes inv: "sched_inv s (c # xs)" and cur: "curenv s = Some c" "slices s = 0"
    and pri: "\<forall>e\<in>set (c # xs). env_pri (envs s ! e) \<noteq> 0"
    and n: "length clocks = (\<Sum>e\<leftarrow>xs @ [c]. unat (env_pri (envs s ! e)))"
  shows "\<exists>s'. ticks_run clocks s =
      Ret (concat (map (\<lambda>e. replicate (unat (env_pri (envs s ! e))) e) (xs @ [c])), s') \<and>
    sched_inv s' (c # xs) \<and> curenv s' = Some c \<and> slices s' = 0"
proof -
  have "distinct (c # xs)" using inv by (auto simp only: sched_inv_def intro: tailq.rep_distinct)
  from rr_round [OF this pri] have "rr_run (\<lambda>e. env_pri (envs s ! e)) (length clocks) (curenv s, slices s, c # xs) =
      Some (concat (map (\<lambda>e. replicate (unat (env_pri (envs s ! e))) e) (xs @ [c])), (Some c, 0, c # xs))"
    unfolding n cur .
  from ticks_run_rr [OF inv _ this] show ?thesis by auto
qed

end
