(* ===== verification/EnvCreate.thy ===== *)
theory EnvCreate
  imports LoadIcode Sched
begin

text \<open>
  Creating an environment (kern/env.c: \<open>env_alloc\<close>, \<open>load_icode\<close>, \<open>env_create\<close>) as a whole. \<open>kernel_ok\<close> is the invariant of
  the kernel between two calls: its page table maps what it is to map, the free pages, the free environments and the
  runnable ones are what the lists say. \<open>env_create\<close> keeps it; the new environment's address space (\<open>owns_space\<close>) lies in
  pages that were free before, so that nothing that happens later to other pages changes it.
\<close>

section \<open>What the self link hides\<close>

lemma self_pte_fields:
  assumes "ram_page p"
  shows "PTE2PA (self_pte p) = p" and "self_pte p AND PTE_V \<noteq> 0"
proof -
  have f: "PTE_FLAGS (PTE_V OR PTE_R OR PTE_U) = PTE_V OR PTE_R OR PTE_U"
    by (simp add: PTE_FLAGS_def PTE_V_def PTE_R_def PTE_U_def)
  show "PTE2PA (self_pte p) = p"
    unfolding self_pte_def or.assoc using PTE2PA_PA2PTE [OF ram_pageD(1) [OF assms] ram_pageD(4) [OF assms] f] by (simp add: or.assoc)
  show "self_pte p AND PTE_V \<noteq> 0"
    unfolding self_pte_def using or_PTE_V [of "PA2PTE p OR PTE_R OR PTE_U"] by (simp add: ac_simps)
qed

text \<open>Below the self link lies the root itself: an address there leads to a table only where the root has one.\<close>

lemma link_window:
  assumes inv: "pt_inv k {p} ps" and reach: "reach user_paths (mem k) p"
    and va: "VPN_L 2 va = self_slot" "VPN_L 1 va \<notin> {0, 1, 2, 254}"
    and same: "\<And>x. in_block x p 4096 \<Longrightarrow> m x = mem (self_link p k) x"
  shows "translate m p va = None"
proof -
  note p = pt_root [OF inv]
  have pte: "pte_at m p i = (if i = self_slot then self_pte p else pte_at (mem k) p i)" if "unat i < 512" for i
  proof -
    have "pte_at m p i = pte_at (mem (self_link p k)) p i"
      unfolding pte_at_def using same entry_in_page [OF p(2) that] by (intro load64_cong) blast
    then show ?thesis using link_pte [OF p(2,2) that] by simp
  qed
  have "[VPN_L 1 va] \<notin> user_paths" using va(2) by (auto simp: user_paths_def table_paths_def)
  moreover have path: "[VPN_L 1 va] \<in> paths 2" using VPN_L_less [of 1 va] by (simp add: paths_def)
  ultimately have "table (mem k) p [VPN_L 1 va] = None"
    using reach path unfolding reach_def by blast
  then have "pte_at (mem k) p (VPN_L 1 va) AND PTE_V = 0" by (auto split: if_splits)
  then have "table m p (vpath va) = None"
    using pte [OF VPN_L_less, of 1 va] pte [of self_slot] self_pte_fields [OF p(1)] va by (simp add: vpath_def VPN_L_less self_slot)
  then show ?thesis by (simp add: translate_def)
qed

lemma ENVS_window:
  assumes "e < 1024"
  shows "VPN_L 2 (ENVS (word_of_nat e)) = self_slot" and "VPN_L 1 (ENVS (word_of_nat e)) \<notin> {0, 1, 2, 254}"
proof -
  note u = unat_ENVS(1) [OF assms]
  have "unat (VPN_L 2 (ENVS (word_of_nat e))) = 254" using assms unfolding unat_VPN_L VPN_SHIFT_def u by simp
  then show "VPN_L 2 (ENVS (word_of_nat e)) = self_slot" unfolding self_slot by (simp add: word_unat_eq_iff)
  let ?q = "(0x3fbfffe000 - 4096 * e) div 2097152"
  have "130557 \<le> ?q" "?q \<le> 130559" using assms by linarith+
  then have "?q = 130557 \<or> ?q = 130558 \<or> ?q = 130559" by linarith
  then have "509 \<le> ?q mod 512" by auto
  then have "509 \<le> unat (VPN_L 1 (ENVS (word_of_nat e)))" unfolding unat_VPN_L VPN_SHIFT_def u by simp
  then show "VPN_L 1 (ENVS (word_of_nat e)) \<notin> {0, 1, 2, 254}" by auto
qed

section \<open>The kernel between two calls\<close>

definition kernel_ok :: "kernel \<Rightarrow> (u64 \<Rightarrow> u64 option) \<Rightarrow> u64 list \<Rightarrow> nat list \<Rightarrow> nat list \<Rightarrow> bool" where
  "kernel_ok s g ps fs ts \<longleftrightarrow>
     pt_inv (phys s) {kernel_pagetable s} ps \<and> kernel_view g \<and> maps_as (phys s) (kernel_pagetable s) g \<and>
     list_rep (env_free_list s) fs \<and> sched_inv s ts \<and> asid_bitmap_ok (asid_bitmap s) \<and>
     (\<forall>e\<in>set fs. e < NENV \<longrightarrow> env_status (envs s ! e) \<noteq> ENV_RUNNABLE)"

text \<open>The environment \<open>env_create\<close> makes of a free slot.\<close>

definition fresh_env :: "kernel \<Rightarrow> nat \<Rightarrow> u64 \<Rightarrow> u32 \<Rightarrow> env \<Rightarrow> bool" where
  "fresh_env s e p i v \<longleftrightarrow> env_pgtable v = p \<and> env_id v = fst (mkenvid s e) \<and> env_runs v = 0 \<and> env_parent_id v = i \<and>
     unat (env_asid v) = (LEAST n. n \<notin> asids (asid_bitmap s)) \<and> tf_sstatus (env_tf v) = SSTATUS_SPIE"

lemma env_alloc_result:
  assumes ok: "kernel_ok s g (p # ps) (e # fs) ts" and e: "e < NENV" and room: "1027 \<le> length ps"
    and asid: "asids (asid_bitmap s) \<noteq> {..<NASID}"
  obtains k qs v q b l where "env_alloc s i = Ret (0, Some e, s\<lparr>phys := self_link p k, envs := (envs s)[e := v],
      env_free_list := q, asid_bitmap := b, last_env := l\<rparr>)"
    "fresh_env s e p i v" "list_rep q fs" "asid_bitmap_ok b" "asids b = insert (unat (env_asid v)) (asids (asid_bitmap s))"
    "user_space k p qs (user_half g)" "reach kernel_paths (mem k) p" "pt_inv (self_link p k) {kernel_pagetable s} qs"
    "maps_as (self_link p k) (kernel_pagetable s) g" "set qs \<subseteq> set ps" "length ps \<le> length qs + 1027"
    "nodes (mem k) {p} \<subseteq> set (p # ps)" "\<And>x. \<forall>q\<in>set (p # ps). \<not> in_block x q 4096 \<Longrightarrow> mem (self_link p k) x = mem (phys s) x"
proof -
  have inv: "pt_inv (phys s) {kernel_pagetable s} (p # ps)" and view: "kernel_view g" "maps_as (phys s) (kernel_pagetable s) g"
    and free: "list_rep (env_free_list s) (e # fs)" and len: "length (envs s) = NENV" and bm: "asid_bitmap_ok (asid_bitmap s)"
    using ok by (simp_all add: kernel_ok_def sched_inv_def)
  have el: "e < length (envs s)" using e len by simp
  obtain k qs where k: "env_setup_vm s e = Ret (0, env_pgtable_set p e (self_link p k) s)"
    "user_space k p qs (user_half g)" "pt_inv (self_link p k) {kernel_pagetable s} qs" "maps_as (self_link p k) (kernel_pagetable s) g"
    "set qs \<subseteq> set ps" "length ps \<le> length qs + 1027" "nodes (mem k) {p} \<subseteq> set (p # ps)" "reach kernel_paths (mem k) p"
    "\<And>x. \<forall>q\<in>set (p # ps). \<not> in_block x q 4096 \<Longrightarrow> mem (self_link p k) x = mem (phys s) x"
    using env_setup_vm_space [OF inv refl room el view] by blast
  obtain q where q: "LIST_REMOVE (env_free_list s) e = Ret q" "list_rep q fs"
    using LIST_REMOVE_rep [of "env_free_list s" "[]" e fs] free by auto
  have first: "LIST_FIRST (env_free_list s) = Some e" using lists.first_rep [OF free] by simp
  let ?id = "fst (mkenvid s e)"
  obtain a s2 where a: "asid_alloc s = (0, Some a, s2)" "unat a = (LEAST n. n \<notin> asids (asid_bitmap s))" "unat a < NASID"
    "asid_bitmap_ok (asid_bitmap s2)" "asids (asid_bitmap s2) = insert (unat a) (asids (asid_bitmap s))"
    using asid.alloc_least [OF bm asid] by blast
  have alloc1: "asid_alloc t = (0, Some a, t\<lparr>asid_bitmap := asid_bitmap s2\<rparr>)" if "asid_bitmap t = asid_bitmap s" for t
    using a(1) that by (auto simp: asid_alloc_def split: option.splits)
  let ?v = "(envs s ! e)\<lparr>env_pgtable := p, env_runs := 0, env_id := ?id, env_asid := a, env_parent_id := i,
    env_tf := (env_tf (envs s ! e))\<lparr>tf_sstatus := SSTATUS_SPIE, tf_regs := (tf_regs (env_tf (envs s ! e)))[29 := USTACKTOP - 4 - 8]\<rparr>\<rparr>"
  have "env_alloc s i = Ret (0, Some e, s\<lparr>phys := self_link p k, envs := (envs s)[e := ?v],
      env_free_list := q, asid_bitmap := asid_bitmap s2, last_env := last_env s + 1\<rparr>)"
    using first e k(1) alloc1 q(1) el
    by (simp add: env_alloc_def env_pgtable_set_def upd_env_def mkenvid_def)
  then show thesis
    using that [where k = k and v = ?v and q = q and b = "asid_bitmap s2" and l = "last_env s + 1" and qs = qs] a k(2-) q(2) by (simp add: fresh_env_def)
qed

lemma elf_from_same:
  assumes "program_ok m binary size'" and "same_image m m' binary size'"
  shows "elf_from m' binary size' = binary"
  using program_okD(3) [OF assms(1)] same_image_headers(1) [OF assms] by (simp only: elf_from_def)

lemma load_icode_result:
  assumes ok: "program_ok m binary size'" and img: "same_image m (mem k) binary size'" and s: "phys s = self_link p k"
    and e: "e < length (envs s)" "env_pgtable (envs s ! e) = p"
    and space: "user_space k p ps (user_half g)" "reach user_paths (mem k) p"
    and low: "\<And>va. page_aligned va \<Longrightarrow> va < 0x80000000 \<Longrightarrow> g va = None"
    and room: "2054 + length (program_reqs m binary 0) \<le> length ps"
  obtains k' qs f where "load_icode s e binary size' = Ret (s\<lparr>phys := self_link p k',
      envs := (envs s)[e := (envs s ! e)\<lparr>env_tf := (env_tf (envs s ! e))\<lparr>tf_sepc := e_entry (load_ehdr m binary)\<rparr>\<rparr>]\<rparr>)"
    "counted user_paths p (card (nodes (mem k) {p}) + length ps - length (program_reqs m binary 0)) k' qs"
    "loaded p k ps (program_reqs m binary 0) f k' qs" "same_image m (mem k') binary size'"
proof -
  let ?h = "load_ehdr m binary" and ?rs = "program_reqs m binary 0" and ?n = "card (nodes (mem k) {p}) + length ps"
  note D = program_okD [OF ok]
  have pt: "pt_inv k {p} ps" using space(1) by (simp add: user_space_def)
  then have start: "counted user_paths p ?n k ps" using space(2) by (simp add: counted_def)
  have free: "\<forall>va\<in>fst ` set ?rs. translate (mem k) p va = None"
  proof
    fix va assume "va \<in> fst ` set ?rs"
    then have v: "page_aligned va" "va < 0x80000000" using program_reqs_ok [OF ok] by (force simp: req_ok_def)+
    then show "translate (mem k) p va = None"
      using space(1) low [OF v] user_va(3,4) [OF v(2)] by (simp add: user_space_def maps_as_def user_half_def)
  qed
  have n: "2053 + length ?rs < ?n" using room by simp
  obtain k' qs f where k': "load_phdrs (self_link p k) p binary 0 (e_phoff ?h + word_of_nat 0 * ucast (e_phentsize ?h)) = Ret (self_link p k')"
    "counted user_paths p (?n - length ?rs) k' qs" "loaded p k ps ?rs f k' qs" "same_image m (mem k') binary size'"
    using load_phdrs_loads [OF ok _ start img n D(5) free] by auto
  have pt': "pt_inv k' {p} qs" using k'(2) by (simp add: counted_def)
  note img1 = link_same_image [OF pt_root(1) [OF pt] D(2) img] and img2 = link_same_image [OF pt_root(1) [OF pt'] D(2) k'(4)]
  have eh: "load_ehdr (mem (self_link p k)) binary = ?h" "load_ehdr (mem (self_link p k')) binary = ?h"
    using same_image_headers(1) [OF ok img1] same_image_headers(1) [OF ok img2] by simp_all
  have "load_icode s e binary size' = Ret (upd_env (\<lambda>v. v\<lparr>env_tf := (env_tf v)\<lparr>tf_sepc := e_entry ?h\<rparr>\<rparr>) e (s\<lparr>phys := self_link p k'\<rparr>))"
    using k'(1) D(1) elf_from_same [OF ok img1] eh s e by (simp add: load_icode_def)
  then show thesis using that [OF _ k'(2,3,4)] by (simp add: upd_env_def)
qed

text \<open>The entries of the window are lost, those of the program are there, whatever happens outside the pages \<open>T\<close>.\<close>

definition owns_space :: "u64 set \<Rightarrow> mem \<Rightarrow> u64 \<Rightarrow> (u64 \<Rightarrow> u64 option) \<Rightarrow> mem \<Rightarrow> u64 \<Rightarrow> bool" where
  "owns_space T m0 binary g m p \<longleftrightarrow> (\<forall>m'. (\<forall>t\<in>T. \<forall>x. in_block x t 4096 \<longrightarrow> m' x = m x) \<longrightarrow>
     program_space m0 binary g m' p \<and> (\<forall>e<1024. translate m' p (ENVS (word_of_nat e)) = None))"

lemma env_create_result:
  assumes ok: "kernel_ok s g (p # ps) (e # fs) ts" and e: "e < NENV" and asid: "asids (asid_bitmap s) \<noteq> {..<NASID}"
    and prog: "program_ok (mem (phys s)) binary size'" and room: "3081 + length (program_reqs (mem (phys s)) binary 0) \<le> length ps"
  obtains s' v qs where "env_create s binary size' pri = Ret (e, s')" "kernel_ok s' g qs fs (e # ts)"
    "set qs \<subseteq> set ps" "length ps \<le> length qs + 3080 + length (program_reqs (mem (phys s)) binary 0)"
    "owns_space (set (p # ps) - set qs) (mem (phys s)) binary g (mem (phys s')) p"
    "\<And>x. \<forall>q\<in>set (p # ps). \<not> in_block x q 4096 \<Longrightarrow> mem (phys s') x = mem (phys s) x"
    "envs s' = (envs s)[e := v]" "fresh_env s e p 0 v" "env_pri v = pri" "env_status v = ENV_RUNNABLE"
    "tf_sepc (env_tf v) = e_entry (load_ehdr (mem (phys s)) binary)"
    "asids (asid_bitmap s') = insert (unat (env_asid v)) (asids (asid_bitmap s))"
    "kernel_pagetable s' = kernel_pagetable s" "curenv s' = curenv s" "slices s' = slices s" "satp s' = satp s"
    "sie s' = sie s" "nodes (mem (phys s')) {kernel_pagetable s} = nodes (mem (phys s)) {kernel_pagetable s}"
proof -
  let ?m = "mem (phys s)" and ?kr = "kernel_pagetable s"
  let ?rs = "program_reqs ?m binary 0"
  note D = program_okD [OF prog]
  have inv: "pt_inv (phys s) {?kr} (p # ps)" and view: "kernel_view g" "maps_as (phys s) ?kr g" and sched: "sched_inv s ts"
    using ok by (simp_all add: kernel_ok_def)
  have len: "length (envs s) = NENV" using sched by (simp add: sched_inv_def)
  have room1: "1027 \<le> length ps" using room by simp
  obtain k ps1 v q b l where a: "env_alloc s 0 = Ret (0, Some e, s\<lparr>phys := self_link p k, envs := (envs s)[e := v],
      env_free_list := q, asid_bitmap := b, last_env := l\<rparr>)"
    "fresh_env s e p 0 v" "list_rep q fs" "asid_bitmap_ok b" "asids b = insert (unat (env_asid v)) (asids (asid_bitmap s))"
    "user_space k p ps1 (user_half g)" "reach kernel_paths (mem k) p" "pt_inv (self_link p k) {?kr} ps1"
    "maps_as (self_link p k) ?kr g" "set ps1 \<subseteq> set ps" "length ps \<le> length ps1 + 1027"
    "nodes (mem k) {p} \<subseteq> set (p # ps)" "\<And>x. \<forall>q\<in>set (p # ps). \<not> in_block x q 4096 \<Longrightarrow> mem (self_link p k) x = ?m x"
    by (rule env_alloc_result [OF ok e room1 asid, where i = 0]) (rule that)
  have pt: "pt_inv k {p} ps1" using a(6) by (simp add: user_space_def)
  note p = pt_root [OF pt]
  have ram: "ram_page q" if "q \<in> set (p # ps)" for q using inv that by (auto simp: pt_inv_def kmem_inv_def)
  have low: "g va = None" if "page_aligned va" "va < 0x80000000" for va
    using view(1) that user_va(4) [OF that(2)] by (cases "g va") (auto simp: kernel_view_def not_le [symmetric])
  have img: "same_image ?m (mem k) binary size'"
    unfolding same_image_def
  proof (intro allI impI)
    fix j assume j: "j < unat size'"
    note out = kernel_image_out [OF image_in_kernel [OF D(2)] j]
    have "mem (self_link p k) (binary + word_of_nat j) = ?m (binary + word_of_nat j)" using a(13) out ram by blast
    then show "mem k (binary + word_of_nat j) = ?m (binary + word_of_nat j)"
      using link_other [OF p(2) out [OF p(1)], of k] by simp
  qed
  let ?v = "v\<lparr>env_pri := pri, env_status := ENV_RUNNABLE\<rparr>"
  let ?s = "s\<lparr>phys := self_link p k, envs := (envs s)[e := ?v], env_free_list := q, asid_bitmap := b, last_env := l\<rparr>"
  have el: "e < length (envs s)" using e len by simp
  have ev: "e < length (envs ?s)" "env_pgtable (envs ?s ! e) = p" using el a(2) by (simp_all add: fresh_env_def)
  have room2: "2054 + length ?rs \<le> length ps1" using room a(11) by simp
  have phys: "phys ?s = self_link p k" by simp
  obtain k' qs f where l: "load_icode ?s e binary size' = Ret (?s\<lparr>phys := self_link p k',
      envs := (envs ?s)[e := (envs ?s ! e)\<lparr>env_tf := (env_tf (envs ?s ! e))\<lparr>tf_sepc := e_entry (load_ehdr ?m binary)\<rparr>\<rparr>]\<rparr>)"
    "counted user_paths p (card (nodes (mem k) {p}) + length ps1 - length ?rs) k' qs" "loaded p k ps1 ?rs f k' qs"
    "same_image ?m (mem k') binary size'"
    by (rule load_icode_result [OF prog img phys ev a(6) reach_mono [OF a(7) kernel_paths_user] low room2]) (assumption | erule that)+
  have pt': "pt_inv k' {p} qs" and reach': "reach user_paths (mem k') p"
    and n': "card (nodes (mem k') {p}) + length qs = card (nodes (mem k) {p}) + length ps1 - length ?rs"
    using l(2) by (simp_all add: counted_def)
  let ?w = "?v\<lparr>env_tf := (env_tf ?v)\<lparr>tf_sepc := e_entry (load_ehdr ?m binary)\<rparr>\<rparr>"
  let ?s' = "s\<lparr>phys := self_link p k', envs := (envs s)[e := ?w], env_free_list := q, asid_bitmap := b, last_env := l,
    env_sched_list := TAILQ_INSERT_HEAD (env_sched_list s) e\<rparr>"
  have run: "env_create s binary size' pri = Ret (e, ?s')"
  proof -
    let ?t = "s\<lparr>phys := self_link p k, envs := (envs s)[e := v], env_free_list := q, asid_bitmap := b, last_env := l\<rparr>"
    have t: "upd_env (\<lambda>v. v\<lparr>env_status := ENV_RUNNABLE\<rparr>) e (upd_env (\<lambda>v. v\<lparr>env_pri := pri\<rparr>) e ?t) = ?s"
      using el by (simp add: upd_env_def)
    show ?thesis
      unfolding env_create_def a(1) andThen.simps Let_def prod.case option.case t l(1) using el by simp
  qed
  have sub: "set qs \<subseteq> set ps1" "nodes (mem k') {p} \<subseteq> set (p # ps)"
    using loadedD(7,8) [OF l(3)] a(10,12) by auto
  have K: "nodes (mem (phys s)) {?kr} \<inter> set (p # ps) = {}" "\<And>t. t \<in> nodes (mem (phys s)) {?kr} \<Longrightarrow> ram_page t"
    using inv by (auto simp: pt_inv_def tables_ok_def)
  have out: "mem (self_link p k') x = ?m x" if x: "\<forall>q\<in>set (p # ps). \<not> in_block x q 4096" for x
  proof -
    have "\<forall>q\<in>nodes (mem k) {p} \<union> set ps1. \<not> in_block x q 4096" "\<not> in_block x p 4096" using x a(10,12) by auto
    then have "mem k' x = mem k x" "mem (self_link p k') x = mem k' x" "mem (self_link p k) x = mem k x"
      using l(3) link_other [OF p(2)] unfolding loaded_def by simp_all
    then show ?thesis using a(13) [OF x] by simp
  qed
  have same: "untouched (phys s) (nodes (mem (phys s)) {?kr}) (self_link p k')"
    unfolding untouched_def
  proof (intro ballI allI impI)
    fix t x assume t: "t \<in> nodes (mem (phys s)) {?kr}" "in_block x t 4096"
    have "\<not> in_block x q 4096" if "q \<in> set (p # ps)" for q
      using page_disjoint [of t q x] t K that ram [OF that] ram_pageD(1) by blast
    then show "mem (self_link p k') x = ?m x" using out by blast
  qed
  have "kmem_inv (self_link p k') qs"
    using kmem_inv_frame [of k' qs p "mem (self_link p k')"] pt' link_other [OF p(2)] p(2) pt_root(3) [OF pt']
    by (simp add: pt_inv_def self_link_def)
  moreover have "set qs \<subseteq> set (p # ps)" using sub(1) a(10) by auto
  ultimately have kr: "pt_inv (self_link p k') {?kr} qs" "maps_as (self_link p k') ?kr g"
      "nodes (mem (self_link p k')) {?kr} = nodes (mem (phys s)) {?kr}"
    using tables_stay(1,2,3) [OF inv same, of qs] view(2) by simp_all
  have not_run: "env_status (envs s ! e) \<noteq> ENV_RUNNABLE" and "e \<notin> set fs"
    using ok e lists.rep_distinct [of "env_free_list s" "e # fs"] by (simp_all add: kernel_ok_def)
  then have "e \<notin> set ts" using sched by (simp add: sched_inv_def)
  then have tq: "tailq_rep (TAILQ_INSERT_HEAD (env_sched_list s) e) (e # ts)"
    using sched tailq.insert_head_rep by (simp add: sched_inv_def)
  have "sched_inv ?s' (e # ts)"
    using sched tq el e by (auto simp: sched_inv_def nth_list_update)
  moreover have "\<forall>i\<in>set fs. i < NENV \<longrightarrow> env_status (envs ?s' ! i) \<noteq> ENV_RUNNABLE"
  proof (intro ballI impI)
    fix i assume i: "i \<in> set fs" "i < NENV"
    then have "e \<noteq> i" using \<open>e \<notin> set fs\<close> by blast
    then show "env_status (envs ?s' ! i) \<noteq> ENV_RUNNABLE" using ok i by (simp add: kernel_ok_def)
  qed
  ultimately have "kernel_ok ?s' g qs fs (e # ts)" using kr a(3,4) view(1) by (simp add: kernel_ok_def)
  moreover have "length ps \<le> length qs + 3080 + length ?rs"
  proof -
    have "card (nodes (mem k') {p}) \<le> 2053" using reach_nodes(2) [OF reach' user_paths_card(1)] user_paths_card(2) by simp
    then show ?thesis using n' a(11) by linarith
  qed
  moreover have "owns_space (set (p # ps) - set qs) ?m binary g (mem (phys ?s')) p"
    unfolding owns_space_def
  proof (intro allI impI)
    fix m' assume "\<forall>t\<in>set (p # ps) - set qs. \<forall>x. in_block x t 4096 \<longrightarrow> m' x = mem (phys ?s') x"
    then have agree: "\<And>t x. t \<in> set (p # ps) - set qs \<Longrightarrow> in_block x t 4096 \<Longrightarrow> m' x = mem (self_link p k') x" by simp
    have nd: "nodes (mem k') {p} \<subseteq> set (p # ps) - set qs" using sub(2) pt' by (auto simp: pt_inv_def tables_ok_def)
    have fv: "f ` fst ` set ?rs \<subseteq> set (p # ps) - set qs" using loadedD(1,2) [OF l(3)] a(10) by fastforce
    have "\<forall>t\<in>nodes (mem k') {p} \<union> f ` fst ` set ?rs. \<forall>x. in_block x t 4096 \<longrightarrow> m' x = mem (self_link p k') x"
      using agree nd fv by blast
    then have "program_space ?m binary g m' p" by (rule program_in_place [OF prog a(6) view(1) l(3) pt' img])
    moreover have "translate m' p (ENVS (word_of_nat i)) = None" if "i < 1024" for i
      using link_window [OF pt' reach' ENVS_window [OF that]] agree nd pt_root(4) [OF pt'] by blast
    ultimately show "program_space ?m binary g m' p \<and> (\<forall>e<1024. translate m' p (ENVS (word_of_nat e)) = None)" by blast
  qed
  moreover have "mem (phys ?s') x = ?m x" if "\<forall>q\<in>set (p # ps). \<not> in_block x q 4096" for x using out [OF that] by simp
  moreover have "fresh_env s e p 0 ?w" using a(2) by (simp add: fresh_env_def)
  moreover have "set qs \<subseteq> set ps" using sub(1) a(10) by blast
  ultimately show thesis using that [OF run, of qs ?w] a(5) kr(3) by simp
qed

end
