(* ===== verification/Print.thy ===== *)
theory Print
  imports Prelude
begin

text \<open>
  lib/print.c and kern/printk.c: formatted output. The output callback is a function on a state of its
  own; a format is the list of its bytes without the terminating NUL, a string argument likewise.
  A number is printed into a buffer from its last digit to its first and the buffer then reversed,
  as in the source. Widths are unbounded, where C's \<open>int\<close> would overflow with undefined result.
\<close>

type_synonym 's sink = "u8 list \<Rightarrow> 's \<Rightarrow> 's"

text \<open>What is in a slot of the argument list.\<close>

datatype va = VNum u64 | VStr "u8 list"

section \<open>Characters and strings\<close>

fun out_times :: "'s sink \<Rightarrow> nat \<Rightarrow> u8 \<Rightarrow> 's \<Rightarrow> 's" where
  "out_times out 0 ch s = s"
| "out_times out (Suc n) ch s = out_times out n ch (out [ch] s)"

definition print_char :: "'s sink \<Rightarrow> u8 \<Rightarrow> nat \<Rightarrow> bool \<Rightarrow> 's \<Rightarrow> 's" where
  "print_char out c len ladjust s =
     (let len = (if len < 1 then 1 else len); space = 0x20 in
      if ladjust then out_times out (len - 1) space (out [c] s)
      else out [c] (out_times out (len - 1) space s))"

definition print_str :: "'s sink \<Rightarrow> u8 list \<Rightarrow> nat \<Rightarrow> bool \<Rightarrow> 's \<Rightarrow> 's" where
  "print_str out str width ladjust s =
     (let len = length str; width = (if width < len then len else width) in
      if ladjust then out_times out (width - len) 0x20 (out str s)
      else out str (out_times out (width - len) 0x20 s))"

section \<open>Numbers\<close>

definition digit_char :: "bool \<Rightarrow> u64 \<Rightarrow> u8" where
  "digit_char upcase tmp =
     (if tmp \<le> 9 then 0x30 + ucast tmp else if upcase then 0x41 + ucast tmp - 10 else 0x61 + ucast tmp - 10)"

text \<open>The \<open>do\<close> loop over the digits; \<open>p\<close> is the index of the next free byte. A base below 2, for which the
  loop would not end, is never used.\<close>

function put_digits :: "u64 \<Rightarrow> bool \<Rightarrow> u64 \<Rightarrow> u8 list \<Rightarrow> nat \<Rightarrow> u8 list \<times> nat" where
  "put_digits base upcase u buf p =
     (let tmp = u mod base; buf = buf[p := digit_char upcase tmp]; p = Suc p; u' = u div base in
      if u' \<noteq> 0 \<and> 2 \<le> base then put_digits base upcase u' buf p else (buf, p))"
  by pat_completeness auto
termination
proof (relation "measure (\<lambda>(base, upcase, u, buf, p). unat u)")
  fix base u :: u64 and upcase and buf :: "u8 list" and p and x and xa and xb and xc :: u64
  assume x: "xc = u div base" and step: "xc \<noteq> 0 \<and> 2 \<le> base"
  have "unat base \<ge> 2" using step by (simp add: word_le_nat_alt)
  moreover have "unat u \<noteq> 0" using x step by (intro notI) (simp add: word_unat_eq_iff unat_div)
  ultimately have "unat (u div base) < unat u" by (simp add: unat_div)
  then show "((base, upcase, xc, xa, xb), base, upcase, u, buf, p) \<in> measure (\<lambda>(base, upcase, u, buf, p). unat u)"
    using x by simp
qed simp

declare put_digits.simps [simp del]

text \<open>The loops \<open>for (i = lo; i < hi; i++) buf[i] = ch\<close> and the one that reverses the buffer.\<close>

fun fill_buf :: "u8 list \<Rightarrow> nat \<Rightarrow> nat \<Rightarrow> u8 \<Rightarrow> u8 list" where
  "fill_buf buf lo 0 ch = buf"
| "fill_buf buf lo (Suc n) ch = fill_buf (buf[lo := ch]) (Suc lo) n ch"

function swap_buf :: "u8 list \<Rightarrow> nat \<Rightarrow> nat \<Rightarrow> u8 list" where
  "swap_buf buf lo hi =
     (if hi > lo
      then (let tmp = buf ! lo; buf = buf[lo := buf ! hi]; buf = buf[hi := tmp]
            in swap_buf buf (Suc lo) (hi - 1))
      else buf)"
  by pat_completeness auto
termination by (relation "measure (\<lambda>(buf, lo, hi). hi - lo)") auto

declare swap_buf.simps [simp del]

definition print_num ::
    "'s sink \<Rightarrow> u64 \<Rightarrow> u64 \<Rightarrow> bool \<Rightarrow> nat \<Rightarrow> bool \<Rightarrow> u8 \<Rightarrow> bool \<Rightarrow> 's \<Rightarrow> 's" where
  "print_num out u base neg_flag width ladjust padc upcase s =
     (let (buf, p) = put_digits base upcase u (replicate (width + 70) 0) 0;
          (buf, p) = (if neg_flag then (buf[p := 0x2d], Suc p) else (buf, p));
          actualLength = p;
          width = (if width < actualLength then actualLength else width);
          padc = (if ladjust then 0x20 else padc);
          buf = (if neg_flag \<and> \<not> ladjust \<and> padc = 0x30
                 then (fill_buf buf (actualLength - 1) (width - actualLength) padc)[width - 1 := 0x2d]
                 else fill_buf buf actualLength (width - actualLength) padc);
          end = (if ladjust then actualLength - 1 else width - 1);
          buf = swap_buf buf 0 end
      in out (take width buf) s)"

section \<open>Formats\<close>

fun get_width :: "nat \<Rightarrow> u8 list \<Rightarrow> nat \<times> u8 list" where
  "get_width width [] = (width, [])"
| "get_width width (c # fmt) =
     (if 0x30 \<le> c \<and> c \<le> 0x39 then get_width (width * 10 + (unat c - 0x30)) fmt else (width, c # fmt))"

definition va_num :: "bool \<Rightarrow> va list \<Rightarrow> (u64 \<times> va list) outcome" where
  "va_num long_flag ap =
     (case ap of VNum n # ap \<Rightarrow> Ret (if long_flag then n else scast (ucast n :: u32), ap)
      | _ \<Rightarrow> Fault ''va_arg'')"

definition va_str :: "va list \<Rightarrow> (u8 list \<times> va list) outcome" where
  "va_str ap = (case ap of VStr str # ap \<Rightarrow> Ret (str, ap) | _ \<Rightarrow> Fault ''va_arg'')"

text \<open>A flag character at the head of the format, if it is there.\<close>

definition flag :: "u8 \<Rightarrow> u8 list \<Rightarrow> bool \<times> u8 list" where
  "flag ch fmt = (case fmt of c # fmt' \<Rightarrow> if c = ch then (True, fmt') else (False, fmt) | [] \<Rightarrow> (False, []))"

text \<open>The \<open>switch\<close> over the conversion.\<close>

definition convert :: "'s sink \<Rightarrow> u8 \<Rightarrow> bool \<Rightarrow> u8 \<Rightarrow> nat \<Rightarrow> bool \<Rightarrow> va list \<Rightarrow> 's \<Rightarrow> (va list \<times> 's) outcome" where
  "convert out c ladjust padc width long_flag ap s =
     (if c = 0x62
      then andThen (va_num long_flag ap) (\<lambda>(num, ap). Ret (ap, print_num out num 2 False width ladjust padc False s))
      else if c = 0x64 \<or> c = 0x44
      then andThen (va_num long_flag ap) (\<lambda>(num, ap).
             (let neg_flag = num <s 0; num = (if neg_flag then - num else num) in
              Ret (ap, print_num out num 10 neg_flag width ladjust padc False s)))
      else if c = 0x6f \<or> c = 0x4f
      then andThen (va_num long_flag ap) (\<lambda>(num, ap). Ret (ap, print_num out num 8 False width ladjust padc False s))
      else if c = 0x75 \<or> c = 0x55
      then andThen (va_num long_flag ap) (\<lambda>(num, ap). Ret (ap, print_num out num 10 False width ladjust padc False s))
      else if c = 0x78
      then andThen (va_num long_flag ap) (\<lambda>(num, ap). Ret (ap, print_num out num 16 False width ladjust padc False s))
      else if c = 0x58
      then andThen (va_num long_flag ap) (\<lambda>(num, ap). Ret (ap, print_num out num 16 False width ladjust padc True s))
      else if c = 0x63
      then andThen (va_num False ap) (\<lambda>(num, ap). Ret (ap, print_char out (ucast num) width ladjust s))
      else if c = 0x73
      then andThen (va_str ap) (\<lambda>(str, ap). Ret (ap, print_str out str width ladjust s))
      else Ret (ap, out [c] s))"

lemma get_width_length: "get_width w fmt = (w', fmt') \<Longrightarrow> length fmt' \<le> length fmt"
  by (induction w fmt rule: get_width.induct) (auto split: if_splits)

lemma flag_length: "flag ch fmt = (b, fmt') \<Longrightarrow> length fmt' \<le> length fmt"
  by (auto simp: flag_def split: list.splits if_splits)

function vprintfmt :: "'s sink \<Rightarrow> u8 list \<Rightarrow> va list \<Rightarrow> 's \<Rightarrow> 's outcome" where
  "vprintfmt out [] ap s = Ret s"
| "vprintfmt out (c # fmt) ap s =
     (if c \<noteq> 0x25 then vprintfmt out fmt ap (out [c] s)
      else if fmt = [] then Ret s
      else (case flag 0x2d fmt of (ladjust, fmt) \<Rightarrow>
            case flag 0x30 fmt of (zero, fmt) \<Rightarrow>
            case get_width 0 fmt of (width, fmt) \<Rightarrow>
            case flag 0x6c fmt of (long_flag, fmt) \<Rightarrow>
            case fmt of
              [] \<Rightarrow> Ret s
            | c # fmt \<Rightarrow>
                andThen (convert out c ladjust (if zero then 0x30 else 0x20) width long_flag ap s) (\<lambda>(ap, s).
                  vprintfmt out fmt ap s)))"
  by pat_completeness auto
termination
  by (relation "measure (\<lambda>(out, fmt, ap, s). length fmt)")
    (auto dest!: get_width_length [OF sym] flag_length [OF sym])

section \<open>The console\<close>

text \<open>\<open>printcharc\<close> (kern/machine.c) sends one byte to the firmware, and a carriage return before a line feed.
  The state is the list of bytes sent.\<close>

function printcharc :: "u8 \<Rightarrow> u8 list \<Rightarrow> u8 list" where
  "printcharc ch con = (let con = (if ch = 0x0a then printcharc 0x0d con else con) in con @ [ch])"
  by pat_completeness auto
termination by (relation "measure (\<lambda>(ch, con). if ch = 0x0a then 1 else 0)") auto

declare printcharc.simps [simp del]

definition outputk :: "u8 list sink" where
  "outputk buf con = foldl (\<lambda>con ch. printcharc ch con) con buf"

definition printk :: "u8 list \<Rightarrow> va list \<Rightarrow> u8 list \<Rightarrow> u8 list outcome" where
  "printk fmt ap con = vprintfmt outputk fmt ap con"

text \<open>The bytes of a string literal.\<close>

definition ascii :: "string \<Rightarrow> u8 list" where
  "ascii str = map of_char str"

text \<open>What \<open>panic\<close> prints before it spins for ever; the message is used as a format.\<close>

definition panic_print :: "u8 list \<Rightarrow> u8 list \<Rightarrow> u8 list outcome" where
  "panic_print msg con =
     andThen (printk (ascii ''panic: '') [] con) (\<lambda>con.
     andThen (printk msg [] con) (\<lambda>con. printk [0x0a] [] con))"

section \<open>The text of a number\<close>

text \<open>The digits of a number, the last one first, and the text with its sign and padding.\<close>

function num_digits :: "u64 \<Rightarrow> bool \<Rightarrow> u64 \<Rightarrow> u8 list" where
  "num_digits base upcase u = digit_char upcase (u mod base) #
     (if u div base \<noteq> 0 \<and> 2 \<le> base then num_digits base upcase (u div base) else [])"
  by pat_completeness auto
termination
proof (relation "measure (\<lambda>(base, upcase, u). unat u)")
  fix base u :: u64 and upcase
  assume step: "u div base \<noteq> 0 \<and> 2 \<le> base"
  have "unat base \<ge> 2" using step by (simp add: word_le_nat_alt)
  moreover have "unat u \<noteq> 0" using step by (intro notI) (simp add: word_unat_eq_iff unat_div)
  ultimately have "unat (u div base) < unat u" by (simp add: unat_div)
  then show "((base, upcase, u div base), base, upcase, u) \<in> measure (\<lambda>(base, upcase, u). unat u)" by simp
qed simp

declare num_digits.simps [simp del]

definition num_text :: "u64 \<Rightarrow> u64 \<Rightarrow> bool \<Rightarrow> nat \<Rightarrow> bool \<Rightarrow> u8 \<Rightarrow> bool \<Rightarrow> u8 list" where
  "num_text u base neg width ladjust padc upcase =
     (let ds = rev (num_digits base upcase u); sign = (if neg then [0x2d] else []);
          pad = width - (length ds + length sign) in
      if ladjust then sign @ ds @ replicate pad 0x20
      else if neg \<and> padc = 0x30 then sign @ replicate pad 0x30 @ ds
      else replicate pad padc @ sign @ ds)"

lemma num_digits_nonempty: "num_digits base upcase u \<noteq> []"
  by (subst num_digits.simps) simp

text \<open>At most 64 digits: the buffer, 70 bytes longer than the width, is never overrun.\<close>

lemma num_digits_length: "unat u < 2 ^ Suc n \<Longrightarrow> length (num_digits base upcase u) \<le> Suc n"
proof (induction n arbitrary: u)
  case 0
  have "u div base = 0 \<or> \<not> 2 \<le> base"
    using 0 by (auto simp: word_unat_eq_iff unat_div word_le_nat_alt div_eq_0_iff)
  then show ?case by (subst num_digits.simps) auto
next
  case (Suc n)
  show ?case
  proof (cases "u div base \<noteq> 0 \<and> 2 \<le> base")
    case True
    then have "unat u div unat base \<le> unat u div 2" by (simp add: word_le_nat_alt div_le_mono2)
    then have "unat (u div base) < 2 ^ Suc n" using Suc.prems by (simp add: unat_div)
    from Suc.IH [OF this] show ?thesis by (subst num_digits.simps) simp
  next
    case False
    then show ?thesis by (subst num_digits.simps) auto
  qed
qed

lemma num_digits_64: "length (num_digits base upcase u) \<le> 64"
  using num_digits_length [of u 63] unat_lt_64 [of u] by simp

section \<open>The buffer holds the text\<close>

text \<open>Each loop overwrites one stretch of the buffer.\<close>

lemma put_digits_buf:
  "length ys = length (num_digits base upcase u) \<Longrightarrow>
   put_digits base upcase u (xs @ ys @ zs) (length xs) =
     (xs @ num_digits base upcase u @ zs, length xs + length (num_digits base upcase u))"
proof (induction base upcase u arbitrary: xs ys rule: num_digits.induct)
  case (1 base upcase u)
  then obtain y ys' where ys: "ys = y # ys'"
    using num_digits_nonempty [of base upcase u] by (cases ys) auto
  let ?d = "digit_char upcase (u mod base)"
  show ?case
  proof (cases "u div base \<noteq> 0 \<and> 2 \<le> base")
    case True
    then have ds: "num_digits base upcase u = ?d # num_digits base upcase (u div base)"
      by (subst num_digits.simps) simp
    then have "length ys' = length (num_digits base upcase (u div base))" using "1.prems" ys by simp
    from "1.IH" [OF True this, of "xs @ [?d]"] show ?thesis
      using True ys ds by (simp add: put_digits.simps [of base upcase u] list_update_append)
  next
    case False
    then have ds: "num_digits base upcase u = [?d]" by (subst num_digits.simps) auto
    with False show ?thesis using "1.prems" ys
      by (auto simp: put_digits.simps [of base upcase u] list_update_append Let_def)
  qed
qed

lemma fill_buf_replicate:
  "length ys = n \<Longrightarrow> fill_buf (xs @ ys @ zs) (length xs) n ch = xs @ replicate n ch @ zs"
proof (induction n arbitrary: xs ys)
  case (Suc n)
  then obtain y ys' where ys: "ys = y # ys'" by (cases ys) auto
  then show ?case using Suc.IH [of ys' "xs @ [ch]"] Suc.prems by (simp add: list_update_append)
qed simp

lemma swap_buf_rev:
  "swap_buf (xs @ ys @ zs) (length xs) (length xs + length ys - 1) = xs @ rev ys @ zs"
proof (induction "length ys" arbitrary: xs ys zs rule: less_induct)
  case less
  show ?case
  proof (cases "length ys \<le> 1")
    case True
    then have "ys = [] \<or> (\<exists>y. ys = [y])" by (cases ys) auto
    then show ?thesis by (auto simp: swap_buf.simps)
  next
    case False
    then obtain y ws z where ys: "ys = y # ws @ [z]"
      by (cases ys; cases "tl ys" rule: rev_cases) auto
    have "swap_buf (xs @ ys @ zs) (length xs) (length xs + length ys - 1) =
        swap_buf ((xs @ [z]) @ ws @ (y # zs)) (length (xs @ [z])) (length (xs @ [z]) + length ws - 1)"
      by (subst swap_buf.simps) (simp add: ys nth_append list_update_append Let_def)
    also have "\<dots> = (xs @ [z]) @ rev ws @ (y # zs)" by (rule less) (simp add: ys)
    finally show ?thesis by (simp add: ys)
  qed
qed

lemma print_num_text:
  "print_num out u base neg width ladjust padc upcase s =
     out (num_text u base neg width ladjust padc upcase) s"
proof -
  define ds where "ds = num_digits base upcase u"
  define sign where "sign = (if neg then [0x2d] else [] :: u8 list)"
  define n where "n = length ds + length sign"
  define pad where "pad = width - n"
  define padc' where "padc' = (if ladjust then 0x20 else padc)"
  have len: "length ds \<le> 64" "length ds \<noteq> 0"
    using num_digits_64 num_digits_nonempty by (auto simp: ds_def)
  define rest where "rest = replicate (width + 70 - (n + pad)) (0 :: u8)"
  have room: "width + 70 = length ds + (length sign + (pad + length rest))" "n \<le> width + 70"
    using len by (auto simp: n_def pad_def rest_def sign_def)
  have zeros: "replicate (width + 70) (0 :: u8) = [] @ replicate (length ds) 0 @ replicate (length sign) 0 @ replicate pad 0 @ rest"
    unfolding room(1) replicate_add by (simp add: rest_def)
  have digits: "put_digits base upcase u (replicate (width + 70) 0) 0 =
      (ds @ replicate (length sign) 0 @ replicate pad 0 @ rest, length ds)"
    unfolding zeros using put_digits_buf [of "replicate (length ds) 0" base upcase u "[]"] by (simp add: ds_def)
  have sgn: "(if neg then (buf[length ds := 0x2d], Suc (length ds)) else (buf, length ds)) =
      (ds @ sign @ replicate pad 0 @ rest, n)"
    if "buf = ds @ replicate (length sign) 0 @ replicate pad 0 @ rest" for buf
    using that by (simp add: sign_def n_def list_update_append)
  have w: "(if width < n then n else width) = n + pad" "(n + pad) - n = pad" by (auto simp: pad_def)
  have shape: "num_text u base neg width ladjust padc upcase =
      (if ladjust then sign @ rev ds @ replicate pad 0x20
       else if neg \<and> padc = 0x30 then sign @ replicate pad 0x30 @ rev ds
       else replicate pad padc @ sign @ rev ds)"
    by (simp add: num_text_def Let_def ds_def sign_def n_def pad_def)
  have whole: "print_num out u base neg width ladjust padc upcase s =
      (let buf = ds @ sign @ replicate pad 0 @ rest;
           buf = (if neg \<and> \<not> ladjust \<and> padc' = 0x30
                  then (fill_buf buf (n - 1) pad padc')[n + pad - 1 := 0x2d]
                  else fill_buf buf n pad padc')
       in out (take (n + pad) (swap_buf buf 0 (if ladjust then n - 1 else n + pad - 1))) s)"
    unfolding print_num_def digits Let_def prod.case sgn [OF refl] w padc'_def by simp
  have plain: "fill_buf (ds @ sign @ replicate pad 0 @ rest) n pad padc' = (ds @ sign) @ replicate pad padc' @ rest"
    using fill_buf_replicate [of "replicate pad 0" pad "ds @ sign" rest padc'] by (simp add: n_def)
  show ?thesis
  proof (cases "neg \<and> \<not> ladjust \<and> padc' = 0x30")
    case True
    then have sign: "sign = [0x2d]" and padc: "padc' = padc" and n: "n - 1 = length ds" "n + pad - 1 = length ds + pad"
      by (simp_all add: sign_def padc'_def n_def)
    have split: "sign @ replicate pad 0 @ rest = (0x2d # replicate pad 0) @ rest" by (simp add: sign)
    obtain first where first: "fill_buf (ds @ sign @ replicate pad 0 @ rest) (n - 1) pad padc' = ds @ replicate pad padc' @ first # rest"
    proof -
      have "\<exists>ys y. 0x2d # replicate pad 0 = ys @ [y] \<and> length ys = pad"
        by (metis append_butlast_last_id length_Cons length_append_singleton length_replicate list.distinct(1) nat.inject)
      then obtain ys y where "0x2d # replicate pad (0 :: u8) = ys @ [y]" "length ys = pad" by blast
      then show thesis
        using that [of y] fill_buf_replicate [of ys pad ds "y # rest" padc'] unfolding split n by simp
    qed
    have "(ds @ replicate pad padc' @ first # rest)[length ds + pad := 0x2d] = (ds @ replicate pad padc' @ [0x2d]) @ rest"
      by (simp add: list_update_append)
    moreover have "swap_buf ((ds @ replicate pad padc' @ [0x2d]) @ rest) 0 (length ds + pad) =
        (0x2d # replicate pad padc' @ rev ds) @ rest"
      using swap_buf_rev [of "[]" "ds @ replicate pad padc' @ [0x2d]" rest] by simp
    ultimately show ?thesis
      using True sign padc n first unfolding whole shape Let_def
      by (simp add: n_def)
  next
    case no: False
    have "swap_buf ((ds @ sign) @ replicate pad padc' @ rest) 0 (n - 1) = (rev (ds @ sign)) @ replicate pad padc' @ rest"
      using swap_buf_rev [of "[]" "ds @ sign" "replicate pad padc' @ rest"] by (simp add: n_def)
    moreover have "swap_buf ((ds @ sign) @ replicate pad padc' @ rest) 0 (n + pad - 1) =
        (replicate pad padc' @ rev (ds @ sign)) @ rest"
      using swap_buf_rev [of "[]" "ds @ sign @ replicate pad padc'" rest] by (simp add: n_def add.assoc)
    moreover have "rev sign = sign" by (simp add: sign_def)
    ultimately show ?thesis
      using no unfolding whole shape Let_def if_not_P [OF no] plain
      by (auto simp: n_def padc'_def)
  qed
qed

section \<open>Reading the text back\<close>

definition digit_value :: "u8 \<Rightarrow> nat" where
  "digit_value c =
     (if c \<le> 0x39 then unat c - 0x30 else if c \<le> 0x5a then unat c - 0x41 + 10 else unat c - 0x61 + 10)"

fun read_nat :: "nat \<Rightarrow> nat \<Rightarrow> u8 list \<Rightarrow> nat" where
  "read_nat base acc [] = acc"
| "read_nat base acc (c # cs) = read_nat base (acc * base + digit_value c) cs"

lemma read_nat_append: "read_nat base acc (cs @ ds) = read_nat base (read_nat base acc cs) ds"
  by (induction cs arbitrary: acc) auto

lemma read_nat_zeros: "read_nat base 0 (replicate n 0x30) = 0"
  by (induction n) (simp_all add: digit_value_def)

lemma nibble:
  assumes "(tmp :: u64) < 16"
  shows "tmp \<in> {0, 1, 2, 3, 4, 5, 6, 7, 8, 9, 10, 11, 12, 13, 14, 15}"
proof -
  have "unat tmp < 16" using assms by (simp add: word_less_nat_alt)
  then have "tmp \<in> word_of_nat ` {..<16}" by (intro image_eqI [of _ _ "unat tmp"]) auto
  then show ?thesis by (simp add: lessThan_nat_numeral lessThan_Suc) blast
qed

lemma digit_value_char: "tmp < 16 \<Longrightarrow> digit_value (digit_char upcase tmp) = unat tmp"
  using nibble [of tmp] by (auto simp: digit_char_def digit_value_def)

lemma mod_nibble: "2 \<le> base \<Longrightarrow> base \<le> 16 \<Longrightarrow> (u :: u64) mod base < 16"
  using word_mod_less_divisor [of base u] by (auto simp: word_le_nat_alt word_less_nat_alt)

lemma read_num_digits:
  "2 \<le> base \<Longrightarrow> base \<le> 16 \<Longrightarrow>
   read_nat (unat base) 0 (rev (num_digits base upcase u)) = unat u"
proof (induction base upcase u rule: num_digits.induct)
  case (1 base upcase u)
  have d: "digit_value (digit_char upcase (u mod base)) = unat u mod unat base"
    using mod_nibble [OF "1.prems"] by (simp add: digit_value_char unat_mod)
  show ?case
  proof (cases "u div base \<noteq> 0")
    case True
    then have "read_nat (unat base) 0 (rev (num_digits base upcase (u div base))) = unat u div unat base"
      using "1.IH" "1.prems" by (simp add: unat_div)
    then show ?thesis
      using True "1.prems" d by (subst num_digits.simps) (simp add: read_nat_append)
  next
    case False
    then have "unat u div unat base = 0" by (simp add: word_unat_eq_iff unat_div)
    then show ?thesis
      using False d div_mult_mod_eq [of "unat u" "unat base"] by (subst num_digits.simps) simp
  qed
qed

lemma digit_char_range: "tmp < 16 \<Longrightarrow> 0x30 \<le> digit_char upcase tmp"
  using nibble [of tmp] by (auto simp: digit_char_def)

text \<open>The digits are digits: no padding and no sign is read as one.\<close>

lemma num_digits_range: "2 \<le> base \<Longrightarrow> base \<le> 16 \<Longrightarrow> c \<in> set (num_digits base upcase u) \<Longrightarrow> 0x30 \<le> c"
proof (induction base upcase u rule: num_digits.induct)
  case (1 base upcase u)
  have "0x30 \<le> digit_char upcase (u mod base)"
    using mod_nibble [OF "1.prems"(1,2)] by (rule digit_char_range)
  then show ?case
    using 1 num_digits.simps [of base upcase u] by (auto split: if_splits)
qed

text \<open>A reader of signed decimal numbers with leading spaces or zeros.\<close>

fun read_int :: "u8 list \<Rightarrow> int" where
  "read_int [] = 0"
| "read_int (c # cs) =
     (if c = 0x20 then read_int cs
      else if c = 0x2d then - int (read_nat 10 0 cs)
      else int (read_nat 10 0 (c # cs)))"

lemma read_int_spaces: "read_int (replicate n 0x20 @ cs) = read_int cs"
  by (induction n) auto

lemma uint_lt_64: "uint (n :: u64) < 18446744073709551616"
  using unsigned_less [of n, where ?'a = int] by simp

lemma sint_split: "sint (n :: u64) = int (unat n) - 2 ^ 64 * of_bool (bit n 63)"
proof -
  have "sint n = take_bit (Suc 63) (uint n) - 2 ^ Suc 63 * of_bool (bit (uint n) 63)"
    by (simp only: sint_uint signed_take_bit_eq_take_bit_minus) simp
  moreover have "take_bit 64 (uint n) = uint n"
    using uint_lt_64 [of n] by (simp add: take_bit_int_eq_self)
  ultimately show ?thesis by (simp add: bit_uint_iff)
qed

lemma magnitude:
  fixes n :: u64
  shows "int (unat (if n <s 0 then - n else n)) = \<bar>sint n\<bar>" and "n <s 0 \<longleftrightarrow> sint n < 0"
proof -
  show neg: "n <s 0 \<longleftrightarrow> sint n < 0" by (simp add: word_sless_alt)
  have "int (unat n) < 2 ^ 64" using uint_lt_64 [of n] by simp
  then have "sint n < 0 \<longleftrightarrow> bit n 63" by (simp add: sint_split)
  moreover have "int (unat (- n)) = 2 ^ 64 - int (unat n)" if "bit n 63"
  proof -
    have "n \<noteq> 0" using that by auto
    then have "unat (- n) = 2 ^ 64 - unat n"
      using unat_sub_wrap [of n 0] by (simp add: word_le_nat_alt unat_eq_zero)
    then show ?thesis using unat_lt_64 [of n] by (simp add: of_nat_diff)
  qed
  ultimately show "int (unat (if n <s 0 then - n else n)) = \<bar>sint n\<bar>"
    using uint_lt_64 [of n] unfolding neg by (simp add: sint_split)
qed

text \<open>A number printed by \<open>%d\<close> reads back as itself, whatever the width and the padding.\<close>

lemma read_int_num_text:
  assumes "padc = 0x20 \<or> padc = 0x30"
  shows "read_int (num_text (if n <s 0 then - n else n) 10 (n <s 0) width False padc False) = sint n"
proof -
  let ?ds = "rev (num_digits 10 False (if n <s 0 then - n else n))"
  have ds: "read_nat 10 0 ?ds = unat (if n <s 0 then - n else n)"
    using read_num_digits [of 10] by simp
  have ten: "read_nat 10 0 (replicate k 0x30 @ ?ds) = unat (if n <s 0 then - n else n)" for k
    by (simp add: read_nat_append read_nat_zeros ds)
  obtain c cs where c: "?ds = c # cs" by (cases ?ds) (auto simp: num_digits_nonempty)
  then have "c \<in> set (num_digits 10 False (if n <s 0 then - n else n))" by (metis list.set_intros(1) set_rev)
  then have "0x30 \<le> c" by (rule num_digits_range [rotated 2]) (simp_all add: word_le_nat_alt)
  then have c_digit: "c \<noteq> 0x20" "c \<noteq> 0x2d" by auto
  have plain: "read_int (replicate k 0x30 @ ?ds) = int (unat (if n <s 0 then - n else n))" for k
  proof (cases k)
    case 0
    then show ?thesis using c c_digit ds by simp
  next
    case (Suc j)
    then show ?thesis using ten [of k] by simp
  qed
  have "n <s 0 \<Longrightarrow> sint n = - int (unat (- n))" "\<not> n <s 0 \<Longrightarrow> sint n = int (unat n)"
    using magnitude [of n] by (simp_all split: if_splits)
  then show ?thesis
    using assms ten [of "width - Suc (length ?ds)"] plain [of 0] plain [of "width - length ?ds"] ds
    by (auto simp: num_text_def Let_def read_int_spaces)
qed

section \<open>Any sink\<close>

text \<open>The text a format produces: its output to a sink that collects the bytes.\<close>

definition plain_out :: "u8 list sink" where
  "plain_out bs s = s @ bs"

definition format_text :: "u8 list \<Rightarrow> va list \<Rightarrow> u8 list outcome" where
  "format_text fmt ap = vprintfmt plain_out fmt ap []"

text \<open>What a callback must do for the output to be a text: every call appends an encoding of its bytes
  that does not depend on how they are split into calls. Then \<open>vprintfmt\<close> writes the encoding of the
  format's text, whatever the state of the sink.\<close>

locale fmt_callback =
  fixes out :: "'s sink" and written :: "'s \<Rightarrow> u8 list" and enc :: "u8 list \<Rightarrow> u8 list"
  assumes written_out: "written (out bs s) = written s @ enc bs"
    and enc_append: "enc (as @ bs) = enc as @ enc bs"
begin

lemma enc_Nil: "enc [] = []"
  using enc_append [of "[]" "[]"] by simp

lemma out_rel: "written s = w @ enc p \<Longrightarrow> written (out bs s) = w @ enc (plain_out bs p)"
  by (simp add: written_out plain_out_def enc_append)

lemma out_times_rel:
  "written s = w @ enc p \<Longrightarrow> written (out_times out n ch s) = w @ enc (out_times plain_out n ch p)"
  by (induction n arbitrary: s p) (simp_all add: out_rel)

lemma print_rel:
  assumes "written s = w @ enc p"
  shows "written (print_char out c len ladjust s) = w @ enc (print_char plain_out c len ladjust p)"
    and "written (print_str out str len ladjust s) = w @ enc (print_str plain_out str len ladjust p)"
    and "written (print_num out u base neg len ladjust padc up s) =
      w @ enc (print_num plain_out u base neg len ladjust padc up p)"
  using assms by (simp_all add: print_char_def print_str_def print_num_text Let_def out_rel out_times_rel)

lemma convert_rel:
  assumes "written s = w @ enc p"
  shows "map_outcome (map_prod id written) (convert out c ladjust padc width long_flag ap s) =
    map_outcome (map_prod id (\<lambda>p. w @ enc p)) (convert plain_out c ladjust padc width long_flag ap p)"
proof -
  have num: "map_outcome (map_prod id written) (andThen (va_num b ap) (\<lambda>(num, ap). Ret (ap, f num))) =
      map_outcome (map_prod id (\<lambda>p. w @ enc p)) (andThen (va_num b ap) (\<lambda>(num, ap). Ret (ap, g num)))"
    if "\<And>num. written (f num) = w @ enc (g num)" for b f g
    using that by (cases "va_num b ap") auto
  have str: "map_outcome (map_prod id written) (andThen (va_str ap) (\<lambda>(num, ap). Ret (ap, f num))) =
      map_outcome (map_prod id (\<lambda>p. w @ enc p)) (andThen (va_str ap) (\<lambda>(num, ap). Ret (ap, g num)))"
    if "\<And>num. written (f num) = w @ enc (g num)" for f g
    using that by (cases "va_str ap") auto
  show ?thesis
    unfolding convert_def Let_def if_distrib [where f = "map_outcome (map_prod id written)"]
      if_distrib [where f = "map_outcome (map_prod id (\<lambda>p. w @ enc p))"]
    by (intro if_cong refl num str) (simp_all add: assms print_rel out_rel)
qed

lemma vprintfmt_rel:
  "written s = w @ enc p \<Longrightarrow>
   map_outcome written (vprintfmt out fmt ap s) = map_outcome (\<lambda>p. w @ enc p) (vprintfmt plain_out fmt ap p)"
proof (induction plain_out fmt ap p arbitrary: s rule: vprintfmt.induct)
  case (2 c fmt ap p)
  obtain ladjust f1 where f1: "flag 0x2d fmt = (ladjust, f1)" by (cases "flag 0x2d fmt")
  obtain zero f2 where f2: "flag 0x30 f1 = (zero, f2)" by (cases "flag 0x30 f1")
  obtain width f3 where f3: "get_width 0 f2 = (width, f3)" by (cases "get_width 0 f2")
  obtain lng f4 where f4: "flag 0x6c f3 = (lng, f4)" by (cases "flag 0x6c f3")
  show ?case
  proof (cases "c \<noteq> 0x25 \<or> fmt = [] \<or> f4 = []")
    case True
    then show ?thesis
      using 2 f1 f2 f3 f4 out_rel [OF "2.prems"] by auto
  next
    case False
    then obtain c' f5 where f5: "f4 = c' # f5" by (cases f4) auto
    let ?conv = "\<lambda>o' s. convert o' c' ladjust (if zero then 0x30 else 0x20) width lng ap s"
    have rel: "map_outcome (map_prod id written) (?conv out s) = map_outcome (map_prod id (\<lambda>p. w @ enc p)) (?conv plain_out p)"
      by (rule convert_rel [OF "2.prems"])
    show ?thesis
    proof (cases "?conv plain_out p")
      case (Ret x)
      obtain ap' p' where x: "x = (ap', p')" by (cases x)
      then obtain s' where s': "?conv out s = Ret (ap', s')" "written s' = w @ enc p'"
        using rel Ret by (cases "?conv out s") auto
      have "map_outcome written (vprintfmt out f5 ap' s') = map_outcome (\<lambda>p. w @ enc p) (vprintfmt plain_out f5 ap' p')"
        using 2(2) [of ladjust f1 zero f2 width f3 lng f4 c' f5 "(ap', p')" ap' p' s'] False f1 f2 f3 f4 f5 Ret x s' by simp
      then show ?thesis using False f1 f2 f3 f4 f5 Ret x s'(1) by simp
    qed (use rel False f1 f2 f3 f4 f5 in \<open>cases "?conv out s"; simp\<close>)+
  qed
qed simp

lemma vprintfmt_written:
  "map_outcome written (vprintfmt out fmt ap s) = map_outcome (\<lambda>t. written s @ enc t) (format_text fmt ap)"
  unfolding format_text_def by (rule vprintfmt_rel) (simp add: enc_Nil)

end

text \<open>The bytes a console receives for a text.\<close>

definition crlf :: "u8 list \<Rightarrow> u8 list" where
  "crlf bs = concat (map (\<lambda>c. if c = 0x0a then [0x0d, 0x0a] else [c]) bs)"

lemma printcharc_other: "ch \<noteq> 0x0a \<Longrightarrow> printcharc ch con = con @ [ch]"
  by (subst printcharc.simps) (simp only: Let_def if_False)

lemma printcharc_crlf: "printcharc ch con = con @ crlf [ch]"
proof (cases "ch = 0x0a")
  case True
  then have "printcharc ch con = printcharc 0x0d con @ [ch]"
    by (subst printcharc.simps) (simp only: Let_def simp_thms if_True)
  then show ?thesis using True by (simp add: printcharc_other crlf_def)
qed (simp add: printcharc_other crlf_def)

lemma console_append: "crlf (as @ bs) = crlf as @ crlf bs"
  by (simp add: crlf_def)

lemma outputk_crlf: "outputk bs con = con @ crlf bs"
proof (induction bs arbitrary: con)
  case (Cons b bs)
  then show ?case using console_append [of "[b]" bs] by (simp add: outputk_def printcharc_crlf)
qed (simp add: outputk_def crlf_def)

interpretation console: fmt_callback outputk "\<lambda>con. con" crlf
  by unfold_locales (simp_all add: outputk_crlf console_append)

end
