(* ===== verification/Trap.thy ===== *)
theory Trap
  imports Sched Print
begin

text \<open>
  kern/kexcentry.S, kern/genex.S, kern/env_asm.S and kern/traps.c: how a trap saves the registers, which
  handler it reaches, and how a frame is restored. A hart is its 32 registers, the control
  registers the code uses, and memory; the macros \<open>SAVE_ALL\<close> and \<open>RESTORE_ALL\<close> are functions on it.
\<close>

section \<open>Saving and restoring\<close>

record hart =
  xr :: "nat \<Rightarrow> u64"
  sscratch :: u64
  sstatus :: u64
  sepc :: u64
  stval :: u64
  scause :: u64
  stvec :: u64
  hmem :: mem

abbreviation (input) sp_reg :: nat where "sp_reg \<equiv> 2"

definition slot :: "u64 \<Rightarrow> nat \<Rightarrow> u64" where
  "slot base offset = base + word_of_nat (8 * offset)"

text \<open>The macros \<open>STORE reg, offset\<close> and \<open>LOAD reg, offset\<close>, relative to \<open>sp\<close>.\<close>

definition STORE :: "nat \<Rightarrow> nat \<Rightarrow> hart \<Rightarrow> hart" where
  "STORE reg offset h = h\<lparr>hmem := store64 (hmem h) (slot (xr h sp_reg) offset) (xr h reg)\<rparr>"

definition LOAD :: "nat \<Rightarrow> nat \<Rightarrow> hart \<Rightarrow> hart" where
  "LOAD reg offset h = h\<lparr>xr := (xr h)(reg := load64 (hmem h) (slot (xr h sp_reg) offset))\<rparr>"

definition saved_regs :: "nat list" where
  "saved_regs = 1 # [3..<32]"

text \<open>The three parts of \<open>SAVE_ALL\<close>: finding the frame (a trap from the kernel, with \<open>sscratch\<close> 0, stays on its
  stack), storing the registers, reading and storing the control registers.\<close>

definition save_sp :: "hart \<Rightarrow> hart" where
  "save_sp h =
     (let h = h\<lparr>xr := (xr h)(2 := sscratch h), sscratch := xr h 2\<rparr>;
          h = (if xr h 2 \<noteq> 0 then h else h\<lparr>xr := (xr h)(2 := sscratch h)\<rparr>)
      in h\<lparr>xr := (xr h)(2 := xr h 2 - 36 * 8)\<rparr>)"

definition save_csrs :: "hart \<Rightarrow> hart" where
  "save_csrs h =
     (let h = h\<lparr>xr := (xr h)(8 := sscratch h), sscratch := 0\<rparr>;
          h = h\<lparr>xr := (xr h)(9 := sstatus h, 18 := sepc h, 19 := stval h, 20 := scause h)\<rparr>
      in STORE 20 35 (STORE 19 34 (STORE 18 33 (STORE 9 32 (STORE 8 2 h)))))"

definition SAVE_ALL :: "hart \<Rightarrow> hart" where
  "SAVE_ALL h = save_csrs (foldl (\<lambda>h r. STORE r r h) (save_sp h) saved_regs)"

definition RESTORE_ALL :: "hart \<Rightarrow> hart" where
  "RESTORE_ALL h =
     (let h = LOAD 18 33 h; h = LOAD 9 32 h;
          h = h\<lparr>xr := (xr h)(8 := xr h 9 AND push_bit 8 1)\<rparr>;
          h = (if xr h 8 \<noteq> 0 then h
               else (let h = h\<lparr>xr := (xr h)(8 := xr h 2 + 36 * 8)\<rparr> in h\<lparr>sscratch := xr h 8\<rparr>));
          h = h\<lparr>sepc := xr h 18\<rparr>;
          h = h\<lparr>sstatus := xr h 9\<rparr>;
          h = foldl (\<lambda>h r. LOAD r r h) h (rev saved_regs)
      in LOAD 2 2 h)"

text \<open>\<open>env_pop_tf\<close> moves its argument to \<open>sp\<close> and restores the frame there.\<close>

definition env_pop_tf :: "u64 \<Rightarrow> hart \<Rightarrow> hart" where
  "env_pop_tf tf h = RESTORE_ALL (h\<lparr>xr := (xr h)(2 := tf)\<rparr>)"

section \<open>Dispatch\<close>

datatype handler = Handle_reserved | Handle_ebreak | Handle_s_int

definition exception_handlers :: "handler list" where
  "exception_handlers = (replicate 64 Handle_reserved)[3 := Handle_ebreak, 21 := Handle_s_int]"

text \<open>The index \<open>kexcentry\<close> computes from the cause: interrupts are shifted by 16 places.\<close>

definition exc_index :: "u64 \<Rightarrow> nat" where
  "exc_index cause =
     (let s2 = push_bit 63 1; s2 = cause AND s2; s2 = drop_bit 63 s2; s0 = cause AND 0x3f;
          s2 = push_bit 4 s2; s0 = s0 + s2
      in unat s0)"

text \<open>The jump goes where the table says; behind the table there is no saying where.\<close>

definition kexcentry :: "hart \<Rightarrow> (handler \<times> hart) outcome" where
  "kexcentry h =
     (let h = SAVE_ALL h; i = exc_index (scause h) in
      if i < length exception_handlers then Ret (exception_handlers ! i, h)
      else Fault ''jump through a pointer behind exception_handlers'')"

definition trapinit :: "u64 \<Rightarrow> hart \<Rightarrow> hart" where
  "trapinit kexcentry_addr h =
     (let h = h\<lparr>sstatus := push_bit 1 1\<rparr> in h\<lparr>stvec := kexcentry_addr\<rparr>)"

section \<open>Handlers\<close>

fun print_lines :: "(u8 list \<times> va list) list \<Rightarrow> u8 list \<Rightarrow> u8 list outcome" where
  "print_lines [] con = Ret con"
| "print_lines ((fmt, ap) # ls) con = andThen (printk fmt ap con) (\<lambda>con. print_lines ls con)"

definition print_tf :: "trapframe \<Rightarrow> u8 list \<Rightarrow> u8 list outcome" where
  "print_tf tf con =
     print_lines
       (map (\<lambda>i. (ascii ''$%2d = %08x'' @ [0x0a], [VNum (word_of_nat i), VNum (tf_regs tf ! i)])) [0..<32] @
        [(ascii ''sstatus  = %08x'' @ [0x0a], [VNum (tf_sstatus tf)]),
         (ascii ''sepc  = %08x'' @ [0x0a, 0x0a], [VNum (tf_sepc tf)]),
         (ascii ''stval    = %08x'' @ [0x0a], [VNum (tf_stval tf)]),
         (ascii ''scause  = %08x'' @ [0x0a], [VNum (tf_scause tf)])]) con"

text \<open>\<open>do_reserved\<close> prints the frame and the instruction and panics; \<open>do_ebreak\<close> steps over the instruction.
  Both get the address of the frame.\<close>

definition do_reserved :: "u64 \<Rightarrow> mem \<Rightarrow> u8 list \<Rightarrow> (mem \<times> u8 list) outcome" where
  "do_reserved tf m con =
     andThen (printk (ascii ''do reserved'' @ [0x0a]) [] con) (\<lambda>con.
     andThen (print_tf (load_trapframe m tf) con) (\<lambda>con.
     andThen (printk (ascii ''the fault intr: %x'' @ [0x0a]) [VNum (load64 m (tf_sepc (load_trapframe m tf)))] con) (\<lambda>con.
     Panic ''reserve_exception'')))"

definition do_ebreak :: "u64 \<Rightarrow> mem \<Rightarrow> u8 list \<Rightarrow> (mem \<times> u8 list) outcome" where
  "do_ebreak tf m con =
     andThen (printk (ascii ''do ebreak'' @ [0x0a]) [] con) (\<lambda>con.
     andThen (print_tf (load_trapframe m tf) con) (\<lambda>con.
     Ret (store64 m (slot tf 33) (tf_sepc (load_trapframe m tf) + 2), con)))"

section \<open>What a frame holds\<close>

definition store_slots :: "u64 \<Rightarrow> (nat \<times> u64) list \<Rightarrow> mem \<Rightarrow> mem" where
  "store_slots f ws m = foldl (\<lambda>m (k, v). store64 m (slot f k) v) m ws"

lemma aligned8_add: "aligned8 a \<Longrightarrow> aligned8 b \<Longrightarrow> aligned8 (a + b)"
  by (simp add: aligned8_def unat_word_ariths dvd_mod)

lemma aligned8_slot: "aligned8 f \<Longrightarrow> aligned8 (slot f k)"
  unfolding slot_def by (rule aligned8_add) (simp_all only: aligned8_def unat_of_nat, simp add: dvd_mod)

lemma slot_inject:
  assumes "i < 36" and "k < 36"
  shows "slot f i = slot f k \<longleftrightarrow> i = k"
  using assms add_nat_inject [of "8 * i" "8 * k" f] by (simp add: slot_def)

lemma slot_block:
  assumes "k < 36" and "in_block x (slot f k) 8"
  shows "in_block x f 288"
proof -
  have "\<exists>i<8. x = f + word_of_nat (8 * k + i)"
    using assms(2) by (auto simp: in_block_iff_offset slot_def add.assoc)
  then obtain i where "i < 8" "x = f + word_of_nat (8 * k + i)" by blast
  moreover from this assms(1) have "8 * k + i < 288" by simp
  ultimately show ?thesis unfolding in_block_iff_offset [of 288, simplified] by blast
qed

lemma load_store_slots:
  assumes "aligned8 f" and "k < 36"
  shows "\<forall>(i, v)\<in>set ws. i < 36 \<Longrightarrow>
    load64 (store_slots f ws m) (slot f k) = (case map_of (rev ws) k of Some v \<Rightarrow> v | None \<Rightarrow> load64 m (slot f k))"
proof (induction ws rule: rev_induct)
  case (snoc w ws)
  obtain i v where w: "w = (i, v)" by (cases w)
  then show ?case
    using snoc assms aligned8_slot dword.ld_st slot_inject by (auto simp: store_slots_def)
qed (simp add: store_slots_def)

lemma store_slots_other:
  "\<forall>(i, v)\<in>set ws. i < 36 \<Longrightarrow> \<not> in_block x f 288 \<Longrightarrow> store_slots f ws m x = m x"
proof (induction ws rule: rev_induct)
  case (snoc w ws)
  moreover obtain a b where "w = (a, b)" by (cases w)
  moreover from calculation have "\<not> in_block x (slot f a) 8" using slot_block [of a x f] by auto
  ultimately show ?case by (auto simp: store_slots_def store64_other)
qed (simp add: store_slots_def)

lemma store_regs:
  "foldl (\<lambda>h r. STORE r r h) h rs = h\<lparr>hmem := store_slots (xr h 2) (map (\<lambda>r. (r, xr h r)) rs) (hmem h)\<rparr>"
  by (induction rs rule: rev_induct) (simp_all add: STORE_def store_slots_def)

lemma load_regs:
  "2 \<notin> set rs \<Longrightarrow> foldl (\<lambda>h r. LOAD r r h) h rs =
     h\<lparr>xr := \<lambda>k. if k \<in> set rs then load64 (hmem h) (slot (xr h 2) k) else xr h k\<rparr>"
  by (induction rs rule: rev_induct) (auto simp: LOAD_def fun_eq_iff)

text \<open>Where \<open>SAVE_ALL\<close> puts the frame, and what it writes.\<close>

definition trap_frame :: "hart \<Rightarrow> u64" where
  "trap_frame h = (if sscratch h \<noteq> 0 then sscratch h else xr h 2) - 288"

definition frame_slots :: "hart \<Rightarrow> (nat \<times> u64) list" where
  "frame_slots h = map (\<lambda>r. (r, if r = 2 then trap_frame h else xr h r)) saved_regs @
     [(2, xr h 2), (32, sstatus h), (33, sepc h), (34, stval h), (35, scause h)]"

lemma saved_regs_set: "set saved_regs = {1..<32} - {2}"
  by (simp only: saved_regs_def list.set set_upt) auto

lemma save_sp_eq: "save_sp h = h\<lparr>xr := (xr h)(2 := trap_frame h), sscratch := xr h 2\<rparr>"
  by (simp add: save_sp_def trap_frame_def Let_def)

lemma save_csrs_eq:
  "hmem (save_csrs h) = store_slots (xr h 2)
     [(2, sscratch h), (32, sstatus h), (33, sepc h), (34, stval h), (35, scause h)] (hmem h)"
  "xr (save_csrs h) 2 = xr h 2" "sscratch (save_csrs h) = 0" "scause (save_csrs h) = scause h"
  by (simp_all add: save_csrs_def Let_def STORE_def store_slots_def)

lemma SAVE_ALL_effect:
  shows "hmem (SAVE_ALL h) = store_slots (trap_frame h) (frame_slots h) (hmem h)"
    and "xr (SAVE_ALL h) 2 = trap_frame h" and "sscratch (SAVE_ALL h) = 0" and "scause (SAVE_ALL h) = scause h"
proof -
  have regs: "map (\<lambda>r. (r, if r = 2 then f else xr h r)) saved_regs = map (\<lambda>r. (r, ((xr h)(2 := f)) r)) saved_regs" for f
    by (simp add: fun_upd_def)
  show "hmem (SAVE_ALL h) = store_slots (trap_frame h) (frame_slots h) (hmem h)"
    unfolding frame_slots_def regs SAVE_ALL_def store_regs save_sp_eq save_csrs_eq
    by (simp add: store_slots_def)
  show "xr (SAVE_ALL h) 2 = trap_frame h" "sscratch (SAVE_ALL h) = 0" "scause (SAVE_ALL h) = scause h"
    unfolding SAVE_ALL_def store_regs save_sp_eq save_csrs_eq by simp_all
qed

definition frame_value :: "hart \<Rightarrow> nat \<Rightarrow> u64" where
  "frame_value h k = (if k = 32 then sstatus h else if k = 33 then sepc h else if k = 34 then stval h
     else if k = 35 then scause h else xr h k)"

lemma frame_slots_bound: "\<forall>(i, v)\<in>set (frame_slots h). i < 36"
  by (auto simp: frame_slots_def saved_regs_set)

lemma frame_slots_value:
  assumes "1 \<le> k" and "k < 36"
  shows "map_of (rev (frame_slots h)) k = Some (frame_value h k)"
proof -
  have "map_of (rev (map (\<lambda>r. (r, g r)) saved_regs)) k = (if k \<in> set saved_regs then Some (g k) else None)" for g :: "nat \<Rightarrow> u64"
    by (simp add: rev_map map_of_map_restrict restrict_map_def)
  then show ?thesis
    using assms by (simp add: frame_slots_def frame_value_def map_add_def saved_regs_set)
qed

lemma SAVE_ALL_frame:
  assumes "aligned8 (trap_frame h)" and "1 \<le> k" and "k < 36"
  shows "load64 (hmem (SAVE_ALL h)) (slot (trap_frame h) k) = frame_value h k"
  unfolding SAVE_ALL_effect
  using load_store_slots [OF assms(1,3) frame_slots_bound] frame_slots_value [OF assms(2,3)] by simp

lemma load_saved:
  "foldl (\<lambda>h r. LOAD r r h) h (rev saved_regs) =
     h\<lparr>xr := \<lambda>k. if k \<in> {1..<32} - {2} then load64 (hmem h) (slot (xr h 2) k) else xr h k\<rparr>"
  using load_regs [of "rev saved_regs" h] by (simp add: saved_regs_set)

lemma RESTORE_ALL_effect:
  shows "1 \<le> k \<Longrightarrow> k < 32 \<Longrightarrow> xr (RESTORE_ALL h) k = load64 (hmem h) (slot (xr h 2) k)"
    and "sstatus (RESTORE_ALL h) = load64 (hmem h) (slot (xr h 2) 32)"
    and "sepc (RESTORE_ALL h) = load64 (hmem h) (slot (xr h 2) 33)"
    and "sscratch (RESTORE_ALL h) =
      (if load64 (hmem h) (slot (xr h 2) 32) AND push_bit 8 1 = 0 then xr h 2 + 288 else sscratch h)"
    and "hmem (RESTORE_ALL h) = hmem h"
  unfolding RESTORE_ALL_def Let_def load_saved by (auto simp: LOAD_def)

text \<open>Returning from a trap gives every register its value back, and \<open>sscratch\<close> its role: after a trap from user
  mode it holds the top of the frame again, after one from the kernel it is 0.\<close>

lemma trap_return:
  assumes "aligned8 (trap_frame h)" and "1 \<le> k" and "k < 32"
  shows "xr (RESTORE_ALL (SAVE_ALL h)) k = xr h k"
    and "sstatus (RESTORE_ALL (SAVE_ALL h)) = sstatus h" and "sepc (RESTORE_ALL (SAVE_ALL h)) = sepc h"
    and "sscratch (RESTORE_ALL (SAVE_ALL h)) = (if sstatus h AND push_bit 8 1 = 0 then trap_frame h + 288 else 0)"
  using assms SAVE_ALL_frame [OF assms(1), of k] SAVE_ALL_frame [OF assms(1), of 32] SAVE_ALL_frame [OF assms(1), of 33]
  by (simp_all add: RESTORE_ALL_effect SAVE_ALL_effect(2,3) frame_value_def)

lemma SAVE_ALL_other:
  "\<not> in_block x (trap_frame h) 288 \<Longrightarrow> hmem (SAVE_ALL h) x = hmem h x"
  unfolding SAVE_ALL_effect by (rule store_slots_other [OF frame_slots_bound])

text \<open>A frame restored to user mode by \<open>env_pop_tf\<close> is also where the next trap from user mode goes.\<close>

lemma env_pop_tf_scratch:
  "load64 (hmem h) (slot tf 32) AND push_bit 8 1 = 0 \<Longrightarrow> sscratch (env_pop_tf tf h) = tf + 288"
  by (simp add: env_pop_tf_def RESTORE_ALL_effect)

lemma next_trap_frame:
  assumes "load64 (hmem h) (slot tf 32) AND push_bit 8 1 = 0" and "tf + 288 \<noteq> 0"
    and "sscratch u = sscratch (env_pop_tf tf h)"
  shows "trap_frame u = tf"
  using assms by (simp add: trap_frame_def env_pop_tf_scratch)

lemma load_trapframe_cong:
  "(\<And>x. in_block x a 288 \<Longrightarrow> m' x = m x) \<Longrightarrow> load_trapframe m' a = load_trapframe m a"
proof -
  assume eq: "\<And>x. in_block x a 288 \<Longrightarrow> m' x = m x"
  have l: "load64 m' (slot a k) = load64 m (slot a k)" if "k < 36" for k
    using eq slot_block [OF that] by (intro load64_cong) blast
  have "load64 m' (a + word_of_nat (8 * k)) = load64 m (a + word_of_nat (8 * k))" if "k < 32" for k
    using l [of k] that by (simp add: slot_def)
  moreover have "load64 m' (a + 256) = load64 m (a + 256)" "load64 m' (a + 264) = load64 m (a + 264)"
    "load64 m' (a + 272) = load64 m (a + 272)" "load64 m' (a + 280) = load64 m (a + 280)"
    using l [of 32] l [of 33] l [of 34] l [of 35] by (simp_all add: slot_def)
  ultimately show ?thesis by (simp add: load_trapframe_def)
qed

section \<open>Dispatch\<close>

lemma exc_index_value: "exc_index cause = unat cause mod 64 + (if bit cause 63 then 16 else 0)"
proof -
  have "cause AND push_bit 63 1 = (if bit cause 63 then push_bit 63 1 else 0)"
  proof (rule bit_word_eqI)
    fix n assume "n < LENGTH(64)"
    then have "63 \<le> n \<longleftrightarrow> n = 63" by auto
    then show "bit (cause AND push_bit 63 1) n = bit (if bit cause 63 then push_bit 63 1 else 0 :: u64) n"
      by (auto simp: bit_simps simp del: push_bit_of_1 push_bit_numeral)
  qed
  moreover have "push_bit 4 (drop_bit 63 (push_bit 63 1)) = (16 :: u64)" by simp
  ultimately have s2: "push_bit 4 (drop_bit 63 (cause AND push_bit 63 1)) = (if bit cause 63 then 16 else 0)"
    by (cases "bit cause 63") (simp_all only: if_True if_False drop_bit_of_0 push_bit_of_0)
  have "cause AND 63 = take_bit 6 cause" by (simp add: take_bit_eq_mask mask_eq_exp_minus_1)
  then have s0: "unat (cause AND 63) = unat cause mod 64" by (simp add: unsigned_take_bit_eq take_bit_eq_mod unat_mod)
  have "unat ((cause AND 63) + (if bit cause 63 then 16 else 0)) = unat (cause AND 63) + (if bit cause 63 then 16 else 0)"
    using s0 unat_add_word [of "cause AND 63" 16] by (auto simp: less_le_trans [OF mod_less_divisor])
  then show ?thesis using s0 s2 by (simp add: exc_index_def Let_def)
qed

lemma exception_handlers_nth:
  "length exception_handlers = 64"
  "i < 64 \<Longrightarrow> exception_handlers ! i =
     (if i = 3 then Handle_ebreak else if i = 21 then Handle_s_int else Handle_reserved)"
  by (auto simp: exception_handlers_def nth_list_update)

end
