(* ===== verification/Boot.thy ===== *)
theory Boot
  imports Trap
begin

text \<open>
  init/init.c: \<open>rv_main\<close>, and the two routines of kern/vm.c it calls. The linker's symbols, the stack pointer, the
  clock and the address of the embedded program are an argument. The machine is the kernel's state, the hart and the
  console.
\<close>

record boot =
  etext :: u64
  HEAP_START :: u64
  HEAP_SIZE :: u64
  boot_sp :: u64
  kexcentry_addr :: u64
  clock :: u64
  binary_start :: u64
  binary_size :: u64

record machine =
  kern :: kernel
  the_hart :: hart
  console :: "u8 list"

definition kpgtable_init :: "u64 \<Rightarrow> kernel \<Rightarrow> kernel outcome" where
  "kpgtable_init etext_addr s =
     andThen (kvmcreate (phys s) etext_addr) (\<lambda>(kpgtable, k). Ret (s\<lparr>phys := k, kernel_pagetable := kpgtable\<rparr>))"

text \<open>The fences around the write of \<open>satp\<close> have no effect on this state: no translation is cached in it.\<close>

definition kvm_init :: "kernel \<Rightarrow> kernel" where
  "kvm_init s = s\<lparr>satp := MAKE_SATP (kernel_pagetable s)\<rparr>"

definition say :: "string \<Rightarrow> va list \<Rightarrow> machine \<Rightarrow> machine outcome" where
  "say line ap m = andThen (printk (ascii line @ [0x0a]) ap (console m)) (\<lambda>con. Ret (m\<lparr>console := con\<rparr>))"

fun say_all :: "string list \<Rightarrow> machine \<Rightarrow> machine outcome" where
  "say_all [] m = Ret m"
| "say_all (line # ls) m = andThen (say line [] m) (say_all ls)"

definition banner :: "string list" where
  "banner = [''######  #######  #####  ####### '', ''#     # #     # #     # #       '',
     ''#     # #     # #       #       '', ''######  #     #  #####  #####   '',
     ''#   #   #     #       # #       '', ''#    #  #     # #     # #       '',
     ''#     # #######  #####  ####### '']"

definition ENV_CREATE_PRIORITY :: "boot \<Rightarrow> u32 \<Rightarrow> kernel \<Rightarrow> kernel outcome" where
  "ENV_CREATE_PRIORITY b priority s =
     andThen (env_create s (binary_start b) (binary_size b) priority) (\<lambda>(e, s). Ret s)"

definition ENV_CREATE :: "boot \<Rightarrow> kernel \<Rightarrow> kernel outcome" where
  "ENV_CREATE b s = andThen (env_create s (binary_start b) (binary_size b) 1) (\<lambda>(e, s). Ret s)"

definition on_kern :: "(kernel \<Rightarrow> kernel outcome) \<Rightarrow> machine \<Rightarrow> machine outcome" where
  "on_kern f m = andThen (f (kern m)) (\<lambda>s. Ret (m\<lparr>kern := s\<rparr>))"

definition rv_main :: "boot \<Rightarrow> machine \<Rightarrow> machine outcome" where
  "rv_main b m =
     andThen (say_all banner m) (\<lambda>m.
     andThen (say ''kernel sp: %x'' [VNum (boot_sp b)] m) (\<lambda>m.
     andThen (say ''etext: %x'' [VNum (etext b)] m) (\<lambda>m.
     andThen (say ''%x'' [VNum (HEAP_START b)] m) (\<lambda>m.
     andThen (say ''%x'' [VNum (HEAP_SIZE b)] m) (\<lambda>m.
     andThen (on_kern (\<lambda>s. andThen (kinit (phys s)) (\<lambda>k. Ret (s\<lparr>phys := k\<rparr>))) m) (\<lambda>m.
     andThen (on_kern (kpgtable_init (etext b)) m) (\<lambda>m.
     andThen (on_kern (\<lambda>s. Ret (kvm_init s)) m) (\<lambda>m.
     andThen (say ''turn on paging'' [] m) (\<lambda>m.
     andThen (on_kern (\<lambda>s. Ret (kvm_init s)) m) (\<lambda>m.
     andThen (say ''turn on paging'' [] m) (\<lambda>m.
     andThen (Ret (m\<lparr>the_hart := trapinit (kexcentry_addr b) (the_hart m)\<rparr>)) (\<lambda>m.
     andThen (say ''init trap'' [] m) (\<lambda>m.
     andThen (on_kern (\<lambda>s. Ret (env_init s)) m) (\<lambda>m.
     andThen (on_kern (ENV_CREATE_PRIORITY b 1) m) (\<lambda>m.
     andThen (on_kern (ENV_CREATE_PRIORITY b 2) m) (\<lambda>m.
     andThen (on_kern (\<lambda>s. Ret (timerinit (clock b) s)) m) (\<lambda>m.
     say ''init timer'' [] m)))))))))))))))))"

end
