(* ===== verification/BootResult.thy ===== *)
theory BootResult
  imports EnvCreate Boot
begin

text \<open>
  What \<open>rv_main\<close> (init/init.c) leaves behind: the lemmas of the components put together. \<open>boot_map\<close> is what the kernel's
  table maps after \<open>kpgtable_init\<close>, \<open>env_create_twice\<close> the two environments, \<open>boot_lines\<close> the text on the console,
  \<open>rv_main_boots\<close> the whole; \<open>booted_ticks\<close> and \<open>booted_enters\<close> are what the timer makes of it.
\<close>

section \<open>The embedded program\<close>

text \<open>Only the bytes of the image matter.\<close>

lemma program_same:
  assumes ok: "program_ok m binary size'" and img: "same_image m m' binary size'"
  shows "program_ok m' binary size'" and "program_reqs m' binary i = program_reqs m binary i"
    and "program_space m' binary g mm p \<Longrightarrow> program_space m binary g mm p"
proof -
  note h = same_image_headers [OF ok img]
  have reqs: "program_reqs m' binary i = program_reqs m binary i" for i
    unfolding program_reqs_def h(1) using h(2) by (intro arg_cong [where f = concat] map_cong refl) (simp add: phdr_reqs_def)
  then show "program_reqs m' binary i = program_reqs m binary i" .
  show "program_ok m' binary size'"
    using ok h(2) unfolding program_ok_def reqs h(1) elf_from_def by simp
  have byte: "m' (binary + p_offset (phdr_of m binary i) + word_of_nat j) = m (binary + p_offset (phdr_of m binary i) + word_of_nat j)"
    if "i < unat (e_phnum (load_ehdr m binary))" "p_type (phdr_of m binary i) = PT_LOAD" "j < unat (p_filesz (phdr_of m binary i))" for i j
  proof -
    let ?o = "p_offset (phdr_of m binary i)"
    have "unat ?o + j < unat size'" using ok that unfolding program_ok_def seg_ok_def by fastforce
    then have "m' (binary + word_of_nat (unat ?o + j)) = m (binary + word_of_nat (unat ?o + j))"
      using img unfolding same_image_def by blast
    then show ?thesis by (simp add: add.assoc)
  qed
  assume "program_space m' binary g mm p"
  then show "program_space m binary g mm p"
    using byte h(2) unfolding program_space_def h(1) Let_def by (simp cong: if_cong)
qed

section \<open>The kernel's map\<close>

definition boot_map :: "u64 \<Rightarrow> (nat \<Rightarrow> u64) \<Rightarrow> u64 \<Rightarrow> u64 option" where
  "boot_map end_of_text f = (\<lambda>va. map_option (\<lambda>(pa, perm). leaf_pte pa perm) (kernel_region end_of_text va)) ++
     map_of (map (\<lambda>e. (ENVS (word_of_nat e), leaf_pte (f e) rw_perm)) [0..<1024])"

lemma boot_map_ENVS: "e < 1024 \<Longrightarrow> boot_map end_of_text f (ENVS (word_of_nat e)) = Some (leaf_pte (f e) rw_perm)"
  unfolding boot_map_def
  by (rule map_add_find_right, rule map_of_is_SomeI)
    (auto simp: o_def distinct_map inj_on_def ENVS_inject)

lemma boot_map_other:
  assumes "va \<notin> (\<lambda>e. ENVS (word_of_nat e)) ` {..<1024}"
  shows "boot_map end_of_text f va = map_option (\<lambda>(pa, perm). leaf_pte pa perm) (kernel_region end_of_text va)"
proof -
  have "map_of (map (\<lambda>e. (ENVS (word_of_nat e), leaf_pte (f e) rw_perm)) [0..<1024]) va = None"
    using assms by (auto simp: map_of_eq_None_iff)
  then show ?thesis by (simp add: boot_map_def map_add_def)
qed

lemma plain_leaf:
  "page_aligned pa \<Longrightarrow> unat pa < 2 ^ 56 \<Longrightarrow> perm \<in> {rw_perm, rx_perm} \<Longrightarrow> plain_pte (leaf_pte pa perm)"
  unfolding plain_pte_def by (intro exI [of _ pa] exI [of _ perm]) (auto simp: PTE_R_def PTE_W_def PTE_X_def)

lemma kernel_region_pages:
  assumes "0x80000000 < end_of_text" and "end_of_text < PHYEND" and "page_aligned va" and "kernel_region end_of_text va = Some (pa, perm)"
  shows "page_aligned pa" and "unat pa < 2 ^ 56" and "perm \<in> {rw_perm, rx_perm}"
proof -
  have low: "0x80000000 \<le> va" "va < 0x98002000" using kernel_region_low [OF assms(1,2), of va] assms(4) by simp_all
  have pa: "pa = va \<or> pa = va - 0x88000000 \<and> 0x88000000 \<le> va" and "perm \<in> {rw_perm, rx_perm}"
    using assms(4) by (auto simp: kernel_region_def layout word_le_nat_alt word_less_nat_alt split: if_splits)
  then show "perm \<in> {rw_perm, rx_perm}" by simp
  have sub: "unat (va - 0x88000000) = unat va - 0x88000000" if "0x88000000 \<le> va" using that by (simp add: unat_sub)
  have "4096 dvd unat va - 0x88000000" if "0x88000000 \<le> va"
    using that assms(3) by (intro dvd_diff_nat) (simp_all add: page_aligned_def)
  then show "page_aligned pa" using pa sub assms(3) by (auto simp: page_aligned_def)
  show "unat pa < 2 ^ 56" using pa sub low(2) by (auto simp: word_less_nat_alt)
qed

lemma boot_map_view:
  assumes "0x80000000 < end_of_text" and "end_of_text < PHYEND" and f: "\<And>e. e < 1024 \<Longrightarrow> ram_page (f e)"
  shows "kernel_view (boot_map end_of_text f)"
  unfolding kernel_view_def
proof (intro allI impI)
  fix va e assume va: "page_aligned va" "va < MAXVA" and e: "boot_map end_of_text f va = Some e"
  show "0x80000000 \<le> va \<and> plain_pte e \<and> [VPN_L 2 va] \<in> kernel_paths \<and> vpath va \<in> kernel_paths"
  proof (cases "va \<in> (\<lambda>e. ENVS (word_of_nat e)) ` {..<1024}")
    case True
    then obtain n where n: "n < 1024" "va = ENVS (word_of_nat n)" by auto
    have "e = leaf_pte (f n) rw_perm" using e boot_map_ENVS [OF n(1)] n(2) by simp
    moreover have "unat va = 0x3fbfffe000 - 4096 * n" using unat_ENVS(1) [OF n(1)] n(2) by simp
    then have "0x3f80000000 \<le> va" "va < 0x3fc0000000" using n(1) by (simp_all add: word_le_nat_alt word_less_nat_alt)
    moreover have "(0x80000000 :: u64) \<le> 0x3f80000000" by simp
    ultimately show ?thesis
      using plain_leaf [OF ram_pageD(1,4) [OF f [OF n(1)]]] kernel_paths_high by (meson insertI1 order_trans)
  next
    case False
    then obtain pa perm where r: "kernel_region end_of_text va = Some (pa, perm)" "e = leaf_pte pa perm"
      using e boot_map_other [OF False] by auto
    then show ?thesis
      using kernel_region_low [OF assms(1,2), of va] kernel_region_pages [OF assms(1,2) va(1) r(1)] plain_leaf
        kernel_paths_low [of va] by (auto simp: word_less_nat_alt)
  qed
qed

section \<open>The kernel's memory at boot\<close>

lemma boot_memory:
  assumes "freelist k = 0" and "0x80000000 < end_of_text" and "end_of_text < PHYEND"
  obtains k1 r k2 qs f where "kinit k = Ret k1" "kvmcreate k1 end_of_text = Ret (r, k2)" "pt_inv k2 {r} qs" "maps_as k2 r (boot_map end_of_text f)"
    "29693 \<le> length qs" "inj_on f {..<1024}" "\<And>e. e < 1024 \<Longrightarrow> ram_page (f e)" "f ` {..<1024} \<inter> (set qs \<union> nodes (mem k2) {r}) = {}"
    "\<And>x. \<not> (\<exists>q. ram_page q \<and> in_block x q 4096) \<Longrightarrow> mem k2 x = mem k x"
proof -
  obtain k1 where k1: "kinit k = Ret k1" "kmem_inv k1 boot_pages"
    "\<forall>x. \<not> (\<exists>q. ram_page q \<and> in_block x q 4096) \<longrightarrow> mem k1 x = mem k x" using kinit_pages [OF assms(1)] by blast
  have len: "2052 < length boot_pages" by (simp add: boot_pages)
  obtain r k2 qs f where k2: "kvmcreate k1 end_of_text = Ret (r, k2)" "pt_inv k2 {r} qs" "inj_on f {..<1024}"
    "f ` {..<1024} \<subseteq> set boot_pages" "f ` {..<1024} \<inter> (set qs \<union> nodes (mem k2) {r}) = {}"
    "\<forall>e<1024. translate (mem k2) r (ENVS (word_of_nat e)) = Some (leaf_pte (f e) rw_perm)"
    "\<forall>va. page_aligned va \<and> va < MAXVA \<and> va \<notin> (\<lambda>e. ENVS (word_of_nat e)) ` {..<1024} \<longrightarrow>
       translate (mem k2) r va = map_option (\<lambda>(pa, perm). leaf_pte pa perm) (kernel_region end_of_text va)"
    "length boot_pages \<le> length qs + 2051" "\<forall>x. (\<forall>q\<in>set boot_pages. \<not> in_block x q 4096) \<longrightarrow> mem k2 x = mem k1 x"
    using kvmcreate_space [OF k1(2) len assms(2,3)] by (elim exE conjE) (rule that)
  have "maps_as k2 r (boot_map end_of_text f)"
    unfolding maps_as_def
  proof (intro allI impI)
    fix va assume va: "page_aligned va" "va < MAXVA"
    show "translate (mem k2) r va = boot_map end_of_text f va"
    proof (cases "va \<in> (\<lambda>e. ENVS (word_of_nat e)) ` {..<1024}")
      case True
      then show ?thesis using k2(6) boot_map_ENVS by auto
    next
      case False
      then show ?thesis using k2(7) va boot_map_other [OF False] by simp
    qed
  qed
  moreover have "ram_page (f e)" if "e < 1024" for e using k2(4) boot_pages(1) that by auto
  moreover have "mem k2 x = mem k x" if "\<not> (\<exists>q. ram_page q \<and> in_block x q 4096)" for x
    using k1(3) k2(9) that boot_pages(1) by auto
  moreover have "29693 \<le> length qs" using k2(8) boot_pages(3) by simp
  ultimately show thesis using that k1(1) k2(1,2,3,5) by blast
qed

section \<open>Two environments\<close>

lemma owns_space_keep:
  assumes "owns_space T m0 binary g m p" and "\<And>t x. t \<in> T \<Longrightarrow> in_block x t 4096 \<Longrightarrow> m' x = m x"
  shows "owns_space T m0 binary g m' p"
  using assms unfolding owns_space_def by simp

lemma owns_space_image:
  assumes "program_ok m0 binary size'" and "same_image m0 m1 binary size'" and "owns_space T m1 binary g m p"
  shows "owns_space T m0 binary g m p"
  using assms(3) program_same(3) [OF assms(1,2)] unfolding owns_space_def by blast

text \<open>An environment that can run: the program is at its place, the program counter at its entry.\<close>

definition env_ready :: "u64 set \<Rightarrow> mem \<Rightarrow> u64 \<Rightarrow> (u64 \<Rightarrow> u64 option) \<Rightarrow> kernel \<Rightarrow> nat \<Rightarrow> u32 \<Rightarrow> bool" where
  "env_ready T m0 binary g s e pri \<longleftrightarrow> (let v = envs s ! e in
     owns_space T m0 binary g (mem (phys s)) (env_pgtable v) \<and> env_pgtable v \<in> T \<and> env_status v = ENV_RUNNABLE \<and> env_pri v = pri \<and>
     unat (env_asid v) = e \<and> env_runs v = 0 \<and> env_parent_id v = 0 \<and>
     tf_sepc (env_tf v) = e_entry (load_ehdr m0 binary) \<and> tf_sstatus (env_tf v) = SSTATUS_SPIE)"

lemma env_create_twice:
  assumes ok: "kernel_ok s g ps (0 # 1 # fs) []" and asid: "asids (asid_bitmap s) = {}" and fs: "curenv s = None"
    and prog: "program_ok (mem (phys s)) binary size'"
    and room: "6162 + 2 * length (program_reqs (mem (phys s)) binary 0) < length ps"
  obtains s1 s2 T0 T1 qs where "env_create s binary size' pri0 = Ret (0, s1)" "env_create s1 binary size' pri1 = Ret (1, s2)"
    "kernel_ok s2 g qs fs [1, 0]" "env_ready T0 (mem (phys s)) binary g s2 0 pri0" "env_ready T1 (mem (phys s)) binary g s2 1 pri1"
    "T0 \<inter> T1 = {}" "(T0 \<union> T1) \<inter> set qs = {}" "T0 \<union> T1 \<subseteq> set ps" "kernel_pagetable s2 = kernel_pagetable s" "curenv s2 = None"
    "slices s2 = slices s" "satp s2 = satp s" "sie s2 = sie s"
    "nodes (mem (phys s2)) {kernel_pagetable s} = nodes (mem (phys s)) {kernel_pagetable s}" "asids (asid_bitmap s2) = {0, 1}"
    "length ps \<le> length qs + 6162 + 2 * length (program_reqs (mem (phys s)) binary 0)" "\<And>x. \<forall>q\<in>set ps. \<not> in_block x q 4096 \<Longrightarrow> mem (phys s2) x = mem (phys s) x"
proof -
  let ?m = "mem (phys s)"
  let ?n = "length (program_reqs ?m binary 0)"
  have inv: "pt_inv (phys s) {kernel_pagetable s} ps" and len: "length (envs s) = NENV" using ok by (simp_all add: kernel_ok_def sched_inv_def)
  have ram: "ram_page q" if "q \<in> set ps" for q using inv that by (auto simp: pt_inv_def kmem_inv_def)
  obtain p0 ps0 where ps: "ps = p0 # ps0" using room by (cases ps) auto
  have room0: "3081 + ?n \<le> length ps0" using room ps by simp
  have e: "0 < NENV" "1 < NENV" by (simp_all add: NENV_def LOG2NENV_def)
  have nasid: "0 \<in> {..<NASID}" "1 \<in> {..<NASID}" by (simp_all add: NASID_def)
  then have asid0: "asids (asid_bitmap s) \<noteq> {..<NASID}" using asid by blast
  obtain s1 v0 qs0 where c0: "env_create s binary size' pri0 = Ret (0, s1)" "kernel_ok s1 g qs0 (1 # fs) [0]"
    "set qs0 \<subseteq> set ps0" "length ps0 \<le> length qs0 + 3080 + ?n"
    "owns_space (set (p0 # ps0) - set qs0) ?m binary g (mem (phys s1)) p0"
    "\<And>x. \<forall>q\<in>set (p0 # ps0). \<not> in_block x q 4096 \<Longrightarrow> mem (phys s1) x = ?m x"
    "envs s1 = (envs s)[0 := v0]" "fresh_env s 0 p0 0 v0" "env_pri v0 = pri0" "env_status v0 = ENV_RUNNABLE"
    "tf_sepc (env_tf v0) = e_entry (load_ehdr ?m binary)" "asids (asid_bitmap s1) = insert (unat (env_asid v0)) (asids (asid_bitmap s))"
    "kernel_pagetable s1 = kernel_pagetable s" "curenv s1 = curenv s" "slices s1 = slices s" "satp s1 = satp s" "sie s1 = sie s"
    "nodes (mem (phys s1)) {kernel_pagetable s} = nodes (mem (phys s)) {kernel_pagetable s}"
    by (rule env_create_result [OF ok [unfolded ps] e(1) asid0 prog room0, where pri = pri0]) (rule that)
  have img: "same_image ?m (mem (phys s1)) binary size'"
    unfolding same_image_def
  proof (intro allI impI)
    fix j assume "j < unat size'"
    then show "mem (phys s1) (binary + word_of_nat j) = ?m (binary + word_of_nat j)"
      using c0(6) kernel_image_out [OF image_in_kernel [OF program_okD(2) [OF prog]]] ram ps by blast
  qed
  note prog1 = program_same(1) [OF prog img] and reqs1 = program_same(2) [OF prog img, of 0]
  have hdr: "load_ehdr (mem (phys s1)) binary = load_ehdr ?m binary" by (rule same_image_headers(1) [OF prog img])
  have a0: "unat (env_asid v0) = 0" using c0(8) asid by (simp add: fresh_env_def)
  have used: "asids (asid_bitmap s1) = {0}" unfolding c0(12) asid a0 by (rule refl)
  moreover have "{..<NASID} \<noteq> {0}" using nasid(2) by (metis singletonD zero_neq_one)
  ultimately have asid1: "asids (asid_bitmap s1) \<noteq> {..<NASID}" by simp
  obtain p1 ps1 where qs0: "qs0 = p1 # ps1" using room c0(4) unfolding ps by (cases qs0) simp_all
  have room1: "3081 + length (program_reqs (mem (phys s1)) binary 0) \<le> length ps1" using room c0(4) ps qs0 reqs1 by simp
  obtain s2 v1 qs where c1: "env_create s1 binary size' pri1 = Ret (1, s2)" "kernel_ok s2 g qs fs [1, 0]"
    "set qs \<subseteq> set ps1" "length ps1 \<le> length qs + 3080 + length (program_reqs (mem (phys s1)) binary 0)"
    "owns_space (set (p1 # ps1) - set qs) (mem (phys s1)) binary g (mem (phys s2)) p1"
    "\<And>x. \<forall>q\<in>set (p1 # ps1). \<not> in_block x q 4096 \<Longrightarrow> mem (phys s2) x = mem (phys s1) x"
    "envs s2 = (envs s1)[1 := v1]" "fresh_env s1 1 p1 0 v1" "env_pri v1 = pri1" "env_status v1 = ENV_RUNNABLE"
    "tf_sepc (env_tf v1) = e_entry (load_ehdr (mem (phys s1)) binary)"
    "asids (asid_bitmap s2) = insert (unat (env_asid v1)) (asids (asid_bitmap s1))" "kernel_pagetable s2 = kernel_pagetable s1" "curenv s2 = curenv s1" "slices s2 = slices s1" "satp s2 = satp s1" "sie s2 = sie s1"
    "nodes (mem (phys s2)) {kernel_pagetable s1} = nodes (mem (phys s1)) {kernel_pagetable s1}"
    by (rule env_create_result [OF c0(2) [unfolded qs0] e(2) asid1 prog1 room1, where pri = pri1]) (rule that)
  let ?T0 = "set ps - set qs0" and ?T1 = "set qs0 - set qs"
  have inv1: "pt_inv (phys s1) {kernel_pagetable s1} qs0" using c0(2) by (simp add: kernel_ok_def)
  have dist: "distinct ps" "distinct qs0" using inv inv1 by (simp_all add: pt_inv_def kmem_inv_def)
  have keep: "mem (phys s2) x = mem (phys s1) x" if "t \<in> ?T0" "in_block x t 4096" for t x
  proof (rule c1(6), intro ballI notI)
    fix q assume "q \<in> set (p1 # ps1)" "in_block x q 4096"
    then have q: "q \<in> set ps" "q \<noteq> t" using that(1) c0(3) ps qs0 by auto
    then show False using page_disjoint [of t q x] that \<open>in_block x q 4096\<close> ram ram_pageD(1) by blast
  qed
  have own0: "owns_space ?T0 ?m binary g (mem (phys s2)) p0" by (rule owns_space_keep [OF c0(5) [folded ps] keep])
  have own1: "owns_space ?T1 ?m binary g (mem (phys s2)) p1" by (rule owns_space_image [OF prog img c1(5) [folded qs0]])
  have least: "(LEAST n. n \<noteq> (0 :: nat)) = 1" by (rule Least_equality) auto
  have a1: "unat (env_asid v1) = 1" using c1(8) used least by (simp add: fresh_env_def)
  have p: "p0 \<in> ?T0" "p1 \<in> ?T1" using dist ps qs0 c0(3) c1(3) by auto
  have vs: "envs s2 ! 0 = v0" "envs s2 ! 1 = v1" using c0(7) c1(7) len e by simp_all
  have f1: "env_pgtable v1 = p1" "env_runs v1 = 0" "env_parent_id v1 = 0" "tf_sstatus (env_tf v1) = SSTATUS_SPIE"
    using c1(8) by (simp_all add: fresh_env_def)
  have "env_ready ?T0 ?m binary g s2 0 pri0"
    using own0 p(1) c0(8,9,10,11) a0 by (simp add: env_ready_def vs fresh_env_def)
  moreover have "env_ready ?T1 ?m binary g s2 1 pri1"
    unfolding env_ready_def vs Let_def f1 hdr [symmetric] using own1 p(2) c1(9,10,11) a1 f1 hdr by (simp del: One_nat_def)
  moreover have "?T0 \<inter> ?T1 = {}" "(?T0 \<union> ?T1) \<inter> set qs = {}" "?T0 \<union> ?T1 \<subseteq> set ps"
    using c0(3) c1(3) ps qs0 by auto
  moreover have "kernel_pagetable s2 = kernel_pagetable s" "curenv s2 = None" "slices s2 = slices s" "satp s2 = satp s"
    "sie s2 = sie s" "nodes (mem (phys s2)) {kernel_pagetable s} = nodes (mem (phys s)) {kernel_pagetable s}"
    using c0(13-18) c1(13-18) fs by simp_all
  moreover have "asids (asid_bitmap s2) = {0, 1}" unfolding c1(12) used a1 by blast
  moreover have "mem (phys s2) x = ?m x" if "\<forall>q\<in>set ps. \<not> in_block x q 4096" for x
  proof -
    have "\<forall>q\<in>set (p0 # ps0). \<not> in_block x q 4096" "\<forall>q\<in>set (p1 # ps1). \<not> in_block x q 4096" using that c0(3) ps qs0 by auto
    then show ?thesis using c0(6) c1(6) by simp
  qed
  moreover have "length ps \<le> length qs + 6162 + 2 * ?n" using c0(4) c1(4) reqs1 ps qs0 by simp
  ultimately show thesis using that [OF c0(1) c1(1,2)] by blast
qed

section \<open>What is printed\<close>

text \<open>A \<open>%x\<close> without \<open>l\<close> takes the low 32 bits of its argument, as a signed number.\<close>

definition hex32 :: "u64 \<Rightarrow> u8 list" where
  "hex32 n = num_text (scast (ucast n :: u32)) 16 False 0 False 0x20 False"

lemma vprintfmt_plain:
  "0x25 \<notin> set fmt \<Longrightarrow> vprintfmt outputk (fmt @ rest) ap con = vprintfmt outputk rest ap (con @ crlf fmt)"
proof (induction fmt arbitrary: con)
  case (Cons c fmt)
  then show ?case using console_append [of "[c]" fmt] by (auto simp: outputk_crlf)
qed (simp add: crlf_def)

lemma printk_plain: "0x25 \<notin> set fmt \<Longrightarrow> printk fmt ap con = Ret (con @ crlf fmt)"
  using vprintfmt_plain [of fmt "[]"] by (simp add: printk_def)

lemma printk_hex:
  assumes "0x25 \<notin> set a" and "0x25 \<notin> set b"
  shows "printk (a @ [0x25, 0x78] @ b) [VNum n] con = Ret (con @ crlf (a @ hex32 n @ b))"
proof -
  have "vprintfmt outputk ([0x25, 0x78] @ b) [VNum n] con = vprintfmt outputk b [] (con @ crlf (hex32 n))" for con
    by (simp add: flag_def convert_def va_num_def print_num_text outputk_crlf hex32_def)
  then have "printk (a @ [0x25, 0x78] @ b) [VNum n] con = vprintfmt outputk b [] ((con @ crlf a) @ crlf (hex32 n))"
    unfolding printk_def vprintfmt_plain [OF assms(1)] by blast
  then show ?thesis using vprintfmt_plain [OF assms(2), of "[]"] by (simp add: console_append)
qed

definition print_text :: "u8 list \<Rightarrow> machine \<Rightarrow> machine" where
  "print_text line m = m\<lparr>console := console m @ crlf (line @ [0x0a])\<rparr>"

lemma say_plain: "0x25 \<notin> set (ascii line) \<Longrightarrow> say line ap m = Ret (print_text (ascii line) m)"
  by (simp add: say_def printk_plain print_text_def)

lemma say_hex:
  assumes "ascii line = a @ [0x25, 0x78]" and "0x25 \<notin> set a"
  shows "say line [VNum n] m = Ret (print_text (a @ hex32 n) m)"
  using printk_hex [OF assms(2), of "[0x0a]" n "console m"] assms(1) by (simp add: say_def print_text_def)

lemma say_all_plain: "\<forall>line\<in>set lines. 0x25 \<notin> set (ascii line) \<Longrightarrow> say_all lines m = Ret (fold print_text (map ascii lines) m)"
  by (induction lines arbitrary: m) (simp_all add: say_plain)

definition boot_lines :: "boot \<Rightarrow> u8 list list" where
  "boot_lines b = map ascii banner @ [ascii ''kernel sp: '' @ hex32 (boot_sp b), ascii ''etext: '' @ hex32 (etext b),
     hex32 (HEAP_START b), hex32 (HEAP_SIZE b), ascii ''turn on paging'', ascii ''turn on paging'', ascii ''init trap'',
     ascii ''init timer'']"

lemma says:
  "say_all banner m = Ret (fold print_text (map ascii banner) m)"
  "say ''kernel sp: %x'' [VNum n] m = Ret (print_text (ascii ''kernel sp: '' @ hex32 n) m)"
  "say ''etext: %x'' [VNum n] m = Ret (print_text (ascii ''etext: '' @ hex32 n) m)"
  "say ''%x'' [VNum n] m = Ret (print_text (hex32 n) m)"
  "say ''turn on paging'' [] m = Ret (print_text (ascii ''turn on paging'') m)"
  "say ''init trap'' [] m = Ret (print_text (ascii ''init trap'') m)"
  "say ''init timer'' [] m = Ret (print_text (ascii ''init timer'') m)"
proof -
  show "say_all banner m = Ret (fold print_text (map ascii banner) m)"
    by (rule say_all_plain) (simp add: banner_def ascii_def)
  show "say ''%x'' [VNum n] m = Ret (print_text (hex32 n) m)"
    using say_hex [of "''%x''" "[]"] by (simp add: ascii_def)
qed (intro say_hex say_plain; simp add: ascii_def)+

lemma print_text_kern [simp]:
  "kern (print_text l m) = kern m" "the_hart (print_text l m) = the_hart m"
  "print_text l (m\<lparr>kern := s\<rparr>) = (print_text l m)\<lparr>kern := s\<rparr>" "print_text l (m\<lparr>the_hart := h\<rparr>) = (print_text l m)\<lparr>the_hart := h\<rparr>"
  by (simp_all add: print_text_def)

lemma fold_print_text [simp]:
  "kern (fold print_text ls m) = kern m" "the_hart (fold print_text ls m) = the_hart m"
  by (induction ls arbitrary: m) simp_all

lemma fold_print_console: "console (fold print_text ls m) = console m @ crlf (concat (map (\<lambda>l. l @ [0x0a]) ls))"
  by (induction ls arbitrary: m) (simp_all add: print_text_def console_append crlf_def)

section \<open>The whole boot\<close>

text \<open>The state \<open>rv_main\<close> starts from: nothing has been allocated, no environment exists.\<close>

definition pristine :: "kernel \<Rightarrow> bool" where
  "pristine s \<longleftrightarrow> freelist (phys s) = 0 \<and> length (envs s) = NENV \<and> (\<forall>e<NENV. env_status (envs s ! e) \<noteq> ENV_RUNNABLE) \<and>
     curenv s = None \<and> asid_bitmap_ok (asid_bitmap s) \<and> asids (asid_bitmap s) = {}"

definition boot_ok :: "boot \<Rightarrow> mem \<Rightarrow> bool" where
  "boot_ok b m \<longleftrightarrow> 0x80000000 < etext b \<and> etext b < PHYEND \<and> program_ok m (binary_start b) (binary_size b) \<and>
     length (program_reqs m (binary_start b) 0) \<le> 10000"

lemma env_init_same: "\<exists>q t. env_init s = s\<lparr>env_free_list := q, env_sched_list := t\<rparr>"
proof -
  have "foldl (\<lambda>s i. s\<lparr>env_free_list := LIST_INSERT_HEAD (env_free_list s) i\<rparr>) s is =
      s\<lparr>env_free_list := foldl LIST_INSERT_HEAD (env_free_list s) is\<rparr>" for s :: kernel and "is"
    by (induction "is" arbitrary: s) simp_all
  then show ?thesis 
    unfolding env_init_def Let_def
    by (intro exI [of _ "foldl LIST_INSERT_HEAD (LIST_INIT (env_free_list s)) (rev [0..<Suc NENV])"]
        exI [of _ "TAILQ_INIT (env_sched_list s)"]) simp
qed

lemma kernel_ok_cong:
  "phys s' = phys s \<Longrightarrow> kernel_pagetable s' = kernel_pagetable s \<Longrightarrow> env_free_list s' = env_free_list s \<Longrightarrow>
   env_sched_list s' = env_sched_list s \<Longrightarrow> envs s' = envs s \<Longrightarrow> curenv s' = curenv s \<Longrightarrow> asid_bitmap s' = asid_bitmap s \<Longrightarrow>
   kernel_ok s g ps fs ts \<Longrightarrow> kernel_ok s' g ps fs ts"
  by (simp add: kernel_ok_def sched_inv_def)

lemma boot_kernel_ok:
  assumes s: "pristine s" and pt: "pt_inv k {r} qs" "maps_as k r g" "kernel_view g"
  shows "kernel_ok (env_init (s\<lparr>phys := k, kernel_pagetable := r, satp := x\<rparr>)) g qs (0 # 1 # [2..<Suc NENV]) []"
proof -
  let ?s = "s\<lparr>phys := k, kernel_pagetable := r, satp := x\<rparr>"
  have "(0 :: nat) < Suc NENV" "Suc 0 < Suc NENV" by (simp_all add: NENV_def LOG2NENV_def)
  then have "[0..<Suc NENV] = 0 # 1 # [2..<Suc NENV]"
    using upt_conv_Cons [of 0 "Suc NENV"] upt_conv_Cons [of "Suc 0" "Suc NENV"] by (simp only: One_nat_def numeral_2_eq_2)
  moreover obtain f t where init: "env_init ?s = ?s\<lparr>env_free_list := f, env_sched_list := t\<rparr>" using env_init_same by blast
  ultimately have "list_rep f (0 # 1 # [2..<Suc NENV])" "tailq_rep t []"
    using env_init_queues [of ?s] by (simp_all del: upt_Suc)
  then show ?thesis
    using assms unfolding init kernel_ok_def sched_inv_def pristine_def by (simp del: upt_Suc)
qed

text \<open>What it leaves behind: the invariant of the kernel with both environments in the run queue, each ready to run in pages
  of its own, paging and traps and timer switched on, and the console text.\<close>

definition booted :: "boot \<Rightarrow> machine \<Rightarrow> u64 set \<Rightarrow> u64 set \<Rightarrow> (nat \<Rightarrow> u64) \<Rightarrow> u64 list \<Rightarrow> machine \<Rightarrow> bool" where
  "booted b m T0 T1 env_page ps m' \<longleftrightarrow>
     (let s = kern m'; g = boot_map (etext b) env_page; m0 = mem (phys (kern m)) in
      kernel_ok s g ps [2..<Suc NENV] [1, 0] \<and> satp s = MAKE_SATP (kernel_pagetable s) \<and> curenv s = None \<and>
      env_ready T0 m0 (binary_start b) g s 0 1 \<and> env_ready T1 m0 (binary_start b) g s 1 2 \<and>
      T0 \<inter> T1 = {} \<and> (T0 \<union> T1) \<inter> (set ps \<union> env_page ` {..<1024} \<union> nodes (mem (phys s)) {kernel_pagetable s}) = {} \<and>
      inj_on env_page {..<1024} \<and> (\<forall>e<1024. ram_page (env_page e)) \<and> (\<forall>t\<in>T0 \<union> T1. ram_page t) \<and>
      29693 \<le> length ps + 6162 + 2 * length (program_reqs m0 (binary_start b) 0) \<and>
      asids (asid_bitmap s) = {0, 1} \<and> same_image m0 (mem (phys s)) (binary_start b) (binary_size b) \<and>
      ticks s = 0 \<and> sie s = sie (kern m) OR SIE_STIE \<and> timecmp s = clock b + TIMEBASE \<and> slices s = slices (kern m) \<and>
      the_hart m' = trapinit (kexcentry_addr b) (the_hart m) \<and>
      console m' = console m @ crlf (concat (map (\<lambda>l. l @ [0x0a]) (boot_lines b))))"

lemma rv_main_boots:
  assumes s: "pristine (kern m)" and b: "boot_ok b (mem (phys (kern m)))"
  obtains T0 T1 env_page ps m' where "rv_main b m = Ret m'" "booted b m T0 T1 env_page ps m'"
proof -
  let ?m0 = "mem (phys (kern m))" and ?bin = "binary_start b" and ?sz = "binary_size b"
  have et: "0x80000000 < etext b" "etext b < PHYEND" and prog: "program_ok ?m0 ?bin ?sz"
    and few: "length (program_reqs ?m0 ?bin 0) \<le> 10000" using b by (simp_all add: boot_ok_def)
  have empty: "freelist (phys (kern m)) = 0" using s by (simp add: pristine_def)
  obtain k1 r k2 ps f where k: "kinit (phys (kern m)) = Ret k1" "kvmcreate k1 (etext b) = Ret (r, k2)" "pt_inv k2 {r} ps"
    "maps_as k2 r (boot_map (etext b) f)" "29693 \<le> length ps" "inj_on f {..<1024}" "\<And>e. e < 1024 \<Longrightarrow> ram_page (f e)"
    "f ` {..<1024} \<inter> (set ps \<union> nodes (mem k2) {r}) = {}" "\<And>x. \<not> (\<exists>q. ram_page q \<and> in_block x q 4096) \<Longrightarrow> mem k2 x = ?m0 x"
    using boot_memory [OF empty et] by blast
  let ?g = "boot_map (etext b) f"
  let ?s3 = "env_init ((kern m)\<lparr>phys := k2, kernel_pagetable := r, satp := MAKE_SATP r\<rparr>)"
  have ok: "kernel_ok ?s3 ?g ps (0 # 1 # [2..<Suc NENV]) []"
    by (rule boot_kernel_ok [OF s k(3,4) boot_map_view [OF et k(7)]])
  obtain fl tq where init: "?s3 = (kern m)\<lparr>phys := k2, kernel_pagetable := r, satp := MAKE_SATP r, env_free_list := fl, env_sched_list := tq\<rparr>"
    using env_init_same by metis
  have img: "same_image ?m0 (mem (phys ?s3)) ?bin ?sz"
    unfolding init same_image_def
  proof (intro allI impI)
    fix j assume "j < unat ?sz"
    then show "mem (phys ((kern m)\<lparr>phys := k2, kernel_pagetable := r, satp := MAKE_SATP r, env_free_list := fl, env_sched_list := tq\<rparr>))
        (?bin + word_of_nat j) = ?m0 (?bin + word_of_nat j)"
      using k(9) kernel_image_out [OF image_in_kernel [OF program_okD(2) [OF prog]]] by simp
  qed
  note prog3 = program_same(1) [OF prog img] and reqs3 = program_same(2) [OF prog img, of 0]
  have asid: "asids (asid_bitmap ?s3) = {}" and cur: "curenv ?s3 = None" using s unfolding init by (simp_all add: pristine_def)
  have room: "6162 + 2 * length (program_reqs (mem (phys ?s3)) ?bin 0) < length ps" using few k(5) unfolding reqs3 by simp
  obtain s4 s5 T0 T1 qs where e: "env_create ?s3 ?bin ?sz 1 = Ret (0, s4)" "env_create s4 ?bin ?sz 2 = Ret (1, s5)"
    "kernel_ok s5 ?g qs [2..<Suc NENV] [1, 0]" "env_ready T0 (mem (phys ?s3)) ?bin ?g s5 0 1" "env_ready T1 (mem (phys ?s3)) ?bin ?g s5 1 2"
    "T0 \<inter> T1 = {}" "(T0 \<union> T1) \<inter> set qs = {}" "T0 \<union> T1 \<subseteq> set ps" "kernel_pagetable s5 = kernel_pagetable ?s3" "curenv s5 = None"
    "slices s5 = slices ?s3" "satp s5 = satp ?s3" "sie s5 = sie ?s3" "nodes (mem (phys s5)) {kernel_pagetable ?s3} = nodes (mem (phys ?s3)) {kernel_pagetable ?s3}"
    "asids (asid_bitmap s5) = {0, 1}"
    "length ps \<le> length qs + 6162 + 2 * length (program_reqs (mem (phys ?s3)) ?bin 0)" "\<And>x. \<forall>q\<in>set ps. \<not> in_block x q 4096 \<Longrightarrow> mem (phys s5) x = mem (phys ?s3) x"
    by (rule env_create_twice [OF ok asid cur prog3 room, where ?pri0.0 = 1 and ?pri1.0 = 2]) (rule that)
  let ?s6 = "timerinit (clock b) s5"
  let ?m1 = "fold print_text (boot_lines b) m"
  let ?m' = "?m1\<lparr>kern := ?s6, the_hart := trapinit (kexcentry_addr b) (the_hart m)\<rparr>"
  have "rv_main b m = Ret ?m'"
    unfolding rv_main_def says on_kern_def kvm_init_def kpgtable_init_def ENV_CREATE_PRIORITY_def
    by (simp add: k(1,2) e(1,2) boot_lines_def says)
  moreover have "booted b m T0 T1 f qs ?m'"
  proof -
    have same: "kernel_ok ?s6 ?g qs [2..<Suc NENV] [1, 0]"
      by (rule kernel_ok_cong [OF _ _ _ _ _ _ _ e(3)]) (simp_all add: timerinit_def timer_set_next_event_def sbi_set_timer_def)
    have ready: "env_ready T ?m0 ?bin ?g ?s6 i pri" if "env_ready T (mem (phys ?s3)) ?bin ?g s5 i pri" for T i pri
      using that owns_space_image [OF prog img] same_image_headers(1) [OF prog img]
      by (simp add: env_ready_def Let_def timerinit_def timer_set_next_event_def sbi_set_timer_def)
    have "T0 \<union> T1 \<subseteq> set ps" "f ` {..<1024} \<inter> set ps = {}" "nodes (mem k2) {r} \<inter> set ps = {}"
      using e(8) k(3,8) by (auto simp: pt_inv_def tables_ok_def)
    then have "(T0 \<union> T1) \<inter> (set qs \<union> f ` {..<1024} \<union> nodes (mem (phys ?s6)) {kernel_pagetable ?s6}) = {}"
      using e(7,9,14) unfolding init by (auto simp: timerinit_def timer_set_next_event_def sbi_set_timer_def)
    moreover have ram: "ram_page q" if "q \<in> set ps" for q using k(3) that by (auto simp: pt_inv_def kmem_inv_def)
    then have "\<forall>t\<in>T0 \<union> T1. ram_page t" using e(8) by blast
    moreover have "same_image ?m0 (mem (phys ?s6)) ?bin ?sz"
      unfolding same_image_def
    proof (intro allI impI)
      fix j assume j: "j < unat ?sz"
      have "\<forall>q\<in>set ps. \<not> in_block (?bin + word_of_nat j) q 4096"
        using kernel_image_out [OF image_in_kernel [OF program_okD(2) [OF prog]] j] ram by blast
      then show "mem (phys ?s6) (?bin + word_of_nat j) = ?m0 (?bin + word_of_nat j)"
        using e(17) img j by (simp add: same_image_def timerinit_def timer_set_next_event_def sbi_set_timer_def)
    qed
    moreover have "29693 \<le> length qs + 6162 + 2 * length (program_reqs ?m0 ?bin 0)" using e(16) k(5) unfolding reqs3 by linarith
    ultimately show ?thesis
      using same ready [OF e(4)] ready [OF e(5)] e(6,9-13,15) k(6,7)
      unfolding init by (simp add: booted_def fold_print_console timerinit_def timer_set_next_event_def sbi_set_timer_def)
  qed
  ultimately show thesis using that by blast
qed

section \<open>The first ticks\<close>

lemma env_run_phys: "env_run s e = Ret (tf, s') \<Longrightarrow> phys s' = phys s"
  by (auto simp: env_run_def upd_env_def Let_def split: if_splits option.splits)

lemma do_timer_phys: "phys (do_timer time s) = phys s"
  by (simp add: do_timer_def Let_def timer_set_next_event_def sbi_set_timer_def)

lemma schedule_phys:
  assumes "schedule yield' time s = Ret (tf, s')"
  shows "phys s' = phys s"
proof -
  have "phys s' = phys (do_timer time s)"
    using assms unfolding schedule_def Let_def
    by (auto simp: andThen_eq_Ret dest!: env_run_phys simp del: do_timer_fields split: option.splits if_splits)
  then show ?thesis by (simp add: do_timer_phys)
qed

lemma ticks_run_phys: "ticks_run clocks s = Ret (es, s') \<Longrightarrow> phys s' = phys s"
  by (induction clocks arbitrary: s es) (auto simp: andThen_eq_Ret dest!: schedule_phys)

lemma rr_rounds:
  assumes pri: "pri 0 = 1" "pri 1 = 2"
  shows "rr_run pri (3 * Suc n) (None, k, [1, 0]) = Some (concat (replicate (Suc n) [1, 1, 0]), (Some 0, 0, [0, 1]))"
proof -
  have round: "rr_run pri 3 (Some 0, 0, [0, 1]) = Some ([1, 1, 0], (Some 0, 0, [0, 1]))"
    by (simp add: numeral_3_eq_3 to_tail_def rr_next_def assms [simplified])
  have "rr_run pri (3 * n) (Some 0, 0, [0, 1]) = Some (concat (replicate n [1, 1, 0]), (Some 0, 0, [0, 1]))"
    by (induction n) (simp_all add: rr_run_add round del: rr_run.simps(2) One_nat_def)
  moreover have "rr_run pri 3 (None, k, [1, 0]) = Some ([1, 1, 0], (Some 0, 0, [0, 1]))"
    by (simp add: numeral_3_eq_3 to_tail_def rr_next_def assms [simplified])
  ultimately show ?thesis by (simp add: rr_run_add del: rr_run.simps(2) One_nat_def)
qed

lemma booted_ticks:
  assumes boot: "booted b m T0 T1 env_page ps m'" and n: "length clocks = 3 * Suc n"
  obtains s' where "ticks_run clocks (kern m') = Ret (concat (replicate (Suc n) [1, 1, 0]), s')" "sched_inv s' [0, 1]"
    "curenv s' = Some 0" "phys s' = phys (kern m')"
proof -
  have inv: "sched_inv (kern m') [1, 0]" and cur: "curenv (kern m') = None"
    and pri: "env_pri (envs (kern m') ! 0) = 1" "env_pri (envs (kern m') ! 1) = 2"
    using boot unfolding booted_def kernel_ok_def env_ready_def Let_def by blast+
  let ?pri = "\<lambda>e. env_pri (envs (kern m') ! e)"
  have "rr_run ?pri (length clocks) (curenv (kern m'), slices (kern m'), [1, 0]) =
      Some (concat (replicate (Suc n) [1, 1, 0]), (Some 0, 0, [0, 1]))"
    unfolding n cur by (rule rr_rounds) (rule pri)+
  from ticks_run_rr [OF inv refl this] show thesis using that ticks_run_phys by blast
qed

text \<open>The first tick enters the program the second call has loaded.\<close>

lemma booted_enters:
  assumes boot: "booted b m T0 T1 env_page ps m'"
  obtains tf s' where "schedule False time (kern m') = Ret (tf, s')" "curenv s' = Some 1"
    "satp s' = MAKE_SATP (env_pgtable (envs (kern m') ! 1))"
    "tf_sepc tf = e_entry (load_ehdr (mem (phys (kern m))) (binary_start b))" "tf_sstatus tf = SSTATUS_SPIE" "phys s' = phys (kern m')"
proof -
  have inv: "sched_inv (kern m') [1, 0]" and cur: "curenv (kern m') = None"
    and tf: "tf_sepc (env_tf (envs (kern m') ! 1)) = e_entry (load_ehdr (mem (phys (kern m))) (binary_start b))"
      "tf_sstatus (env_tf (envs (kern m') ! 1)) = SSTATUS_SPIE"
    using boot unfolding booted_def kernel_ok_def env_ready_def Let_def by blast+
  have q: "TAILQ_FIRST (env_sched_list (kern m')) = Some 1" "\<not> TAILQ_EMPTY (env_sched_list (kern m'))"
    using tailq.first_rep [of "env_sched_list (kern m')" "[1, 0]"] inv by (simp_all add: sched_inv_def TAILQ_EMPTY_def TAILQ_FIRST_def)
  have run: "env_status (envs (kern m') ! 1) = ENV_RUNNABLE" "length (envs (kern m')) = NENV" "1 < NENV"
    using inv by (auto simp: sched_inv_def NENV_def LOG2NENV_def)
  obtain tf' s' where s: "schedule False time (kern m') = Ret (tf', s')" "curenv s' = Some 1"
    "satp s' = MAKE_SATP (env_pgtable (envs (kern m') ! 1))" "tf' = env_tf (envs (kern m') ! 1)"
    using q run by (simp add: schedule_def cur Let_def env_run_def upd_env_def del: One_nat_def)
  show thesis by (rule that [OF s(1-3)]) (use s(4) tf schedule_phys [OF s(1)] in simp_all)
qed

end
