(* ===== verification/KernelSteps.thy ===== *)
theory KernelSteps
  imports BootResult
begin

text \<open>
  The kernel as a state machine. Once it has booted, two things change its state: a timer tick, which calls \<open>schedule\<close>
  (kern/sched.c), and the creation of an environment (\<open>env_create\<close>, kern/env.c), in any order. \<open>kernel_run\<close> are the sequences
  of such steps, \<open>spec_run\<close> those of an abstract machine that knows only queues and priorities. \<open>run_simulates\<close>: whatever the
  steps, the kernel does what the abstract machine does, keeps its invariant, and every environment keeps its identity and an
  address space of its own. What user code stores in its own pages is not a step.
\<close>

section \<open>Steps of the kernel\<close>

datatype event = Tick bool u64 | Create u32

text \<open>\<open>env_create\<close> has no error path of its own (\<open>panic\<close> and the use of an uninitialised pointer aside), so its caller has to
  see to it that there is a free slot, an address space identifier, and memory for tables and program.\<close>

inductive kernel_step :: "u64 \<Rightarrow> u64 \<Rightarrow> kernel \<Rightarrow> event \<Rightarrow> kernel \<Rightarrow> bool" for binary size' where
  tick: "schedule yield' time s = Ret (tf, s') \<Longrightarrow> kernel_step binary size' s (Tick yield' time) s'"
| create: "LIST_FIRST (env_free_list s) = Some e \<Longrightarrow> e < NENV \<Longrightarrow> asids (asid_bitmap s) \<noteq> {..<NASID} \<Longrightarrow>
    free_list (mem (phys s)) (freelist (phys s)) ps \<Longrightarrow> 3082 + length (program_reqs (mem (phys s)) binary 0) \<le> length ps \<Longrightarrow>
    env_create s binary size' pri = Ret (new, s') \<Longrightarrow> kernel_step binary size' s (Create pri) s'"

inductive kernel_run :: "u64 \<Rightarrow> u64 \<Rightarrow> kernel \<Rightarrow> event list \<Rightarrow> kernel \<Rightarrow> bool" for binary size' s where
  none: "kernel_run binary size' s [] s"
| more: "kernel_run binary size' s es t \<Longrightarrow> kernel_step binary size' t e t' \<Longrightarrow> kernel_run binary size' s (es @ [e]) t'"

inductive_cases tick_stepE: "kernel_step binary size' s (Tick yield' time) s'"
inductive_cases create_stepE: "kernel_step binary size' s (Create pri) s'"
inductive_simps kernel_run_Nil: "kernel_run binary size' s [] t"

lemma kernel_run_snoc:
  "kernel_run binary size' s (es @ [e]) u \<longleftrightarrow> (\<exists>t. kernel_run binary size' s es t \<and> kernel_step binary size' t e u)"
  by (auto elim: kernel_run.cases intro: more)

lemma kernel_run_append:
  "kernel_run binary size' s es t \<Longrightarrow> kernel_run binary size' t fs u \<Longrightarrow> kernel_run binary size' s (es @ fs) u"
  by (induction fs arbitrary: u rule: rev_induct) (auto simp: kernel_run_Nil kernel_run_snoc simp flip: append_assoc)

text \<open>The ticks of the fairness results (\<open>ticks_run\<close>) are such a run.\<close>

lemma ticks_kernel_run: "ticks_run clocks s = Ret (is, s') \<Longrightarrow> kernel_run binary size' s (map (Tick False) clocks) s'"
proof (induction clocks arbitrary: s "is")
  case (Cons clock clocks)
  then obtain tf t js where t: "schedule False clock s = Ret (tf, t)" "ticks_run clocks t = Ret (js, s')"
    by (auto simp: andThen_eq_Ret)
  have "kernel_run binary size' s ([] @ [Tick False clock]) t" by (rule more [OF none tick [OF t(1)]])
  from kernel_run_append [OF this Cons.IH [OF t(2)]] show ?case by simp
qed (simp add: kernel_run_Nil)

section \<open>The abstract machine\<close>

text \<open>Who has the hart and for how many ticks more, who can have it, which slots are free, and the priorities.\<close>

record spec =
  spec_cur :: "nat option"
  spec_left :: u32
  spec_queue :: "nat list"
  spec_free :: "nat list"
  spec_prio :: "nat \<Rightarrow> u32"

inductive spec_step :: "spec \<Rightarrow> event \<Rightarrow> spec \<Rightarrow> bool" where
  spec_tick: "rr_step (spec_prio a) yield' (spec_cur a, spec_left a, spec_queue a) = Some (c, n, q) \<Longrightarrow>
    spec_step a (Tick yield' time) (a\<lparr>spec_cur := c, spec_left := n, spec_queue := q\<rparr>)"
| spec_create: "spec_free a = e # fs \<Longrightarrow> e < NENV \<Longrightarrow>
    spec_step a (Create pri) (a\<lparr>spec_queue := e # spec_queue a, spec_free := fs, spec_prio := (spec_prio a)(e := pri)\<rparr>)"

inductive spec_run :: "spec \<Rightarrow> event list \<Rightarrow> spec \<Rightarrow> bool" for a where
  spec_none: "spec_run a [] a"
| spec_more: "spec_run a es b \<Longrightarrow> spec_step b e c \<Longrightarrow> spec_run a (es @ [e]) c"

inductive_simps spec_create_iff: "spec_step a (Create pri) b"
inductive_simps spec_run_Nil: "spec_run a [] b"

lemma spec_run_snoc: "spec_run a (es @ [e]) c \<longleftrightarrow> (\<exists>b. spec_run a es b \<and> spec_step b e c)"
  by (auto elim: spec_run.cases intro: spec_more)

text \<open>How a kernel represents a state of the abstract machine.\<close>

definition represents :: "kernel \<Rightarrow> (u64 \<Rightarrow> u64 option) \<Rightarrow> u64 list \<Rightarrow> spec \<Rightarrow> bool" where
  "represents s g ps a \<longleftrightarrow> kernel_ok s g ps (spec_free a) (spec_queue a) \<and> curenv s = spec_cur a \<and> slices s = spec_left a \<and>
     (\<forall>e<NENV. env_pri (envs s ! e) = spec_prio a e)"

text \<open>Environment \<open>e\<close> lies in the pages \<open>T e\<close>. No two environments share a page or an ASID.\<close>

definition envs_apart :: "(nat \<Rightarrow> u64 set) \<Rightarrow> mem \<Rightarrow> u64 \<Rightarrow> (u64 \<Rightarrow> u64 option) \<Rightarrow> kernel \<Rightarrow> u64 list \<Rightarrow> nat list \<Rightarrow> bool" where
  "envs_apart T m0 binary g s ps es \<longleftrightarrow>
     (\<forall>e\<in>set es. owns_space (T e) m0 binary g (mem (phys s)) (env_pgtable (envs s ! e)) \<and> env_pgtable (envs s ! e) \<in> T e \<and>
        (\<forall>t\<in>T e. ram_page t) \<and> T e \<inter> (set ps \<union> nodes (mem (phys s)) {kernel_pagetable s}) = {} \<and>
        unat (env_asid (envs s ! e)) \<in> asids (asid_bitmap s)) \<and>
     (\<forall>e\<in>set es. \<forall>i\<in>set es. e \<noteq> i \<longrightarrow> T e \<inter> T i = {} \<and> env_asid (envs s ! e) \<noteq> env_asid (envs s ! i))"

text \<open>What an environment never loses.\<close>

definition env_kept :: "kernel \<Rightarrow> kernel \<Rightarrow> nat \<Rightarrow> bool" where
  "env_kept s s' e \<longleftrightarrow> (let v = envs s ! e; w = envs s' ! e in
     env_id w = env_id v \<and> env_asid w = env_asid v \<and> env_parent_id w = env_parent_id v \<and> env_status w = env_status v \<and>
     env_pgtable w = env_pgtable v \<and> env_pri w = env_pri v)"

lemma env_kept_refl [simp, intro]: "env_kept s s e"
  by (simp add: env_kept_def)

lemma env_kept_trans [trans]: "env_kept s t e \<Longrightarrow> env_kept t u e \<Longrightarrow> env_kept s u e"
  by (simp add: env_kept_def Let_def)

section \<open>A tick\<close>

lemma env_run_keeps:
  assumes "env_run s e = Ret (tf, s')"
  shows "kernel_pagetable s' = kernel_pagetable s" and "env_free_list s' = env_free_list s" and "asid_bitmap s' = asid_bitmap s"
    and "i < length (envs s) \<Longrightarrow> env_kept s s' i"
proof -
  have upd: "(xs[j := f (xs ! j)]) ! i = (if i = j then f (xs ! i) else xs ! i)" if "i < length xs" for xs j and f :: "env \<Rightarrow> env"
    using that by simp
  show "kernel_pagetable s' = kernel_pagetable s" and "env_free_list s' = env_free_list s" and "asid_bitmap s' = asid_bitmap s"
    and "i < length (envs s) \<Longrightarrow> env_kept s s' i"
    using assms by (auto simp: env_run_def upd_env_def Let_def env_kept_def upd split: if_splits option.splits)
qed

lemma do_timer_keeps:
  "kernel_pagetable (do_timer time s) = kernel_pagetable s" "env_free_list (do_timer time s) = env_free_list s"
  "asid_bitmap (do_timer time s) = asid_bitmap s"
  by (simp_all add: do_timer_def Let_def timer_set_next_event_def sbi_set_timer_def)

text \<open>\<open>schedule\<close> hands a state to \<open>env_run\<close> that differs from its own in the timer, the queue and the slices only.\<close>

lemma schedule_env_run:
  assumes "schedule yield' time s = Ret (tf, s')"
  obtains q n e where "env_run ((do_timer time s)\<lparr>env_sched_list := q, slices := n\<rparr>) e = Ret (tf, s')"
proof -
  let ?t = "do_timer time s"
  have same: "?t\<lparr>slices := n\<rparr> = ?t\<lparr>env_sched_list := env_sched_list ?t, slices := n\<rparr>" for n by (cases ?t) simp
  have thesis if "env_run (?t\<lparr>slices := n\<rparr>) e = Ret (tf, s')" for n e
    using that \<open>\<And>q n e. env_run (?t\<lparr>env_sched_list := q, slices := n\<rparr>) e = Ret (tf, s') \<Longrightarrow> thesis\<close> unfolding same [of n] by blast
  then show thesis
    using assms that unfolding schedule_def Let_def
    by (auto simp: andThen_eq_Ret simp del: do_timer_fields split: option.splits if_splits)
qed

lemma schedule_keeps:
  assumes "schedule yield' time s = Ret (tf, s')"
  shows "kernel_pagetable s' = kernel_pagetable s" and "env_free_list s' = env_free_list s" and "asid_bitmap s' = asid_bitmap s"
    and "i < length (envs s) \<Longrightarrow> env_kept s s' i"
proof -
  obtain q n e where run: "env_run ((do_timer time s)\<lparr>env_sched_list := q, slices := n\<rparr>) e = Ret (tf, s')"
    by (rule schedule_env_run [OF assms])
  note env_run_keeps [OF run]
  then show "kernel_pagetable s' = kernel_pagetable s" and "env_free_list s' = env_free_list s" and "asid_bitmap s' = asid_bitmap s"
    and "i < length (envs s) \<Longrightarrow> env_kept s s' i" by (simp_all add: do_timer_keeps env_kept_def)
qed

text \<open>All an environment relies on stays in place when its pages, the kernel's tables and its own fields do.\<close>

lemma envs_apart_keep:
  assumes apart: "envs_apart T m0 binary g s ps es" and sub: "set es' \<subseteq> set es" "set qs \<subseteq> set ps"
    and kept: "\<And>e. e \<in> set es' \<Longrightarrow> env_kept s s' e" "asids (asid_bitmap s) \<subseteq> asids (asid_bitmap s')"
    and nodes: "nodes (mem (phys s')) {kernel_pagetable s'} = nodes (mem (phys s)) {kernel_pagetable s}"
    and mem: "\<And>e t x. e \<in> set es' \<Longrightarrow> t \<in> T e \<Longrightarrow> in_block x t 4096 \<Longrightarrow> mem (phys s') x = mem (phys s) x"
  shows "envs_apart T m0 binary g s' qs es'"
proof -
  have f: "env_pgtable (envs s' ! e) = env_pgtable (envs s ! e)" "env_asid (envs s' ! e) = env_asid (envs s ! e)" if "e \<in> set es'" for e
    using kept(1) [OF that] by (simp_all add: env_kept_def Let_def)
  have own: "owns_space (T e) m0 binary g (mem (phys s')) (env_pgtable (envs s' ! e))" if "e \<in> set es'" for e
  proof (unfold f(1) [OF that], rule owns_space_keep)
    show "owns_space (T e) m0 binary g (mem (phys s)) (env_pgtable (envs s ! e))"
      using apart sub(1) that by (auto simp: envs_apart_def)
  qed (rule mem [OF that])
  show ?thesis
    unfolding envs_apart_def nodes
  proof (intro conjI ballI impI)
    fix e assume e: "e \<in> set es'"
    then have "e \<in> set es" using sub(1) by blast
    then have a: "env_pgtable (envs s ! e) \<in> T e" "\<forall>t\<in>T e. ram_page t"
        "T e \<inter> (set ps \<union> nodes (mem (phys s)) {kernel_pagetable s}) = {}" "unat (env_asid (envs s ! e)) \<in> asids (asid_bitmap s)"
      using apart by (simp_all add: envs_apart_def)
    show "owns_space (T e) m0 binary g (mem (phys s')) (env_pgtable (envs s' ! e))" by (rule own [OF e])
    show "env_pgtable (envs s' ! e) \<in> T e" using a(1) f(1) [OF e] by simp
    show "ram_page t" if "t \<in> T e" for t using a(2) that by blast
    show "T e \<inter> (set qs \<union> nodes (mem (phys s)) {kernel_pagetable s}) = {}" using a(3) sub(2) by blast
    show "unat (env_asid (envs s' ! e)) \<in> asids (asid_bitmap s')" using a(4) kept(2) f(2) [OF e] by auto
  next
    fix e i assume ei: "e \<in> set es'" "i \<in> set es'" "e \<noteq> i"
    then have "T e \<inter> T i = {} \<and> env_asid (envs s ! e) \<noteq> env_asid (envs s ! i)"
      using apart sub(1) unfolding envs_apart_def by blast
    then show "T e \<inter> T i = {}" and "env_asid (envs s' ! e) \<noteq> env_asid (envs s' ! i)"
      by (simp_all add: f(2) [OF ei(1)] f(2) [OF ei(2)])
  qed
qed

lemma tick_simulates:
  assumes rep: "represents s g ps a" and run: "schedule yield' time s = Ret (tf, s')"
  obtains a' where "spec_step a (Tick yield' time) a'" "represents s' g ps a'" "set (spec_queue a') = set (spec_queue a)"
    "\<And>e. e < NENV \<Longrightarrow> env_kept s s' e"
proof -
  have ok: "kernel_ok s g ps (spec_free a) (spec_queue a)" and cur: "curenv s = spec_cur a" "slices s = spec_left a"
    and pri: "\<And>e. e < NENV \<Longrightarrow> env_pri (envs s ! e) = spec_prio a e"
    using rep by (simp_all add: represents_def)
  have inv: "sched_inv s (spec_queue a)" and len: "length (envs s) = NENV" using ok by (simp_all add: kernel_ok_def sched_inv_def)
  have "rr_step (\<lambda>e. env_pri (envs s ! e)) yield' (spec_cur a, spec_left a, spec_queue a) = rr_step (spec_prio a) yield' (spec_cur a, spec_left a, spec_queue a)"
    by (rule rr_step_cong) (use inv pri in \<open>simp add: sched_inv_def\<close>)
  then have "sched_result s (rr_step (spec_prio a) yield' (spec_cur a, spec_left a, spec_queue a)) (Ret (tf, s'))"
    using schedule_rr [OF inv, of yield' time] run by (simp only: cur)
  then obtain e n q where q: "rr_step (spec_prio a) yield' (spec_cur a, spec_left a, spec_queue a) = Some (Some e, n, q)" "sched_inv s' q"
      "curenv s' = Some e" "slices s' = n"
    unfolding sched_result_def by (auto simp del: rr_step.simps split: option.splits)
  note same = schedule_phys [OF run] schedule_keeps(1-3) [OF run]
  have kept: "env_kept s s' i" if "i < NENV" for i using schedule_keeps(4) [OF run] that len by simp
  then have f: "env_status (envs s' ! i) = env_status (envs s ! i)" "env_pri (envs s' ! i) = env_pri (envs s ! i)" if "i < NENV" for i
    using that by (simp_all add: env_kept_def Let_def)
  show thesis
  proof (rule that [OF spec_tick [OF q(1)] _ _ kept])
    show "represents s' g ps (a\<lparr>spec_cur := Some e, spec_left := n, spec_queue := q\<rparr>)"
      using ok q f pri by (simp add: represents_def kernel_ok_def same)
    show "set (spec_queue (a\<lparr>spec_cur := Some e, spec_left := n, spec_queue := q\<rparr>)) = set (spec_queue a)"
      using inv q(2) f(1) by (auto simp: sched_inv_def)
  qed
qed

section \<open>The creation of an environment\<close>

lemma free_list_unique: "free_list m p ps \<Longrightarrow> free_list m p qs \<Longrightarrow> ps = qs"
  by (induction ps arbitrary: p qs) (case_tac qs; auto)+

text \<open>One more environment: \<open>T e\<close> are the pages \<open>env_create\<close> takes from the free list.\<close>

lemma envs_apart_insert:
  assumes apart: "envs_apart T m0 binary g s qs es" and new: "e \<notin> set es"
    and e: "owns_space U m0 binary g (mem (phys s)) (env_pgtable (envs s ! e))" "env_pgtable (envs s ! e) \<in> U" "\<And>t. t \<in> U \<Longrightarrow> ram_page t"
      "U \<inter> (set qs \<union> nodes (mem (phys s)) {kernel_pagetable s}) = {}" "unat (env_asid (envs s ! e)) \<in> asids (asid_bitmap s)"
    and others: "\<And>i. i \<in> set es \<Longrightarrow> T i \<inter> U = {}" "\<And>i. i \<in> set es \<Longrightarrow> env_asid (envs s ! i) \<noteq> env_asid (envs s ! e)"
  shows "envs_apart (T(e := U)) m0 binary g s qs (e # es)"
proof -
  have "i \<noteq> e" if "i \<in> set es" for i using new that by blast
  then show ?thesis
    using apart e others by (fastforce simp: envs_apart_def)
qed

lemma create_simulates:
  assumes rep: "represents s g ps a" and apart: "envs_apart T m0 binary g s ps (spec_queue a)"
    and prog: "program_ok m0 binary size'" and img: "same_image m0 (mem (phys s)) binary size'"
    and step: "kernel_step binary size' s (Create pri) s'"
  obtains a' qs T' where "spec_step a (Create pri) a'" "represents s' g qs a'" "envs_apart T' m0 binary g s' qs (spec_queue a')"
    "set qs \<subseteq> set ps" "set (spec_queue a) \<subseteq> set (spec_queue a')" "\<And>e. e \<in> set (spec_queue a) \<Longrightarrow> T' e = T e \<and> env_kept s s' e"
    "\<And>x. \<forall>q\<in>set ps. \<not> in_block x q 4096 \<Longrightarrow> mem (phys s') x = mem (phys s) x" "kernel_pagetable s' = kernel_pagetable s"
proof -
  let ?m = "mem (phys s)"
  have ok: "kernel_ok s g ps (spec_free a) (spec_queue a)" and cur: "curenv s = spec_cur a" "slices s = spec_left a"
    and prio: "\<And>e. e < NENV \<Longrightarrow> env_pri (envs s ! e) = spec_prio a e"
    using rep by (simp_all add: represents_def)
  have inv: "pt_inv (phys s) {kernel_pagetable s} ps" and free: "list_rep (env_free_list s) (spec_free a)"
    and sched: "sched_inv s (spec_queue a)" and idle: "\<forall>e\<in>set (spec_free a). e < NENV \<longrightarrow> env_status (envs s ! e) \<noteq> ENV_RUNNABLE"
    using ok by (simp_all add: kernel_ok_def)
  from step obtain e qs0 new where st: "LIST_FIRST (env_free_list s) = Some e" "e < NENV" "asids (asid_bitmap s) \<noteq> {..<NASID}"
    "free_list ?m (freelist (phys s)) qs0" "3082 + length (program_reqs ?m binary 0) \<le> length qs0"
    "env_create s binary size' pri = Ret (new, s')" by (rule create_stepE)
  have "qs0 = ps" using st(4) inv free_list_unique unfolding pt_inv_def kmem_inv_def by blast
  then obtain p ps0 where ps: "ps = p # ps0" and room: "3081 + length (program_reqs ?m binary 0) \<le> length ps0"
    using st(5) by (cases ps) auto
  obtain fs where fs: "spec_free a = e # fs"
    using lists.first_rep [OF free] st(1) by (cases "spec_free a") auto
  note prog1 = program_same(1) [OF prog img]
  obtain s1 v qs where c: "env_create s binary size' pri = Ret (e, s1)" "kernel_ok s1 g qs fs (e # spec_queue a)" "set qs \<subseteq> set ps0"
    "owns_space (set (p # ps0) - set qs) ?m binary g (mem (phys s1)) p"
    "\<And>x. \<forall>q\<in>set (p # ps0). \<not> in_block x q 4096 \<Longrightarrow> mem (phys s1) x = ?m x"
    "envs s1 = (envs s)[e := v]" "fresh_env s e p 0 v" "env_pri v = pri"
    "asids (asid_bitmap s1) = insert (unat (env_asid v)) (asids (asid_bitmap s))"
    "kernel_pagetable s1 = kernel_pagetable s" "curenv s1 = curenv s" "slices s1 = slices s"
    "nodes (mem (phys s1)) {kernel_pagetable s} = nodes ?m {kernel_pagetable s}"
    by (rule env_create_result [OF ok [unfolded ps fs] st(2,3) prog1 room, where pri = pri]) (rule that)
  have s1: "s1 = s'" using c(1) st(6) by simp
  note c = c [unfolded s1]
  have ram: "ram_page q" if "q \<in> set ps" for q using inv that by (auto simp: pt_inv_def kmem_inv_def)
  have el: "e < length (envs s)" using st(2) sched by (simp add: sched_inv_def)
  have "e \<notin> set (spec_queue a)" using idle fs st(2) sched by (simp add: sched_inv_def)
  then have ne: "i \<noteq> e" if "i \<in> set (spec_queue a)" for i using that by blast
  have kept: "env_kept s s' i" if "i \<in> set (spec_queue a)" for i using c(6) ne [OF that] by (simp add: env_kept_def)
  have T: "(\<forall>t\<in>T i. ram_page t) \<and> T i \<inter> set ps = {}" if "i \<in> set (spec_queue a)" for i
    using apart that by (auto simp: envs_apart_def)
  have out: "mem (phys s') x = ?m x" if "i \<in> set (spec_queue a)" "t \<in> T i" "in_block x t 4096" for i t x
  proof (rule c(5), intro ballI notI)
    fix q assume "q \<in> set (p # ps0)" "in_block x q 4096"
    then have "q = t" using page_disjoint [of q t x] that T [OF that(1)] ram ps ram_pageD(1) by blast
    then show False using T [OF that(1)] that(2) \<open>q \<in> set (p # ps0)\<close> ps by blast
  qed
  have old: "envs_apart T m0 binary g s' qs (spec_queue a)"
    by (rule envs_apart_keep [OF apart order_refl _ kept _ _ out]) (use c(3,9,10,13) ps in auto)
  have v: "envs s' ! e = v" using c(6) el by simp
  let ?U = "set ps - set qs"
  have d: "distinct ps" "nodes ?m {kernel_pagetable s} \<inter> set ps = {}" using inv by (auto simp: pt_inv_def kmem_inv_def tables_ok_def)
  have fresh: "env_pgtable v = p" "unat (env_asid v) \<notin> asids (asid_bitmap s)"
  proof -
    have "\<exists>n. n \<notin> asids (asid_bitmap s)" using asid.used_bound [of s] by (meson lessThan_iff less_irrefl subsetD)
    then show "unat (env_asid v) \<notin> asids (asid_bitmap s)" using c(7) unfolding fresh_env_def by (metis LeastI)
    show "env_pgtable v = p" using c(7) by (simp add: fresh_env_def)
  qed
  have "envs_apart (T(e := ?U)) m0 binary g s' qs (e # spec_queue a)"
  proof (rule envs_apart_insert [OF old \<open>e \<notin> set (spec_queue a)\<close>])
    show "owns_space ?U m0 binary g (mem (phys s')) (env_pgtable (envs s' ! e))"
      using owns_space_image [OF prog img] c(4) ps fresh(1) v by simp
    show "env_pgtable (envs s' ! e) \<in> ?U" using fresh(1) v d(1) ps c(3) by auto
    show "unat (env_asid (envs s' ! e)) \<in> asids (asid_bitmap s')" using c(9) v by simp
    show "?U \<inter> (set qs \<union> nodes (mem (phys s')) {kernel_pagetable s'}) = {}" using d(2) c(10,13) by auto
    show "env_asid (envs s' ! i) \<noteq> env_asid (envs s' ! e)" if "i \<in> set (spec_queue a)" for i
      using apart that fresh(2) v c(6) ne [OF that] by (auto simp: envs_apart_def)
  qed (use ram T in auto)
  moreover have "represents s' g qs (a\<lparr>spec_queue := e # spec_queue a, spec_free := fs, spec_prio := (spec_prio a)(e := pri)\<rparr>)"
    using c(2,6,8,11,12) cur prio el by (simp add: represents_def nth_list_update)
  ultimately show thesis
    using that [OF spec_create [OF fs st(2)], where T' = "T(e := ?U)"] c(3,5,10) ps kept ne by auto
qed

section \<open>Runs\<close>

text \<open>From \<open>s\<close> with the pages \<open>ps\<close> free to \<open>s'\<close>: nothing outside the free pages has been written, and no environment has lost
  its pages or its identity.\<close>

definition grown :: "(nat \<Rightarrow> u64 set) \<Rightarrow> kernel \<Rightarrow> u64 list \<Rightarrow> nat list \<Rightarrow> (nat \<Rightarrow> u64 set) \<Rightarrow> kernel \<Rightarrow> u64 list \<Rightarrow> nat list \<Rightarrow> bool" where
  "grown T s ps es T' s' ps' es' \<longleftrightarrow> set ps' \<subseteq> set ps \<and> set es \<subseteq> set es' \<and> (\<forall>e\<in>set es. T' e = T e \<and> env_kept s s' e) \<and>
     kernel_pagetable s' = kernel_pagetable s \<and> (\<forall>x. (\<forall>q\<in>set ps. \<not> in_block x q 4096) \<longrightarrow> mem (phys s') x = mem (phys s) x)"

lemma grown_refl [simp]: "grown T s ps es T s ps es"
  by (simp add: grown_def)

lemma grown_trans [trans]:
  "grown T s ps es T' s' ps' es' \<Longrightarrow> grown T' s' ps' es' T'' s'' ps'' es'' \<Longrightarrow> grown T s ps es T'' s'' ps'' es''"
proof -
  assume g: "grown T s ps es T' s' ps' es'" "grown T' s' ps' es' T'' s'' ps'' es''"
  have "T'' e = T e \<and> env_kept s s'' e" if "e \<in> set es" for e
  proof -
    have "e \<in> set es'" using g(1) that by (auto simp: grown_def)
    then show ?thesis using g that env_kept_trans [of s s' e s''] by (simp add: grown_def)
  qed
  moreover have "mem (phys s'') x = mem (phys s) x" if "\<forall>q\<in>set ps. \<not> in_block x q 4096" for x
  proof -
    have "\<forall>q\<in>set ps'. \<not> in_block x q 4096" using g(1) that by (auto simp: grown_def)
    then show ?thesis using g that by (simp add: grown_def)
  qed
  ultimately show ?thesis using g by (auto simp: grown_def)
qed

lemma step_simulates:
  assumes rep: "represents s g ps a" and apart: "envs_apart T m0 binary g s ps (spec_queue a)"
    and prog: "program_ok m0 binary size'" and img: "same_image m0 (mem (phys s)) binary size'"
    and step: "kernel_step binary size' s e s'"
  obtains a' qs T' where "spec_step a e a'" "represents s' g qs a'" "envs_apart T' m0 binary g s' qs (spec_queue a')"
    "same_image m0 (mem (phys s')) binary size'" "grown T s ps (spec_queue a) T' s' qs (spec_queue a')"
proof (cases e)
  case (Tick yield' time)
  then obtain tf where run: "schedule yield' time s = Ret (tf, s')" using step by (auto elim: tick_stepE)
  obtain a' where a': "spec_step a (Tick yield' time) a'" "represents s' g ps a'" "set (spec_queue a') = set (spec_queue a)"
    "\<And>e. e < NENV \<Longrightarrow> env_kept s s' e" by (rule tick_simulates [OF rep run]) (rule that)
  have kept: "env_kept s s' e" if "e \<in> set (spec_queue a)" for e
    using a'(4) that rep by (auto simp: represents_def kernel_ok_def sched_inv_def)
  note same = schedule_phys [OF run] schedule_keeps(1,3) [OF run]
  have "envs_apart T m0 binary g s' ps (spec_queue a')"
    by (rule envs_apart_keep [OF apart]) (use kept a'(3) in \<open>simp_all add: same\<close>)
  then show thesis
    using that [of a' ps T] a'(1-3) Tick img kept by (simp add: same grown_def)
next
  case (Create pri)
  obtain a' qs T' where a': "spec_step a (Create pri) a'" "represents s' g qs a'" "envs_apart T' m0 binary g s' qs (spec_queue a')"
    "set qs \<subseteq> set ps" "set (spec_queue a) \<subseteq> set (spec_queue a')" "\<And>e. e \<in> set (spec_queue a) \<Longrightarrow> T' e = T e \<and> env_kept s s' e"
    "\<And>x. \<forall>q\<in>set ps. \<not> in_block x q 4096 \<Longrightarrow> mem (phys s') x = mem (phys s) x" "kernel_pagetable s' = kernel_pagetable s"
    by (rule create_simulates [OF rep apart prog img step [unfolded Create]]) (rule that)
  have ram: "ram_page q" if "q \<in> set ps" for q
    using rep that by (auto simp: represents_def kernel_ok_def pt_inv_def kmem_inv_def)
  have "same_image m0 (mem (phys s')) binary size'"
    unfolding same_image_def
  proof (intro allI impI)
    fix j assume j: "j < unat size'"
    have "\<forall>q\<in>set ps. \<not> in_block (binary + word_of_nat j) q 4096"
      using kernel_image_out [OF image_in_kernel [OF program_okD(2) [OF prog]] j] ram by blast
    then show "mem (phys s') (binary + word_of_nat j) = m0 (binary + word_of_nat j)"
      using a'(7) img j by (simp add: same_image_def)
  qed
  then show thesis
    using that [OF _ a'(2,3)] a'(1,4-8) Create by (simp add: grown_def)
qed

text \<open>By induction on the run.\<close>

lemma run_simulates:
  assumes run: "kernel_run binary size' s es s'" and rep: "represents s g ps a" and apart: "envs_apart T m0 binary g s ps (spec_queue a)"
    and prog: "program_ok m0 binary size'" and img: "same_image m0 (mem (phys s)) binary size'"
  shows "\<exists>a' qs T'. spec_run a es a' \<and> represents s' g qs a' \<and> envs_apart T' m0 binary g s' qs (spec_queue a') \<and>
    same_image m0 (mem (phys s')) binary size' \<and> grown T s ps (spec_queue a) T' s' qs (spec_queue a')"
  using run
proof induction
  case none
  show ?case using spec_none [of a] rep apart img grown_refl by blast
next
  case (more es t e t')
  then obtain b ps' U where b: "spec_run a es b" "represents t g ps' b" "envs_apart U m0 binary g t ps' (spec_queue b)"
    "same_image m0 (mem (phys t)) binary size'" "grown T s ps (spec_queue a) U t ps' (spec_queue b)" by blast
  obtain c qs T' where "spec_step b e c" "represents t' g qs c" "envs_apart T' m0 binary g t' qs (spec_queue c)"
    "same_image m0 (mem (phys t')) binary size'" "grown U t ps' (spec_queue b) T' t' qs (spec_queue c)"
    by (rule step_simulates [OF b(2,3) prog b(4) more.hyps(2)])
  then show ?case using spec_more [OF b(1)] grown_trans [OF b(5)] by blast
qed

lemma rr_possible:
  assumes "xs \<noteq> []" and "distinct xs"
  shows "\<exists>e n q. rr_step pri yield' (c, k, xs) = Some (Some e, n, q) \<and> set q = set xs"
proof -
  have "set (to_tail c xs) = set xs" using assms(2) by (auto simp: to_tail_def split: option.splits)
  moreover from this have "to_tail c xs \<noteq> []" using assms(1) by auto
  ultimately have "rr_next pri (to_tail c xs) = Some (Some (hd (to_tail c xs)), pri (hd (to_tail c xs)) - 1, to_tail c xs)"
    by (simp add: rr_next_def)
  then show ?thesis using \<open>set (to_tail c xs) = set xs\<close> by auto
qed

text \<open>As long as someone can have the hart, a tick gives it to someone: no panic, no fault.\<close>

lemma tick_possible:
  assumes rep: "represents s g ps a" and some: "spec_queue a \<noteq> []"
  shows "\<exists>tf s' e. schedule yield' time s = Ret (tf, s') \<and> curenv s' = Some e \<and> e \<in> set (spec_queue a) \<and>
    satp s' = MAKE_SATP (env_pgtable (envs s ! e))"
proof -
  have inv: "sched_inv s (spec_queue a)" using rep by (simp add: represents_def kernel_ok_def)
  then have "distinct (spec_queue a)" by (auto simp: sched_inv_def intro: tailq.rep_distinct)
  then obtain e n q where "rr_step (\<lambda>e. env_pri (envs s ! e)) yield' (curenv s, slices s, spec_queue a) = Some (Some e, n, q)"
      "set q = set (spec_queue a)" using rr_possible [OF some] by blast
  then show ?thesis using schedule_rr [OF inv, of yield' time] by (auto simp: sched_result_def)
qed

text \<open>As long as the resources last, one more environment can be created.\<close>

lemma create_possible:
  assumes rep: "represents s g ps a" and prog: "program_ok m0 binary size'" and img: "same_image m0 (mem (phys s)) binary size'"
    and slot: "spec_free a = e # fs" "e < NENV" and asid: "asids (asid_bitmap s) \<noteq> {..<NASID}"
    and room: "3082 + length (program_reqs m0 binary 0) \<le> length ps"
  shows "\<exists>s'. kernel_step binary size' s (Create pri) s'"
proof -
  have ok: "kernel_ok s g ps (e # fs) (spec_queue a)" using rep slot(1) by (simp add: represents_def)
  then have list: "free_list (mem (phys s)) (freelist (phys s)) ps" and first: "LIST_FIRST (env_free_list s) = Some e"
    using lists.first_rep [of "env_free_list s" "e # fs"] by (simp_all add: kernel_ok_def pt_inv_def kmem_inv_def)
  note reqs = program_same(2) [OF prog img, of 0]
  obtain p qs where ps: "ps = p # qs" using room by (cases ps) auto
  have room': "3081 + length (program_reqs (mem (phys s)) binary 0) \<le> length qs" using room ps reqs by simp
  obtain s' where "env_create s binary size' pri = Ret (e, s')"
    by (rule env_create_result [OF ok [unfolded ps] slot(2) asid program_same(1) [OF prog img] room', where pri = pri]) (rule that)
  then show ?thesis using create [OF first slot(2) asid list] room reqs by metis
qed

section \<open>From the boot on\<close>

definition boot_spec :: "kernel \<Rightarrow> spec" where
  "boot_spec s = \<lparr>spec_cur = None, spec_left = slices s, spec_queue = [1, 0], spec_free = [2..<Suc NENV], spec_prio = (\<lambda>e. env_pri (envs s ! e))\<rparr>"

lemma booted_represents:
  assumes boot: "booted b m T0 T1 env_page ps m'"
  shows "represents (kern m') (boot_map (etext b) env_page) ps (boot_spec (kern m'))"
    and "envs_apart (\<lambda>e. if e = 0 then T0 else T1) (mem (phys (kern m))) (binary_start b) (boot_map (etext b) env_page) (kern m') ps [1, 0]"
    and "same_image (mem (phys (kern m))) (mem (phys (kern m'))) (binary_start b) (binary_size b)"
proof -
  let ?s = "kern m'" and ?g = "boot_map (etext b) env_page" and ?m0 = "mem (phys (kern m))"
  have b: "kernel_ok ?s ?g ps [2..<Suc NENV] [1, 0]" "curenv ?s = None" "T0 \<inter> T1 = {}"
      "(T0 \<union> T1) \<inter> (set ps \<union> nodes (mem (phys ?s)) {kernel_pagetable ?s}) = {}" "\<forall>t\<in>T0 \<union> T1. ram_page t"
      "asids (asid_bitmap ?s) = {0, 1}"
    and r0: "env_ready T0 ?m0 (binary_start b) ?g ?s 0 1" and r1: "env_ready T1 ?m0 (binary_start b) ?g ?s 1 2"
    using boot unfolding booted_def Let_def by blast+
  show "same_image ?m0 (mem (phys ?s)) (binary_start b) (binary_size b)" using boot unfolding booted_def Let_def by blast
  show "represents ?s ?g ps (boot_spec ?s)" using b(1,2) by (simp add: represents_def boot_spec_def del: upt_Suc)
  have e: "owns_space T0 ?m0 (binary_start b) ?g (mem (phys ?s)) (env_pgtable (envs ?s ! 0))" "env_pgtable (envs ?s ! 0) \<in> T0"
      "unat (env_asid (envs ?s ! 0)) = 0" "owns_space T1 ?m0 (binary_start b) ?g (mem (phys ?s)) (env_pgtable (envs ?s ! 1))"
      "env_pgtable (envs ?s ! 1) \<in> T1" "unat (env_asid (envs ?s ! 1)) = 1"
    using r0 r1 unfolding env_ready_def Let_def by blast+
  then have "env_asid (envs ?s ! 0) \<noteq> env_asid (envs ?s ! 1)" by auto
  then show "envs_apart (\<lambda>e. if e = 0 then T0 else T1) ?m0 (binary_start b) ?g ?s ps [1, 0]"
    using b(3-6) e unfolding envs_apart_def by (auto simp del: One_nat_def)
qed

end
