(* ===== verification/Readelf.thy ===== *)
theory Readelf
  imports Print
begin

text \<open>
  tools/readelf: a program that lists the sections of a 32-bit ELF file. The file is a buffer of bytes; a read
  behind its end, which the program does not check for, is a \<open>Fault\<close>. What the host's library calls give is an
  argument of \<open>main\<close>.
\<close>

section \<open>Structures\<close>

record elf32_ehdr =
  e32_ident :: "u8 list"
  e32_type :: u16
  e32_machine :: u16
  e32_version :: u32
  e32_entry :: u32
  e32_phoff :: u32
  e32_shoff :: u32
  e32_flags :: u32
  e32_ehsize :: u16
  e32_phentsize :: u16
  e32_phnum :: u16
  e32_shentsize :: u16
  e32_shnum :: u16
  e32_shstrndx :: u16

record elf32_shdr =
  sh_name :: u32
  sh_type :: u32
  sh_flags :: u32
  sh_addr :: u32
  sh_offset :: u32
  sh_size :: u32
  sh_link :: u32
  sh_info :: u32
  sh_addralign :: u32
  sh_entsize :: u32

definition ELFMAG32 :: "u8 list" where "ELFMAG32 = [0x7f, 0x45, 0x4c, 0x46]"

definition sizeof_Elf32_Ehdr :: nat where "sizeof_Elf32_Ehdr = 52"
definition sizeof_Elf32_Shdr :: nat where "sizeof_Elf32_Shdr = 40"

fun le_value :: "u8 list \<Rightarrow> nat" where
  "le_value [] = 0"
| "le_value (b # bs) = unat b + 256 * le_value bs"

definition bytes_at :: "u8 list \<Rightarrow> nat \<Rightarrow> nat \<Rightarrow> u8 list" where
  "bytes_at buf i n = take n (drop i buf)"

definition half_at :: "u8 list \<Rightarrow> nat \<Rightarrow> u16" where
  "half_at buf i = word_of_nat (le_value (bytes_at buf i 2))"

definition word_at :: "u8 list \<Rightarrow> nat \<Rightarrow> u32" where
  "word_at buf i = word_of_nat (le_value (bytes_at buf i 4))"

text \<open>The structures as they lie in the file, little-endian; the caller has checked that they are in the buffer.\<close>

definition ehdr_at :: "u8 list \<Rightarrow> nat \<Rightarrow> elf32_ehdr" where
  "ehdr_at buf i =
     \<lparr>e32_ident = bytes_at buf i 16, e32_type = half_at buf (i + 16), e32_machine = half_at buf (i + 18),
      e32_version = word_at buf (i + 20), e32_entry = word_at buf (i + 24), e32_phoff = word_at buf (i + 28),
      e32_shoff = word_at buf (i + 32), e32_flags = word_at buf (i + 36), e32_ehsize = half_at buf (i + 40),
      e32_phentsize = half_at buf (i + 42), e32_phnum = half_at buf (i + 44), e32_shentsize = half_at buf (i + 46),
      e32_shnum = half_at buf (i + 48), e32_shstrndx = half_at buf (i + 50)\<rparr>"

definition shdr_at :: "u8 list \<Rightarrow> nat \<Rightarrow> elf32_shdr" where
  "shdr_at buf i =
     \<lparr>sh_name = word_at buf i, sh_type = word_at buf (i + 4), sh_flags = word_at buf (i + 8),
      sh_addr = word_at buf (i + 12), sh_offset = word_at buf (i + 16), sh_size = word_at buf (i + 20),
      sh_link = word_at buf (i + 24), sh_info = word_at buf (i + 28), sh_addralign = word_at buf (i + 32),
      sh_entsize = word_at buf (i + 36)\<rparr>"

section \<open>readelf\<close>

text \<open>\<open>size\<close> is the size the caller states; the buffer may be longer.\<close>

definition is_elf_format :: "u8 list \<Rightarrow> nat \<Rightarrow> bool" where
  "is_elf_format binary sz \<longleftrightarrow>
     (let ident = e32_ident (ehdr_at binary 0) in
      sizeof_Elf32_Ehdr \<le> sz \<and> ident ! 0 = ELFMAG32 ! 0 \<and> ident ! 1 = ELFMAG32 ! 1 \<and>
      ident ! 2 = ELFMAG32 ! 2 \<and> ident ! 3 = ELFMAG32 ! 3)"

text \<open>The line of a section: its index and address, by the host's \<open>printf\<close>.\<close>

definition section_line :: "nat \<Rightarrow> u32 \<Rightarrow> u8 list" where
  "section_line i addr =
     rev (num_digits 10 False (word_of_nat i)) @ ascii '':0x'' @ rev (num_digits 16 False (ucast addr)) @ [0x0a]"

text \<open>The loop over the section headers. Only the address is read: bytes 12 to 15 of an entry. The product
  \<open>i * sh_entry_size\<close> is an \<open>int\<close>.\<close>

fun list_sections :: "u8 list \<Rightarrow> nat \<Rightarrow> nat \<Rightarrow> nat list \<Rightarrow> u8 list \<Rightarrow> u8 list outcome" where
  "list_sections binary table entry_size [] out = Ret out"
| "list_sections binary table entry_size (i # is) out =
     (if i * entry_size \<ge> 2 ^ 31 then Fault ''integer overflow''
      else if table + i * entry_size + 16 \<le> length binary
      then (let shdr = shdr_at binary (table + i * entry_size) in
            list_sections binary table entry_size is (out @ section_line i (sh_addr shdr)))
      else Fault ''read behind the buffer'')"

text \<open>The return value and what is printed on the standard output and on the error output.\<close>

definition readelf :: "u8 list \<Rightarrow> nat \<Rightarrow> (int \<times> u8 list \<times> u8 list) outcome" where
  "readelf binary sz =
     (let ehdr = ehdr_at binary 0 in
      if \<not> is_elf_format binary sz then Ret (- 1, [], ascii ''not an elf file'' @ [0x0a])
      else andThen (list_sections binary (unat (e32_shoff ehdr)) (unat (e32_shentsize ehdr))
             [0..<unat (e32_shnum ehdr)] [])
           (\<lambda>out. Ret (0, out, [])))"

section \<open>The program\<close>

text \<open>What the calls of \<open>main\<close> give: the file if it can be opened, whether the two \<open>fseek\<close> and \<open>malloc\<close> succeed, the
  position \<open>ftell\<close> reports, the bytes in the buffer after \<open>fread\<close>, and the message \<open>perror\<close> prints for a name.\<close>

record host =
  fopen_ok :: bool
  seek_end_ok :: bool
  tell :: int
  malloc_ok :: bool
  seek_set_ok :: bool
  fread_bytes :: "u8 list"
  perror :: "u8 list \<Rightarrow> u8 list"

text \<open>The result of \<open>fread\<close> is unsigned, so that its check for a negative value never fires. The buffer ends with a
  zero byte.\<close>

definition readelf_main :: "host \<Rightarrow> u8 list list \<Rightarrow> (int \<times> u8 list \<times> u8 list) outcome" where
  "readelf_main h argv =
     (if length argv < 2
      then Ret (1, [], ascii ''Usage: '' @ argv ! 0 @ ascii '' <elf-file>'' @ [0x0a])
      else if \<not> fopen_ok h then Ret (1, [], perror h (argv ! 1))
      else if \<not> seek_end_ok h then Ret (1, [], perror h (ascii ''fseek''))
      else (let fsize = sint (word_of_int (tell h) :: u32) in
        if fsize < 0 then Ret (1, [], perror h (ascii ''ftell''))
        else if \<not> malloc_ok h then Ret (1, [], perror h (ascii ''malloc''))
        else if \<not> seek_set_ok h then Ret (1, [], perror h (ascii ''fseek''))
        else (let p = take (nat fsize) (fread_bytes h) @ [0] in readelf p (nat fsize))))"

section \<open>What is printed\<close>

lemma list_sections_ok:
  assumes "\<forall>i\<in>set is. i * entry_size < 2 ^ 31 \<and> table + i * entry_size + 16 \<le> length binary"
  shows "list_sections binary table entry_size is out =
    Ret (out @ concat (map (\<lambda>i. section_line i (word_at binary (table + i * entry_size + 12))) is))"
  using assms by (induction "is" arbitrary: out) (simp_all add: shdr_at_def Let_def)

lemma readelf_ok:
  assumes "is_elf_format binary sz"
    and "\<forall>i<unat (half_at binary 48). i * unat (half_at binary 46) < 2 ^ 31 \<and>
      unat (word_at binary 32) + i * unat (half_at binary 46) + 16 \<le> length binary"
  shows "readelf binary sz = Ret (0, concat (map (\<lambda>i. section_line i
      (word_at binary (unat (word_at binary 32) + i * unat (half_at binary 46) + 12))) [0..<unat (half_at binary 48)]), [])"
  using assms list_sections_ok [of "[0..<unat (half_at binary 48)]" "unat (half_at binary 46)" "unat (word_at binary 32)" binary "[]"]
  by (simp add: readelf_def ehdr_at_def Let_def)

lemma is_elf_format_iff:
  assumes "sz \<le> length binary"
  shows "is_elf_format binary sz \<longleftrightarrow> 52 \<le> sz \<and> take 4 binary = [0x7f, 0x45, 0x4c, 0x46]"
proof (cases "52 \<le> sz")
  case True
  then have four: "4 \<le> length binary" using assms by simp
  obtain a b c d r where "binary = a # b # c # d # r"
    using four by (auto simp: numeral_eq_Suc Suc_le_length_iff)
  then show ?thesis
    using True by (simp add: is_elf_format_def sizeof_Elf32_Ehdr_def ehdr_at_def bytes_at_def ELFMAG32_def Let_def)
qed (simp add: is_elf_format_def sizeof_Elf32_Ehdr_def Let_def)

text \<open>The first loop that would leave the buffer ends the run.\<close>

lemma list_sections_fault:
  assumes "\<forall>i<n. i * entry_size < 2 ^ 31 \<and> table + i * entry_size + 16 \<le> length binary"
    and "n < m" and "\<not> table + n * entry_size + 16 \<le> length binary" and "n * entry_size < 2 ^ 31"
  shows "list_sections binary table entry_size [0..<m] out = Fault ''read behind the buffer''"
proof -
  have "[0..<m] = [0..<n] @ n # [Suc n..<m]"
    using assms(2) upt_add_eq_append [of 0 n "m - n"] by (simp add: upt_conv_Cons)
  moreover have "list_sections binary table entry_size (xs @ ys) out =
      andThen (list_sections binary table entry_size xs out) (list_sections binary table entry_size ys)" for xs ys out
    by (induction xs arbitrary: out) (simp_all add: Let_def)
  ultimately show ?thesis using list_sections_ok [of "[0..<n]" entry_size table binary out] assms by simp
qed

end
