(* ===== verification/LoopProgram.thy ===== *)
theory LoopProgram
  imports EnvCreate Readelf
begin

text \<open>
  user/bare/loop.b.c: the program that is compiled into the kernel, as the bytes of its ELF file. The lemmas show that
  it is a program the loader takes (\<open>program_ok\<close>), and what is loaded: one page at 0x400000 with the two bytes of the
  compressed jump to itself (user/bare/loop.S).
\<close>

definition binary_user_bare_loop_size :: u32 where "binary_user_bare_loop_size = 800"

definition binary_user_bare_loop_start :: "u8 list" where
  "binary_user_bare_loop_start = [
    0x7f, 0x45, 0x4c, 0x46, 0x2, 0x1, 0x1, 0x0, 0x0, 0x0, 0x0, 0x0, 0x0, 0x0, 0x0, 0x0, 0x2, 0x0, 0xf3, 0x0, 0x1,
    0x0, 0x0, 0x0, 0x0, 0x0, 0x40, 0x0, 0x0, 0x0, 0x0, 0x0, 0x40, 0x0, 0x0, 0x0, 0x0, 0x0, 0x0, 0x0, 0xa0, 0x1, 0x0,
    0x0, 0x0, 0x0, 0x0, 0x0, 0x5, 0x0, 0x0, 0x0, 0x40, 0x0, 0x38, 0x0, 0x2, 0x0, 0x40, 0x0, 0x6, 0x0, 0x5, 0x0, 0x1,
    0x0, 0x0, 0x0, 0x5, 0x0, 0x0, 0x0, 0xb0, 0x0, 0x0, 0x0, 0x0, 0x0, 0x0, 0x0, 0x0, 0x0, 0x40, 0x0, 0x0, 0x0, 0x0,
    0x0, 0x0, 0x0, 0x40, 0x0, 0x0, 0x0, 0x0, 0x0, 0x2, 0x0, 0x0, 0x0, 0x0, 0x0, 0x0, 0x0, 0x2, 0x0, 0x0, 0x0, 0x0,
    0x0, 0x0, 0x0, 0x2, 0x0, 0x0, 0x0, 0x0, 0x0, 0x0, 0x0, 0x1, 0x0, 0x0, 0x0, 0x6, 0x0, 0x0, 0x0, 0xb0, 0x0, 0x0,
    0x0, 0x0, 0x0, 0x0, 0x0, 0x0, 0x0, 0x0, 0x0, 0x0, 0x0, 0x0, 0x0, 0x0, 0x0, 0x0, 0x0, 0x0, 0x0, 0x0, 0x0, 0x0,
    0x0, 0x0, 0x0, 0x0, 0x0, 0x0, 0x0, 0x0, 0x0, 0x0, 0x0, 0x0, 0x0, 0x0, 0x0, 0x8, 0x0, 0x0, 0x0, 0x0, 0x0, 0x0,
    0x0, 0x1, 0xa0, 0x41, 0x32, 0x0, 0x0, 0x0, 0x72, 0x69, 0x73, 0x63, 0x76, 0x0, 0x1, 0x28, 0x0, 0x0, 0x0, 0x5,
    0x72, 0x76, 0x36, 0x34, 0x69, 0x32, 0x70, 0x30, 0x5f, 0x6d, 0x32, 0x70, 0x30, 0x5f, 0x61, 0x32, 0x70, 0x30, 0x5f,
    0x66, 0x32, 0x70, 0x30, 0x5f, 0x64, 0x32, 0x70, 0x30, 0x5f, 0x63, 0x32, 0x70, 0x30, 0x0, 0x0, 0x0, 0x0, 0x0, 0x0,
    0x0, 0x0, 0x0, 0x0, 0x0, 0x0, 0x0, 0x0, 0x0, 0x0, 0x0, 0x0, 0x0, 0x0, 0x0, 0x0, 0x0, 0x0, 0x0, 0x0, 0x0, 0x0,
    0x0, 0x0, 0x0, 0x0, 0x3, 0x0, 0x1, 0x0, 0x0, 0x0, 0x40, 0x0, 0x0, 0x0, 0x0, 0x0, 0x0, 0x0, 0x0, 0x0, 0x0, 0x0,
    0x0, 0x0, 0x0, 0x0, 0x0, 0x0, 0x3, 0x0, 0x2, 0x0, 0x0, 0x0, 0x0, 0x0, 0x0, 0x0, 0x0, 0x0, 0x0, 0x0, 0x0, 0x0,
    0x0, 0x0, 0x0, 0x0, 0x1, 0x0, 0x0, 0x0, 0x10, 0x0, 0x1, 0x0, 0x2, 0x0, 0x40, 0x0, 0x0, 0x0, 0x0, 0x0, 0x0, 0x0,
    0x0, 0x0, 0x0, 0x0, 0x0, 0x0, 0x5, 0x0, 0x0, 0x0, 0x10, 0x0, 0x1, 0x0, 0x0, 0x0, 0x40, 0x0, 0x0, 0x0, 0x0, 0x0,
    0x0, 0x0, 0x0, 0x0, 0x0, 0x0, 0x0, 0x0, 0x0, 0x65, 0x6e, 0x64, 0x0, 0x5f, 0x73, 0x74, 0x61, 0x72, 0x74, 0x0, 0x0,
    0x2e, 0x73, 0x79, 0x6d, 0x74, 0x61, 0x62, 0x0, 0x2e, 0x73, 0x74, 0x72, 0x74, 0x61, 0x62, 0x0, 0x2e, 0x73, 0x68,
    0x73, 0x74, 0x72, 0x74, 0x61, 0x62, 0x0, 0x2e, 0x74, 0x65, 0x78, 0x74, 0x0, 0x2e, 0x72, 0x69, 0x73, 0x63, 0x76,
    0x2e, 0x61, 0x74, 0x74, 0x72, 0x69, 0x62, 0x75, 0x74, 0x65, 0x73, 0x0, 0x0, 0x0, 0x0, 0x0, 0x0, 0x0, 0x0, 0x0,
    0x0, 0x0, 0x0, 0x0, 0x0, 0x0, 0x0, 0x0, 0x0, 0x0, 0x0, 0x0, 0x0, 0x0, 0x0, 0x0, 0x0, 0x0, 0x0, 0x0, 0x0, 0x0,
    0x0, 0x0, 0x0, 0x0, 0x0, 0x0, 0x0, 0x0, 0x0, 0x0, 0x0, 0x0, 0x0, 0x0, 0x0, 0x0, 0x0, 0x0, 0x0, 0x0, 0x0, 0x0,
    0x0, 0x0, 0x0, 0x0, 0x0, 0x0, 0x0, 0x0, 0x0, 0x0, 0x0, 0x0, 0x0, 0x1b, 0x0, 0x0, 0x0, 0x1, 0x0, 0x0, 0x0, 0x6,
    0x0, 0x0, 0x0, 0x0, 0x0, 0x0, 0x0, 0x0, 0x0, 0x40, 0x0, 0x0, 0x0, 0x0, 0x0, 0xb0, 0x0, 0x0, 0x0, 0x0, 0x0, 0x0,
    0x0, 0x2, 0x0, 0x0, 0x0, 0x0, 0x0, 0x0, 0x0, 0x0, 0x0, 0x0, 0x0, 0x0, 0x0, 0x0, 0x0, 0x2, 0x0, 0x0, 0x0, 0x0,
    0x0, 0x0, 0x0, 0x0, 0x0, 0x0, 0x0, 0x0, 0x0, 0x0, 0x0, 0x21, 0x0, 0x0, 0x0, 0x3, 0x0, 0x0, 0x70, 0x0, 0x0, 0x0,
    0x0, 0x0, 0x0, 0x0, 0x0, 0x0, 0x0, 0x0, 0x0, 0x0, 0x0, 0x0, 0x0, 0xb2, 0x0, 0x0, 0x0, 0x0, 0x0, 0x0, 0x0, 0x33,
    0x0, 0x0, 0x0, 0x0, 0x0, 0x0, 0x0, 0x0, 0x0, 0x0, 0x0, 0x0, 0x0, 0x0, 0x0, 0x1, 0x0, 0x0, 0x0, 0x0, 0x0, 0x0,
    0x0, 0x0, 0x0, 0x0, 0x0, 0x0, 0x0, 0x0, 0x0, 0x1, 0x0, 0x0, 0x0, 0x2, 0x0, 0x0, 0x0, 0x0, 0x0, 0x0, 0x0, 0x0,
    0x0, 0x0, 0x0, 0x0, 0x0, 0x0, 0x0, 0x0, 0x0, 0x0, 0x0, 0xe8, 0x0, 0x0, 0x0, 0x0, 0x0, 0x0, 0x0, 0x78, 0x0, 0x0,
    0x0, 0x0, 0x0, 0x0, 0x0, 0x4, 0x0, 0x0, 0x0, 0x3, 0x0, 0x0, 0x0, 0x8, 0x0, 0x0, 0x0, 0x0, 0x0, 0x0, 0x0, 0x18,
    0x0, 0x0, 0x0, 0x0, 0x0, 0x0, 0x0, 0x9, 0x0, 0x0, 0x0, 0x3, 0x0, 0x0, 0x0, 0x0, 0x0, 0x0, 0x0, 0x0, 0x0, 0x0,
    0x0, 0x0, 0x0, 0x0, 0x0, 0x0, 0x0, 0x0, 0x0, 0x60, 0x1, 0x0, 0x0, 0x0, 0x0, 0x0, 0x0, 0xc, 0x0, 0x0, 0x0, 0x0,
    0x0, 0x0, 0x0, 0x0, 0x0, 0x0, 0x0, 0x0, 0x0, 0x0, 0x0, 0x1, 0x0, 0x0, 0x0, 0x0, 0x0, 0x0, 0x0, 0x0, 0x0, 0x0,
    0x0, 0x0, 0x0, 0x0, 0x0, 0x11, 0x0, 0x0, 0x0, 0x3, 0x0, 0x0, 0x0, 0x0, 0x0, 0x0, 0x0, 0x0, 0x0, 0x0, 0x0, 0x0,
    0x0, 0x0, 0x0, 0x0, 0x0, 0x0, 0x0, 0x6c, 0x1, 0x0, 0x0, 0x0, 0x0, 0x0, 0x0, 0x33, 0x0, 0x0, 0x0, 0x0, 0x0, 0x0,
    0x0, 0x0, 0x0, 0x0, 0x0, 0x0, 0x0, 0x0, 0x0, 0x1, 0x0, 0x0, 0x0, 0x0, 0x0, 0x0, 0x0, 0x0, 0x0, 0x0, 0x0, 0x0,
    0x0, 0x0, 0x0]"

text \<open>Bytes that lie in memory.\<close>

definition holds :: "mem \<Rightarrow> u64 \<Rightarrow> u8 list \<Rightarrow> bool" where
  "holds m a bs \<longleftrightarrow> (\<forall>j<length bs. m (a + word_of_nat j) = bs ! j)"

lemma read_le_holds:
  "holds m a bs \<Longrightarrow> i + n \<le> length bs \<Longrightarrow> read_le m (a + word_of_nat i) n = le_value (bytes_at bs i n)"
proof (induction n arbitrary: i)
  case (Suc n)
  have "bytes_at bs i (Suc n) = bs ! i # bytes_at bs (Suc i) n"
    using Suc.prems(2) by (simp add: bytes_at_def Cons_nth_drop_Suc [symmetric])
  moreover have "m (a + word_of_nat i) = bs ! i" using Suc.prems by (simp add: holds_def)
  moreover have "a + word_of_nat i + 1 = a + word_of_nat (Suc i)" by simp
  ultimately show ?case using Suc.IH [of "Suc i"] Suc.prems by (simp only: read_le.simps le_value.simps Suc_leD add_Suc_right add_Suc)
qed (simp add: bytes_at_def)

lemma loop_length: "length binary_user_bare_loop_start = 800"
  by (simp add: binary_user_bare_loop_start_def)

text \<open>Its headers.\<close>

lemma loop_ehdr:
  assumes "holds m a binary_user_bare_loop_start"
  shows "e_type (load_ehdr m a) = 2" and "e_entry (load_ehdr m a) = 0x400000" and "e_phoff (load_ehdr m a) = 64"
    and "e_phentsize (load_ehdr m a) = 56" and "e_phnum (load_ehdr m a) = 2"
    and "e_ident (load_ehdr m a) ! 0 = 0x7f" and "e_ident (load_ehdr m a) ! 1 = 0x45"
    and "e_ident (load_ehdr m a) ! 2 = 0x4c" and "e_ident (load_ehdr m a) ! 3 = 0x46"
proof -
  note le = read_le_holds [OF assms]
  have byte: "m (a + word_of_nat j) = binary_user_bare_loop_start ! j" if "j < 800" for j
    using assms that by (simp add: holds_def loop_length)
  show "e_type (load_ehdr m a) = 2" "e_entry (load_ehdr m a) = 0x400000" "e_phoff (load_ehdr m a) = 64"
    "e_phentsize (load_ehdr m a) = 56" "e_phnum (load_ehdr m a) = 2"
    using le [of 16 2] le [of 24 8] le [of 32 8] le [of 54 2] le [of 56 2]
    by (simp_all add: load_ehdr_def load16_def load64_def loop_length,
      simp_all add: binary_user_bare_loop_start_def bytes_at_def)
  show "e_ident (load_ehdr m a) ! 0 = 0x7f" "e_ident (load_ehdr m a) ! 1 = 0x45"
    "e_ident (load_ehdr m a) ! 2 = 0x4c" "e_ident (load_ehdr m a) ! 3 = 0x46"
    using byte [of 0] byte [of 1] byte [of 2] byte [of 3]
    by (simp_all add: load_ehdr_def EI_NIDENT_def, simp_all add: binary_user_bare_loop_start_def)
qed

lemma loop_phdr:
  assumes "holds m a binary_user_bare_loop_start"
  shows "p_type (phdr_of m a 0) = PT_LOAD" and "p_flags (phdr_of m a 0) = 5" and "p_offset (phdr_of m a 0) = 0xb0"
    and "p_vaddr (phdr_of m a 0) = 0x400000" and "p_filesz (phdr_of m a 0) = 2" and "p_memsz (phdr_of m a 0) = 2"
    and "p_offset (phdr_of m a 1) = 0xb0" and "p_vaddr (phdr_of m a 1) = 0" and "p_filesz (phdr_of m a 1) = 0"
    and "p_memsz (phdr_of m a 1) = 0"
proof -
  note le = read_le_holds [OF assms]
  have at: "phdr_of m a 0 = load_phdr m (a + word_of_nat 64)" "phdr_of m a 1 = load_phdr m (a + word_of_nat 120)"
    by (simp_all add: phdr_of_def loop_ehdr [OF assms] Let_def)
  show "p_type (phdr_of m a 0) = PT_LOAD" "p_flags (phdr_of m a 0) = 5" "p_offset (phdr_of m a 0) = 0xb0"
    "p_vaddr (phdr_of m a 0) = 0x400000" "p_filesz (phdr_of m a 0) = 2" "p_memsz (phdr_of m a 0) = 2"
    unfolding at using le [of 64 4] le [of 68 4] le [of 72 8] le [of 80 8] le [of 96 8] le [of 104 8]
    by (simp_all add: load_phdr_def load32_def load64_def loop_length add.assoc PT_LOAD_def,
      simp_all add: binary_user_bare_loop_start_def bytes_at_def)
  show "p_offset (phdr_of m a 1) = 0xb0" "p_vaddr (phdr_of m a 1) = 0" "p_filesz (phdr_of m a 1) = 0" "p_memsz (phdr_of m a 1) = 0"
    unfolding at using le [of 128 8] le [of 136 8] le [of 152 8] le [of 160 8]
    by (simp_all add: load_phdr_def load64_def loop_length add.assoc,
      simp_all add: binary_user_bare_loop_start_def bytes_at_def)
qed

lemma loop_reqs:
  assumes "holds m a binary_user_bare_loop_start"
  shows "program_reqs m a 0 = [(0x400000, ucast (PTE_V OR PTE_R OR PTE_X OR PTE_U), a + 0xb0, 2)]"
proof -
  note h = loop_phdr [OF assms]
  have n: "[0..<unat (e_phnum (load_ehdr m a))] = [0, 1]" by (simp add: loop_ehdr [OF assms] upt_rec)
  have al: "page_aligned (p_vaddr (phdr_of m a 0))" "p_filesz (phdr_of m a 0) \<le> p_memsz (phdr_of m a 0)"
    "page_aligned (p_vaddr (phdr_of m a 1))" "p_filesz (phdr_of m a 1) \<le> p_memsz (phdr_of m a 1)"
    by (simp_all only: h) (simp_all add: page_aligned_def)
  have "seg_requests (phdr_of m a 0) (a + 0xb0) = [(0x400000, 0, a + 0xb0, 2)]"
    by (simp add: seg_requests_aligned [OF al(1,2)] h)
  moreover have "seg_requests (phdr_of m a 1) (a + 0xb0) = []"
    by (simp only: seg_requests_aligned [OF al(3,4)] h) simp
  moreover have "seg_perm (phdr_of m a 0) = ucast (PTE_V OR PTE_R OR PTE_X OR PTE_U)" by (simp add: seg_perm_def h PF_W_def)
  ultimately show ?thesis using h by (simp add: program_reqs_def n phdr_reqs_def Let_def)
qed

text \<open>The loader takes it.\<close>

lemma loop_ok:
  assumes "holds m a binary_user_bare_loop_start" and "a \<noteq> 0" and "unat a + 800 \<le> unat KERNEND"
  shows "program_ok m a (ucast binary_user_bare_loop_size)"
proof -
  note h = loop_phdr [OF assms(1)] and e = loop_ehdr [OF assms(1)]
  have "elf_from m a 800 = a" using e(7) by (simp add: elf_from_def sizeof_Elf64_Ehdr_def ELFMAG_def e Let_def)
  moreover have "seg_ok 800 (phdr_of m a 0)" "seg_ok 800 (phdr_of m a 1)"
    unfolding seg_ok_def h by (simp_all add: page_aligned_def)
  then have "\<forall>i<unat (e_phnum (load_ehdr m a)).
      unat (e_phoff (load_ehdr m a)) + i * unat (e_phentsize (load_ehdr m a)) + 56 \<le> unat (800 :: u64) \<and>
      (p_type (phdr_of m a i) = PT_LOAD \<longrightarrow> seg_ok 800 (phdr_of m a i))"
    by (auto simp: e less_2_cases_iff)
  ultimately show ?thesis
    using assms(2,3) by (simp add: program_ok_def loop_reqs [OF assms(1)] binary_user_bare_loop_size_def)
qed

text \<open>Where it has been loaded, the page at 0x400000 holds the jump.\<close>

lemma loop_code: "binary_user_bare_loop_start ! 176 = 0x01" "binary_user_bare_loop_start ! 177 = 0xa0"
  by (simp_all add: binary_user_bare_loop_start_def)

lemma loop_in_place:
  assumes img: "holds m0 a binary_user_bare_loop_start" and prog: "program_space m0 a g m p"
  shows "\<exists>pg. ram_page pg \<and> translate m p 0x400000 = Some (leaf_pte pg (ucast (PTE_V OR PTE_R OR PTE_X OR PTE_U))) \<and>
    m pg = 0x01 \<and> m (pg + 1) = 0xa0"
proof -
  note h = loop_phdr [OF img] and e = loop_ehdr [OF img]
  let ?perm = "ucast (PTE_V OR PTE_R OR PTE_X OR PTE_U) :: u32"
  have perm: "seg_perm (phdr_of m0 a 0) = ?perm" by (simp add: seg_perm_def h PF_W_def)
  have first: "0 < unat (e_phnum (load_ehdr m0 a))" by (simp add: e)
  have seg: "\<exists>pg. ram_page pg \<and> translate m p (0x400000 + word_of_nat (j - j mod 4096)) = Some (leaf_pte pg ?perm) \<and>
      m (pg + word_of_nat (j mod 4096)) = m0 (a + 0xb0 + word_of_nat j)" if "j < 2" for j
  proof -
    have two: "j < unat (p_memsz (phdr_of m0 a 0))" "j < unat (p_filesz (phdr_of m0 a 0))" using that by (simp_all add: h)
    have "\<exists>pg. ram_page pg \<and> translate m p (p_vaddr (phdr_of m0 a 0) + word_of_nat (j - j mod 4096)) = Some (leaf_pte pg (seg_perm (phdr_of m0 a 0))) \<and>
        m (pg + word_of_nat (j mod 4096)) =
          (if j < unat (p_filesz (phdr_of m0 a 0)) then m0 (a + p_offset (phdr_of m0 a 0) + word_of_nat j) else 0)"
      using prog first h(1) two(1) unfolding program_space_def Let_def by blast
    then show ?thesis using two(2) by (simp only: h(3,4) perm if_True)
  qed
  obtain pg where pg: "ram_page pg" "translate m p 0x400000 = Some (leaf_pte pg ?perm)" "m pg = m0 (a + 0xb0)"
    using seg [of 0] by auto
  obtain pg' where pg': "ram_page pg'" "translate m p 0x400000 = Some (leaf_pte pg' ?perm)" "m (pg' + 1) = m0 (a + 0xb0 + 1)"
    using seg [of 1] by auto
  have fits: "?perm AND 0x3FF = ?perm" by (simp add: PTE_V_def PTE_R_def PTE_X_def PTE_U_def)
  have "PTE2PA (leaf_pte pg ?perm) = pg" "PTE2PA (leaf_pte pg' ?perm) = pg'"
    using leaf_pte_fields(1) [OF ram_pageD(1,4) [OF pg(1)] fits] leaf_pte_fields(1) [OF ram_pageD(1,4) [OF pg'(1)] fits] by simp_all
  then have same: "pg' = pg" using pg(2) pg'(2) by (metis option.inject)
  have "m0 (a + word_of_nat 176) = 0x01" "m0 (a + word_of_nat 177) = 0xa0"
    using img [unfolded holds_def loop_length, rule_format, of 176] img [unfolded holds_def loop_length, rule_format, of 177]
    by (simp_all add: loop_code)
  then show ?thesis using pg pg'(3) unfolding same by (intro exI [of _ pg]) (simp add: add.assoc)
qed

end
