(* ===== verification/Platform.thy ===== *)
theory Platform
  imports Mmu
begin

text \<open>
  The macros of include/mmu.h that describe the platform and the parts of addresses and entries, beyond those the
  kernel itself uses (theory Mmu). VPN_L1 and VPN_L2 are left out: they name shifts the header does not define.
\<close>

section \<open>Devices\<close>

definition UART0_IRQ :: nat where "UART0_IRQ = 10"
definition VIRTIO0_IRQ :: nat where "VIRTIO0_IRQ = 1"
definition CLINT_MTIMECMP :: "u64 \<Rightarrow> u64" where "CLINT_MTIMECMP hartid = CLINT + 0x4000 + 8 * hartid"
definition CLINT_MTIME :: u64 where "CLINT_MTIME = CLINT + 0xBFF8"
definition PLIC_PRIORITY :: u64 where "PLIC_PRIORITY = PLIC + 0x0"
definition PLIC_PENDING :: u64 where "PLIC_PENDING = PLIC + 0x1000"
definition PLIC_MENABLE :: "u64 \<Rightarrow> u64" where "PLIC_MENABLE hart = PLIC + 0x2000 + hart * 0x100"
definition PLIC_SENABLE :: "u64 \<Rightarrow> u64" where "PLIC_SENABLE hart = PLIC + 0x2080 + hart * 0x100"
definition PLIC_MPRIORITY :: "u64 \<Rightarrow> u64" where "PLIC_MPRIORITY hart = PLIC + 0x200000 + hart * 0x2000"
definition PLIC_SPRIORITY :: "u64 \<Rightarrow> u64" where "PLIC_SPRIORITY hart = PLIC + 0x201000 + hart * 0x2000"
definition PLIC_MCLAIM :: "u64 \<Rightarrow> u64" where "PLIC_MCLAIM hart = PLIC + 0x200004 + hart * 0x2000"
definition PLIC_SCLAIM :: "u64 \<Rightarrow> u64" where "PLIC_SCLAIM hart = PLIC + 0x201004 + hart * 0x2000"

definition HEAPSTART :: u64 where "HEAPSTART = KERNEND"
definition HEAPSIZE :: u64 where "HEAPSIZE = 0x88000000 - KERNEND"

lemma heap_is_ram: "HEAPSTART + HEAPSIZE = PHYEND" "unat HEAPSIZE = 31744 * 4096"
  by (simp_all add: HEAPSTART_def HEAPSIZE_def layout)

text \<open>The registers of the harts the interrupt controller has room for are inside the range the kernel maps, and
  those of different harts are apart.\<close>

lemma plic_in_range:
  assumes "unat hart < 256"
  shows "unat PLIC \<le> unat (PLIC_SCLAIM hart)" "unat (PLIC_SCLAIM hart) + 4 \<le> unat PLIC + 0x400000"
proof -
  have "unat (hart * 0x2000) = unat hart * 0x2000"
    using assms by (simp add: unat_word_ariths)
  then have "unat (PLIC_SCLAIM hart) = 0xc000000 + 0x201004 + unat hart * 0x2000"
    using assms by (simp add: PLIC_SCLAIM_def PLIC_def unat_word_ariths)
  then show "unat PLIC \<le> unat (PLIC_SCLAIM hart)" "unat (PLIC_SCLAIM hart) + 4 \<le> unat PLIC + 0x400000"
    using assms by (simp_all add: PLIC_def)
qed

section \<open>Parts of addresses and entries\<close>

definition VPN_L0_SHIFT :: nat where "VPN_L0_SHIFT = 12"
definition VPN_L0 :: "u64 \<Rightarrow> u64" where "VPN_L0 va = drop_bit VPN_L0_SHIFT va AND 0x01FF"
definition VPN :: "u64 \<Rightarrow> u64" where "VPN va = drop_bit VPN_L0_SHIFT va"

definition PPN_L0_SHIFT :: nat where "PPN_L0_SHIFT = 12"
definition PPN_L1_SHIFT :: nat where "PPN_L1_SHIFT = 21"
definition PPN_L2_SHIFT :: nat where "PPN_L2_SHIFT = 30"
definition PPN_L0 :: "u64 \<Rightarrow> u64" where "PPN_L0 pa = drop_bit PPN_L0_SHIFT pa AND 0x01FF"
definition PPN_L1 :: "u64 \<Rightarrow> u64" where "PPN_L1 pa = drop_bit PPN_L1_SHIFT pa AND 0x01FF"
definition PPN_L2 :: "u64 \<Rightarrow> u64" where "PPN_L2 pa = drop_bit PPN_L2_SHIFT pa AND 0x3FFFFFF"
definition PPN :: "u64 \<Rightarrow> u64" where "PPN pa = drop_bit PPN_L0_SHIFT pa"

definition PTE_PPN_L0_SHIFT :: nat where "PTE_PPN_L0_SHIFT = 10"
definition PTE_PPN_L1_SHIFT :: nat where "PTE_PPN_L1_SHIFT = 19"
definition PTE_PPN_L2_SHIFT :: nat where "PTE_PPN_L2_SHIFT = 28"
definition PTE_PPN_L0 :: "u64 \<Rightarrow> u64" where "PTE_PPN_L0 pte = drop_bit PPN_L0_SHIFT pte AND 0x01FF"
definition PTE_PPN_L1 :: "u64 \<Rightarrow> u64" where "PTE_PPN_L1 pte = drop_bit PPN_L1_SHIFT pte AND 0x01FF"
definition PTE_PPN_L2 :: "u64 \<Rightarrow> u64" where "PTE_PPN_L2 pte = drop_bit PPN_L2_SHIFT pte AND 0x3FFFFFF"

definition PTE_G :: u64 where "PTE_G = 0x0020"
definition PTE_A :: u64 where "PTE_A = 0x0040"
definition PTE_D :: u64 where "PTE_D = 0x0080"

lemma VPN_L0_level: "VPN_L0 va = VPN_L 0 va"
  by (simp add: VPN_L0_def VPN_L_def VPN_SHIFT_def VPN_L0_SHIFT_def)

text \<open>The three parts of a physical page number put together are the number.\<close>

lemma PPN_parts:
  assumes "unat pa < 2 ^ 56"
  shows "PPN pa = push_bit 18 (PPN_L2 pa) OR push_bit 9 (PPN_L1 pa) OR PPN_L0 pa"
proof (rule bit_word_eqI)
  fix n assume n: "n < LENGTH(64)"
  have masks: "(0x1FF :: u64) = mask 9" "(0x3FFFFFF :: u64) = mask 26" by (simp_all add: mask_eq_exp_minus_1)
  have top: "\<not> bit pa m" if "56 \<le> m" for m
  proof -
    have "take_bit 56 pa = pa" using assms by (simp add: word_unat_eq_iff unsigned_take_bit_eq take_bit_nat_eq_self)
    then show ?thesis using that by (metis bit_take_bit_iff not_le)
  qed
  consider "n < 9" | "9 \<le> n" "n < 18" | "18 \<le> n" "n < 44" | "44 \<le> n" by linarith
  then show "bit (PPN pa) n = bit (push_bit 18 (PPN_L2 pa) OR push_bit 9 (PPN_L1 pa) OR PPN_L0 pa) n"
    using n top [of "12 + n"] by cases (auto simp: PPN_def PPN_L0_def PPN_L1_def PPN_L2_def PPN_L0_SHIFT_def PPN_L1_SHIFT_def PPN_L2_SHIFT_def
        masks bit_simps)
qed

text \<open>The macros for the parts of an entry use the shifts of an address: on the entry of a page they give the page
  number without its two lowest bits.\<close>

lemma PTE_PPN_L0_PA2PTE: "PTE_PPN_L0 (PA2PTE pa) = drop_bit 14 pa AND 0x1FF"
proof (rule bit_word_eqI)
  fix n assume "n < LENGTH(64)"
  have mask: "(0x1FF :: u64) = mask 9" by (simp add: mask_eq_exp_minus_1)
  show "bit (PTE_PPN_L0 (PA2PTE pa)) n = bit (drop_bit 14 pa AND 0x1FF) n"
    by (auto simp: PTE_PPN_L0_def PA2PTE_def PPN_L0_SHIFT_def mask bit_simps)
qed

end
