(* ===== verification/Fsformat.thy ===== *)
theory Fsformat
  imports Prelude
begin

text \<open>
  tools/fsformat.c, the host program that writes a file-system image. Its header ../user/include/fs.h is not
  in the repository: the constants and the offsets of the fields of \<open>struct File\<close> and \<open>struct Super\<close> are the
  record \<open>fs_h\<close>, an argument of every operation. The array \<open>disk\<close> and the global \<open>super\<close> are bytes, as the
  program overlays files, index words and raw data on them; an access behind their end is a \<open>Fault\<close>, a failed
  \<open>assert\<close> a \<open>Panic\<close>. The host is little-endian.
\<close>

section \<open>The image\<close>

record fs_h =
  BLOCK_SIZE :: nat
  NDIRECT :: nat
  NINDIRECT :: nat
  FILE2BLK :: nat
  MAXNAMELEN :: nat
  FILE_STRUCT_SIZE :: nat
  sizeof_Super :: nat
  FS_MAGIC :: u32
  FTYPE_REG :: u32
  FTYPE_DIR :: u32
  f_name :: nat
  f_size :: nat
  f_type :: nat
  f_direct :: nat
  f_indirect :: nat
  s_magic :: nat
  s_nblocks :: nat
  s_root :: nat

definition BLOCK_SIZE_BIT :: "fs_h \<Rightarrow> nat" where "BLOCK_SIZE_BIT p = BLOCK_SIZE p * 8"

definition NBLOCK :: nat where "NBLOCK = 1024"

datatype block_type = BLOCK_FREE | BLOCK_BOOT | BLOCK_BMAP | BLOCK_SUPER | BLOCK_DATA | BLOCK_FILE | BLOCK_INDEX

record image =
  disk_data :: "nat \<Rightarrow> nat \<Rightarrow> u8"
  disk_type :: "nat \<Rightarrow> block_type"
  super :: "nat \<Rightarrow> u8"
  nbitblock :: nat
  nextbno :: nat

text \<open>The static storage of the program before \<open>main\<close>: all zero.\<close>

definition blank_image :: image where
  "blank_image = \<lparr>disk_data = (\<lambda>_ _. 0), disk_type = (\<lambda>_. BLOCK_FREE), super = (\<lambda>_. 0), nbitblock = 0, nextbno = 0\<rparr>"

text \<open>An object of the program is the global \<open>super\<close> or the data of a block; a pointer into it has an offset.\<close>

datatype area = In_super | In_block nat

type_synonym file_ptr = "area \<times> nat"

fun area_size :: "fs_h \<Rightarrow> area \<Rightarrow> nat" where
  "area_size p In_super = sizeof_Super p"
| "area_size p (In_block b) = (if b < NBLOCK then BLOCK_SIZE p else 0)"

fun area_bytes :: "image \<Rightarrow> area \<Rightarrow> nat \<Rightarrow> u8" where
  "area_bytes m In_super = super m"
| "area_bytes m (In_block b) = disk_data m b"

fun set_area :: "area \<Rightarrow> (nat \<Rightarrow> u8) \<Rightarrow> image \<Rightarrow> image" where
  "set_area In_super d m = m\<lparr>super := d\<rparr>"
| "set_area (In_block b) d m = m\<lparr>disk_data := (disk_data m)(b := d)\<rparr>"

definition word32_at :: "(nat \<Rightarrow> u8) \<Rightarrow> nat \<Rightarrow> u32" where
  "word32_at d i = ucast (d i) OR push_bit 8 (ucast (d (i + 1))) OR push_bit 16 (ucast (d (i + 2))) OR
     push_bit 24 (ucast (d (i + 3)))"

definition put32 :: "(nat \<Rightarrow> u8) \<Rightarrow> nat \<Rightarrow> u32 \<Rightarrow> nat \<Rightarrow> u8" where
  "put32 d i w = d(i := ucast w, i + 1 := ucast (drop_bit 8 w), i + 2 := ucast (drop_bit 16 w),
     i + 3 := ucast (drop_bit 24 w))"

definition put_bytes :: "(nat \<Rightarrow> u8) \<Rightarrow> nat \<Rightarrow> u8 list \<Rightarrow> nat \<Rightarrow> u8" where
  "put_bytes d i bs = (\<lambda>j. if i \<le> j \<and> j < i + length bs then bs ! (j - i) else d j)"

definition rd8 :: "fs_h \<Rightarrow> file_ptr \<Rightarrow> image \<Rightarrow> u8 outcome" where
  "rd8 p r m = (case r of (a, i) \<Rightarrow>
     if i < area_size p a then Ret (area_bytes m a i) else Fault ''read outside the image'')"

definition rd32 :: "fs_h \<Rightarrow> file_ptr \<Rightarrow> image \<Rightarrow> u32 outcome" where
  "rd32 p r m = (case r of (a, i) \<Rightarrow>
     if i + 4 \<le> area_size p a then Ret (word32_at (area_bytes m a) i) else Fault ''read outside the image'')"

definition wr32 :: "fs_h \<Rightarrow> file_ptr \<Rightarrow> u32 \<Rightarrow> image \<Rightarrow> image outcome" where
  "wr32 p r w m = (case r of (a, i) \<Rightarrow>
     if i + 4 \<le> area_size p a then Ret (set_area a (put32 (area_bytes m a) i w) m)
     else Fault ''write outside the image'')"

definition wr_bytes :: "fs_h \<Rightarrow> file_ptr \<Rightarrow> u8 list \<Rightarrow> image \<Rightarrow> image outcome" where
  "wr_bytes p r bs m = (case r of (a, i) \<Rightarrow>
     if i + length bs \<le> area_size p a then Ret (set_area a (put_bytes (area_bytes m a) i bs) m)
     else Fault ''write outside the image'')"

definition field :: "file_ptr \<Rightarrow> nat \<Rightarrow> file_ptr" where
  "field r offset = (fst r, snd r + offset)"

fun foreach :: "'a list \<Rightarrow> ('a \<Rightarrow> 's \<Rightarrow> 's outcome) \<Rightarrow> 's \<Rightarrow> 's outcome" where
  "foreach [] f s = Ret s"
| "foreach (x # xs) f s = andThen (f x s) (foreach xs f)"

section \<open>Byte order\<close>

text \<open>\<open>reverse\<close> stores the four bytes of the word it has read the other way round.\<close>

definition reverse :: "fs_h \<Rightarrow> file_ptr \<Rightarrow> image \<Rightarrow> image outcome" where
  "reverse p x m =
     andThen (rd32 p x m) (\<lambda>y.
     wr_bytes p x [ucast (drop_bit 24 y AND 0xFF), ucast (drop_bit 16 y AND 0xFF),
       ucast (drop_bit 8 y AND 0xFF), ucast (y AND 0xFF)] m)"

text \<open>The lines \<open>reverse_block\<close> has twice, for the root and for each file of a block.\<close>

definition reverse_file :: "fs_h \<Rightarrow> file_ptr \<Rightarrow> image \<Rightarrow> image outcome" where
  "reverse_file p ff m =
     andThen (reverse p (field ff (f_size p)) m) (\<lambda>m.
     andThen (reverse p (field ff (f_type p)) m) (\<lambda>m.
     andThen (foreach [0..<NDIRECT p] (\<lambda>i. reverse p (field ff (f_direct p + 4 * i))) m) (\<lambda>m.
     reverse p (field ff (f_indirect p)) m)))"

fun reverse_files :: "fs_h \<Rightarrow> area \<Rightarrow> nat list \<Rightarrow> image \<Rightarrow> image outcome" where
  "reverse_files p a [] m = Ret m"
| "reverse_files p a (i # is) m =
     (let ff = (a, FILE_STRUCT_SIZE p * i) in
      andThen (rd8 p (field ff (f_name p)) m) (\<lambda>c.
        if c = 0 then Ret m else andThen (reverse_file p ff m) (reverse_files p a is)))"

definition reverse_block :: "fs_h \<Rightarrow> nat \<Rightarrow> image \<Rightarrow> image outcome" where
  "reverse_block p b m =
     (case disk_type m b of
        BLOCK_FREE \<Rightarrow> Ret m
      | BLOCK_BOOT \<Rightarrow> Ret m
      | BLOCK_SUPER \<Rightarrow>
          andThen (reverse p (In_block b, s_magic p) m) (\<lambda>m.
          andThen (reverse p (In_block b, s_nblocks p) m) (\<lambda>m.
          reverse_file p (In_block b, s_root p) m))
      | BLOCK_FILE \<Rightarrow> reverse_files p (In_block b) [0..<FILE2BLK p] m
      | BLOCK_INDEX \<Rightarrow> foreach [0..<BLOCK_SIZE p div 4] (\<lambda>i. reverse p (In_block b, 4 * i)) m
      | BLOCK_BMAP \<Rightarrow> foreach [0..<BLOCK_SIZE p div 4] (\<lambda>i. reverse p (In_block b, 4 * i)) m
      | BLOCK_DATA \<Rightarrow> Ret m)"

section \<open>Blocks\<close>

definition set_type :: "nat \<Rightarrow> block_type \<Rightarrow> image \<Rightarrow> image outcome" where
  "set_type b t m =
     (if b < NBLOCK then Ret (m\<lparr>disk_type := (disk_type m)(b := t)\<rparr>) else Fault ''write outside the image'')"

definition init_bitmap :: "fs_h \<Rightarrow> image \<Rightarrow> image outcome" where
  "init_bitmap p m =
     andThen (foreach [0..<nbitblock m] (\<lambda>i. set_type (2 + i) BLOCK_BMAP) m) (\<lambda>m.
     andThen (foreach [0..<nbitblock m] (\<lambda>i. wr_bytes p (In_block (2 + i), 0) (replicate (BLOCK_SIZE p) 0xff)) m) (\<lambda>m.
     if NBLOCK \<noteq> nbitblock m * BLOCK_SIZE_BIT p
     then (let diff = NBLOCK mod BLOCK_SIZE_BIT p div 8 in
           wr_bytes p (In_block (2 + (nbitblock m - 1)), diff) (replicate (BLOCK_SIZE p - diff) 0) m)
     else Ret m))"

definition init_super :: "fs_h \<Rightarrow> image \<Rightarrow> image outcome" where
  "init_super p m =
     andThen (set_type 1 BLOCK_SUPER m) (\<lambda>m.
     andThen (wr32 p (In_super, s_magic p) (FS_MAGIC p) m) (\<lambda>m.
     andThen (wr32 p (In_super, s_nblocks p) (word_of_nat NBLOCK) m) (\<lambda>m.
     andThen (wr32 p (In_super, s_root p + f_type p) (FTYPE_DIR p) m) (\<lambda>m.
     wr_bytes p (In_super, s_root p + f_name p) [0x2f, 0] m))))"

definition init_disk :: "fs_h \<Rightarrow> image \<Rightarrow> image outcome" where
  "init_disk p m =
     andThen (set_type 0 BLOCK_BOOT m) (\<lambda>m.
       (let nb = (NBLOCK + BLOCK_SIZE_BIT p - 1) div BLOCK_SIZE_BIT p in
        andThen (init_bitmap p (m\<lparr>nbitblock := nb, nextbno := 2 + nb\<rparr>)) (init_super p)))"

definition next_block :: "block_type \<Rightarrow> image \<Rightarrow> (nat \<times> image) outcome" where
  "next_block t m = andThen (set_type (nextbno m) t m) (\<lambda>m. Ret (nextbno m, m\<lparr>nextbno := nextbno m + 1\<rparr>))"

definition flush_bitmap :: "fs_h \<Rightarrow> image \<Rightarrow> image outcome" where
  "flush_bitmap p m =
     foreach [0..<nextbno m] (\<lambda>i m.
       (let r = (In_block (2 + i div BLOCK_SIZE_BIT p), 4 * (i mod BLOCK_SIZE_BIT p div 32)) in
        andThen (rd32 p r m) (\<lambda>w. wr32 p r (w AND NOT (push_bit (i mod 32) 1)) m))) m"

text \<open>The blocks written to the image file, in order; \<open>write_ok i\<close> is what the i-th \<open>write\<close> achieves.\<close>

fun dump_blocks :: "fs_h \<Rightarrow> bool \<Rightarrow> (nat \<Rightarrow> bool) \<Rightarrow> nat list \<Rightarrow> image \<Rightarrow> u8 list list \<Rightarrow> (u8 list list \<times> image) outcome" where
  "dump_blocks p reverse_endian write_ok [] m out = Ret (out, m)"
| "dump_blocks p reverse_endian write_ok (i # is) m out =
     andThen (if reverse_endian then reverse_block p i m else Ret m) (\<lambda>m.
       if write_ok i
       then dump_blocks p reverse_endian write_ok is m (out @ [map (disk_data m i) [0..<BLOCK_SIZE p]])
       else Panic ''assert'')"

definition finish_fs :: "fs_h \<Rightarrow> bool \<Rightarrow> (nat \<Rightarrow> bool) \<Rightarrow> image \<Rightarrow> (u8 list list \<times> image) outcome" where
  "finish_fs p reverse_endian write_ok m =
     andThen (wr_bytes p (In_block 1, 0) (map (super m) [0..<sizeof_Super p]) m) (\<lambda>m.
       dump_blocks p reverse_endian write_ok [0..<1024] m [])"

section \<open>Files\<close>

definition save_block_link :: "fs_h \<Rightarrow> file_ptr \<Rightarrow> nat \<Rightarrow> nat \<Rightarrow> image \<Rightarrow> image outcome" where
  "save_block_link p f nblk bno m =
     (if nblk < NINDIRECT p
      then if nblk < NDIRECT p then wr32 p (field f (f_direct p + 4 * nblk)) (word_of_nat bno) m
           else andThen (rd32 p (field f (f_indirect p)) m) (\<lambda>ind.
                andThen (if ind = 0
                         then andThen (next_block BLOCK_INDEX m) (\<lambda>(b, m).
                              wr32 p (field f (f_indirect p)) (word_of_nat b) m)
                         else Ret m) (\<lambda>m.
                andThen (rd32 p (field f (f_indirect p)) m) (\<lambda>ind.
                wr32 p (In_block (unat ind), 4 * nblk) (word_of_nat bno) m)))
      else Panic ''assert'')"

definition make_link_block :: "fs_h \<Rightarrow> file_ptr \<Rightarrow> nat \<Rightarrow> image \<Rightarrow> (nat \<times> image) outcome" where
  "make_link_block p dirf nblk m =
     andThen (next_block BLOCK_FILE m) (\<lambda>(bno, m).
     andThen (save_block_link p dirf nblk bno m) (\<lambda>m.
     andThen (rd32 p (field dirf (f_size p)) m) (\<lambda>sz.
     andThen (wr32 p (field dirf (f_size p)) (sz + word_of_nat (BLOCK_SIZE p)) m) (\<lambda>m.
     Ret (bno, m)))))"

fun unused_in_block :: "fs_h \<Rightarrow> nat \<Rightarrow> nat list \<Rightarrow> image \<Rightarrow> file_ptr option outcome" where
  "unused_in_block p bno [] m = Ret None"
| "unused_in_block p bno (k # ks) m =
     (let f = (In_block bno, FILE_STRUCT_SIZE p * k) in
      andThen (rd8 p (field f (f_name p)) m) (\<lambda>c. if c = 0 then Ret (Some f) else unused_in_block p bno ks m))"

definition dir_block :: "fs_h \<Rightarrow> file_ptr \<Rightarrow> nat \<Rightarrow> image \<Rightarrow> nat outcome" where
  "dir_block p dirf i m =
     (if i \<le> NDIRECT p then andThen (rd32 p (field dirf (f_direct p + 4 * i)) m) (\<lambda>w. Ret (unat w))
      else andThen (rd32 p (field dirf (f_indirect p)) m) (\<lambda>ind.
           andThen (rd32 p (In_block (unat ind), 4 * i) m) (\<lambda>w. Ret (unat w))))"

fun find_unused :: "fs_h \<Rightarrow> file_ptr \<Rightarrow> nat list \<Rightarrow> image \<Rightarrow> file_ptr option outcome" where
  "find_unused p dirf [] m = Ret None"
| "find_unused p dirf (i # is) m =
     andThen (dir_block p dirf i m) (\<lambda>bno.
     andThen (unused_in_block p bno [0..<FILE2BLK p] m) (\<lambda>r.
       case r of Some f \<Rightarrow> Ret (Some f) | None \<Rightarrow> find_unused p dirf is m))"

definition create_file :: "fs_h \<Rightarrow> file_ptr \<Rightarrow> image \<Rightarrow> (file_ptr \<times> image) outcome" where
  "create_file p dirf m =
     andThen (rd32 p (field dirf (f_size p)) m) (\<lambda>sz.
       (let nblk = unat sz div BLOCK_SIZE p in
        andThen (find_unused p dirf [0..<nblk] m) (\<lambda>r.
          case r of
            Some f \<Rightarrow> Ret (f, m)
          | None \<Rightarrow> andThen (make_link_block p dirf nblk m) (\<lambda>(bno, m). Ret ((In_block bno, 0), m)))))"

text \<open>The host's files: a regular file with what \<open>open\<close> and \<open>read\<close> give, a directory with what \<open>readdir\<close> gives
  or one that \<open>opendir\<close> does not open, or anything else.\<close>

datatype fnode = Regular "u8 list option" | Directory entries | Not_opened | Special "u8 list option"
  and entries = No_entry | Entry "u8 list" fnode entries

definition after_slash :: "u8 list \<Rightarrow> u8 list" where
  "after_slash path = rev (takeWhile (\<lambda>c. c \<noteq> 0x2f) (rev path))"

text \<open>The standard \<open>basename\<close>: the last component, without trailing slashes.\<close>

definition basename :: "u8 list \<Rightarrow> u8 list" where
  "basename path =
     (if path = [] then [0x2e]
      else (let s = rev (dropWhile (\<lambda>c. c = 0x2f) (rev path)) in if s = [] then [0x2f] else after_slash s))"

function write_data :: "fs_h \<Rightarrow> file_ptr \<Rightarrow> nat \<Rightarrow> u8 list \<Rightarrow> image \<Rightarrow> image outcome" where
  "write_data p target iblk content m =
     (let r = take (BLOCK_SIZE p) content in
      if r = [] then Ret m
      else andThen (wr_bytes p (In_block (nextbno m), 0) r m) (\<lambda>m.
           andThen (next_block BLOCK_DATA m) (\<lambda>(bno, m).
           andThen (save_block_link p target iblk bno m) (\<lambda>m.
           write_data p target (iblk + 1) (drop (BLOCK_SIZE p) content) m))))"
  by pat_completeness auto
termination by (relation "measure (\<lambda>(p, target, iblk, content, m). length content)") auto

declare write_data.simps [simp del]

definition write_file :: "fs_h \<Rightarrow> file_ptr \<Rightarrow> u8 list \<Rightarrow> u8 list option \<Rightarrow> image \<Rightarrow> image outcome" where
  "write_file p dirf path file m =
     andThen (create_file p dirf m) (\<lambda>(target, m).
     andThen (wr_bytes p (field target (f_name p)) (after_slash path @ [0]) m) (\<lambda>m.
     andThen (wr32 p (field target (f_size p)) (case file of Some bs \<Rightarrow> word_of_nat (length bs) | None \<Rightarrow> - 1) m) (\<lambda>m.
     andThen (wr32 p (field target (f_type p)) (FTYPE_REG p) m) (\<lambda>m.
     write_data p target 0 (case file of Some bs \<Rightarrow> bs | None \<Rightarrow> []) m))))"

text \<open>A directory is written with everything in it; an \<open>Inl\<close> is the exit status of a run that ends here.\<close>

definition write_dir_entry :: "fs_h \<Rightarrow> file_ptr \<Rightarrow> u8 list \<Rightarrow> image \<Rightarrow> (int + (file_ptr \<times> image)) outcome" where
  "write_dir_entry p dirf path m =
     andThen (create_file p dirf m) (\<lambda>(pdir, m).
       (let name = take (MAXNAMELEN p - 1) (basename path) in
        andThen (wr_bytes p (field pdir (f_name p)) (name @ replicate (MAXNAMELEN p - 1 - length name) 0) m) (\<lambda>m.
        andThen (rd8 p (field pdir (f_name p + (MAXNAMELEN p - 1))) m) (\<lambda>c.
          if c \<noteq> 0 then Ret (Inl 1)
          else andThen (wr32 p (field pdir (f_type p)) (FTYPE_DIR p) m) (\<lambda>m. Ret (Inr (pdir, m)))))))"

definition andThen_exit :: "('e + 'a) outcome \<Rightarrow> ('a \<Rightarrow> ('e + 'b) outcome) \<Rightarrow> ('e + 'b) outcome" where
  "andThen_exit r f = andThen r (\<lambda>x. case x of Inl e \<Rightarrow> Ret (Inl e) | Inr y \<Rightarrow> f y)"

lemma andThen_exit_cong [fundef_cong]:
  "r = r' \<Longrightarrow> (\<And>y. r' = Ret (Inr y) \<Longrightarrow> f y = g y) \<Longrightarrow> andThen_exit r f = andThen_exit r' g"
  by (cases r') (auto simp: andThen_exit_def split: sum.splits)

definition dots :: "u8 list \<Rightarrow> bool" where
  "dots name \<longleftrightarrow> name = [0x2e] \<or> name = [0x2e, 0x2e]"

primrec write_node :: "fnode \<Rightarrow> fs_h \<Rightarrow> file_ptr \<Rightarrow> u8 list \<Rightarrow> image \<Rightarrow> (int + image) outcome"
  and write_entries :: "entries \<Rightarrow> fs_h \<Rightarrow> file_ptr \<Rightarrow> u8 list \<Rightarrow> image \<Rightarrow> (int + image) outcome" where
  "write_node Not_opened p dirf path m = Ret (Inr m)"
| "write_node (Directory es) p dirf path m =
     andThen_exit (write_dir_entry p dirf path m) (\<lambda>(pdir, m). write_entries es p pdir path m)"
| "write_node (Regular file) p dirf path m = andThen (write_file p dirf path file m) (\<lambda>m. Ret (Inr m))"
| "write_node (Special file) p dirf path m = andThen (write_file p dirf path file m) (\<lambda>m. Ret (Inr m))"
| "write_entries No_entry p pdir path m = Ret (Inr m)"
| "write_entries (Entry name node es) p pdir path m =
     (if dots name then write_entries es p pdir path m
      else andThen_exit (write_node node p pdir (path @ 0x2f # name) m) (write_entries es p pdir path))"

text \<open>\<open>write_directory\<close> is \<open>write_node\<close> on a directory.\<close>

definition write_directory :: "fs_h \<Rightarrow> file_ptr \<Rightarrow> u8 list \<Rightarrow> fnode \<Rightarrow> image \<Rightarrow> (int + image) outcome" where
  "write_directory p dirf path dir m = write_node dir p dirf path m"

section \<open>The program\<close>

text \<open>\<open>stat\<close> says what a name on the command line is. The result is the exit status and, when the program gets to
  the end, the blocks of the image file.\<close>

fun main_args :: "fs_h \<Rightarrow> (u8 list \<Rightarrow> fnode option) \<Rightarrow> u8 list list \<Rightarrow> image \<Rightarrow> (int + image) outcome" where
  "main_args p stat [] m = Ret (Inr m)"
| "main_args p stat (name # names) m =
     (case stat name of
        None \<Rightarrow> Panic ''assert''
      | Some node \<Rightarrow>
          (case node of
             Regular file \<Rightarrow>
               andThen (write_file p (In_super, s_root p) name file m) (main_args p stat names)
           | Special file \<Rightarrow> Ret (Inl 2)
           | _ \<Rightarrow> andThen_exit (write_directory p (In_super, s_root p) name node m) (main_args p stat names)))"

definition fsformat_main :: "fs_h \<Rightarrow> bool \<Rightarrow> (nat \<Rightarrow> bool) \<Rightarrow> (u8 list \<Rightarrow> fnode option) \<Rightarrow> u8 list list \<Rightarrow>
    (int \<times> u8 list list option) outcome" where
  "fsformat_main p reverse_endian write_ok stat argv =
     andThen (init_disk p blank_image) (\<lambda>m.
       if length argv < 3 then Ret (1, None)
       else andThen (main_args p stat (drop 2 argv) m) (\<lambda>r.
         case r of
           Inl status \<Rightarrow> Ret (status, None)
         | Inr m \<Rightarrow>
             andThen (flush_bitmap p m) (\<lambda>m.
             andThen (finish_fs p reverse_endian write_ok m) (\<lambda>(out, m). Ret (0, Some out)))))"

end
