(* ===== verification/FsImage.thy ===== *)
theory FsImage
  imports Fsformat
begin

text \<open>
  What the accesses of tools/fsformat.c do to the bytes of the image, a layout of the missing fs.h under which
  the fields of a file do not overlap, and the effect of the operations on the bitmap and of \<open>reverse\<close>.
\<close>

section \<open>Words in bytes\<close>

lemma word32_bytes:
  fixes w :: u32
  shows "ucast (ucast w :: u8) OR push_bit 8 (ucast (ucast (drop_bit 8 w) :: u8)) OR
    push_bit 16 (ucast (ucast (drop_bit 16 w) :: u8)) OR push_bit 24 (ucast (ucast (drop_bit 24 w) :: u8)) = w"
    (is "?l = w")
proof (rule bit_word_eqI)
  fix n assume n: "n < LENGTH(32)"
  then consider "n < 8" | "8 \<le> n" "n < 16" | "16 \<le> n" "n < 24" | "24 \<le> n" by linarith
  then show "bit ?l n = bit w n"
    by cases (use n in \<open>auto simp: bit_simps\<close>)
qed

lemma word32_put32 [simp]: "word32_at (put32 d i w) i = w"
  using word32_bytes [of w] by (simp add: word32_at_def put32_def)

lemma put32_other: "\<not> (i \<le> j \<and> j < i + 4) \<Longrightarrow> put32 d i w j = d j"
  by (auto simp: put32_def)

lemma word32_cong: "(\<And>j. i \<le> j \<Longrightarrow> j < i + 4 \<Longrightarrow> d j = e j) \<Longrightarrow> word32_at d i = word32_at e i"
  by (simp add: word32_at_def)

lemma word32_put32_other: "i + 4 \<le> j \<or> j + 4 \<le> i \<Longrightarrow> word32_at (put32 d i w) j = word32_at d j"
  by (rule word32_cong) (auto intro!: put32_other)

lemma put_bytes_in: "j < length bs \<Longrightarrow> put_bytes d i bs (i + j) = bs ! j"
  by (simp add: put_bytes_def)

lemma put_bytes_other: "\<not> (i \<le> j \<and> j < i + length bs) \<Longrightarrow> put_bytes d i bs j = d j"
  by (auto simp: put_bytes_def)

lemma map_put_bytes: "map (put_bytes d i bs) [i..<i + length bs] = bs"
  by (rule nth_equalityI) (simp_all add: put_bytes_in)

lemma word32_put_bytes_other: "i + length bs \<le> j \<or> j + 4 \<le> i \<Longrightarrow> word32_at (put_bytes d i bs) j = word32_at d j"
  by (rule word32_cong) (auto intro!: put_bytes_other)

lemma area_set_area [simp]: "area_bytes (set_area a d m) a' = (if a' = a then d else area_bytes m a')"
  by (cases a; cases a') auto

lemma set_area_fields [simp]:
  "nextbno (set_area a d m) = nextbno m" "nbitblock (set_area a d m) = nbitblock m"
  "disk_type (set_area a d m) = disk_type m"
  by (cases a; simp)+

lemma disk_data_set_area [simp]: "disk_data (set_area a d m) c = (if a = In_block c then d else disk_data m c)"
  by (cases a) auto

declare set_area.simps [simp del]

lemma area_bytes_update [simp]:
  "area_bytes (m\<lparr>disk_type := t\<rparr>) a = area_bytes m a" "area_bytes (m\<lparr>nextbno := n\<rparr>) a = area_bytes m a"
  "area_bytes (m\<lparr>nbitblock := n\<rparr>) a = area_bytes m a"
  by (cases a; simp)+

section \<open>Layout\<close>

definition apart :: "nat \<times> nat \<Rightarrow> nat \<times> nat \<Rightarrow> bool" where
  "apart x y \<longleftrightarrow> fst x + snd x \<le> fst y \<or> fst y + snd y \<le> fst x"

definition fields :: "fs_h \<Rightarrow> (nat \<times> nat) list" where
  "fields p = [(f_name p, MAXNAMELEN p), (f_size p, 4), (f_type p, 4), (f_direct p, 4 * NDIRECT p), (f_indirect p, 4)]"

text \<open>The fields of \<open>struct File\<close> are inside it and apart; a block holds its files, its index words, the super
  block and a bitmap of the whole disk.\<close>

definition layout_ok :: "fs_h \<Rightarrow> bool" where
  "layout_ok p \<longleftrightarrow>
     list_all (\<lambda>(i, n). i + n \<le> FILE_STRUCT_SIZE p) (fields p) \<and>
     sorted_wrt apart (fields p) \<and> 1 < MAXNAMELEN p \<and>
     128 \<le> BLOCK_SIZE p \<and> BLOCK_SIZE p mod 4 = 0 \<and> FILE2BLK p * FILE_STRUCT_SIZE p \<le> BLOCK_SIZE p \<and>
     0 < FILE2BLK p \<and>
     NINDIRECT p * 4 \<le> BLOCK_SIZE p \<and> sizeof_Super p \<le> BLOCK_SIZE p \<and>
     s_root p + FILE_STRUCT_SIZE p \<le> sizeof_Super p \<and> s_magic p + 4 \<le> sizeof_Super p \<and> s_nblocks p + 4 \<le> sizeof_Super p \<and>
     sorted_wrt apart [(s_magic p, 4), (s_nblocks p, 4), (s_root p, FILE_STRUCT_SIZE p)]"

text \<open>A concrete layout that meets these conditions.\<close>

definition mos_fs_h :: fs_h where
  "mos_fs_h = \<lparr>BLOCK_SIZE = 4096, NDIRECT = 10, NINDIRECT = 1024, FILE2BLK = 16, MAXNAMELEN = 128,
     FILE_STRUCT_SIZE = 256, sizeof_Super = 264, FS_MAGIC = 0x68286097, FTYPE_REG = 0, FTYPE_DIR = 1,
     f_name = 0, f_size = 128, f_type = 132, f_direct = 136, f_indirect = 176,
     s_magic = 0, s_nblocks = 4, s_root = 8\<rparr>"

lemma mos_layout_ok: "layout_ok mos_fs_h"
  by (simp add: layout_ok_def mos_fs_h_def fields_def apart_def)

lemma layout_fields:
  assumes "layout_ok p"
  shows "f_name p + MAXNAMELEN p \<le> FILE_STRUCT_SIZE p" "f_size p + 4 \<le> FILE_STRUCT_SIZE p"
    "f_type p + 4 \<le> FILE_STRUCT_SIZE p" "f_direct p + 4 * NDIRECT p \<le> FILE_STRUCT_SIZE p"
    "f_indirect p + 4 \<le> FILE_STRUCT_SIZE p"
    "f_name p + MAXNAMELEN p \<le> f_size p \<or> f_size p + 4 \<le> f_name p"
    "f_name p + MAXNAMELEN p \<le> f_type p \<or> f_type p + 4 \<le> f_name p"
    "f_name p + MAXNAMELEN p \<le> f_direct p \<or> f_direct p + 4 * NDIRECT p \<le> f_name p"
    "f_name p + MAXNAMELEN p \<le> f_indirect p \<or> f_indirect p + 4 \<le> f_name p"
    "f_size p + 4 \<le> f_type p \<or> f_type p + 4 \<le> f_size p"
    "f_size p + 4 \<le> f_direct p \<or> f_direct p + 4 * NDIRECT p \<le> f_size p"
    "f_size p + 4 \<le> f_indirect p \<or> f_indirect p + 4 \<le> f_size p"
    "f_type p + 4 \<le> f_direct p \<or> f_direct p + 4 * NDIRECT p \<le> f_type p"
    "f_type p + 4 \<le> f_indirect p \<or> f_indirect p + 4 \<le> f_type p"
    "f_direct p + 4 * NDIRECT p \<le> f_indirect p \<or> f_indirect p + 4 \<le> f_direct p"
  using assms by (auto simp: layout_ok_def fields_def apart_def)

lemma layout_sizes:
  assumes "layout_ok p"
  shows "1 < MAXNAMELEN p" "128 \<le> BLOCK_SIZE p" "BLOCK_SIZE p mod 4 = 0" "FILE2BLK p * FILE_STRUCT_SIZE p \<le> BLOCK_SIZE p"
    "NINDIRECT p * 4 \<le> BLOCK_SIZE p" "sizeof_Super p \<le> BLOCK_SIZE p" "s_root p + FILE_STRUCT_SIZE p \<le> sizeof_Super p"
    "0 < FILE2BLK p" "s_magic p + 4 \<le> sizeof_Super p" "s_nblocks p + 4 \<le> sizeof_Super p"
  using assms by (simp_all add: layout_ok_def)

section \<open>Byte order\<close>

lemma reverse_at:
  "reverse p (a, i) m =
     (if i + 4 \<le> area_size p a
      then (let d = area_bytes m a in Ret (set_area a (put_bytes d i [d (i + 3), d (i + 2), d (i + 1), d i]) m))
      else Fault ''read outside the image'')"
proof -
  have mask: "(0xFF :: u32) = mask 8" by (simp add: mask_eq_exp_minus_1)
  have "ucast (drop_bit 24 (word32_at d i) AND 0xFF) = d (i + 3)" "ucast (drop_bit 16 (word32_at d i) AND 0xFF) = d (i + 2)"
    "ucast (drop_bit 8 (word32_at d i) AND 0xFF) = d (i + 1)" "ucast (word32_at d i AND 0xFF) = d i" for d :: "nat \<Rightarrow> u8"
    unfolding word32_at_def mask
    by (rule bit_word_eqI, auto simp: bit_simps dest: bit_imp_le_length)+
  then show ?thesis by (simp add: reverse_def rd32_def wr_bytes_def Let_def)
qed

end
