(* ===== verification/FsFiles.thy ===== *)
theory FsFiles
  imports FsImage
begin

text \<open>
  The files tools/fsformat.c writes read back as they were: the links of a file, the blocks they name, and the
  loops of \<open>write_file\<close> that allocate and link the blocks of the contents.
\<close>

section \<open>Reading a file of the image\<close>

definition the_field :: "file_ptr \<Rightarrow> nat \<Rightarrow> image \<Rightarrow> u32" where
  "the_field f offset m = word32_at (area_bytes m (fst f)) (snd f + offset)"

definition index_block :: "fs_h \<Rightarrow> file_ptr \<Rightarrow> image \<Rightarrow> nat" where
  "index_block p f m = unat (the_field f (f_indirect p) m)"

definition link :: "fs_h \<Rightarrow> file_ptr \<Rightarrow> image \<Rightarrow> nat \<Rightarrow> nat" where
  "link p f m i =
     unat (if i < NDIRECT p then the_field f (f_direct p + 4 * i) m
           else word32_at (disk_data m (index_block p f m)) (4 * i))"

definition file_blocks :: "fs_h \<Rightarrow> nat \<Rightarrow> nat" where
  "file_blocks p len = (len + BLOCK_SIZE p - 1) div BLOCK_SIZE p"

text \<open>The contents of a file, as a reader of the image finds them.\<close>

definition read_file :: "fs_h \<Rightarrow> file_ptr \<Rightarrow> image \<Rightarrow> u8 list" where
  "read_file p f m =
     (let len = unat (the_field f (f_size p) m) in
      take len (concat (map (\<lambda>i. map (disk_data m (link p f m i)) [0..<BLOCK_SIZE p]) [0..<file_blocks p len])))"

definition file_name :: "fs_h \<Rightarrow> file_ptr \<Rightarrow> image \<Rightarrow> u8 list" where
  "file_name p f m = takeWhile (\<lambda>c. c \<noteq> 0) (map (area_bytes m (fst f)) [snd f + f_name p..<snd f + f_name p + MAXNAMELEN p])"

section \<open>Files being written\<close>

definition allocated :: "image \<Rightarrow> area \<Rightarrow> bool" where
  "allocated m a \<longleftrightarrow> (case a of In_super \<Rightarrow> True | In_block b \<Rightarrow> b < nextbno m)"

text \<open>A file whose first \<open>n\<close> links may be set: it lies in allocated storage, and has an index block of its own
  when it needs one.\<close>

definition file_inv :: "fs_h \<Rightarrow> file_ptr \<Rightarrow> nat \<Rightarrow> image \<Rightarrow> bool" where
  "file_inv p f n m \<longleftrightarrow>
     allocated m (fst f) \<and> snd f + FILE_STRUCT_SIZE p \<le> area_size p (fst f) \<and> 0 < nextbno m \<and> nextbno m \<le> NBLOCK \<and>
     (if index_block p f m = 0 then n \<le> NDIRECT p
      else index_block p f m < nextbno m \<and> fst f \<noteq> In_block (index_block p f m))"

definition links_part :: "fs_h \<Rightarrow> file_ptr \<Rightarrow> area \<Rightarrow> nat \<Rightarrow> bool" where
  "links_part p f a i \<longleftrightarrow> a = fst f \<and>
     (snd f + f_direct p \<le> i \<and> i < snd f + f_direct p + 4 * NDIRECT p \<or>
      snd f + f_indirect p \<le> i \<and> i < snd f + f_indirect p + 4)"

text \<open>Writing the links of \<open>f\<close> changes the links, its index block and blocks not yet in use.\<close>

definition links_frame :: "fs_h \<Rightarrow> file_ptr \<Rightarrow> image \<Rightarrow> image \<Rightarrow> bool" where
  "links_frame p f m m' \<longleftrightarrow> nextbno m \<le> nextbno m' \<and>
     (index_block p f m' = index_block p f m \<or> index_block p f m = 0 \<and> nextbno m \<le> index_block p f m') \<and>
     (\<forall>a i. allocated m a \<longrightarrow> \<not> links_part p f a i \<longrightarrow> (index_block p f m \<noteq> 0 \<longrightarrow> a \<noteq> In_block (index_block p f m)) \<longrightarrow>
        area_bytes m' a i = area_bytes m a i)"

lemma links_frame_refl [simp]: "links_frame p f m m"
  by (simp add: links_frame_def)

lemma links_frameD:
  "links_frame p f m m' \<Longrightarrow> allocated m a \<Longrightarrow> \<not> links_part p f a i \<Longrightarrow>
   index_block p f m = 0 \<or> a \<noteq> In_block (index_block p f m) \<Longrightarrow> area_bytes m' a i = area_bytes m a i"
  by (auto simp: links_frame_def)

lemma allocated_mono: "allocated m a \<Longrightarrow> nextbno m \<le> nextbno m' \<Longrightarrow> allocated m' a"
  by (auto simp: allocated_def split: area.splits)

lemma links_frame_trans:
  assumes "links_frame p f m m1" and "links_frame p f m1 m2" and "0 < nextbno m"
  shows "links_frame p f m m2"
  unfolding links_frame_def
proof (intro conjI allI impI)
  show "nextbno m \<le> nextbno m2" using assms by (auto simp: links_frame_def)
  show "index_block p f m2 = index_block p f m \<or> index_block p f m = 0 \<and> nextbno m \<le> index_block p f m2"
    using assms by (auto simp: links_frame_def)
  fix a i assume a: "allocated m a" "\<not> links_part p f a i" "index_block p f m \<noteq> 0 \<longrightarrow> a \<noteq> In_block (index_block p f m)"
  have "index_block p f m1 \<noteq> 0 \<longrightarrow> a \<noteq> In_block (index_block p f m1)"
    using a assms(1,3) by (auto simp: links_frame_def allocated_def)
  moreover have "allocated m1 a" using a assms(1) by (auto simp: links_frame_def intro: allocated_mono)
  ultimately show "area_bytes m2 a i = area_bytes m a i" using a assms(1,2) by (auto simp: links_frame_def)
qed

lemma field_simps [simp]: "fst (field f i) = fst f" "snd (field f i) = snd f + i"
  by (simp_all add: field_def)

lemma rd32_field: "snd f + i + 4 \<le> area_size p (fst f) \<Longrightarrow> rd32 p (field f i) m = Ret (the_field f i m)"
  by (simp add: rd32_def field_def the_field_def)

lemma wr32_field:
  "snd f + i + 4 \<le> area_size p (fst f) \<Longrightarrow>
   wr32 p (field f i) w m = Ret (set_area (fst f) (put32 (area_bytes m (fst f)) (snd f + i) w) m)"
  by (simp add: wr32_def field_def)

lemma unat_block [simp]: "b \<le> 1024 \<Longrightarrow> unat (word_of_nat b :: u32) = b"
  by (simp add: unat_of_nat)

section \<open>Linking a block\<close>

lemma save_direct_link:
  assumes lay: "layout_ok p" and inv: "file_inv p f n m" and n: "n < NDIRECT p" "n < NINDIRECT p" and b: "b \<le> NBLOCK"
  shows "\<exists>m'. save_block_link p f n b m = Ret m' \<and> file_inv p f (n + 1) m' \<and> links_frame p f m m' \<and>
    nextbno m' = nextbno m \<and> index_block p f m' = index_block p f m \<and> link p f m' n = b \<and>
    (\<forall>i<n. link p f m' i = link p f m i) \<and> (\<forall>a i. \<not> links_part p f a i \<longrightarrow> area_bytes m' a i = area_bytes m a i)"
proof -
  note lf = layout_fields [OF lay]
  have size: "snd f + FILE_STRUCT_SIZE p \<le> area_size p (fst f)" using inv by (simp add: file_inv_def)
  define m' where "m' = set_area (fst f) (put32 (area_bytes m (fst f)) (snd f + (f_direct p + 4 * n)) (word_of_nat b)) m"
  have ret: "save_block_link p f n b m = Ret m'"
    using n lf(4) size unfolding save_block_link_def m'_def by (simp add: wr32_field)
  have other: "the_field f j m' = the_field f j m" if "f_direct p + 4 * n + 4 \<le> j \<or> j + 4 \<le> f_direct p + 4 * n" for j
    using that by (auto simp: the_field_def m'_def intro!: word32_put32_other)
  have idx: "index_block p f m' = index_block p f m"
    using lf(15) n by (auto simp: index_block_def intro!: other arg_cong [of _ _ unat])
  have "link p f m' n = b" using n b by (simp add: link_def the_field_def m'_def NBLOCK_def)
  moreover have "link p f m' i = link p f m i" if "i < n" for i
    using that n by (auto simp: link_def intro!: other arg_cong [of _ _ unat])
  moreover have "links_frame p f m m'"
    using n idx by (auto simp: links_frame_def links_part_def m'_def intro!: put32_other)
  moreover have "file_inv p f (n + 1) m'"
    using inv n idx by (auto simp: file_inv_def m'_def allocated_def split: area.splits)
  moreover have "area_bytes m' a i = area_bytes m a i" if "\<not> links_part p f a i" for a i
    using that n by (auto simp: links_part_def m'_def intro!: put32_other)
  ultimately show ?thesis using ret idx by (auto simp: m'_def)
qed

lemma index_word_in_block:
  assumes "layout_ok p" and "n < NINDIRECT p"
  shows "4 * n + 4 \<le> BLOCK_SIZE p"
  using layout_sizes(5) [OF assms(1)] assms(2) by simp

lemma save_index_link:
  assumes lay: "layout_ok p" and inv: "file_inv p f n m" and n: "NDIRECT p \<le> n" "n < NINDIRECT p" and b: "b \<le> NBLOCK"
    and idx: "index_block p f m \<noteq> 0"
  shows "\<exists>m'. save_block_link p f n b m = Ret m' \<and> file_inv p f (n + 1) m' \<and> links_frame p f m m' \<and>
    nextbno m' = nextbno m \<and> index_block p f m' = index_block p f m \<and> link p f m' n = b \<and> (\<forall>i<n. link p f m' i = link p f m i) \<and>
    (\<forall>c\<ge>nextbno m'. disk_data m' c = disk_data m c)"
proof -
  let ?ind = "index_block p f m"
  have size: "snd f + FILE_STRUCT_SIZE p \<le> area_size p (fst f)" and ne: "fst f \<noteq> In_block ?ind"
    and ind: "?ind < nextbno m" "nextbno m \<le> NBLOCK"
    using inv idx by (auto simp: file_inv_def)
  define m' where "m' = set_area (In_block ?ind) (put32 (disk_data m ?ind) (4 * n) (word_of_nat b)) m"
  have nz: "the_field f (f_indirect p) m \<noteq> 0" using idx by (auto simp: index_block_def)
  have ret: "save_block_link p f n b m = Ret m'"
    using n size layout_fields(5) [OF lay] ind index_word_in_block [OF lay n(2)] nz unfolding save_block_link_def m'_def
    by (simp add: rd32_field wr32_def index_block_def)
  have fields: "the_field f j m' = the_field f j m" for j using ne by (simp add: the_field_def m'_def)
  have idx': "index_block p f m' = ?ind" by (simp add: index_block_def fields)
  have data: "disk_data m' ?ind = put32 (disk_data m ?ind) (4 * n) (word_of_nat b)" by (simp add: m'_def)
  have "link p f m' n = b" using n b by (simp add: link_def idx' data NBLOCK_def)
  moreover have "link p f m' i = link p f m i" if "i < n" for i
    using that by (auto simp: link_def fields idx' data intro!: word32_put32_other arg_cong [of _ _ unat])
  moreover have "links_frame p f m m'"
    using idx' idx by (auto simp: links_frame_def m'_def)
  moreover have "file_inv p f (n + 1) m'"
    using inv idx idx' by (auto simp: file_inv_def m'_def allocated_def split: area.splits)
  moreover have "disk_data m' c = disk_data m c" if "nextbno m \<le> c" for c using that ind by (simp add: m'_def)
  ultimately show ?thesis using ret idx' by (auto simp: m'_def)
qed

lemma save_first_index_link:
  assumes lay: "layout_ok p" and inv: "file_inv p f n m" and n: "NDIRECT p = n" "n < NINDIRECT p" and b: "b \<le> NBLOCK"
    and idx: "index_block p f m = 0" and room: "nextbno m < NBLOCK"
  shows "\<exists>m'. save_block_link p f n b m = Ret m' \<and> file_inv p f (n + 1) m' \<and> links_frame p f m m' \<and>
    nextbno m' = nextbno m + 1 \<and> index_block p f m' = nextbno m \<and> link p f m' n = b \<and> (\<forall>i<n. link p f m' i = link p f m i) \<and>
    (\<forall>c\<ge>nextbno m'. disk_data m' c = disk_data m c)"
proof -
  let ?new = "nextbno m" and ?ref = "snd f + f_indirect p"
  have size: "snd f + FILE_STRUCT_SIZE p \<le> area_size p (fst f)" and alloc: "allocated m (fst f)" and pos: "0 < ?new"
    using inv by (auto simp: file_inv_def)
  have ne: "fst f \<noteq> In_block ?new" using alloc by (auto simp: allocated_def)
  define m1 where "m1 = m\<lparr>disk_type := (disk_type m)(?new := BLOCK_INDEX), nextbno := ?new + 1\<rparr>"
  define m2 where "m2 = set_area (fst f) (put32 (area_bytes m (fst f)) ?ref (word_of_nat ?new)) m1"
  define m' where "m' = set_area (In_block ?new) (put32 (disk_data m ?new) (4 * n) (word_of_nat b)) m2"
  have z: "the_field f (f_indirect p) m = 0" using idx by (simp add: index_block_def unat_eq_zero)
  have new: "the_field f (f_indirect p) m2 = word_of_nat ?new" by (simp add: the_field_def m2_def)
  have data2: "disk_data m2 ?new = disk_data m ?new"
    using ne by (cases "fst f") (auto simp: m2_def m1_def)
  have ret: "save_block_link p f n b m = Ret m'"
  proof -
    have "next_block BLOCK_INDEX m = Ret (?new, m1)" using room by (simp add: next_block_def set_type_def m1_def)
    moreover have "wr32 p (field f (f_indirect p)) (word_of_nat ?new) m1 = Ret m2"
      using size layout_fields(5) [OF lay] by (simp add: wr32_field m2_def m1_def)
    moreover have "wr32 p (In_block ?new, 4 * n) (word_of_nat b) m2 = Ret m'"
      using room index_word_in_block [OF lay n(2)] by (simp add: wr32_def m'_def data2)
    moreover have "unat (word_of_nat ?new :: u32) = ?new" using room by (simp add: NBLOCK_def)
    ultimately show ?thesis
      using n size layout_fields(5) [OF lay] z new unfolding save_block_link_def by (simp add: rd32_field)
  qed
  have fields: "the_field f j m' = the_field f j m2" for j using ne by (simp add: the_field_def m'_def)
  have idx': "index_block p f m' = ?new" using room by (simp add: index_block_def fields new NBLOCK_def)
  have direct: "the_field f (f_direct p + 4 * i) m2 = the_field f (f_direct p + 4 * i) m" if "i < NDIRECT p" for i
    using that layout_fields(15) [OF lay] by (auto simp: the_field_def m2_def m1_def intro!: word32_put32_other)
  have "link p f m' n = b" using n b idx' by (simp add: link_def m'_def NBLOCK_def)
  moreover have "link p f m' i = link p f m i" if "i < n" for i
    using that n by (simp add: link_def fields direct)
  moreover have "links_frame p f m m'"
    using idx' idx by (auto simp: links_frame_def links_part_def m'_def m2_def m1_def allocated_def intro!: put32_other)
  moreover have "file_inv p f (n + 1) m'"
    using inv idx' ne pos room by (auto simp: file_inv_def m'_def m2_def m1_def allocated_def split: area.splits)
  moreover have "disk_data m' c = disk_data m c" if "nextbno m + 1 \<le> c" for c
    using that alloc by (auto simp: m'_def m2_def m1_def allocated_def split: area.splits)
  ultimately show ?thesis using ret idx' by (auto simp: m'_def m2_def m1_def)
qed

text \<open>The three cases together: linking block \<open>b\<close> as the next block of the file.\<close>

definition needs_index :: "fs_h \<Rightarrow> file_ptr \<Rightarrow> nat \<Rightarrow> image \<Rightarrow> nat" where
  "needs_index p f n m = (if index_block p f m = 0 \<and> NDIRECT p < n then 1 else 0)"

lemma save_block_link_ok:
  assumes "layout_ok p" and "file_inv p f n m" and "n < NINDIRECT p" and "b \<le> NBLOCK"
    and "nextbno m + needs_index p f (n + 1) m \<le> NBLOCK"
  obtains m' where "save_block_link p f n b m = Ret m'" "file_inv p f (n + 1) m'" "links_frame p f m m'"
    "\<forall>k>n. nextbno m' + needs_index p f k m' = nextbno m + needs_index p f k m"
    "link p f m' n = b" "\<forall>i<n. link p f m' i = link p f m i" "\<forall>c\<ge>nextbno m'. disk_data m' c = disk_data m c"
proof (cases "n < NDIRECT p")
  case True
  obtain m' where m': "save_block_link p f n b m = Ret m'" "file_inv p f (n + 1) m'" "links_frame p f m m'"
    "nextbno m' = nextbno m" "index_block p f m' = index_block p f m" "link p f m' n = b" "\<forall>i<n. link p f m' i = link p f m i"
    "\<And>a i. \<not> links_part p f a i \<Longrightarrow> area_bytes m' a i = area_bytes m a i"
    using save_direct_link [OF assms(1,2) True assms(3,4)] by blast
  have "disk_data m' c = disk_data m c" if "nextbno m' \<le> c" for c
  proof
    fix i
    have "fst f \<noteq> In_block c" using that m'(4) assms(2) by (auto simp: file_inv_def allocated_def)
    then show "disk_data m' c i = disk_data m c i" using m'(8) [of "In_block c" i] by (simp add: links_part_def)
  qed
  then show ?thesis using that m' by (simp add: needs_index_def)
next
  case False
  then have n: "NDIRECT p \<le> n" by simp
  show ?thesis
  proof (cases "index_block p f m = 0")
    case True
    then have "NDIRECT p = n" and "nextbno m < NBLOCK" and "nextbno m \<noteq> 0"
      using assms(2,5) n by (auto simp: file_inv_def needs_index_def)
    then show ?thesis
      using save_first_index_link [OF assms(1,2) _ assms(3,4) True] True that by (force simp: needs_index_def)
  next
    case idx: False
    then show ?thesis using save_index_link [OF assms(1,2) n assms(3,4) idx] that by (force simp: needs_index_def)
  qed
qed

section \<open>Writing the contents\<close>

text \<open>From link \<open>n\<close> on, the blocks of the file hold \<open>content\<close>.\<close>

function stored :: "fs_h \<Rightarrow> file_ptr \<Rightarrow> image \<Rightarrow> nat \<Rightarrow> u8 list \<Rightarrow> bool" where
  "stored p f m n content \<longleftrightarrow>
     (let r = take (BLOCK_SIZE p) content in
      if r = [] then True
      else map (disk_data m (link p f m n)) [0..<length r] = r \<and> stored p f m (n + 1) (drop (BLOCK_SIZE p) content))"
  by pat_completeness auto
termination by (relation "measure (\<lambda>(p, f, m, n, content). length content)") auto

declare stored.simps [simp del]

lemma file_blocks_0 [simp]: "0 < BLOCK_SIZE p \<Longrightarrow> file_blocks p 0 = 0"
  by (simp add: file_blocks_def)

lemma file_blocks_step:
  assumes "0 < BLOCK_SIZE p" and "0 < len"
  shows "file_blocks p len = Suc (file_blocks p (len - BLOCK_SIZE p))"
proof (cases "BLOCK_SIZE p \<le> len")
  case True
  then have "len + BLOCK_SIZE p - 1 = (len - BLOCK_SIZE p + BLOCK_SIZE p - 1) + BLOCK_SIZE p" using assms by simp
  then show ?thesis using assms(1) unfolding file_blocks_def by (metis Suc_eq_plus1 div_add_self2 less_not_refl3)
next
  case False
  have "(len + BLOCK_SIZE p - 1) div BLOCK_SIZE p = (len - 1 + BLOCK_SIZE p) div BLOCK_SIZE p" using assms by simp
  also have "\<dots> = Suc ((len - 1) div BLOCK_SIZE p)" using assms(1) by (simp only: div_add_self2)
  finally show ?thesis using False assms by (simp add: file_blocks_def)
qed

text \<open>Reading a block and taking it into use.\<close>

definition with_block :: "nat \<Rightarrow> u8 list \<Rightarrow> image \<Rightarrow> image" where
  "with_block b r m = (set_area (In_block b) (put_bytes (disk_data m b) 0 r) m)
     \<lparr>disk_type := (disk_type m)(b := BLOCK_DATA), nextbno := b + 1\<rparr>"

lemma write_data_step:
  assumes "content \<noteq> []" and "0 < BLOCK_SIZE p" and "nextbno m < NBLOCK"
  shows "write_data p f n content m =
    andThen (save_block_link p f n (nextbno m) (with_block (nextbno m) (take (BLOCK_SIZE p) content) m))
      (write_data p f (n + 1) (drop (BLOCK_SIZE p) content))"
  using assms by (subst write_data.simps)
    (simp add: wr_bytes_def next_block_def set_type_def with_block_def Let_def min_def)

lemma next_block_fresh:
  assumes "file_inv p f n m"
  shows "fst f \<noteq> In_block (nextbno m)" "index_block p f m \<noteq> nextbno m"
  using assms by (auto simp: file_inv_def allocated_def split: if_splits)

lemma with_block_file:
  assumes inv: "file_inv p f n m" and lt: "nextbno m < NBLOCK"
  shows "file_inv p f n (with_block (nextbno m) r m)" "links_frame p f m (with_block (nextbno m) r m)"
    "index_block p f (with_block (nextbno m) r m) = index_block p f m"
    "link p f (with_block (nextbno m) r m) i = link p f m i"
proof -
  let ?m = "with_block (nextbno m) r m"
  note ne = next_block_fresh(1) [OF inv] and ine = next_block_fresh(2) [OF inv]
  have fields: "the_field f j ?m = the_field f j m" for j using ne by (simp add: the_field_def with_block_def)
  show idx: "index_block p f ?m = index_block p f m" by (simp add: index_block_def fields)
  show "file_inv p f n ?m" using inv lt idx by (auto simp: file_inv_def with_block_def allocated_def split: area.splits)
  show "links_frame p f m ?m" using idx by (auto simp: links_frame_def with_block_def allocated_def)
  have "disk_data ?m (index_block p f m) = disk_data m (index_block p f m)" using ine by (simp add: with_block_def)
  then show "link p f ?m i = link p f m i" by (simp add: link_def fields idx)
qed

lemma write_data_ok:
  assumes lay: "layout_ok p" and "file_inv p f n m" and "n + file_blocks p (length content) \<le> NINDIRECT p"
    and "nextbno m + file_blocks p (length content) + needs_index p f (n + file_blocks p (length content)) m \<le> NBLOCK"
  shows "\<exists>m'. write_data p f n content m = Ret m' \<and> file_inv p f (n + file_blocks p (length content)) m' \<and>
    links_frame p f m m' \<and> (\<forall>i<n. link p f m' i = link p f m i) \<and> stored p f m' n content \<and>
    nextbno m' + needs_index p f (n + file_blocks p (length content)) m' =
      nextbno m + file_blocks p (length content) + needs_index p f (n + file_blocks p (length content)) m \<and>
    (\<forall>i. n \<le> i \<and> i < n + file_blocks p (length content) \<longrightarrow> nextbno m \<le> link p f m' i \<and> link p f m' i < nextbno m') \<and>
    (\<forall>c\<ge>nextbno m'. disk_data m' c = disk_data m c)"
  using assms(2-)
proof (induction "length content" arbitrary: content n m rule: less_induct)
  case less
  have bs: "0 < BLOCK_SIZE p" using layout_sizes(2) [OF lay] by simp
  show ?case
  proof (cases "content = []")
    case True
    then show ?thesis using less.prems bs by (subst write_data.simps, subst stored.simps) (simp add: Let_def)
  next
    case ne: False
    let ?b = "nextbno m" and ?r = "take (BLOCK_SIZE p) content" and ?rest = "drop (BLOCK_SIZE p) content"
    let ?m2 = "with_block ?b ?r m" and ?k = "n + file_blocks p (length content)"
    have blocks: "file_blocks p (length content) = Suc (file_blocks p (length ?rest))"
      using file_blocks_step [OF bs, of "length content"] ne by simp
    have lt: "?b < NBLOCK" using less.prems(3) blocks by simp
    note wb = with_block_file [OF less.prems(1) lt, where r = ?r]
    have nb2: "nextbno ?m2 = ?b + 1" by (simp add: with_block_def)
    have needs2: "needs_index p f j ?m2 = needs_index p f j m" for j by (simp add: needs_index_def wb(3))
    have nn: "n < NINDIRECT p" "?b \<le> NBLOCK" using less.prems(2) lt blocks by simp_all
    have room: "nextbno ?m2 + needs_index p f (n + 1) ?m2 \<le> NBLOCK"
      unfolding nb2 needs2 using less.prems(3) blocks by (auto simp: needs_index_def split: if_splits)
    obtain m3 where m3: "save_block_link p f n ?b ?m2 = Ret m3" "file_inv p f (n + 1) m3" "links_frame p f ?m2 m3"
      "\<forall>k>n. nextbno m3 + needs_index p f k m3 = nextbno ?m2 + needs_index p f k ?m2"
      "link p f m3 n = ?b" "\<forall>i<n. link p f m3 i = link p f ?m2 i" "\<forall>c\<ge>nextbno m3. disk_data m3 c = disk_data ?m2 c"
      using save_block_link_ok [OF lay wb(1) nn room] by blast
    have k: "n + 1 + file_blocks p (length ?rest) = ?k" using blocks by simp
    have "\<exists>m'. write_data p f (n + 1) ?rest m3 = Ret m' \<and> file_inv p f (n + 1 + file_blocks p (length ?rest)) m' \<and>
      links_frame p f m3 m' \<and> (\<forall>i<n + 1. link p f m' i = link p f m3 i) \<and> stored p f m' (n + 1) ?rest \<and>
      nextbno m' + needs_index p f (n + 1 + file_blocks p (length ?rest)) m' =
        nextbno m3 + file_blocks p (length ?rest) + needs_index p f (n + 1 + file_blocks p (length ?rest)) m3 \<and>
      (\<forall>i. n + 1 \<le> i \<and> i < n + 1 + file_blocks p (length ?rest) \<longrightarrow> nextbno m3 \<le> link p f m' i \<and> link p f m' i < nextbno m') \<and>
      (\<forall>c\<ge>nextbno m'. disk_data m' c = disk_data m3 c)"
    proof (rule less.hyps)
      show "length ?rest < length content" using ne bs by simp
      show "nextbno m3 + file_blocks p (length ?rest) + needs_index p f (n + 1 + file_blocks p (length ?rest)) m3 \<le> NBLOCK"
        using spec [OF m3(4), of ?k] less.prems(3) blocks unfolding k by (simp add: nb2 needs2)
    qed (use m3(2) less.prems(2) k in simp_all)
    then obtain m' where m': "write_data p f (n + 1) ?rest m3 = Ret m'" "file_inv p f ?k m'" "links_frame p f m3 m'"
      "\<forall>i<n + 1. link p f m' i = link p f m3 i" "stored p f m' (n + 1) ?rest"
      "nextbno m' + needs_index p f ?k m' = nextbno m3 + file_blocks p (length ?rest) + needs_index p f ?k m3"
      "\<forall>i. n + 1 \<le> i \<and> i < ?k \<longrightarrow> nextbno m3 \<le> link p f m' i \<and> link p f m' i < nextbno m'"
      "\<forall>c\<ge>nextbno m'. disk_data m' c = disk_data m3 c"
      unfolding k by blast
    have frame: "links_frame p f ?m2 m'" using links_frame_trans [OF m3(3) m'(3)] nb2 by simp
    have "disk_data m' ?b i = ?r ! i" if "i < length ?r" for i
    proof -
      have "area_bytes m' (In_block ?b) i = area_bytes ?m2 (In_block ?b) i"
        using next_block_fresh [OF less.prems(1)] wb(3)
        by (intro links_frameD [OF frame]) (auto simp: links_part_def allocated_def nb2)
      then show ?thesis using that put_bytes_in [OF that, of _ 0] by (simp add: with_block_def)
    qed
    then have "map (disk_data m' ?b) [0..<length ?r] = ?r" by (intro nth_equalityI) simp_all
    then have "stored p f m' n content" using m'(4,5) m3(5) by (subst stored.simps) (simp add: Let_def)
    moreover have "links_frame p f m m'" using links_frame_trans [OF wb(2) frame] less.prems(1) by (simp add: file_inv_def)
    moreover have "write_data p f n content m = Ret m'" using write_data_step [OF ne bs lt] m3(1) m'(1) by simp
    moreover have "\<forall>i<n. link p f m' i = link p f m i" using m'(4) m3(6) wb(4) by simp
    moreover have "nextbno m' + needs_index p f ?k m' = ?b + file_blocks p (length content) + needs_index p f ?k m"
      using m'(6) spec [OF m3(4), of ?k] blocks by (simp add: nb2 needs2)
    moreover have mono: "?b < nextbno m3" "nextbno m3 \<le> nextbno m'" using m3(3) m'(3) nb2 by (simp_all add: links_frame_def)
    have "?b \<le> link p f m' i \<and> link p f m' i < nextbno m'" if "n \<le> i" "i < ?k" for i
    proof (cases "i = n")
      case True
      then show ?thesis using m'(4) m3(5) mono by simp
    next
      case False
      then show ?thesis using m'(7) [rule_format, of i] that mono by simp
    qed
    moreover have "disk_data m' c = disk_data m c" if "nextbno m' \<le> c" for c
      using that mono m'(8) m3(7) by (simp add: with_block_def)
    ultimately show ?thesis using m'(2) by blast
  qed
qed

lemma stored_contents:
  assumes "0 < BLOCK_SIZE p" and "stored p f m n content"
  shows "take (length content)
      (concat (map (\<lambda>i. map (disk_data m (link p f m i)) [0..<BLOCK_SIZE p]) [n..<n + file_blocks p (length content)])) = content"
  using assms(2)
proof (induction "length content" arbitrary: content n rule: less_induct)
  case less
  show ?case
  proof (cases "content = []")
    case False
    let ?bs = "BLOCK_SIZE p" and ?rest = "drop (BLOCK_SIZE p) content" and ?block = "\<lambda>i. map (disk_data m (link p f m i)) [0..<BLOCK_SIZE p]"
    have st: "map (disk_data m (link p f m n)) [0..<length (take ?bs content)] = take ?bs content" "stored p f m (n + 1) ?rest"
      using less.prems False assms(1) by (subst (asm) stored.simps, simp add: Let_def)+
    have blocks: "file_blocks p (length content) = Suc (file_blocks p (length ?rest))"
      using file_blocks_step [OF assms(1), of "length content"] False by simp
    have "take (length content) (?block n @ xs) = take ?bs content @ take (length ?rest) xs" for xs
      using st(1) by (simp add: take_map min_def split: if_splits)
    moreover have "take (length ?rest) (concat (map ?block [n + 1..<n + 1 + file_blocks p (length ?rest)])) = ?rest"
      using False assms(1) by (intro less.hyps [OF _ st(2)]) simp
    ultimately show ?thesis unfolding blocks by (simp add: upt_conv_Cons del: upt_Suc)
  qed simp
qed

section \<open>Writing a file\<close>

definition in_struct :: "fs_h \<Rightarrow> file_ptr \<Rightarrow> area \<Rightarrow> nat \<Rightarrow> bool" where
  "in_struct p f a i \<longleftrightarrow> a = fst f \<and> snd f \<le> i \<and> i < snd f + FILE_STRUCT_SIZE p"

lemma links_part_in_struct: "layout_ok p \<Longrightarrow> links_part p f a i \<Longrightarrow> in_struct p f a i"
  using layout_fields(4,5) [of p] by (auto simp: links_part_def in_struct_def)

text \<open>The state in which \<open>write_file\<close> starts reading: name, size and type are set.\<close>

definition with_header :: "fs_h \<Rightarrow> file_ptr \<Rightarrow> u8 list \<Rightarrow> u32 \<Rightarrow> u32 \<Rightarrow> image \<Rightarrow> image" where
  "with_header p f name sz ty m =
     set_area (fst f) (put32 (put32 (put_bytes (area_bytes m (fst f)) (snd f + f_name p) (name @ [0]))
       (snd f + f_size p) sz) (snd f + f_type p) ty) m"

lemma set_area_twice [simp]: "set_area a d (set_area a e m) = set_area a d m"
  by (cases a) (simp_all add: set_area.simps)

lemma write_file_header:
  assumes "layout_ok p" and "create_file p dirf m = Ret (t, m1)" and "length (after_slash path) < MAXNAMELEN p"
    and "snd t + FILE_STRUCT_SIZE p \<le> area_size p (fst t)"
  shows "write_file p dirf path (Some content) m =
    write_data p t 0 content (with_header p t (after_slash path) (word_of_nat (length content)) (FTYPE_REG p) m1)"
  using layout_fields(1-3) [OF assms(1)] assms(2-4)
  by (simp add: write_file_def wr_bytes_def field_def wr32_field [unfolded field_def] with_header_def)

lemma header_fields:
  fixes f :: file_ptr and name :: "u8 list" and sz ty :: u32 and m :: image
  assumes lay: "layout_ok p" and "length name < MAXNAMELEN p"
  defines "m' \<equiv> with_header p f name sz ty m"
  shows "the_field f (f_size p) m' = sz" "the_field f (f_type p) m' = ty"
    "index_block p f m' = index_block p f m"
    "i < length name + 1 \<Longrightarrow> area_bytes m' (fst f) (snd f + f_name p + i) = (name @ [0]) ! i"
    "\<not> in_struct p f a j \<Longrightarrow> area_bytes m' a j = area_bytes m a j" "nextbno m' = nextbno m"
proof -
  note lf = layout_fields [OF lay]
  show "the_field f (f_size p) m' = sz"
    using lf(10) by (auto simp: the_field_def m'_def with_header_def word32_put32_other)
  show "the_field f (f_type p) m' = ty" by (simp add: the_field_def m'_def with_header_def)
  show "index_block p f m' = index_block p f m"
    using lf(9,12,14) assms(2)
    by (auto simp: index_block_def the_field_def m'_def with_header_def word32_put32_other word32_put_bytes_other)
  show "area_bytes m' (fst f) (snd f + f_name p + i) = (name @ [0]) ! i" if "i < length name + 1"
  proof -
    have "\<not> (snd f + f_type p \<le> snd f + f_name p + i \<and> snd f + f_name p + i < snd f + f_type p + 4)"
      "\<not> (snd f + f_size p \<le> snd f + f_name p + i \<and> snd f + f_name p + i < snd f + f_size p + 4)"
      using lf(6,7) that assms(2) by linarith+
    then show ?thesis using put_bytes_in [of i "name @ [0]"] that by (simp add: m'_def with_header_def put32_other)
  qed
  show "area_bytes m' a j = area_bytes m a j" if "\<not> in_struct p f a j"
  proof (cases "a = fst f")
    case True
    then have "\<not> (snd f \<le> j \<and> j < snd f + FILE_STRUCT_SIZE p)" using that by (simp add: in_struct_def)
    then have "\<not> (snd f + f_type p \<le> j \<and> j < snd f + f_type p + 4)" "\<not> (snd f + f_size p \<le> j \<and> j < snd f + f_size p + 4)"
      "\<not> (snd f + f_name p \<le> j \<and> j < snd f + f_name p + length (name @ [0]))"
      using lf(1-3) assms(2) by auto
    then show ?thesis using True by (simp add: m'_def with_header_def put32_other put_bytes_other)
  qed (simp add: m'_def with_header_def)
  show "nextbno m' = nextbno m" by (simp add: m'_def with_header_def)
qed

lemma read_file_stored:
  assumes "layout_ok p" and "stored p f m 0 content" and "the_field f (f_size p) m = word_of_nat (length content)"
    and "length content < 2 ^ 32"
  shows "read_file p f m = content"
proof -
  have "0 < BLOCK_SIZE p" using layout_sizes(2) [OF assms(1)] by simp
  moreover have "unat (word_of_nat (length content) :: u32) = length content" using assms(4) by (simp add: unat_of_nat)
  ultimately show ?thesis using stored_contents [OF _ assms(2)] by (simp add: read_file_def assms(3))
qed

lemma file_name_written:
  assumes "length name < MAXNAMELEN p" and "0 \<notin> set name"
    and "\<And>i. i < length name + 1 \<Longrightarrow> area_bytes m (fst f) (snd f + f_name p + i) = (name @ [0]) ! i"
  shows "file_name p f m = name"
proof -
  have "map (area_bytes m (fst f)) [snd f + f_name p..<snd f + f_name p + MAXNAMELEN p] =
    map (\<lambda>i. area_bytes m (fst f) (snd f + f_name p + i)) [0..<MAXNAMELEN p]"
    by (rule nth_equalityI) simp_all
  also have "[0..<MAXNAMELEN p] = [0..<length name + 1] @ [length name + 1..<MAXNAMELEN p]"
    using upt_add_eq_append [of 0 "length name + 1" "MAXNAMELEN p - (length name + 1)"] assms(1) by (simp del: upt_Suc)
  also have "map (\<lambda>i. area_bytes m (fst f) (snd f + f_name p + i)) ([0..<length name + 1] @ [length name + 1..<MAXNAMELEN p]) =
    (name @ [0]) @ map (\<lambda>i. area_bytes m (fst f) (snd f + f_name p + i)) [length name + 1..<MAXNAMELEN p]"
    using assms(3) by (simp del: upt_Suc) (rule nth_equalityI; simp del: upt_Suc add: nth_append)
  finally show ?thesis using assms(2) by (auto simp: file_name_def takeWhile_append)
qed

lemma write_file_ok:
  assumes lay: "layout_ok p" and cf: "create_file p dirf m = Ret (t, m1)" and inv: "file_inv p t 0 m1"
    and idx: "index_block p t m1 = 0"
    and name: "length (after_slash path) < MAXNAMELEN p" "0 \<notin> set (after_slash path)"
    and len: "length content < 2 ^ 32" "file_blocks p (length content) \<le> NINDIRECT p"
    and room: "nextbno m1 + file_blocks p (length content) + (if NDIRECT p < file_blocks p (length content) then 1 else 0) \<le> NBLOCK"
  obtains m' where "write_file p dirf path (Some content) m = Ret m'" "file_name p t m' = after_slash path"
    "the_field t (f_type p) m' = FTYPE_REG p" "read_file p t m' = content"
    "\<forall>a i. allocated m1 a \<longrightarrow> \<not> in_struct p t a i \<longrightarrow> area_bytes m' a i = area_bytes m1 a i"
    "the_field t (f_size p) m' = word_of_nat (length content)"
    "nextbno m' = nextbno m1 + file_blocks p (length content) + (if NDIRECT p < file_blocks p (length content) then 1 else 0)"
    "\<forall>i<file_blocks p (length content). nextbno m1 \<le> link p t m' i \<and> link p t m' i < nextbno m'"
    "index_block p t m' = 0 \<and> file_blocks p (length content) \<le> NDIRECT p \<or> nextbno m1 \<le> index_block p t m' \<and> index_block p t m' < nextbno m'"
    "\<forall>c\<ge>nextbno m'. disk_data m' c = disk_data m1 c"
proof -
  note lf = layout_fields [OF lay]
  have size: "snd t + FILE_STRUCT_SIZE p \<le> area_size p (fst t)" and alloc: "allocated m1 (fst t)"
    using inv by (simp_all add: file_inv_def)
  let ?m2 = "with_header p t (after_slash path) (word_of_nat (length content)) (FTYPE_REG p) m1"
  note h = header_fields [OF lay name(1), where f = t and sz = "word_of_nat (length content)" and ty = "FTYPE_REG p" and m = m1]
  have alloc2: "allocated ?m2 a = allocated m1 a" for a unfolding allocated_def h(6) ..
  have inv2: "file_inv p t 0 ?m2" using inv idx unfolding file_inv_def alloc2 h(3,6) by simp
  let ?n = "file_blocks p (length content)"
  have "0 + ?n \<le> NINDIRECT p" "nextbno ?m2 + ?n + needs_index p t (0 + ?n) ?m2 \<le> NBLOCK"
    using len room idx by (simp_all add: needs_index_def h(3,6))
  from write_data_ok [OF lay inv2 this]
  obtain m' where m': "write_data p t 0 content ?m2 = Ret m'" "file_inv p t ?n m'" "links_frame p t ?m2 m'" "stored p t m' 0 content"
    "nextbno m' + needs_index p t ?n m' = nextbno ?m2 + ?n + needs_index p t ?n ?m2"
    "\<forall>i<?n. nextbno ?m2 \<le> link p t m' i \<and> link p t m' i < nextbno m'" "\<forall>c\<ge>nextbno m'. disk_data m' c = disk_data ?m2 c"
    by auto
  have keep: "area_bytes m' a i = area_bytes ?m2 a i" if "allocated m1 a" "\<not> links_part p t a i" for a i
    using that idx by (intro links_frameD [OF m'(3)]) (simp_all add: alloc2 h(3))
  have fields: "the_field t (f_size p) m' = the_field t (f_size p) ?m2" "the_field t (f_type p) m' = the_field t (f_type p) ?m2"
    unfolding the_field_def using lf(11-14)
    by (auto intro!: word32_cong keep alloc simp: links_part_def)
  have "file_name p t m' = after_slash path"
  proof (rule file_name_written [OF name])
    fix i assume i: "i < length (after_slash path) + 1"
    have "\<not> links_part p t (fst t) (snd t + f_name p + i)" using lf(8,9) i name(1) by (auto simp: links_part_def)
    then show "area_bytes m' (fst t) (snd t + f_name p + i) = (after_slash path @ [0]) ! i"
      using keep [OF alloc] h(4) [OF i] by simp
  qed
  moreover have "read_file p t m' = content"
    using fields(1) h(1) len(1) by (intro read_file_stored [OF lay m'(4)]) simp_all
  moreover have "area_bytes m' a i = area_bytes m1 a i" if "allocated m1 a" "\<not> in_struct p t a i" for a i
    using keep [OF that(1)] links_part_in_struct [OF lay] that(2) h(5) by metis
  moreover have "nextbno m' = nextbno m1 + ?n + (if NDIRECT p < ?n then 1 else 0)"
    using m'(2,5) idx by (auto simp: needs_index_def h(3,6) file_inv_def split: if_splits)
  moreover have "index_block p t m' = 0 \<and> ?n \<le> NDIRECT p \<or> nextbno m1 \<le> index_block p t m' \<and> index_block p t m' < nextbno m'"
    using m'(2,3) idx by (auto simp: links_frame_def h(3,6) file_inv_def split: if_splits)
  moreover have "disk_data m' c = disk_data m1 c" if "nextbno m' \<le> c" for c
  proof
    fix i
    have "nextbno m1 \<le> nextbno m'" using m'(3) by (simp add: links_frame_def h(6))
    then have "\<not> in_struct p t (In_block c) i" using that alloc by (auto simp: in_struct_def allocated_def split: area.splits)
    then show "disk_data m' c i = disk_data m1 c i" using m'(7) that h(5) [of "In_block c" i] by simp
  qed
  ultimately show thesis using that [of m'] write_file_header [OF lay cf name(1) size] m'(1,6) fields h(1,2,6) by simp
qed

end
