(* ===== verification/FsDisk.thy ===== *)
theory FsDisk
  imports FsFiles
begin

text \<open>
  The rest of the image of tools/fsformat.c: the bitmap of free blocks, the super block, the blocks written out
  and their byte order, and the search of \<open>create_file\<close> for an unused file of a directory.
\<close>

section \<open>Loops\<close>

lemma foreach_append: "foreach (xs @ ys) f s = andThen (foreach xs f s) (foreach ys f)"
proof (induction xs arbitrary: s)
  case (Cons x xs)
  then show ?case by (cases "f x s") simp_all
qed simp

lemma foreach_Suc: "foreach [0..<Suc n] f s = andThen (foreach [0..<n] f s) (f n)"
proof -
  have "foreach [n] f = f n"
  proof
    fix s show "foreach [n] f s = f n s" by (cases "f n s") simp_all
  qed
  then show ?thesis by (simp add: foreach_append)
qed

section \<open>The bitmap\<close>

definition bitmap_bit :: "fs_h \<Rightarrow> image \<Rightarrow> nat \<Rightarrow> bool" where
  "bitmap_bit p m i =
     bit (word32_at (disk_data m (2 + i div BLOCK_SIZE_BIT p)) (4 * (i mod BLOCK_SIZE_BIT p div 32))) (i mod 32)"

lemma one_bitmap_block:
  assumes "layout_ok p" and "i < NBLOCK"
  shows "i div BLOCK_SIZE_BIT p = 0" "i mod BLOCK_SIZE_BIT p = i" "4 * (i div 32) + 4 \<le> BLOCK_SIZE p"
proof -
  have "i div 32 < 32" using assms(2) by (simp add: NBLOCK_def div_less_iff_less_mult)
  then show "i div BLOCK_SIZE_BIT p = 0" "i mod BLOCK_SIZE_BIT p = i" "4 * (i div 32) + 4 \<le> BLOCK_SIZE p"
    using layout_sizes(2) [OF assms(1)] assms(2) by (simp_all add: BLOCK_SIZE_BIT_def NBLOCK_def)
qed

lemma word_bit_before:
  assumes "b < 32"
  shows "n \<le> 32 * w + b \<and> \<not> (w = n div 32 \<and> b = n mod 32) \<longleftrightarrow> Suc n \<le> 32 * w + (b :: nat)"
proof -
  have "n = 32 * w + b \<longleftrightarrow> w = n div 32 \<and> b = n mod 32" using assms by auto
  then show ?thesis by auto
qed

lemma flush_loop:
  assumes lay: "layout_ok p" and n: "n \<le> NBLOCK"
  shows "\<exists>d. foreach [0..<n] (\<lambda>i m.
       (let r = (In_block (2 + i div BLOCK_SIZE_BIT p), 4 * (i mod BLOCK_SIZE_BIT p div 32)) in
        andThen (rd32 p r m) (\<lambda>w. wr32 p r (w AND NOT (push_bit (i mod 32) 1)) m))) m =
      Ret (set_area (In_block 2) d m) \<and>
    (\<forall>w b. b < 32 \<longrightarrow> bit (word32_at d (4 * w)) b = (bit (word32_at (disk_data m 2) (4 * w)) b \<and> n \<le> 32 * w + b))"
  using n
proof (induction n)
  case 0
  have "set_area (In_block 2) (disk_data m 2) m = m" by (simp add: set_area.simps)
  then show ?case by (intro exI [of _ "disk_data m 2"]) simp
next
  case (Suc n)
  note one = one_bitmap_block [OF lay, of n]
  from Suc obtain d where d: "foreach [0..<n] (\<lambda>i m.
       (let r = (In_block (2 + i div BLOCK_SIZE_BIT p), 4 * (i mod BLOCK_SIZE_BIT p div 32)) in
        andThen (rd32 p r m) (\<lambda>w. wr32 p r (w AND NOT (push_bit (i mod 32) 1)) m))) m = Ret (set_area (In_block 2) d m)"
    "\<And>w b. b < 32 \<Longrightarrow> bit (word32_at d (4 * w)) b = (bit (word32_at (disk_data m 2) (4 * w)) b \<and> n \<le> 32 * w + b)"
    by auto
  let ?d = "put32 d (4 * (n div 32)) (word32_at d (4 * (n div 32)) AND NOT (push_bit (n mod 32) 1))"
  have "bit (word32_at ?d (4 * w)) b = (bit (word32_at (disk_data m 2) (4 * w)) b \<and> Suc n \<le> 32 * w + b)" if b: "b < 32" for w b
  proof (cases "w = n div 32")
    case True
    then show ?thesis using d(2) [OF b, of w] b word_bit_before [OF b, of n w] by (auto simp: bit_simps)
  next
    case False
    then have "4 * (n div 32) + 4 \<le> 4 * w \<or> 4 * w + 4 \<le> 4 * (n div 32)" by linarith
    then show ?thesis using d(2) [OF b, of w] False word_bit_before [OF b, of n w] by (simp add: word32_put32_other)
  qed
  moreover have "2 < NBLOCK" by (simp add: NBLOCK_def)
  ultimately show ?case
    using one Suc.prems unfolding foreach_Suc d(1)
    by (intro exI [of _ ?d]) (simp add: rd32_def wr32_def Let_def)
qed

lemma flush_bitmap_bits:
  assumes lay: "layout_ok p" and n: "nextbno m \<le> NBLOCK"
  shows "\<exists>m'. flush_bitmap p m = Ret m' \<and> nextbno m' = nextbno m \<and>
    (\<forall>i<NBLOCK. bitmap_bit p m' i = (bitmap_bit p m i \<and> nextbno m \<le> i)) \<and>
    (\<forall>a. a \<noteq> In_block 2 \<longrightarrow> area_bytes m' a = area_bytes m a)"
proof -
  obtain d where d: "flush_bitmap p m = Ret (set_area (In_block 2) d m)"
    "\<And>w b. b < 32 \<Longrightarrow> bit (word32_at d (4 * w)) b = (bit (word32_at (disk_data m 2) (4 * w)) b \<and> nextbno m \<le> 32 * w + b)"
    using flush_loop [OF lay n, of m] by (auto simp: flush_bitmap_def)
  have "bitmap_bit p (set_area (In_block 2) d m) i = (bitmap_bit p m i \<and> nextbno m \<le> i)" if "i < NBLOCK" for i
    using d(2) [of "i mod 32" "i div 32"] one_bitmap_block [OF lay that] by (simp add: bitmap_bit_def)
  then show ?thesis using d(1) by auto
qed

section \<open>A new disk\<close>

lemma layout_super:
  assumes "layout_ok p"
  shows "s_magic p + 4 \<le> s_nblocks p \<or> s_nblocks p + 4 \<le> s_magic p"
    "s_magic p + 4 \<le> s_root p \<or> s_root p + FILE_STRUCT_SIZE p \<le> s_magic p"
    "s_nblocks p + 4 \<le> s_root p \<or> s_root p + FILE_STRUCT_SIZE p \<le> s_nblocks p"
  using assms by (auto simp: layout_ok_def apart_def)

lemma bitmap_blocks: "layout_ok p \<Longrightarrow> (NBLOCK + BLOCK_SIZE_BIT p - 1) div BLOCK_SIZE_BIT p = 1"
  using layout_sizes(2) [of p] by (simp add: BLOCK_SIZE_BIT_def NBLOCK_def Suc_leI div_nat_eqI)

definition bitmap0 :: "fs_h \<Rightarrow> nat \<Rightarrow> u8" where
  "bitmap0 p =
     (let d = put_bytes (\<lambda>_. 0) 0 (replicate (BLOCK_SIZE p) 0xff) in
      if NBLOCK = BLOCK_SIZE_BIT p then d
      else put_bytes d (NBLOCK mod BLOCK_SIZE_BIT p div 8) (replicate (BLOCK_SIZE p - NBLOCK mod BLOCK_SIZE_BIT p div 8) 0))"

lemma bitmap0_word:
  assumes "layout_ok p" and "w < 32"
  shows "word32_at (bitmap0 p) (4 * w) = - 1"
proof -
  have "BLOCK_SIZE_BIT p \<noteq> NBLOCK \<Longrightarrow> NBLOCK mod BLOCK_SIZE_BIT p = 1024"
    using layout_sizes(2) [OF assms(1)] by (simp add: BLOCK_SIZE_BIT_def NBLOCK_def)
  then have "bitmap0 p j = 0xff" if "j < 128" for j
    using that layout_sizes(2) [OF assms(1)] by (auto simp: bitmap0_def Let_def put_bytes_def)
  then have "word32_at (bitmap0 p) (4 * w) = word32_at (\<lambda>_. 0xff) (4 * w)"
    using assms(2) by (intro word32_cong) simp
  then show ?thesis by (simp add: word32_at_def push_bit_eq_mult)
qed

definition super0 :: "fs_h \<Rightarrow> nat \<Rightarrow> u8" where
  "super0 p = put_bytes (put32 (put32 (put32 (\<lambda>_. 0) (s_magic p) (FS_MAGIC p)) (s_nblocks p) (word_of_nat NBLOCK))
     (s_root p + f_type p) (FTYPE_DIR p)) (s_root p + f_name p) [0x2f, 0]"

definition disk0 :: "fs_h \<Rightarrow> image" where
  "disk0 p = \<lparr>disk_data = (\<lambda>_ _. 0)(2 := bitmap0 p), disk_type = (\<lambda>_. BLOCK_FREE)(0 := BLOCK_BOOT, 2 := BLOCK_BMAP, 1 := BLOCK_SUPER),
     super = super0 p, nbitblock = 1, nextbno = 3\<rparr>"

lemma init_disk_disk0:
  assumes lay: "layout_ok p"
  shows "init_disk p blank_image = Ret (disk0 p)"
proof -
  note ls = layout_sizes [OF lay] and lf = layout_fields [OF lay]
  have NB: "2 < NBLOCK" by (simp add: NBLOCK_def)
  let ?m0 = "\<lparr>disk_data = (\<lambda>_ _. 0), disk_type = (\<lambda>_. BLOCK_FREE)(0 := BLOCK_BOOT), super = (\<lambda>_. 0), nbitblock = 1, nextbno = 3\<rparr>"
  let ?m1 = "?m0\<lparr>disk_data := (\<lambda>_ _. 0)(2 := bitmap0 p), disk_type := (\<lambda>_. BLOCK_FREE)(0 := BLOCK_BOOT, 2 := BLOCK_BMAP)\<rparr>"
  have "NBLOCK mod BLOCK_SIZE_BIT p div 8 \<le> NBLOCK div 8" by (intro div_le_mono mod_less_eq_dividend)
  then have "NBLOCK mod BLOCK_SIZE_BIT p div 8 \<le> BLOCK_SIZE p" using ls(2) by (simp add: NBLOCK_def)
  then have "init_bitmap p ?m0 = Ret ?m1"
    using NB by (simp add: init_bitmap_def set_type_def wr_bytes_def bitmap0_def Let_def set_area.simps
        del: add_2_eq_Suc add_2_eq_Suc')
  moreover have "init_super p ?m1 = Ret (disk0 p)"
    using NB ls lf by (simp add: init_super_def set_type_def wr32_def wr_bytes_def disk0_def super0_def set_area.simps)
  ultimately show ?thesis
    using NB unfolding init_disk_def bitmap_blocks [OF lay]
    by (simp add: set_type_def blank_image_def Let_def numeral_3_eq_3)
qed

lemma disk0_bits:
  assumes lay: "layout_ok p" and "i < NBLOCK"
  shows "bitmap_bit p (disk0 p) i"
proof -
  have "i div 32 < 32" using assms(2) by (simp add: NBLOCK_def div_less_iff_less_mult)
  then show ?thesis
    using one_bitmap_block [OF lay assms(2)] bitmap0_word [OF lay, of "i div 32"] by (simp add: bitmap_bit_def disk0_def)
qed

lemma disk0_super:
  assumes lay: "layout_ok p"
  shows "word32_at (super0 p) (s_magic p) = FS_MAGIC p" "word32_at (super0 p) (s_nblocks p) = 1024"
    "the_field (In_super, s_root p) (f_type p) (disk0 p) = FTYPE_DIR p"
    "the_field (In_super, s_root p) (f_size p) (disk0 p) = 0"
    "index_block p (In_super, s_root p) (disk0 p) = 0" "file_inv p (In_super, s_root p) 0 (disk0 p)"
proof -
  note ls = layout_sizes [OF lay] and lf = layout_fields [OF lay] and lu = layout_super [OF lay]
  have name: "s_root p + f_name p + length [0x2f, 0 :: u8] = s_root p + (f_name p + 2)" by simp
  have zero: "word32_at (super0 p) (s_root p + j) = 0" if "j + 4 \<le> FILE_STRUCT_SIZE p"
    "j + 4 \<le> f_type p \<or> f_type p + 4 \<le> j" "j + 4 \<le> f_name p \<or> f_name p + 2 \<le> j" for j
  proof -
    have "s_magic p + 4 \<le> s_root p + j \<or> s_root p + j + 4 \<le> s_magic p" using lu(2) that(1) by arith
    moreover have "s_nblocks p + 4 \<le> s_root p + j \<or> s_root p + j + 4 \<le> s_nblocks p" using lu(3) that(1) by arith
    moreover have "s_root p + f_type p + 4 \<le> s_root p + j \<or> s_root p + j + 4 \<le> s_root p + f_type p" using that(2) by arith
    moreover have "s_root p + f_name p + length [0x2f, 0 :: u8] \<le> s_root p + j \<or> s_root p + j + 4 \<le> s_root p + f_name p"
      unfolding name using that(3) by arith
    ultimately show ?thesis
      unfolding super0_def by (simp only: word32_put_bytes_other word32_put32_other) (simp add: word32_at_def)
  qed
  have magic: "s_root p + f_name p + length [0x2f, 0 :: u8] \<le> x \<or> x + 4 \<le> s_root p + f_name p"
    "s_root p + f_type p + 4 \<le> x \<or> x + 4 \<le> s_root p + f_type p"
    if "x + 4 \<le> s_root p \<or> s_root p + FILE_STRUCT_SIZE p \<le> x" for x
    unfolding name using that lf(1,3) ls(1) by arith+
  show "word32_at (super0 p) (s_magic p) = FS_MAGIC p"
    using magic [of "s_magic p"] lu(2) disj_commute [THEN iffD1, OF lu(1)] unfolding super0_def
    by (simp only: word32_put_bytes_other word32_put32_other word32_put32)
  show "word32_at (super0 p) (s_nblocks p) = 1024"
    using magic [of "s_nblocks p"] lu(3) unfolding super0_def
    by (simp only: word32_put_bytes_other word32_put32_other word32_put32) (simp add: NBLOCK_def)
  have at: "the_field (In_super, s_root p) j (disk0 p) = word32_at (super0 p) (s_root p + j)" for j
    by (simp add: the_field_def disk0_def)
  have "s_root p + f_name p + length [0x2f, 0 :: u8] \<le> s_root p + f_type p \<or> s_root p + f_type p + 4 \<le> s_root p + f_name p"
    unfolding name using lf(7) ls(1) by arith
  then show "the_field (In_super, s_root p) (f_type p) (disk0 p) = FTYPE_DIR p"
    unfolding at super0_def by (simp only: word32_put_bytes_other word32_put32)
  have "f_size p + 4 \<le> f_name p \<or> f_name p + 2 \<le> f_size p" using lf(6) ls(1) by arith
  then show "the_field (In_super, s_root p) (f_size p) (disk0 p) = 0"
    unfolding at by (rule zero [OF lf(2) lf(10)])
  have "f_indirect p + 4 \<le> f_name p \<or> f_name p + 2 \<le> f_indirect p" using lf(9) ls(1) by arith
  moreover have "f_indirect p + 4 \<le> f_type p \<or> f_type p + 4 \<le> f_indirect p" using lf(14) by arith
  ultimately show idx: "index_block p (In_super, s_root p) (disk0 p) = 0"
    unfolding index_block_def at using zero [OF lf(5)] by simp
  show "file_inv p (In_super, s_root p) 0 (disk0 p)"
    using ls(7) idx by (simp add: file_inv_def allocated_def) (simp add: disk0_def NBLOCK_def)
qed

end
