(* ===== verification/FsDirs.thy ===== *)
theory FsDirs
  imports FsDisk
begin

text \<open>
  Directories of the image: the search of \<open>create_file\<close> is the first unused slot in the order of the blocks, as
  long as the directory has no more than \<open>NDIRECT\<close> blocks; behind that it looks at the wrong block. Then the
  blocks written out by \<open>finish_fs\<close>, in either byte order.
\<close>

section \<open>Slots\<close>

definition unused :: "fs_h \<Rightarrow> image \<Rightarrow> file_ptr \<Rightarrow> bool" where
  "unused p m r \<longleftrightarrow> area_bytes m (fst r) (snd r + f_name p) = 0"

definition block_slots :: "fs_h \<Rightarrow> nat \<Rightarrow> file_ptr list" where
  "block_slots p b = map (\<lambda>k. (In_block b, FILE_STRUCT_SIZE p * k)) [0..<FILE2BLK p]"

definition dir_slots :: "fs_h \<Rightarrow> file_ptr \<Rightarrow> image \<Rightarrow> nat \<Rightarrow> file_ptr list" where
  "dir_slots p f m n = concat (map (\<lambda>i. block_slots p (link p f m i)) [0..<n])"

lemma find_append: "List.find P (xs @ ys) = (case List.find P xs of Some x \<Rightarrow> Some x | None \<Rightarrow> List.find P ys)"
  by (induction xs) auto

lemma slot_in_block:
  assumes "layout_ok p" and "k < FILE2BLK p"
  shows "FILE_STRUCT_SIZE p * k + FILE_STRUCT_SIZE p \<le> BLOCK_SIZE p"
proof -
  have "(k + 1) * FILE_STRUCT_SIZE p \<le> FILE2BLK p * FILE_STRUCT_SIZE p" using assms(2) by (intro mult_right_mono) simp_all
  then show ?thesis using layout_sizes(4) [OF assms(1)] by (simp add: algebra_simps)
qed

lemma unused_in_block_find:
  assumes lay: "layout_ok p" and "b < NBLOCK" and "set ks \<subseteq> {..<FILE2BLK p}"
  shows "unused_in_block p b ks m = Ret (List.find (unused p m) (map (\<lambda>k. (In_block b, FILE_STRUCT_SIZE p * k)) ks))"
  using assms(3)
proof (induction ks)
  case (Cons k ks)
  then have "FILE_STRUCT_SIZE p * k + f_name p < BLOCK_SIZE p"
    using slot_in_block [OF lay, of k] layout_fields(1) [OF lay] layout_sizes(1) [OF lay] by simp
  then show ?case using Cons assms(2) by (simp add: rd8_def field_def unused_def)
qed simp

lemma find_unused_find:
  assumes lay: "layout_ok p" and size: "snd f + FILE_STRUCT_SIZE p \<le> area_size p (fst f)"
    and "\<forall>i\<in>set is. i < NDIRECT p \<and> link p f m i < NBLOCK"
  shows "find_unused p f is m = Ret (List.find (unused p m) (concat (map (\<lambda>i. block_slots p (link p f m i)) is)))"
  using assms(3)
proof (induction "is")
  case (Cons i "is")
  then have "dir_block p f i m = Ret (link p f m i)"
    using layout_fields(4) [OF lay] size by (simp add: dir_block_def rd32_field link_def)
  moreover have "unused_in_block p (link p f m i) [0..<FILE2BLK p] m = Ret (List.find (unused p m) (block_slots p (link p f m i)))"
    using unused_in_block_find [OF lay, of "link p f m i" "[0..<FILE2BLK p]"] Cons.prems
    by (simp add: block_slots_def atLeast0LessThan)
  ultimately show ?case using Cons by (simp add: find_append split: option.split)
qed simp

definition dir_blocks :: "fs_h \<Rightarrow> file_ptr \<Rightarrow> image \<Rightarrow> nat" where
  "dir_blocks p f m = unat (the_field f (f_size p) m) div BLOCK_SIZE p"

lemma create_file_find:
  assumes lay: "layout_ok p" and size: "snd f + FILE_STRUCT_SIZE p \<le> area_size p (fst f)"
    and "dir_blocks p f m \<le> NDIRECT p" and "\<forall>i<dir_blocks p f m. link p f m i < NBLOCK"
  shows "create_file p f m =
    (case List.find (unused p m) (dir_slots p f m (dir_blocks p f m)) of
       Some r \<Rightarrow> Ret (r, m)
     | None \<Rightarrow> andThen (make_link_block p f (dir_blocks p f m) m) (\<lambda>(b, m). Ret ((In_block b, 0), m)))"
proof -
  have "find_unused p f [0..<dir_blocks p f m] m = Ret (List.find (unused p m) (dir_slots p f m (dir_blocks p f m)))"
    unfolding dir_slots_def using assms by (intro find_unused_find) auto
  then show ?thesis
    using layout_fields(2) [OF lay] size by (simp add: create_file_def rd32_field dir_blocks_def split: option.split)
qed

text \<open>A directory with more blocks: \<open>create_file\<close> takes the field behind the direct links, which is the number of
  the index block, for the number of a directory block, and hands out the index block itself.\<close>

lemma create_file_index_block:
  assumes lay: "layout_ok p" and size: "snd f + FILE_STRUCT_SIZE p \<le> area_size p (fst f)"
    and more: "NDIRECT p < dir_blocks p f m" and full: "\<forall>i<NDIRECT p. link p f m i < NBLOCK"
    "List.find (unused p m) (dir_slots p f m (NDIRECT p)) = None"
    and behind: "f_indirect p = f_direct p + 4 * NDIRECT p"
    and index: "index_block p f m < NBLOCK" "disk_data m (index_block p f m) (f_name p) = 0"
  shows "create_file p f m = Ret ((In_block (index_block p f m), 0), m)"
proof -
  have "[0..<dir_blocks p f m] = [0..<NDIRECT p] @ NDIRECT p # [Suc (NDIRECT p)..<dir_blocks p f m]"
    using more upt_add_eq_append [of 0 "NDIRECT p" "dir_blocks p f m - NDIRECT p"] by (simp add: upt_conv_Cons)
  moreover have "find_unused p f (xs @ ys) m = andThen (find_unused p f xs m)
      (\<lambda>r. case r of Some r \<Rightarrow> Ret (Some r) | None \<Rightarrow> find_unused p f ys m)" for xs ys
    by (induction xs) (auto simp: andThen_assoc split: option.split intro!: andThen_cong)
  moreover have "find_unused p f [0..<NDIRECT p] m = Ret None"
    using find_unused_find [OF lay size, of "[0..<NDIRECT p]" m] full by (simp add: dir_slots_def)
  moreover have "dir_block p f (NDIRECT p) m = Ret (index_block p f m)"
    using layout_fields(5) [OF lay] size behind by (simp add: dir_block_def rd32_field index_block_def)
  moreover have "unused_in_block p (index_block p f m) [0..<FILE2BLK p] m = Ret (Some (In_block (index_block p f m), 0))"
    using layout_fields(1) [OF lay] layout_sizes(1,8) [OF lay] slot_in_block [OF lay, of 0] index
    by (subst upt_conv_Cons) (simp_all add: rd8_def field_def)
  moreover have "rd32 p (field f (f_size p)) m = Ret (the_field f (f_size p) m)"
    using layout_fields(2) [OF lay] size by (simp add: rd32_field)
  ultimately show ?thesis by (simp add: create_file_def dir_blocks_def [symmetric])
qed

section \<open>A new block of a directory\<close>

lemma make_link_block_ok:
  assumes lay: "layout_ok p" and inv: "file_inv p f n m" and n: "n < NDIRECT p" "n < NINDIRECT p" and lt: "nextbno m < NBLOCK"
  shows "\<exists>m'. make_link_block p f n m = Ret (nextbno m, m') \<and> file_inv p f (n + 1) m' \<and>
    nextbno m' = nextbno m + 1 \<and> index_block p f m' = index_block p f m \<and>
    link p f m' n = nextbno m \<and> (\<forall>i<n. link p f m' i = link p f m i) \<and>
    the_field f (f_size p) m' = the_field f (f_size p) m + word_of_nat (BLOCK_SIZE p) \<and>
    (\<forall>a i. \<not> links_part p f a i \<longrightarrow> \<not> (a = fst f \<and> snd f + f_size p \<le> i \<and> i < snd f + f_size p + 4) \<longrightarrow>
       area_bytes m' a i = area_bytes m a i)"
proof -
  note lf = layout_fields [OF lay]
  have size: "snd f + FILE_STRUCT_SIZE p \<le> area_size p (fst f)" using inv by (simp add: file_inv_def)
  let ?m1 = "m\<lparr>disk_type := (disk_type m)(nextbno m := BLOCK_FILE), nextbno := nextbno m + 1\<rparr>"
  have same: "area_bytes ?m1 a = area_bytes m a" "disk_data ?m1 = disk_data m" for a by simp_all
  have fields: "the_field f j ?m1 = the_field f j m" for j unfolding the_field_def same ..
  have idx: "index_block p f ?m1 = index_block p f m" unfolding index_block_def fields ..
  have links: "link p f ?m1 i = link p f m i" for i unfolding link_def fields idx same ..
  have inv1: "file_inv p f n ?m1"
    using inv lt unfolding file_inv_def idx allocated_def by (auto split: area.splits if_splits)
  obtain m2 where m2: "save_block_link p f n (nextbno m) ?m1 = Ret m2" "file_inv p f (n + 1) m2"
    "nextbno m2 = nextbno m + 1" "index_block p f m2 = index_block p f m" "link p f m2 n = nextbno m"
    "\<forall>i<n. link p f m2 i = link p f m i"
    "\<And>a i. \<not> links_part p f a i \<Longrightarrow> area_bytes m2 a i = area_bytes m a i"
    using save_direct_link [OF lay inv1 n, of "nextbno m", unfolded idx links same] lt by auto
  define m' where "m' = set_area (fst f) (put32 (area_bytes m2 (fst f)) (snd f + f_size p)
    (the_field f (f_size p) m2 + word_of_nat (BLOCK_SIZE p))) m2"
  have ret: "make_link_block p f n m = Ret (nextbno m, m')"
    using lt m2(1) lf(2) size by (simp add: make_link_block_def next_block_def set_type_def rd32_field wr32_field m'_def)
  have size2: "the_field f (f_size p) m2 = the_field f (f_size p) m"
    unfolding the_field_def using lf(11,12) by (auto intro!: word32_cong m2(7) simp: links_part_def)
  have other: "the_field f j m' = the_field f j m2" if "j + 4 \<le> f_size p \<or> f_size p + 4 \<le> j" for j
    using that by (auto simp: the_field_def m'_def intro!: word32_put32_other)
  have idx': "index_block p f m' = index_block p f m2"
    unfolding index_block_def using lf(12) by (auto intro!: arg_cong [of _ _ unat] other)
  have nb': "nextbno m' = nextbno m2" by (simp add: m'_def)
  have "link p f m' i = link p f m2 i" if "i \<le> n" for i
    using that n(1) lf(11) by (auto simp: link_def intro!: arg_cong [of _ _ unat] other)
  moreover have "file_inv p f (n + 1) m'"
    using m2(2) unfolding file_inv_def allocated_def idx' nb' .
  moreover have "the_field f (f_size p) m' = the_field f (f_size p) m + word_of_nat (BLOCK_SIZE p)"
    by (simp add: m'_def the_field_def) (simp add: the_field_def [symmetric] size2)
  moreover have "area_bytes m' a i = area_bytes m a i"
    if "\<not> links_part p f a i" "\<not> (a = fst f \<and> snd f + f_size p \<le> i \<and> i < snd f + f_size p + 4)" for a i
    using that m2(7) [OF that(1)] by (auto simp: m'_def put32_other)
  ultimately show ?thesis using ret m2(3-6) idx' by (intro exI [of _ m']) (simp add: m'_def)
qed

section \<open>Writing the image\<close>

lemma dump_blocks_plain:
  "dump_blocks p False (\<lambda>_. True) is m out = Ret (out @ map (\<lambda>i. map (disk_data m i) [0..<BLOCK_SIZE p]) is, m)"
  by (induction "is" arbitrary: out) simp_all

lemma finish_fs_plain:
  assumes "layout_ok p"
  shows "\<exists>m'. finish_fs p False (\<lambda>_. True) m = Ret (map (\<lambda>i. map (disk_data m' i) [0..<BLOCK_SIZE p]) [0..<1024], m') \<and>
    (\<forall>j < sizeof_Super p. disk_data m' 1 j = super m j) \<and> (\<forall>b. b \<noteq> 1 \<longrightarrow> disk_data m' b = disk_data m b)"
  using layout_sizes(6) [OF assms]
  by (intro exI [of _ "set_area (In_block 1) (put_bytes (disk_data m 1) 0 (map (super m) [0..<sizeof_Super p])) m"])
    (simp add: finish_fs_def wr_bytes_def NBLOCK_def dump_blocks_plain put_bytes_def del: upt_Suc)

lemma reverse_word_bytes:
  assumes "4 * i + 4 \<le> area_size p a"
  shows "reverse p (a, 4 * i) m = Ret (set_area a
    (\<lambda>j. if j div 4 = i then area_bytes m a (4 * i + (3 - j mod 4)) else area_bytes m a j) m)"
proof -
  let ?d = "area_bytes m a"
  have "put_bytes ?d (4 * i) [?d (4 * i + 3), ?d (4 * i + 2), ?d (4 * i + 1), ?d (4 * i)] j =
    (if j div 4 = i then ?d (4 * i + (3 - j mod 4)) else ?d j)" for j
  proof (cases "j div 4 = i")
    case True
    then obtain r where j: "j = 4 * i + r" "r < 4" by (metis mod_less_divisor mult_div_mod_eq zero_less_numeral)
    have "put_bytes ?d (4 * i) [?d (4 * i + 3), ?d (4 * i + 2), ?d (4 * i + 1), ?d (4 * i)] j =
      [?d (4 * i + 3), ?d (4 * i + 2), ?d (4 * i + 1), ?d (4 * i)] ! r"
      unfolding j(1) using j(2) by (intro put_bytes_in) simp
    moreover from j(2) consider "r = 0" | "r = 1" | "r = 2" | "r = 3" by linarith
    then have "[?d (4 * i + 3), ?d (4 * i + 2), ?d (4 * i + 1), ?d (4 * i)] ! r = ?d (4 * i + (3 - r))" by cases simp_all
    ultimately show ?thesis using j by simp
  next
    case False
    then have "\<not> (4 * i \<le> j \<and> j < 4 * i + 4)" by auto
    then show ?thesis using False by (auto simp: put_bytes_def)
  qed
  then have "put_bytes ?d (4 * i) [?d (4 * i + 3), ?d (4 * i + 2), ?d (4 * i + 1), ?d (4 * i)] =
    (\<lambda>j. if j div 4 = i then ?d (4 * i + (3 - j mod 4)) else ?d j)" by blast
  then show ?thesis using assms by (simp add: reverse_at Let_def)
qed

lemma reverse_words:
  assumes "b < NBLOCK" and "4 * n \<le> BLOCK_SIZE p"
  shows "foreach [0..<n] (\<lambda>i. reverse p (In_block b, 4 * i)) m =
    Ret (set_area (In_block b) (\<lambda>j. if j < 4 * n then disk_data m b (4 * (j div 4) + (3 - j mod 4)) else disk_data m b j) m)"
  using assms(2)
proof (induction n)
  case 0
  then show ?case by (simp add: set_area.simps)
next
  case (Suc n)
  let ?f = "\<lambda>n j. if j < 4 * n then disk_data m b (4 * (j div 4) + (3 - j mod 4)) else disk_data m b j"
  have "(\<lambda>j. if j div 4 = n then ?f n (4 * n + (3 - j mod 4)) else ?f n j) = ?f (Suc n)"
  proof
    fix j
    consider "j div 4 < n" | "j div 4 = n" | "n < j div 4" by linarith
    then show "(if j div 4 = n then ?f n (4 * n + (3 - j mod 4)) else ?f n j) = ?f (Suc n) j" by cases auto
  qed
  then have "reverse p (In_block b, 4 * n) (set_area (In_block b) (?f n) m) = Ret (set_area (In_block b) (?f (Suc n)) m)"
    using reverse_word_bytes [of n p "In_block b" "set_area (In_block b) (?f n) m"] Suc.prems assms(1)
    by (simp only: area_set_area simp_thms if_True set_area_twice area_size.simps) simp
  then show ?case using Suc by (simp only: foreach_Suc andThen.simps Suc_leD) simp
qed

text \<open>The word a big-endian reader finds.\<close>

definition be_word32_at :: "(nat \<Rightarrow> u8) \<Rightarrow> nat \<Rightarrow> u32" where
  "be_word32_at d i = word32_at (\<lambda>j. d (i + (3 - (j - i)))) i"

lemma reverse_block_words:
  assumes lay: "layout_ok p" and b: "b < NBLOCK" and ty: "disk_type m b = BLOCK_INDEX \<or> disk_type m b = BLOCK_BMAP"
  shows "\<exists>m'. reverse_block p b m = Ret m' \<and> disk_type m' = disk_type m \<and>
    (\<forall>w<BLOCK_SIZE p div 4. be_word32_at (disk_data m' b) (4 * w) = word32_at (disk_data m b) (4 * w)) \<and>
    (\<forall>c. c \<noteq> b \<longrightarrow> disk_data m' c = disk_data m c)"
proof -
  have bs: "4 * (BLOCK_SIZE p div 4) = BLOCK_SIZE p" using layout_sizes(3) [OF lay] by auto
  let ?d = "\<lambda>j. if j < BLOCK_SIZE p then disk_data m b (4 * (j div 4) + (3 - j mod 4)) else disk_data m b j"
  have "reverse_block p b m = Ret (set_area (In_block b) ?d m)"
    using ty reverse_words [OF b, of "BLOCK_SIZE p div 4" p m] bs by (auto simp: reverse_block_def)
  moreover have "be_word32_at ?d (4 * w) = word32_at (disk_data m b) (4 * w)" if "w < BLOCK_SIZE p div 4" for w
  proof -
    have "word32_at (\<lambda>j. ?d (4 * w + (3 - (j - 4 * w)))) (4 * w) = word32_at (disk_data m b) (4 * w)"
    proof (rule word32_cong)
      fix j assume j: "4 * w \<le> j" "j < 4 * w + 4"
      define r where "r = j - 4 * w"
      then have r: "j = 4 * w + r" "r < 4" using j by simp_all
      have "4 * w + (3 - r) < BLOCK_SIZE p" using that bs by linarith
      moreover have "(4 * w + q) div 4 = w" "(4 * w + q) mod 4 = q" if "q < 4" for q using that by simp_all
      then have "(4 * w + (3 - r)) div 4 = w" "(4 * w + (3 - r)) mod 4 = 3 - r" by (simp_all add: less_imp_diff_less)
      moreover have "3 - (3 - r) = r" using r(2) by simp
      ultimately show "?d (4 * w + (3 - (j - 4 * w))) = disk_data m b j" unfolding r by simp
    qed
    then show ?thesis by (simp add: be_word32_at_def)
  qed
  ultimately show ?thesis by auto
qed

end
