(* ===== verification/FsSlots.thy ===== *)
theory FsSlots
  imports FsDirs
begin

text \<open>
  The directories of the image of tools/fsformat.c: what a reader of a file depends on, the slots of a directory,
  the invariant of a directory whose first slots are in use, and the slot \<open>create_file\<close> hands out in it.
\<close>

section \<open>What must not change\<close>

definition agree :: "fs_h \<Rightarrow> file_ptr \<Rightarrow> nat set \<Rightarrow> image \<Rightarrow> image \<Rightarrow> bool" where
  "agree p f B m m' \<longleftrightarrow> (\<forall>i<FILE_STRUCT_SIZE p. area_bytes m' (fst f) (snd f + i) = area_bytes m (fst f) (snd f + i)) \<and>
     (\<forall>b\<in>B. \<forall>i<BLOCK_SIZE p. disk_data m' b i = disk_data m b i)"

lemma agree_field:
  assumes "agree p f B m m'" and "i + 4 \<le> FILE_STRUCT_SIZE p"
  shows "the_field f i m' = the_field f i m"
  unfolding the_field_def
proof (rule word32_cong)
  fix j assume j: "snd f + i \<le> j" "j < snd f + i + 4"
  then have "j - snd f < FILE_STRUCT_SIZE p" "snd f + (j - snd f) = j" using assms(2) by auto
  then show "area_bytes m' (fst f) j = area_bytes m (fst f) j" using assms(1) unfolding agree_def by metis
qed

lemma agree_name:
  assumes lay: "layout_ok p" and ag: "agree p f B m m'"
  shows "file_name p f m' = file_name p f m" and "unused p m' f = unused p m f"
proof -
  have byte: "area_bytes m' (fst f) (snd f + f_name p + j) = area_bytes m (fst f) (snd f + f_name p + j)" if "j < MAXNAMELEN p" for j
  proof -
    have "f_name p + j < FILE_STRUCT_SIZE p" using layout_fields(1) [OF lay] that by simp
    then show ?thesis using ag unfolding agree_def by (simp add: add.assoc)
  qed
  have "map (area_bytes m' (fst f)) [snd f + f_name p..<snd f + f_name p + MAXNAMELEN p] =
      map (area_bytes m (fst f)) [snd f + f_name p..<snd f + f_name p + MAXNAMELEN p]"
    by (rule nth_equalityI) (simp_all add: byte)
  then show "file_name p f m' = file_name p f m" unfolding file_name_def by (rule arg_cong)
  show "unused p m' f = unused p m f" using byte [of 0] layout_sizes(1) [OF lay] by (simp add: unused_def)
qed

lemma agree_index: "layout_ok p \<Longrightarrow> agree p f B m m' \<Longrightarrow> index_block p f m' = index_block p f m"
  using agree_field [of p f B m m' "f_indirect p"] layout_fields(5) [of p] by (simp add: index_block_def)

lemma agree_link:
  assumes lay: "layout_ok p" and ag: "agree p f B m m'" and i: "i < NDIRECT p \<or> i < NINDIRECT p \<and> index_block p f m \<in> B"
  shows "link p f m' i = link p f m i"
proof (cases "i < NDIRECT p")
  case True
  then have "f_direct p + 4 * i + 4 \<le> FILE_STRUCT_SIZE p" using layout_fields(4) [OF lay] by simp
  then show ?thesis using agree_field [OF ag] True by (simp add: link_def)
next
  case False
  then have "4 * i + 4 \<le> BLOCK_SIZE p" using i layout_sizes(5) [OF lay] by simp
  then have "word32_at (disk_data m' (index_block p f m)) (4 * i) = word32_at (disk_data m (index_block p f m)) (4 * i)"
    using ag i False by (intro word32_cong) (simp add: agree_def)
  then show ?thesis using False agree_index [OF lay ag] by (simp add: link_def)
qed

lemma read_file_agree:
  assumes lay: "layout_ok p" and ag: "agree p f B m m'"
    and size: "the_field f (f_size p) m = word_of_nat len" "len < 2 ^ 32"
    and links: "\<forall>i<file_blocks p len. link p f m i \<in> B"
    and idx: "file_blocks p len \<le> NDIRECT p \<or> file_blocks p len \<le> NINDIRECT p \<and> index_block p f m \<in> B"
  shows "read_file p f m' = read_file p f m"
proof -
  have sz: "the_field f (f_size p) m' = the_field f (f_size p) m" using agree_field [OF ag layout_fields(2) [OF lay]] .
  have len: "unat (the_field f (f_size p) m) = len" using size by (simp add: unat_of_nat)
  have "map (disk_data m' (link p f m' i)) [0..<BLOCK_SIZE p] = map (disk_data m (link p f m i)) [0..<BLOCK_SIZE p]"
    if "i < file_blocks p len" for i
  proof -
    have "link p f m' i = link p f m i" using agree_link [OF lay ag] idx that by auto
    then show ?thesis using links that ag by (simp add: agree_def)
  qed
  then show ?thesis unfolding read_file_def sz len Let_def
    by (intro arg_cong [where f = "take len"] arg_cong [where f = concat] map_cong refl) simp
qed

section \<open>The slots of a directory\<close>

lemma FILE_STRUCT_SIZE_pos: "layout_ok p \<Longrightarrow> 0 < FILE_STRUCT_SIZE p"
  using layout_fields(1) [of p] layout_sizes(1) [of p] by simp

lemma dir_slots_Suc: "dir_slots p d m (Suc n) = dir_slots p d m n @ block_slots p (link p d m n)"
  by (simp add: dir_slots_def)

lemma length_dir_slots [simp]: "length (dir_slots p d m n) = n * FILE2BLK p"
  by (induction n) (simp_all add: dir_slots_Suc block_slots_def, simp add: dir_slots_def)

lemma dir_slots_same: "(\<And>i. i < n \<Longrightarrow> link p d' m' i = link p d m i) \<Longrightarrow> dir_slots p d' m' n = dir_slots p d m n"
  unfolding dir_slots_def by (intro arg_cong [where f = concat] map_cong refl) simp

lemma dir_slots_member:
  "r \<in> set (dir_slots p d m n) \<longleftrightarrow> (\<exists>i<n. \<exists>k<FILE2BLK p. r = (In_block (link p d m i), FILE_STRUCT_SIZE p * k))"
proof -
  have "r \<in> set (block_slots p b) \<longleftrightarrow> (\<exists>k<FILE2BLK p. r = (In_block b, FILE_STRUCT_SIZE p * k))" for b
    unfolding block_slots_def by auto
  then show ?thesis by (auto simp: dir_slots_def)
qed

lemma dir_slots_distinct:
  assumes "layout_ok p" and "inj_on (link p d m) {..<n}"
  shows "distinct (dir_slots p d m n)"
  using assms(2)
proof (induction n)
  case (Suc n)
  have "distinct (block_slots p b)" for b
    using FILE_STRUCT_SIZE_pos [OF assms(1)] by (auto simp: block_slots_def distinct_map inj_on_def)
  moreover have "link p d m n \<noteq> link p d m i" if "i < n" for i using inj_onD [OF Suc.prems, of n i] that by auto
  then have "set (dir_slots p d m n) \<inter> set (block_slots p (link p d m n)) = {}"
    using FILE_STRUCT_SIZE_pos [OF assms(1)] by (fastforce simp: dir_slots_member block_slots_def)
  moreover have "inj_on (link p d m) {..<n}" using Suc.prems by (auto simp: inj_on_def)
  ultimately show ?case using Suc.IH by (simp add: dir_slots_Suc)
qed (simp add: dir_slots_def)

lemma slots_apart:
  assumes "r \<in> set (dir_slots p d m n)" and "u \<in> set (dir_slots p d m n)" and "r \<noteq> u" and "in_struct p r a i"
  shows "\<not> in_struct p u a i"
proof
  assume u: "in_struct p u a i"
  obtain b k where r: "r = (In_block b, FILE_STRUCT_SIZE p * k)" using assms(1) by (auto simp: dir_slots_member)
  obtain c l where c: "u = (In_block c, FILE_STRUCT_SIZE p * l)" using assms(2) by (auto simp: dir_slots_member)
  have in_slot: "i div FILE_STRUCT_SIZE p = k" if "FILE_STRUCT_SIZE p * k \<le> i" "i < FILE_STRUCT_SIZE p * k + FILE_STRUCT_SIZE p" for k
    using that by (intro div_nat_eqI) (simp_all add: mult.commute)
  have "i div FILE_STRUCT_SIZE p = k" "i div FILE_STRUCT_SIZE p = l" "b = c"
    using assms(4) u in_slot unfolding r c in_struct_def by auto
  then show False using assms(3) r c by simp
qed

section \<open>A directory being filled\<close>

definition struct_zero :: "fs_h \<Rightarrow> file_ptr \<Rightarrow> image \<Rightarrow> bool" where
  "struct_zero p u m \<longleftrightarrow> (\<forall>i<FILE_STRUCT_SIZE p. area_bytes m (fst u) (snd u + i) = 0)"

definition clean :: "image \<Rightarrow> bool" where
  "clean m \<longleftrightarrow> (\<forall>b\<ge>nextbno m. disk_data m b = (\<lambda>_. 0))"

text \<open>What changes in a directory that gets a block: its links and its size.\<close>

definition grows_part :: "fs_h \<Rightarrow> file_ptr \<Rightarrow> area \<Rightarrow> nat \<Rightarrow> bool" where
  "grows_part p d a i \<longleftrightarrow> links_part p d a i \<or> a = fst d \<and> snd d + f_size p \<le> i \<and> i < snd d + f_size p + 4"

text \<open>The directory \<open>d\<close> has \<open>n\<close> blocks, not below \<open>lo\<close>; the entries \<open>rs\<close> are in use, the slots behind them are empty.\<close>

definition dir_inv :: "fs_h \<Rightarrow> nat \<Rightarrow> file_ptr \<Rightarrow> file_ptr list \<Rightarrow> nat \<Rightarrow> image \<Rightarrow> bool" where
  "dir_inv p lo d rs n m \<longleftrightarrow>
     file_inv p d n m \<and> index_block p d m = 0 \<and> n \<le> NDIRECT p \<and> unat (the_field d (f_size p) m) = n * BLOCK_SIZE p \<and>
     (\<forall>i<n. lo \<le> link p d m i \<and> link p d m i < nextbno m \<and> fst d \<noteq> In_block (link p d m i)) \<and>
     inj_on (link p d m) {..<n} \<and> length rs \<le> n * FILE2BLK p \<and> take (length rs) (dir_slots p d m n) = rs \<and>
     (\<forall>r\<in>set rs. \<not> unused p m r) \<and> (\<forall>u\<in>set (drop (length rs) (dir_slots p d m n)). struct_zero p u m)"

definition tree_layout :: "fs_h \<Rightarrow> bool" where
  "tree_layout p \<longleftrightarrow> layout_ok p \<and> NDIRECT p \<le> NINDIRECT p \<and> NDIRECT p * BLOCK_SIZE p < 2 ^ 32"

lemma struct_zero_field:
  assumes "struct_zero p u m" and "i + 4 \<le> FILE_STRUCT_SIZE p"
  shows "the_field u i m = 0"
proof -
  have "the_field u i m = word32_at (\<lambda>_. 0) (snd u + i)"
    unfolding the_field_def
  proof (rule word32_cong)
    fix j assume "snd u + i \<le> j" "j < snd u + i + 4"
    then have "j - snd u < FILE_STRUCT_SIZE p" "snd u + (j - snd u) = j" using assms(2) by auto
    then show "area_bytes m (fst u) j = 0" using assms(1) unfolding struct_zero_def by metis
  qed
  then show ?thesis by (simp add: word32_at_def)
qed

lemma struct_zero_unused: "layout_ok p \<Longrightarrow> struct_zero p u m \<Longrightarrow> unused p m u"
  using layout_fields(1) [of p] layout_sizes(1) [of p] by (simp add: struct_zero_def unused_def)

lemma dir_slot_file:
  assumes lay: "layout_ok p" and inv: "dir_inv p lo d rs n m" and t: "t \<in> set (dir_slots p d m n)" and z: "struct_zero p t m"
  shows "file_inv p t 0 m" and "index_block p t m = 0" and "fst t \<noteq> fst d"
proof -
  obtain i k where ik: "i < n" "k < FILE2BLK p" "t = (In_block (link p d m i), FILE_STRUCT_SIZE p * k)"
    using t by (auto simp: dir_slots_member)
  have b: "link p d m i < nextbno m" "fst d \<noteq> In_block (link p d m i)" "0 < nextbno m" "nextbno m \<le> NBLOCK"
    using inv ik(1) by (auto simp: dir_inv_def file_inv_def)
  show idx: "index_block p t m = 0" using struct_zero_field [OF z layout_fields(5) [OF lay]] by (simp add: index_block_def)
  show "file_inv p t 0 m" using b slot_in_block [OF lay ik(2)] idx by (simp add: file_inv_def allocated_def ik(3))
  show "fst t \<noteq> fst d" using b ik(3) by auto
qed

lemma dir_inv_slots:
  assumes "dir_inv p lo d rs n m"
  shows "dir_slots p d m n = rs @ drop (length rs) (dir_slots p d m n)"
  using assms append_take_drop_id [of "length rs" "dir_slots p d m n"] by (simp add: dir_inv_def)

text \<open>\<open>create_file\<close> hands out the first empty slot, in a new block when there is none.\<close>

lemma create_in_dir:
  assumes lay: "tree_layout p" and inv: "dir_inv p lo d rs n m" and cl: "clean m" and lo: "0 < lo" "lo \<le> nextbno m"
    and room: "length rs < n * FILE2BLK p \<or> n < NDIRECT p \<and> nextbno m < NBLOCK"
  defines "n1 \<equiv> if length rs < n * FILE2BLK p then n else n + 1"
  obtains t m1 where "create_file p d m = Ret (t, m1)" "dir_inv p lo d rs n1 m1" "length rs < n1 * FILE2BLK p"
    "t = dir_slots p d m1 n1 ! length rs" "struct_zero p t m1" "clean m1" "nextbno m1 = nextbno m + (n1 - n)"
    "\<forall>a i. \<not> grows_part p d a i \<longrightarrow> area_bytes m1 a i = area_bytes m a i"
    "\<exists>ns. dir_slots p d m1 n1 = dir_slots p d m n @ ns \<and> (\<forall>u\<in>set ns. \<not> allocated m (fst u))"
proof -
  have l: "layout_ok p" "NDIRECT p \<le> NINDIRECT p" "NDIRECT p * BLOCK_SIZE p < 2 ^ 32" using lay by (simp_all add: tree_layout_def)
  have bs: "0 < BLOCK_SIZE p" and f2b: "0 < FILE2BLK p" using layout_sizes(2,8) [OF l(1)] by simp_all
  have size: "snd d + FILE_STRUCT_SIZE p \<le> area_size p (fst d)" and fi: "file_inv p d n m" and nd: "n \<le> NDIRECT p"
    and sz: "unat (the_field d (f_size p) m) = n * BLOCK_SIZE p" and idx: "index_block p d m = 0"
    and links: "\<And>i. i < n \<Longrightarrow> lo \<le> link p d m i \<and> link p d m i < nextbno m \<and> fst d \<noteq> In_block (link p d m i)"
    and inj: "inj_on (link p d m) {..<n}" and len: "length rs \<le> n * FILE2BLK p"
    using inv by (simp_all add: dir_inv_def file_inv_def)
  have nb: "nextbno m \<le> NBLOCK" using fi by (simp add: file_inv_def)
  have blocks: "dir_blocks p d m = n" using sz bs by (simp add: dir_blocks_def)
  have lt: "\<forall>i<dir_blocks p d m. link p d m i < NBLOCK" using links nb unfolding blocks by (meson less_le_trans)
  note cf = create_file_find [OF l(1) size nd [folded blocks] lt, unfolded blocks]
  have used: "\<forall>r\<in>set rs. \<not> unused p m r" and free: "\<forall>u\<in>set (drop (length rs) (dir_slots p d m n)). struct_zero p u m"
    using inv by (simp_all add: dir_inv_def)
  have find: "List.find (unused p m) (dir_slots p d m n) = List.find (unused p m) (drop (length rs) (dir_slots p d m n))"
  proof -
    have "List.find (unused p m) rs = None" using used by (simp add: find_None_iff)
    then show ?thesis by (subst dir_inv_slots [OF inv]) (simp add: find_append)
  qed
  show thesis
  proof (cases "length rs < n * FILE2BLK p")
    case True
    let ?t = "dir_slots p d m n ! length rs"
    have drop: "drop (length rs) (dir_slots p d m n) = ?t # drop (Suc (length rs)) (dir_slots p d m n)"
      by (rule Cons_nth_drop_Suc [symmetric]) (use True in simp)
    then have z: "struct_zero p ?t m" using free by simp
    then have "create_file p d m = Ret (?t, m)" unfolding cf find drop by (simp add: struct_zero_unused [OF l(1) z])
    moreover have n: "n1 = n" using True by (simp add: n1_def)
    ultimately show thesis using that [of ?t m] inv z cl True links unfolding n by simp
  next
    case False
    then have full: "length rs = n * FILE2BLK p" and more: "n < NDIRECT p" "nextbno m < NBLOCK" using len room by auto
    obtain m1 where m1: "make_link_block p d n m = Ret (nextbno m, m1)" "file_inv p d (n + 1) m1" "nextbno m1 = nextbno m + 1"
      "index_block p d m1 = index_block p d m" "link p d m1 n = nextbno m" "\<forall>i<n. link p d m1 i = link p d m i"
      "the_field d (f_size p) m1 = the_field d (f_size p) m + word_of_nat (BLOCK_SIZE p)"
      "\<forall>a i. \<not> links_part p d a i \<longrightarrow> \<not> (a = fst d \<and> snd d + f_size p \<le> i \<and> i < snd d + f_size p + 4) \<longrightarrow>
         area_bytes m1 a i = area_bytes m a i"
      using make_link_block_ok [OF l(1) fi more(1) less_le_trans [OF more(1) l(2)] more(2)] by blast
    have keep: "area_bytes m1 a i = area_bytes m a i" if "\<not> in_struct p d a i" for a i
    proof -
      have "\<not> links_part p d a i" using that links_part_in_struct [OF l(1)] by blast
      moreover have "\<not> (a = fst d \<and> snd d + f_size p \<le> i \<and> i < snd d + f_size p + 4)"
        using that layout_fields(2) [OF l(1)] unfolding in_struct_def by linarith
      ultimately show ?thesis using m1(8) by blast
    qed
    have alloc: "allocated m (fst d)" using fi by (simp add: file_inv_def)
    have other: "disk_data m1 b = disk_data m b" if "fst d \<noteq> In_block b" for b
    proof
      fix i show "disk_data m1 b i = disk_data m b i" using keep [of "In_block b" i] that by (auto simp: in_struct_def)
    qed
    have fresh: "fst d \<noteq> In_block b" if "nextbno m \<le> b" for b using alloc that by (auto simp: allocated_def)
    have clean1: "clean m1" using cl other [OF fresh] m1(3) by (simp add: clean_def)
    have slots: "dir_slots p d m1 (Suc n) = dir_slots p d m n @ block_slots p (nextbno m)"
      using m1(5,6) dir_slots_same [of n p d m1 d m] by (simp add: dir_slots_Suc)
    have rs: "rs = dir_slots p d m n" using dir_inv_slots [OF inv] full by simp
    have zero: "struct_zero p u m1" if "u \<in> set (block_slots p (nextbno m))" for u
    proof -
      have "fst u = In_block (nextbno m)" using that by (auto simp: block_slots_def)
      moreover have "disk_data m1 (nextbno m) = (\<lambda>_. 0)" using other [OF fresh] cl by (simp add: clean_def)
      ultimately show ?thesis by (simp add: struct_zero_def)
    qed
    have used1: "\<not> unused p m1 r" if "r \<in> set rs" for r
    proof -
      obtain i k where "i < n" "r = (In_block (link p d m i), FILE_STRUCT_SIZE p * k)"
        using \<open>r \<in> set rs\<close> unfolding rs by (auto simp: dir_slots_member)
      then have "fst r \<noteq> fst d" using links [of i] by auto
      then have "area_bytes m1 (fst r) (snd r + f_name p) = area_bytes m (fst r) (snd r + f_name p)"
        by (intro keep) (simp add: in_struct_def)
      then show ?thesis using used that by (simp add: unused_def)
    qed
    have lk: "lo \<le> link p d m1 i \<and> link p d m1 i < nextbno m1 \<and> fst d \<noteq> In_block (link p d m1 i)" if "i < Suc n" for i
      using that m1(3,5,6) links [of i] lo(2) fresh [of "nextbno m"] by (cases "i = n") auto
    have inj1: "inj_on (link p d m1) {..<Suc n}"
    proof (rule inj_onI)
      fix i j assume ij: "i \<in> {..<Suc n}" "j \<in> {..<Suc n}" "link p d m1 i = link p d m1 j"
      consider "i < n" "j < n" | "i = n" "j = n" | "i < n" "j = n" | "i = n" "j < n" using ij(1,2) by fastforce
      then show "i = j" using ij(3) m1(5,6) links [of i] links [of j] inj by cases (auto simp: inj_on_def)
    qed
    have "unat (word_of_nat (BLOCK_SIZE p) :: u32) = BLOCK_SIZE p"
    proof -
      have "BLOCK_SIZE p * 1 \<le> BLOCK_SIZE p * NDIRECT p" using more(1) by (intro mult_left_mono) simp_all
      then have "BLOCK_SIZE p < 2 ^ 32" using l(3) by (simp only: mult.commute [of "NDIRECT p"] mult_1_right)
      then show ?thesis by (simp add: unat_of_nat)
    qed
    moreover have "n * BLOCK_SIZE p + BLOCK_SIZE p < 2 ^ 32"
    proof -
      have "Suc n * BLOCK_SIZE p \<le> NDIRECT p * BLOCK_SIZE p" using more(1) by (intro mult_right_mono) simp_all
      then show ?thesis using l(3) by simp
    qed
    ultimately have sz1: "unat (the_field d (f_size p) m1) = Suc n * BLOCK_SIZE p"
      unfolding m1(7) by (subst unat_add_word) (simp_all add: sz)
    have bslots: "block_slots p (nextbno m) \<noteq> []" "block_slots p (nextbno m) ! 0 = (In_block (nextbno m), 0)"
      using f2b by (simp_all add: block_slots_def)
    have inv1: "dir_inv p lo d rs (Suc n) m1"
      unfolding dir_inv_def slots
      using m1(2,4) idx more(1) sz1 lk inj1 full used1 zero rs by (simp add: le_SucI)
    have "List.find (unused p m) (dir_slots p d m n) = None" unfolding find using full by simp
    then have "create_file p d m = Ret ((In_block (nextbno m), 0), m1)" unfolding cf by (simp add: m1(1))
    moreover have t: "(In_block (nextbno m), 0) = dir_slots p d m1 (Suc n) ! length rs"
      unfolding slots using bslots rs by (simp add: nth_append)
    moreover have "struct_zero p (In_block (nextbno m), 0) m1"
      using zero bslots by (metis length_greater_0_conv nth_mem)
    moreover have "length rs < Suc n * FILE2BLK p" using full f2b by simp
    moreover have "nextbno m1 = nextbno m + (Suc n - n)" using m1(3) by simp
    moreover have "\<not> allocated m (fst u)" if "u \<in> set (block_slots p (nextbno m))" for u
      using that by (auto simp: block_slots_def allocated_def)
    then have "\<exists>ns. dir_slots p d m1 (Suc n) = dir_slots p d m n @ ns \<and> (\<forall>u\<in>set ns. \<not> allocated m (fst u))"
      unfolding slots by blast
    moreover have "\<forall>a i. \<not> grows_part p d a i \<longrightarrow> area_bytes m1 a i = area_bytes m a i"
      using m1(8) by (simp add: grows_part_def)
    moreover have "n1 = Suc n" using full by (simp add: n1_def)
    ultimately show thesis
      using that [of "(In_block (nextbno m), 0)" m1] inv1 clean1 by (simp only: simp_thms)
  qed
qed

section \<open>Reading and writing the entries\<close>

definition used_slots :: "fs_h \<Rightarrow> file_ptr \<Rightarrow> image \<Rightarrow> file_ptr list" where
  "used_slots p d m = filter (\<lambda>r. \<not> unused p m r) (dir_slots p d m (dir_blocks p d m))"

lemma agree_refl [simp]: "agree p f B m m"
  by (simp add: agree_def)

lemma agree_trans: "agree p f B m m1 \<Longrightarrow> agree p f B m1 m2 \<Longrightarrow> agree p f B m m2"
  by (simp add: agree_def)

lemma agree_mono: "agree p f B m m' \<Longrightarrow> A \<subseteq> B \<Longrightarrow> agree p f A m m'"
  by (auto simp: agree_def)

lemma in_drop: "x \<in> set (drop l xs) \<Longrightarrow> k \<le> l \<Longrightarrow> x \<in> set (drop k xs)"
  by (rule subsetD [OF set_drop_subset_set_drop])

lemma dir_inv_used:
  assumes "layout_ok p" and "dir_inv p lo d rs n m"
  shows "used_slots p d m = rs"
proof -
  have blocks: "dir_blocks p d m = n"
    using assms(2) layout_sizes(2) [OF assms(1)] by (simp add: dir_inv_def dir_blocks_def)
  have "filter (\<lambda>r. \<not> unused p m r) rs = rs" "filter (\<lambda>r. \<not> unused p m r) (drop (length rs) (dir_slots p d m n)) = []"
    using assms struct_zero_unused by (auto simp: dir_inv_def filter_id_conv filter_empty_conv)
  then have "filter (\<lambda>r. \<not> unused p m r) (rs @ drop (length rs) (dir_slots p d m n)) = rs" by simp
  then show ?thesis unfolding used_slots_def blocks dir_inv_slots [OF assms(2), symmetric] .
qed

lemma used_slots_agree:
  assumes lay: "layout_ok p" and inv: "dir_inv p lo d rs n m" and ag: "agree p d {lo..<nextbno m} m m'"
  shows "used_slots p d m' = used_slots p d m"
proof -
  have n: "n \<le> NDIRECT p" "dir_blocks p d m = n" and links: "\<And>i. i < n \<Longrightarrow> link p d m i \<in> {lo..<nextbno m}"
    using inv layout_sizes(2) [OF lay] by (simp_all add: dir_inv_def dir_blocks_def)
  have blocks: "dir_blocks p d m' = dir_blocks p d m"
    using agree_field [OF ag layout_fields(2) [OF lay]] by (simp add: dir_blocks_def)
  have slots: "dir_slots p d m' n = dir_slots p d m n"
    using agree_link [OF lay ag] n(1) by (intro dir_slots_same) simp
  have "unused p m' r = unused p m r" if r: "r \<in> set (dir_slots p d m n)" for r
  proof -
    obtain i k where ik: "i < n" "k < FILE2BLK p" "r = (In_block (link p d m i), FILE_STRUCT_SIZE p * k)"
      using r by (auto simp: dir_slots_member)
    have "FILE_STRUCT_SIZE p * k + f_name p < BLOCK_SIZE p"
      using slot_in_block [OF lay ik(2)] layout_fields(1) [OF lay] layout_sizes(1) [OF lay] by simp
    then show ?thesis using ag links [OF ik(1)] by (simp add: agree_def unused_def ik(3))
  qed
  then show ?thesis unfolding used_slots_def blocks n(2) slots by (simp cong: filter_cong)
qed

text \<open>Whatever is written into the first empty slot, and into new blocks, makes it the next entry.\<close>

lemma dir_inv_write:
  assumes lay: "layout_ok p" and inv: "dir_inv p lo d rs n m" and lt: "length rs < n * FILE2BLK p"
    and t: "t = dir_slots p d m n ! length rs"
    and frame: "\<And>a i. allocated m a \<Longrightarrow> \<not> in_struct p t a i \<Longrightarrow> area_bytes m' a i = area_bytes m a i"
    and used: "\<not> unused p m' t" and nb: "nextbno m \<le> nextbno m'" "nextbno m' \<le> NBLOCK"
  shows "dir_inv p lo d (rs @ [t]) n m'" and "dir_slots p d m' n = dir_slots p d m n"
proof -
  have fi: "file_inv p d n m" and n: "n \<le> NDIRECT p" and inj: "inj_on (link p d m) {..<n}"
    and links: "\<And>i. i < n \<Longrightarrow> lo \<le> link p d m i \<and> link p d m i < nextbno m \<and> fst d \<noteq> In_block (link p d m i)"
    using inv by (simp_all add: dir_inv_def)
  have alloc: "allocated m (fst d)" using fi by (simp add: file_inv_def)
  have slot: "allocated m (fst u) \<and> fst u \<noteq> fst d" if "u \<in> set (dir_slots p d m n)" for u
  proof -
    obtain i k where "i < n" "u = (In_block (link p d m i), FILE_STRUCT_SIZE p * k)"
      using \<open>u \<in> set (dir_slots p d m n)\<close> by (auto simp: dir_slots_member)
    then show ?thesis using links [of i] by (auto simp: allocated_def)
  qed
  have tin: "t \<in> set (dir_slots p d m n)" unfolding t by (rule nth_mem) (use lt in simp)
  have "area_bytes m' (fst d) i = area_bytes m (fst d) i" for i
    using slot [OF tin] by (intro frame alloc) (auto simp: in_struct_def)
  then have bytes: "area_bytes m' (fst d) = area_bytes m (fst d)" by blast
  then have field: "the_field d j m' = the_field d j m" for j by (simp add: the_field_def)
  have idx: "index_block p d m' = index_block p d m" by (simp add: index_block_def field)
  have lk: "link p d m' i = link p d m i" if "i < n" for i using that n by (simp add: link_def field)
  show slots: "dir_slots p d m' n = dir_slots p d m n" using lk by (rule dir_slots_same)
  let ?rest = "drop (Suc (length rs)) (dir_slots p d m n)"
  have split: "dir_slots p d m n = rs @ t # ?rest"
    using dir_inv_slots [OF inv] Cons_nth_drop_Suc [of "length rs" "dir_slots p d m n"] lt unfolding t by simp
  have "distinct (rs @ t # ?rest)" using dir_slots_distinct [OF lay inj] split by simp
  then have apart: "u \<noteq> t" if "u \<in> set rs \<or> u \<in> set ?rest" for u using that by auto
  have same: "area_bytes m' (fst u) (snd u + i) = area_bytes m (fst u) (snd u + i)"
    if u: "u \<in> set rs \<or> u \<in> set ?rest" and i: "i < FILE_STRUCT_SIZE p" for u i
  proof -
    have uin: "u \<in> set (dir_slots p d m n)" using u by (subst split) auto
    have "in_struct p u (fst u) (snd u + i)" using i by (simp add: in_struct_def)
    then show ?thesis using slots_apart [OF uin tin apart [OF u]] slot [OF uin] by (intro frame) simp_all
  qed
  have "f_name p < FILE_STRUCT_SIZE p" using layout_fields(1) [OF lay] layout_sizes(1) [OF lay] by simp
  then have "\<forall>r\<in>set rs. \<not> unused p m' r" using inv same by (auto simp: dir_inv_def unused_def)
  moreover have "struct_zero p u m" if "u \<in> set ?rest" for u
  proof -
    have "u \<in> set (drop (length rs) (dir_slots p d m n))" using that by (rule in_drop) simp
    then show ?thesis using inv by (simp add: dir_inv_def)
  qed
  then have "struct_zero p u m'" if "u \<in> set ?rest" for u using same that by (simp add: struct_zero_def)
  moreover have "file_inv p d n m'"
    using fi nb unfolding file_inv_def idx by (auto intro: allocated_mono split: if_splits)
  moreover have "take (Suc (length rs)) (dir_slots p d m n) = rs @ [t]" by (subst split) simp
  moreover have "inj_on (link p d m') {..<n}" using inj lk by (auto simp: inj_on_def)
  moreover have "link p d m i < nextbno m'" if "i < n" for i using links [OF that] nb(1) by simp
  ultimately show "dir_inv p lo d (rs @ [t]) n m'"
    using inv used lt links unfolding dir_inv_def slots idx field
    by (auto simp: lk)
qed

end
