(* ===== verification/FsTree.thy ===== *)
theory FsTree
  imports FsSlots
begin

text \<open>
  A directory tree in the image of tools/fsformat.c: \<open>holds_node\<close> says what a reader finds under an entry, and
  \<open>write_node\<close> puts there what it was given, by induction on the host's files and directories together.
\<close>

section \<open>What a reader finds\<close>

primrec holds_node :: "fnode \<Rightarrow> fs_h \<Rightarrow> file_ptr \<Rightarrow> image \<Rightarrow> bool"
  and holds_entries :: "entries \<Rightarrow> fs_h \<Rightarrow> file_ptr list \<Rightarrow> image \<Rightarrow> bool" where
  "holds_node (Regular file) p t m \<longleftrightarrow> the_field t (f_type p) m = FTYPE_REG p \<and> file = Some (read_file p t m)"
| "holds_node (Directory es) p t m \<longleftrightarrow> the_field t (f_type p) m = FTYPE_DIR p \<and> holds_entries es p (used_slots p t m) m"
| "holds_node Not_opened p t m \<longleftrightarrow> False"
| "holds_node (Special file) p t m \<longleftrightarrow> the_field t (f_type p) m = FTYPE_REG p \<and> file = Some (read_file p t m)"
| "holds_entries No_entry p rs m \<longleftrightarrow> rs = []"
| "holds_entries (Entry name node es) p rs m \<longleftrightarrow>
     (if dots name then holds_entries es p rs m
      else case rs of [] \<Rightarrow> False
        | r # rs \<Rightarrow> file_name p r m = name \<and> holds_node node p r m \<and> holds_entries es p rs m)"

text \<open>The host's files for which there is a place in the image, and the blocks they take.\<close>

definition file_space :: "fs_h \<Rightarrow> u8 list option \<Rightarrow> nat" where
  "file_space p file = (case file of None \<Rightarrow> 0 | Some bs \<Rightarrow>
     file_blocks p (length bs) + (if NDIRECT p < file_blocks p (length bs) then 1 else 0))"

definition file_fits :: "fs_h \<Rightarrow> u8 list option \<Rightarrow> bool" where
  "file_fits p file = (case file of None \<Rightarrow> False | Some bs \<Rightarrow> length bs < 2 ^ 32 \<and> file_blocks p (length bs) \<le> NINDIRECT p)"

definition name_fits :: "fs_h \<Rightarrow> u8 list \<Rightarrow> bool" where
  "name_fits p name \<longleftrightarrow> name \<noteq> [] \<and> 0 \<notin> set name \<and> length name < MAXNAMELEN p"

definition dir_size :: "fs_h \<Rightarrow> nat \<Rightarrow> nat" where
  "dir_size p k = (k + FILE2BLK p - 1) div FILE2BLK p"

primrec entry_count :: "entries \<Rightarrow> nat" where
  "entry_count No_entry = 0"
| "entry_count (Entry name node es) = (if dots name then 0 else 1) + entry_count es"

primrec node_space :: "fnode \<Rightarrow> fs_h \<Rightarrow> nat" and entries_space :: "entries \<Rightarrow> fs_h \<Rightarrow> nat" where
  "node_space (Regular file) p = file_space p file"
| "node_space (Directory es) p = dir_size p (entry_count es) + entries_space es p"
| "node_space Not_opened p = 0"
| "node_space (Special file) p = file_space p file"
| "entries_space No_entry p = 0"
| "entries_space (Entry name node es) p = (if dots name then 0 else node_space node p) + entries_space es p"

primrec node_fits :: "fnode \<Rightarrow> fs_h \<Rightarrow> bool" and entries_fit :: "entries \<Rightarrow> fs_h \<Rightarrow> bool" where
  "node_fits (Regular file) p \<longleftrightarrow> file_fits p file"
| "node_fits (Directory es) p \<longleftrightarrow> entry_count es \<le> NDIRECT p * FILE2BLK p \<and> entries_fit es p"
| "node_fits Not_opened p \<longleftrightarrow> False"
| "node_fits (Special file) p \<longleftrightarrow> file_fits p file"
| "entries_fit No_entry p \<longleftrightarrow> True"
| "entries_fit (Entry name node es) p \<longleftrightarrow>
     (dots name \<or> name_fits p name \<and> 0x2f \<notin> set name \<and> node_fits node p) \<and> entries_fit es p"

section \<open>Names\<close>

lemma takeWhile_all: "(\<forall>c\<in>set xs. P c) \<Longrightarrow> takeWhile P (xs @ x # ys) = xs @ takeWhile P (x # ys)"
  by (induction xs) auto

lemma after_slash_name: "0x2f \<notin> set name \<Longrightarrow> after_slash (path @ 0x2f # name) = name"
  using takeWhile_all [of "rev name" "\<lambda>c. c \<noteq> 0x2f" "0x2f" "rev path"] by (simp add: after_slash_def) (metis rev_rev_ident)

lemma basename_name:
  assumes "0x2f \<notin> set name" and "name \<noteq> []"
  shows "basename (path @ 0x2f # name) = name"
proof -
  have "dropWhile (\<lambda>c. c = 0x2f) (rev (path @ 0x2f # name)) = rev (path @ 0x2f # name)"
    using assms by (cases name rule: rev_cases) auto
  then show ?thesis using after_slash_name [OF assms(1), of path] by (simp add: basename_def Let_def)
qed

section \<open>Directories\<close>

lemma dir_size_0 [simp]: "layout_ok p \<Longrightarrow> dir_size p 0 = 0"
  using layout_sizes(8) [of p] by (simp add: dir_size_def)

lemma dir_size_Suc:
  assumes "layout_ok p"
  shows "k \<le> dir_size p k * FILE2BLK p"
    "dir_size p (Suc k) = (if k < dir_size p k * FILE2BLK p then dir_size p k else dir_size p k + 1)"
proof -
  let ?f = "FILE2BLK p"
  have f: "0 < ?f" using layout_sizes(8) [OF assms] .
  define q r where "q = k div ?f" and "r = k mod ?f"
  have k: "k = q * ?f + r" "r < ?f" using f by (simp_all add: q_def r_def)
  have quot: "x div ?f = a" if "x = a * ?f + b" and "b < ?f" for x a b using that by simp
  have "dir_size p k = (if r = 0 then q else Suc q)"
  proof (cases "r = 0")
    case True
    then have "k + ?f - 1 = q * ?f + (?f - 1)" "?f - 1 < ?f" using k f by simp_all
    from quot [OF this] show ?thesis unfolding dir_size_def if_P [OF True] .
  next
    case False
    then have "k + ?f - 1 = Suc q * ?f + (r - 1)" "r - 1 < ?f" using k f by simp_all
    from quot [OF this] show ?thesis unfolding dir_size_def if_not_P [OF False] .
  qed
  moreover have "dir_size p (Suc k) = Suc q"
    unfolding dir_size_def using quot [of "Suc k + ?f - 1" "Suc q" r] k f by simp
  ultimately show "k \<le> dir_size p k * ?f" "dir_size p (Suc k) = (if k < dir_size p k * ?f then dir_size p k else dir_size p k + 1)"
    using k by auto
qed

lemma dir_size_mono: "k \<le> l \<Longrightarrow> dir_size p k \<le> dir_size p l"
  unfolding dir_size_def by (intro div_le_mono) simp

lemma dir_size_max:
  assumes "layout_ok p" and "k < NDIRECT p * FILE2BLK p"
  shows "k < dir_size p k * FILE2BLK p \<or> dir_size p k < NDIRECT p"
  using assms(2) dir_size_Suc(1) [OF assms(1), of k] by (meson less_le_trans mult_le_mono1 not_le)

section \<open>Adding entries\<close>

definition unused_part :: "fs_h \<Rightarrow> file_ptr \<Rightarrow> file_ptr list \<Rightarrow> image \<Rightarrow> file_ptr set" where
  "unused_part p d rs m = set (drop (length rs) (dir_slots p d m (dir_size p (length rs))))"

definition added :: "fs_h \<Rightarrow> nat \<Rightarrow> file_ptr \<Rightarrow> file_ptr list \<Rightarrow> file_ptr list \<Rightarrow> nat \<Rightarrow> image \<Rightarrow> image \<Rightarrow> bool" where
  "added p lo d rs ts space m m' \<longleftrightarrow>
     dir_inv p lo d (rs @ ts) (dir_size p (length (rs @ ts))) m' \<and> clean m' \<and>
     nextbno m' = nextbno m + (dir_size p (length (rs @ ts)) - dir_size p (length rs)) + space \<and>
     (\<exists>ns. dir_slots p d m' (dir_size p (length (rs @ ts))) = dir_slots p d m (dir_size p (length rs)) @ ns \<and>
       (\<forall>u\<in>set ns. \<not> allocated m (fst u))) \<and>
     (\<forall>a i. allocated m a \<longrightarrow> \<not> grows_part p d a i \<longrightarrow> (\<forall>u\<in>unused_part p d rs m. \<not> in_struct p u a i) \<longrightarrow>
       area_bytes m' a i = area_bytes m a i)"

lemma added_nil: "dir_inv p lo d rs (dir_size p (length rs)) m \<Longrightarrow> clean m \<Longrightarrow> added p lo d rs [] 0 m m"
  by (simp add: added_def)

lemma added_trans:
  assumes 1: "added p lo d rs ts sp m m1" and 2: "added p lo d (rs @ ts) us sq m1 m2"
  shows "added p lo d rs (ts @ us) (sp + sq) m m2"
proof -
  have mono: "dir_size p (length rs) \<le> dir_size p (length (rs @ ts))" "dir_size p (length (rs @ ts)) \<le> dir_size p (length (rs @ ts @ us))"
    by (auto intro: dir_size_mono)
  have up: "allocated m a \<Longrightarrow> allocated m1 a" for a
    using 1 by (auto simp: added_def intro: allocated_mono)
  obtain ns1 ns2 where ns: "dir_slots p d m1 (dir_size p (length (rs @ ts))) = dir_slots p d m (dir_size p (length rs)) @ ns1"
    "\<forall>u\<in>set ns1. \<not> allocated m (fst u)"
    "dir_slots p d m2 (dir_size p (length (rs @ ts @ us))) = dir_slots p d m1 (dir_size p (length (rs @ ts))) @ ns2"
    "\<forall>u\<in>set ns2. \<not> allocated m1 (fst u)"
    using 1 2 by (auto simp: added_def)
  have "area_bytes m2 a i = area_bytes m a i"
    if a: "allocated m a" "\<not> grows_part p d a i" "\<forall>u\<in>unused_part p d rs m. \<not> in_struct p u a i" for a i
  proof -
    have "\<not> in_struct p u a i" if u: "u \<in> unused_part p d (rs @ ts) m1" for u
    proof (cases "u \<in> set ns1")
      case True
      then show ?thesis using ns(2) a(1) by (auto simp: in_struct_def)
    next
      case False
      then have "u \<in> set (drop (length (rs @ ts)) (dir_slots p d m (dir_size p (length rs))))"
        using u in_set_dropD unfolding unused_part_def ns(1) drop_append set_append by fastforce
      then have "u \<in> unused_part p d rs m" unfolding unused_part_def by (rule in_drop) simp
      then show ?thesis using a(3) by blast
    qed
    then have "area_bytes m2 a i = area_bytes m1 a i" using 2 up [OF a(1)] a(2) by (simp add: added_def)
    then show ?thesis using 1 a by (simp add: added_def)
  qed
  moreover have "dir_slots p d m2 (dir_size p (length (rs @ ts @ us))) = dir_slots p d m (dir_size p (length rs)) @ ns1 @ ns2"
    "\<forall>u\<in>set (ns1 @ ns2). \<not> allocated m (fst u)"
    using ns up by (auto simp del: append_assoc simp: append_assoc [symmetric])
  moreover have "nextbno m2 = nextbno m + (dir_size p (length (rs @ ts @ us)) - dir_size p (length rs)) + (sp + sq)"
    using 1 2 mono by (simp add: added_def)
  ultimately show ?thesis using 2 unfolding added_def append_assoc by blast
qed

text \<open>The new blocks that are not the directory's own.\<close>

definition own_blocks :: "fs_h \<Rightarrow> file_ptr \<Rightarrow> file_ptr list \<Rightarrow> image \<Rightarrow> image \<Rightarrow> nat set" where
  "own_blocks p d rs m m' = {b. nextbno m \<le> b \<and> b < nextbno m' \<and> In_block b \<notin> fst ` set (dir_slots p d m' (dir_size p (length rs)))}"

lemma added_keeps:
  assumes lay: "layout_ok p" and d: "allocated m (fst d)"
    and inv: "dir_inv p lo d (rs @ [t]) (dir_size p (length (rs @ [t]))) m1"
    and ad: "added p lo d (rs @ [t]) ts sp m1 m2"
  shows "agree p t (own_blocks p d (rs @ [t]) m m1) m1 m2"
proof -
  let ?n = "dir_size p (length (rs @ [t]))"
  have frame: "area_bytes m2 a i = area_bytes m1 a i"
    if "allocated m1 a" "\<not> grows_part p d a i" "\<forall>u\<in>unused_part p d (rs @ [t]) m1. \<not> in_struct p u a i" for a i
    using ad that by (simp add: added_def)
  have inj: "inj_on (link p d m1) {..<?n}" using inv by (simp add: dir_inv_def)
  have dist: "distinct (rs @ [t] @ drop (length (rs @ [t])) (dir_slots p d m1 ?n))"
    using dir_slots_distinct [OF lay inj] dir_inv_slots [OF inv] by simp
  have tin: "t \<in> set (dir_slots p d m1 ?n)" by (subst dir_inv_slots [OF inv]) simp
  obtain i k where ik: "i < ?n" "t = (In_block (link p d m1 i), FILE_STRUCT_SIZE p * k)"
    using tin by (auto simp: dir_slots_member)
  have tb: "allocated m1 (fst t)" "fst t \<noteq> fst d" using inv ik by (auto simp: dir_inv_def allocated_def)
  have "area_bytes m2 (fst t) (snd t + j) = area_bytes m1 (fst t) (snd t + j)" if j: "j < FILE_STRUCT_SIZE p" for j
  proof (rule frame [OF tb(1)])
    show "\<not> grows_part p d (fst t) (snd t + j)" using tb(2) by (simp add: grows_part_def links_part_def)
    have at: "in_struct p t (fst t) (snd t + j)" using j by (simp add: in_struct_def)
    show "\<forall>u\<in>unused_part p d (rs @ [t]) m1. \<not> in_struct p u (fst t) (snd t + j)"
    proof
      fix u assume u: "u \<in> unused_part p d (rs @ [t]) m1"
      then have "u \<noteq> t" "u \<in> set (dir_slots p d m1 ?n)" using dist in_set_dropD by (fastforce simp: unused_part_def)+
      then show "\<not> in_struct p u (fst t) (snd t + j)" using slots_apart [OF tin _ _ at] by metis
    qed
  qed
  moreover have "disk_data m2 b j = disk_data m1 b j" if b: "b \<in> own_blocks p d (rs @ [t]) m m1" for b j
  proof -
    have "allocated m1 (In_block b)" "fst d \<noteq> In_block b" using b d by (auto simp: own_blocks_def allocated_def)
    moreover have "In_block b \<noteq> fst u" if "u \<in> unused_part p d (rs @ [t]) m1" for u
      using b that in_set_dropD unfolding own_blocks_def unused_part_def by fastforce
    ultimately have "area_bytes m2 (In_block b) j = area_bytes m1 (In_block b) j" by (intro frame) (auto simp: in_struct_def grows_part_def links_part_def)
    then show ?thesis by simp
  qed
  ultimately show ?thesis by (simp add: agree_def)
qed

section \<open>Filling a slot\<close>

definition slot_filled :: "fs_h \<Rightarrow> file_ptr \<Rightarrow> u8 list \<Rightarrow> fnode \<Rightarrow> image \<Rightarrow> image \<Rightarrow> bool" where
  "slot_filled p t name node m m' \<longleftrightarrow>
     clean m' \<and> nextbno m' = nextbno m + node_space node p \<and>
     (\<forall>a i. allocated m a \<longrightarrow> \<not> in_struct p t a i \<longrightarrow> area_bytes m' a i = area_bytes m a i) \<and>
     (\<forall>m2. agree p t {nextbno m..<nextbno m'} m' m2 \<longrightarrow> file_name p t m2 = name \<and> holds_node node p t m2)"

lemma file_name_unused: "layout_ok p \<Longrightarrow> file_name p t m \<noteq> [] \<Longrightarrow> \<not> unused p m t"
  using layout_sizes(1) [of p] upt_conv_Cons [of "snd t + f_name p" "snd t + f_name p + MAXNAMELEN p"]
  by (auto simp: file_name_def unused_def)

lemma file_fills_slot:
  assumes lay: "layout_ok p" and cf: "create_file p d m = Ret (t, m1)" and inv: "file_inv p t 0 m1"
    and idx: "index_block p t m1 = 0" and cl: "clean m1" and fits: "file_fits p (Some content)"
    and name: "name_fits p (after_slash path)" and room: "nextbno m1 + file_space p (Some content) \<le> NBLOCK"
  shows "\<exists>m'. write_file p d path (Some content) m = Ret m' \<and> slot_filled p t (after_slash path) (Regular (Some content)) m1 m'"
proof -
  have n: "length (after_slash path) < MAXNAMELEN p" "0 \<notin> set (after_slash path)" using name by (simp_all add: name_fits_def)
  have l: "length content < 2 ^ 32" "file_blocks p (length content) \<le> NINDIRECT p" using fits by (simp_all add: file_fits_def)
  have r: "nextbno m1 + file_blocks p (length content) + (if NDIRECT p < file_blocks p (length content) then 1 else 0) \<le> NBLOCK"
    using room by (simp add: file_space_def)
  obtain m' where m': "write_file p d path (Some content) m = Ret m'" "file_name p t m' = after_slash path"
    "the_field t (f_type p) m' = FTYPE_REG p" "read_file p t m' = content"
    "\<forall>a i. allocated m1 a \<longrightarrow> \<not> in_struct p t a i \<longrightarrow> area_bytes m' a i = area_bytes m1 a i"
    "the_field t (f_size p) m' = word_of_nat (length content)"
    "nextbno m' = nextbno m1 + file_blocks p (length content) + (if NDIRECT p < file_blocks p (length content) then 1 else 0)"
    "\<forall>i<file_blocks p (length content). nextbno m1 \<le> link p t m' i \<and> link p t m' i < nextbno m'"
    "index_block p t m' = 0 \<and> file_blocks p (length content) \<le> NDIRECT p \<or> nextbno m1 \<le> index_block p t m' \<and> index_block p t m' < nextbno m'"
    "\<forall>c\<ge>nextbno m'. disk_data m' c = disk_data m1 c"
    using write_file_ok [OF lay cf inv idx n l r] by blast
  have nb: "nextbno m' = nextbno m1 + file_space p (Some content)" using m'(7) by (simp add: file_space_def)
  have "clean m'" using cl m'(10) nb by (simp add: clean_def)
  moreover have "file_name p t m2 = after_slash path \<and> the_field t (f_type p) m2 = FTYPE_REG p \<and> read_file p t m2 = content"
    if ag: "agree p t {nextbno m1..<nextbno m'} m' m2" for m2
  proof -
    have "read_file p t m2 = read_file p t m'"
      using m'(8,9) l(2) by (intro read_file_agree [OF lay ag m'(6) l(1)]) auto
    then show ?thesis
      using m'(2-4) agree_name(1) [OF lay ag] agree_field [OF ag layout_fields(3) [OF lay]] by simp
  qed
  ultimately show ?thesis using m'(1,5) nb by (intro exI [of _ m']) (simp add: slot_filled_def)
qed

lemma write_dir_entry_ok:
  assumes lay: "layout_ok p" and cf: "create_file p d m = Ret (t, m1)" and inv: "file_inv p t 0 m1"
    and z: "struct_zero p t m1" and name: "name_fits p (basename path)"
  obtains m2 where "write_dir_entry p d path m = Ret (Inr (t, m2))" "file_name p t m2 = basename path"
    "the_field t (f_type p) m2 = FTYPE_DIR p" "the_field t (f_size p) m2 = 0" "index_block p t m2 = 0"
    "nextbno m2 = nextbno m1" "\<forall>a i. \<not> in_struct p t a i \<longrightarrow> area_bytes m2 a i = area_bytes m1 a i"
proof -
  note lf = layout_fields [OF lay]
  have size: "snd t + FILE_STRUCT_SIZE p \<le> area_size p (fst t)" using inv by (simp add: file_inv_def)
  let ?n = "basename path" and ?b = "snd t + f_name p" and ?a = "fst t"
  have n: "length ?n < MAXNAMELEN p" "0 \<notin> set ?n" using name by (simp_all add: name_fits_def)
  define bs where "bs = ?n @ replicate (MAXNAMELEN p - Suc (length ?n)) 0"
  have len: "length bs = MAXNAMELEN p - 1" using n(1) by (simp add: bs_def)
  define m2 where "m2 = set_area ?a (put32 (put_bytes (area_bytes m1 ?a) ?b bs) (snd t + f_type p) (FTYPE_DIR p)) m1"
  have last: "put_bytes (area_bytes m1 ?a) ?b bs (?b + (MAXNAMELEN p - 1)) = 0"
  proof -
    have "f_name p + (MAXNAMELEN p - 1) < FILE_STRUCT_SIZE p" using lf(1) layout_sizes(1) [OF lay] by linarith
    then have "area_bytes m1 ?a (snd t + (f_name p + (MAXNAMELEN p - 1))) = 0" using z by (simp add: struct_zero_def)
    then show ?thesis using len by (simp add: put_bytes_other add.assoc)
  qed
  have "take (MAXNAMELEN p - 1) ?n = ?n" using n(1) by simp
  then have ret: "write_dir_entry p d path m = Ret (Inr (t, m2))"
    using cf size lf(1,3) len last layout_sizes(1) [OF lay]
    by (simp add: write_dir_entry_def Let_def wr_bytes_def rd8_def wr32_def field_def bs_def [symmetric] m2_def add.assoc)
  have field0: "the_field t j m2 = 0" if "j + 4 \<le> FILE_STRUCT_SIZE p" "j + 4 \<le> f_type p \<or> f_type p + 4 \<le> j"
    "f_name p + MAXNAMELEN p \<le> j \<or> j + 4 \<le> f_name p" for j
  proof -
    have "the_field t j m2 = the_field t j m1"
      using that(2,3) len by (auto simp: the_field_def m2_def word32_put32_other word32_put_bytes_other)
    then show ?thesis using struct_zero_field [OF z that(1)] by simp
  qed
  have byte: "area_bytes m2 ?a (?b + i) = (?n @ [0]) ! i" if i: "i < length ?n + 1" for i
  proof -
    have "\<not> (snd t + f_type p \<le> ?b + i \<and> ?b + i < snd t + f_type p + 4)" using lf(7) i n(1) by linarith
    then have "area_bytes m2 ?a (?b + i) = put_bytes (area_bytes m1 ?a) ?b bs (?b + i)" by (simp add: m2_def put32_other)
    also have "\<dots> = (?n @ [0]) ! i"
    proof (cases "i < length bs")
      case True
      then show ?thesis using put_bytes_in [OF True] i by (auto simp: bs_def nth_append)
    next
      case False
      then have "i = MAXNAMELEN p - 1" "i = length ?n" using i len n(1) by simp_all
      then show ?thesis using last nth_append_length [of ?n 0 "[]"] by metis
    qed
    finally show ?thesis .
  qed
  show thesis
  proof (rule that [OF ret])
    show "file_name p t m2 = ?n" by (rule file_name_written [OF n byte])
    show "the_field t (f_type p) m2 = FTYPE_DIR p" by (simp add: the_field_def m2_def)
    show "the_field t (f_size p) m2 = 0" by (rule field0 [OF lf(2) lf(10) lf(6)])
    have "the_field t (f_indirect p) m2 = 0" using lf(9,14) by (intro field0 [OF lf(5)]) auto
    then show "index_block p t m2 = 0" by (simp add: index_block_def)
    show "nextbno m2 = nextbno m1" by (simp add: m2_def)
    show "\<forall>a i. \<not> in_struct p t a i \<longrightarrow> area_bytes m2 a i = area_bytes m1 a i"
    proof (intro allI impI)
      fix a i assume "\<not> in_struct p t a i"
      then have "a = ?a \<longrightarrow> \<not> (snd t + f_type p \<le> i \<and> i < snd t + f_type p + 4) \<and> \<not> (?b \<le> i \<and> i < ?b + length bs)"
        using lf(1,3) len layout_sizes(1) [OF lay] unfolding in_struct_def by linarith
      then show "area_bytes m2 a i = area_bytes m1 a i" by (simp add: m2_def put32_other put_bytes_other)
    qed
  qed
qed

lemma add_node:
  fixes W :: "(int + image) outcome"
  assumes lay: "tree_layout p" and inv: "dir_inv p lo d rs (dir_size p (length rs)) m" and cl: "clean m"
    and lo: "0 < lo" "lo \<le> nextbno m" and few: "length rs < NDIRECT p * FILE2BLK p" and name: "name \<noteq> []"
    and room: "nextbno m + (dir_size p (Suc (length rs)) - dir_size p (length rs)) + node_space node p \<le> NBLOCK"
    and fill: "\<And>t m1. create_file p d m = Ret (t, m1) \<Longrightarrow> file_inv p t 0 m1 \<Longrightarrow> index_block p t m1 = 0 \<Longrightarrow>
      struct_zero p t m1 \<Longrightarrow> clean m1 \<Longrightarrow> nextbno m1 + node_space node p \<le> NBLOCK \<Longrightarrow>
      \<exists>m'. W = Ret (Inr m') \<and> slot_filled p t name node m1 m'"
  obtains t m' where "W = Ret (Inr m')" "added p lo d rs [t] (node_space node p) m m'"
    "\<forall>m2. agree p t (own_blocks p d (rs @ [t]) m m') m' m2 \<longrightarrow> file_name p t m2 = name \<and> holds_node node p t m2"
proof -
  have l: "layout_ok p" using lay by (simp add: tree_layout_def)
  let ?n = "dir_size p (length rs)" and ?n1 = "dir_size p (Suc (length rs))"
  have n1: "(if length rs < ?n * FILE2BLK p then ?n else ?n + 1) = ?n1" using dir_size_Suc(2) [OF l] by simp
  have "length rs < ?n * FILE2BLK p \<or> ?n < NDIRECT p \<and> nextbno m < NBLOCK"
    using dir_size_max [OF l few] room n1 by (auto split: if_splits)
  from create_in_dir [OF lay inv cl lo this, unfolded n1] obtain t m1 where
    c: "create_file p d m = Ret (t, m1)" "dir_inv p lo d rs ?n1 m1" "length rs < ?n1 * FILE2BLK p"
    "t = dir_slots p d m1 ?n1 ! length rs" "struct_zero p t m1" "clean m1" "nextbno m1 = nextbno m + (?n1 - ?n)"
    "\<forall>a i. \<not> grows_part p d a i \<longrightarrow> area_bytes m1 a i = area_bytes m a i"
    "\<exists>ns. dir_slots p d m1 ?n1 = dir_slots p d m ?n @ ns \<and> (\<forall>u\<in>set ns. \<not> allocated m (fst u))" by metis
  have tin: "t \<in> set (dir_slots p d m1 ?n1)" unfolding c(4) by (rule nth_mem) (use c(3) in simp)
  note slot = dir_slot_file [OF l c(2) tin c(5)]
  from fill [OF c(1) slot(1,2) c(5,6)] c(7) room obtain m' where
    m': "W = Ret (Inr m')" "slot_filled p t name node m1 m'" by auto
  then have f: "clean m'" "nextbno m' = nextbno m1 + node_space node p"
    "\<And>a i. allocated m1 a \<Longrightarrow> \<not> in_struct p t a i \<Longrightarrow> area_bytes m' a i = area_bytes m1 a i"
    "\<And>m2. agree p t {nextbno m1..<nextbno m'} m' m2 \<Longrightarrow> file_name p t m2 = name \<and> holds_node node p t m2"
    by (simp_all add: slot_filled_def)
  have "\<not> unused p m' t" using f(4) [OF agree_refl] name by (intro file_name_unused [OF l]) simp
  note w = dir_inv_write [OF l c(2-4) f(3) this]
  have nb: "nextbno m1 \<le> nextbno m'" "nextbno m' \<le> NBLOCK" using f(2) c(7) room by simp_all
  have frame: "area_bytes m' a i = area_bytes m a i"
    if a: "allocated m a" "\<not> grows_part p d a i" "\<forall>u\<in>unused_part p d rs m. \<not> in_struct p u a i" for a i
  proof -
    obtain ns where ns: "dir_slots p d m1 ?n1 = dir_slots p d m ?n @ ns" "\<forall>u\<in>set ns. \<not> allocated m (fst u)" using c(9) by blast
    have "t \<in> set ns \<or> t \<in> unused_part p d rs m"
    proof -
      have "t \<in> set (drop (length rs) (dir_slots p d m1 ?n1))"
        using c(3) unfolding c(4) by (auto simp: in_set_conv_nth intro!: exI [of _ 0])
      then show ?thesis unfolding ns(1) unused_part_def drop_append set_append using in_set_dropD by fastforce
    qed
    then have "\<not> in_struct p t a i" using a ns(2) by (auto simp: in_struct_def)
    moreover have "allocated m1 a" using a(1) c(7) by (auto intro: allocated_mono)
    ultimately show ?thesis using f(3) c(8) a(2) by simp
  qed
  have "added p lo d rs [t] (node_space node p) m m'"
    using w [OF _ _ nb] f(1,2) c(7,9) frame unfolding added_def by simp
  moreover have "{nextbno m1..<nextbno m'} \<subseteq> own_blocks p d (rs @ [t]) m m'"
  proof
    fix b assume b: "b \<in> {nextbno m1..<nextbno m'}"
    then have "fst u \<noteq> In_block b" if "u \<in> set (dir_slots p d m1 ?n1)" for u
      using that c(2) by (auto simp: dir_slots_member dir_inv_def)
    then have "In_block b \<notin> fst ` set (dir_slots p d m1 ?n1)" by (metis imageE)
    then show "b \<in> own_blocks p d (rs @ [t]) m m'"
      using b c(7) w(2) [OF _ _ nb] by (simp add: own_blocks_def)
  qed
  ultimately show thesis using that [OF m'(1)] f(4) agree_mono by blast
qed

section \<open>The tree\<close>

lemma added_names:
  assumes lay: "layout_ok p" and inv: "dir_inv p lo d rs (dir_size p (length rs)) m" and ad: "added p lo d rs ts sp m m'"
  shows "file_name p d m' = file_name p d m" and "the_field d (f_type p) m' = the_field d (f_type p) m"
proof -
  note lf = layout_fields [OF lay]
  have "fst u \<noteq> fst d" if "u \<in> unused_part p d rs m" for u
    using in_set_dropD [OF that [unfolded unused_part_def]] inv by (auto simp: dir_slots_member dir_inv_def)
  then have "\<forall>u\<in>unused_part p d rs m. \<not> in_struct p u (fst d) i" for i by (metis in_struct_def)
  then have same: "area_bytes m' (fst d) i = area_bytes m (fst d) i" if "\<not> grows_part p d (fst d) i" for i
    using ad inv that by (auto simp: added_def dir_inv_def file_inv_def)
  have "area_bytes m' (fst d) i = area_bytes m (fst d) i"
    if "snd d + f_name p \<le> i" "i < snd d + f_name p + MAXNAMELEN p" for i
    using that lf(6,8,9) by (intro same) (auto simp: grows_part_def links_part_def)
  then have "map (area_bytes m' (fst d)) [snd d + f_name p..<snd d + f_name p + MAXNAMELEN p] =
      map (area_bytes m (fst d)) [snd d + f_name p..<snd d + f_name p + MAXNAMELEN p]" by simp
  then show "file_name p d m' = file_name p d m" unfolding file_name_def by (rule arg_cong)
  show "the_field d (f_type p) m' = the_field d (f_type p) m"
    unfolding the_field_def using lf(10,13,14)
    by (intro word32_cong same) (auto simp: grows_part_def links_part_def)
qed

text \<open>Entries \<open>ts\<close> have been written, and as long as nobody touches them and the new blocks, \<open>H\<close> holds of them.\<close>

definition written :: "fs_h \<Rightarrow> nat \<Rightarrow> file_ptr \<Rightarrow> file_ptr list \<Rightarrow> file_ptr list \<Rightarrow> nat \<Rightarrow> (file_ptr list \<Rightarrow> image \<Rightarrow> bool) \<Rightarrow>
    image \<Rightarrow> image \<Rightarrow> bool" where
  "written p lo d rs ts space H m m' \<longleftrightarrow>
     added p lo d rs ts space m m' \<and> (\<forall>m2. (\<forall>t\<in>set ts. agree p t {nextbno m..<nextbno m'} m' m2) \<longrightarrow> H ts m2)"

lemma written_Cons:
  assumes lay: "layout_ok p" and inv: "dir_inv p lo d rs (dir_size p (length rs)) m"
    and ad: "added p lo d rs [t] sp m m1"
    and persist: "\<forall>m2. agree p t (own_blocks p d (rs @ [t]) m m1) m1 m2 \<longrightarrow> P m2"
    and ts: "written p lo d (rs @ [t]) ts sq H m1 m'"
  shows "written p lo d rs (t # ts) (sp + sq) (\<lambda>us m2. P m2 \<and> H (tl us) m2) m m'"
proof -
  have ad2: "added p lo d (rs @ [t]) ts sq m1 m'"
    and hold: "\<And>m2. \<forall>t\<in>set ts. agree p t {nextbno m1..<nextbno m'} m' m2 \<Longrightarrow> H ts m2"
    using ts by (simp_all add: written_def)
  have nb: "nextbno m \<le> nextbno m1" "nextbno m1 \<le> nextbno m'" using ad ad2 by (simp_all add: added_def)
  have d: "allocated m (fst d)" using inv by (simp add: dir_inv_def file_inv_def)
  have inv1: "dir_inv p lo d (rs @ [t]) (dir_size p (length (rs @ [t]))) m1" using ad by (simp add: added_def)
  note keep = added_keeps [OF lay d inv1 ad2]
  have "P m2 \<and> H ts m2" if all: "\<forall>u\<in>set (t # ts). agree p u {nextbno m..<nextbno m'} m' m2" for m2
  proof -
    have "own_blocks p d (rs @ [t]) m m1 \<subseteq> {nextbno m..<nextbno m'}" using nb by (auto simp: own_blocks_def)
    moreover have "agree p t {nextbno m..<nextbno m'} m' m2" using all by simp
    ultimately have "agree p t (own_blocks p d (rs @ [t]) m m1) m' m2" by (rule agree_mono [rotated])
    from agree_trans [OF keep this] have "P m2" using persist by blast
    moreover have "{nextbno m1..<nextbno m'} \<subseteq> {nextbno m..<nextbno m'}" using nb by simp
    then have "\<forall>u\<in>set ts. agree p u {nextbno m1..<nextbno m'} m' m2" using all agree_mono by (metis list.set_intros(2))
    ultimately show ?thesis using hold by blast
  qed
  then show ?thesis using added_trans [OF ad ad2] by (simp add: written_def)
qed

definition entries_written :: "fs_h \<Rightarrow> nat \<Rightarrow> file_ptr \<Rightarrow> file_ptr list \<Rightarrow> entries \<Rightarrow> file_ptr list \<Rightarrow> image \<Rightarrow> image \<Rightarrow> bool" where
  "entries_written p lo d rs es ts m m' \<longleftrightarrow>
     length ts = entry_count es \<and> written p lo d rs ts (entries_space es p) (holds_entries es p) m m'"

lemma entries_written_Cons:
  assumes "layout_ok p" and "dir_inv p lo d rs (dir_size p (length rs)) m" and "\<not> dots name"
    and "added p lo d rs [t] (node_space node p) m m1"
    and "\<forall>m2. agree p t (own_blocks p d (rs @ [t]) m m1) m1 m2 \<longrightarrow> file_name p t m2 = name \<and> holds_node node p t m2"
    and "entries_written p lo d (rs @ [t]) es ts m1 m'"
  shows "entries_written p lo d rs (Entry name node es) (t # ts) m m'"
proof -
  have "length ts = entry_count es" "written p lo d (rs @ [t]) ts (entries_space es p) (holds_entries es p) m1 m'"
    using assms(6) by (simp_all add: entries_written_def)
  then show ?thesis
    using written_Cons [OF assms(1,2,4,5), of ts "entries_space es p" "holds_entries es p" m'] assms(3) by (simp add: entries_written_def written_def)
qed

text \<open>What holds of a directory's blocks holds of its entries.\<close>

lemma entry_agree:
  assumes lay: "layout_ok p" and inv: "dir_inv p lo d rs n m" and ag: "agree p d {lo..<nextbno m} m m'" and u: "u \<in> set rs"
  shows "agree p u {lo..<nextbno m} m m'"
proof -
  have "u \<in> set (dir_slots p d m n)" using u by (subst dir_inv_slots [OF inv]) simp
  then obtain i k where ik: "i < n" "k < FILE2BLK p" "u = (In_block (link p d m i), FILE_STRUCT_SIZE p * k)"
    by (auto simp: dir_slots_member)
  then have "link p d m i \<in> {lo..<nextbno m}" using inv by (simp add: dir_inv_def)
  then show ?thesis using ag slot_in_block [OF lay ik(2)] by (simp add: agree_def ik(3))
qed

lemma new_dir_inv:
  assumes "file_inv p t 0 m" and "index_block p t m = 0" and "the_field t (f_size p) m = 0"
  shows "dir_inv p lo t [] 0 m"
  using assms by (simp add: dir_inv_def dir_slots_def)

lemma dir_fills_slot:
  assumes lay: "layout_ok p" and inv: "file_inv p t 0 m1" and cl: "clean m1"
    and m2: "file_name p t m2 = name" "the_field t (f_type p) m2 = FTYPE_DIR p" "the_field t (f_size p) m2 = 0"
    "index_block p t m2 = 0" "nextbno m2 = nextbno m1" "\<forall>a i. \<not> in_struct p t a i \<longrightarrow> area_bytes m2 a i = area_bytes m1 a i"
    and es: "entries_written p (nextbno m2) t [] es ts m2 m'"
  shows "slot_filled p t name (Directory es) m1 m'"
proof -
  have inv2: "dir_inv p (nextbno m2) t [] (dir_size p 0) m2"
    unfolding dir_size_0 [OF lay] using inv m2(4,5) by (intro new_dir_inv m2(3,4)) (auto simp: file_inv_def allocated_def split: area.splits if_splits)
  have ad: "added p (nextbno m2) t [] ts (entries_space es p) m2 m'" and len: "length ts = entry_count es"
    and hold: "\<And>m3. \<forall>u\<in>set ts. agree p u {nextbno m2..<nextbno m'} m' m3 \<Longrightarrow> holds_entries es p ts m3"
    using es by (simp_all add: entries_written_def written_def)
  have nb: "nextbno m' = nextbno m1 + node_space (Directory es) p"
    using ad len m2(5) by (simp add: added_def dir_size_0 [OF lay])
  have dinv: "dir_inv p (nextbno m2) t ts (dir_size p (length ts)) m'" and "clean m'" using ad by (simp_all add: added_def)
  have names: "file_name p t m' = name" "the_field t (f_type p) m' = FTYPE_DIR p"
    using added_names [OF lay _ ad] inv2 m2(1,2) by simp_all
  have "area_bytes m' a i = area_bytes m1 a i" if a: "allocated m1 a" "\<not> in_struct p t a i" for a i
  proof -
    have "\<not> grows_part p t a i"
      using a(2) links_part_in_struct [OF lay] layout_fields(2) [OF lay] unfolding grows_part_def in_struct_def by fastforce
    moreover have "unused_part p t [] m2 = {}" by (simp add: unused_part_def dir_size_0 [OF lay] dir_slots_def)
    moreover have "allocated m2 a" using a(1) m2(5) by (auto intro: allocated_mono)
    ultimately have "area_bytes m' a i = area_bytes m2 a i" using ad by (simp add: added_def)
    then show ?thesis using m2(6) a(2) by simp
  qed
  moreover have "file_name p t m3 = name \<and> holds_node (Directory es) p t m3"
    if ag: "agree p t {nextbno m1..<nextbno m'} m' m3" for m3
  proof -
    have ag2: "agree p t {nextbno m2..<nextbno m'} m' m3" using ag m2(5) by simp
    have "used_slots p t m3 = ts" using used_slots_agree [OF lay dinv ag2] dir_inv_used [OF lay dinv] by simp
    moreover note entry_agree [OF lay dinv ag2]
    ultimately show ?thesis
      using hold agree_name(1) [OF lay ag] agree_field [OF ag layout_fields(3) [OF lay]] names by simp
  qed
  ultimately show ?thesis using \<open>clean m'\<close> nb by (simp add: slot_filled_def)
qed

definition node_name :: "fnode \<Rightarrow> u8 list \<Rightarrow> u8 list" where
  "node_name node path = (case node of Directory es \<Rightarrow> basename path | _ \<Rightarrow> after_slash path)"

lemma node_name_child: "0x2f \<notin> set name \<Longrightarrow> name \<noteq> [] \<Longrightarrow> node_name node (path @ 0x2f # name) = name"
  by (cases node) (simp_all add: node_name_def after_slash_name basename_name)

lemma written_file_node:
  assumes "layout_ok p" and "create_file p d m = Ret (t, m1)" and "file_inv p t 0 m1" and "index_block p t m1 = 0"
    and "clean m1" and "file_fits p file" and "name_fits p (after_slash path)" and "nextbno m1 + file_space p file \<le> NBLOCK"
  shows "\<exists>m'. andThen (write_file p d path file m) (\<lambda>m. Ret (Inr m)) = (Ret (Inr m') :: (int + image) outcome) \<and>
    slot_filled p t (after_slash path) (Regular file) m1 m'"
proof (cases "file")
  case None
  then show ?thesis using assms(6) by (simp add: file_fits_def)
next
  case (Some content)
  obtain m' where "write_file p d path file m = Ret m'" "slot_filled p t (after_slash path) (Regular file) m1 m'"
    using file_fills_slot [OF assms(1-5), of content path] assms(6-8) unfolding Some by blast
  then show ?thesis by (intro exI [of _ m']) simp
qed

lemma write_Entry:
  assumes lay: "tree_layout p" and inv: "dir_inv p lo d rs (dir_size p (length rs)) m" and cl: "clean m"
    and lo: "0 < lo" "lo \<le> nextbno m" and nd: "\<not> dots name" and ok: "name_fits p name" "0x2f \<notin> set name" "node_fits node p"
    and few: "length rs + entry_count (Entry name node es) \<le> NDIRECT p * FILE2BLK p"
    and room: "nextbno m + (dir_size p (length rs + entry_count (Entry name node es)) - dir_size p (length rs)) +
      entries_space (Entry name node es) p \<le> NBLOCK"
    and IHn: "\<And>t m1. node_fits node p \<Longrightarrow> create_file p d m = Ret (t, m1) \<Longrightarrow> file_inv p t 0 m1 \<Longrightarrow> index_block p t m1 = 0 \<Longrightarrow>
      struct_zero p t m1 \<Longrightarrow> clean m1 \<Longrightarrow> name_fits p (node_name node (path @ 0x2f # name)) \<Longrightarrow>
      nextbno m1 + node_space node p \<le> NBLOCK \<Longrightarrow>
      \<exists>m'. write_node node p d (path @ 0x2f # name) m = Ret (Inr m') \<and> slot_filled p t (node_name node (path @ 0x2f # name)) node m1 m'"
    and IHe: "\<And>rs m. dir_inv p lo d rs (dir_size p (length rs)) m \<Longrightarrow> clean m \<Longrightarrow> lo \<le> nextbno m \<Longrightarrow>
      length rs + entry_count es \<le> NDIRECT p * FILE2BLK p \<Longrightarrow>
      nextbno m + (dir_size p (length rs + entry_count es) - dir_size p (length rs)) + entries_space es p \<le> NBLOCK \<Longrightarrow>
      \<exists>m' ts. write_entries es p d path m = Ret (Inr m') \<and> entries_written p lo d rs es ts m m'"
  shows "\<exists>m' ts. write_entries (Entry name node es) p d path m = Ret (Inr m') \<and> entries_written p lo d rs (Entry name node es) ts m m'"
proof -
  let ?D = "\<lambda>k. dir_size p k"
  have l: "layout_ok p" using lay by (simp add: tree_layout_def)
  have ne: "name \<noteq> []" using ok(1) by (simp add: name_fits_def)
  note nm = node_name_child [OF ok(2) ne, of node path]
  have mono: "?D (length rs) \<le> ?D (Suc (length rs))" "?D (Suc (length rs)) \<le> ?D (Suc (length rs) + entry_count es)"
    by (simp_all add: dir_size_mono)
  have sum: "nextbno m + (?D (Suc (length rs) + entry_count es) - ?D (length rs)) + node_space node p + entries_space es p \<le> NBLOCK"
    using room nd by simp
  have "length rs < NDIRECT p * FILE2BLK p" using few nd by simp
  moreover have "nextbno m + (?D (Suc (length rs)) - ?D (length rs)) + node_space node p \<le> NBLOCK" using sum mono by simp
  ultimately obtain t m1 where m1: "write_node node p d (path @ 0x2f # name) m = Ret (Inr m1)"
    "added p lo d rs [t] (node_space node p) m m1"
    "\<forall>m2. agree p t (own_blocks p d (rs @ [t]) m m1) m1 m2 \<longrightarrow> file_name p t m2 = name \<and> holds_node node p t m2"
    by (rule add_node [OF lay inv cl lo _ ne, where W = "write_node node p d (path @ 0x2f # name) m"])
      (use IHn [OF ok(3)] ok(1) in \<open>auto simp: nm\<close>)
  have nb: "nextbno m1 = nextbno m + (?D (Suc (length rs)) - ?D (length rs)) + node_space node p"
    and inv1: "dir_inv p lo d (rs @ [t]) (?D (length (rs @ [t]))) m1" and cl1: "clean m1"
    using m1(2) by (simp_all add: added_def)
  have "lo \<le> nextbno m1" using lo(2) nb by simp
  moreover have "length (rs @ [t]) + entry_count es \<le> NDIRECT p * FILE2BLK p" using few nd by simp
  moreover have "nextbno m1 + (?D (length (rs @ [t]) + entry_count es) - ?D (length (rs @ [t]))) + entries_space es p \<le> NBLOCK"
    using sum mono nb by simp
  ultimately obtain m' ts where m': "write_entries es p d path m1 = Ret (Inr m')" "entries_written p lo d (rs @ [t]) es ts m1 m'"
    using IHe [OF inv1 cl1] by blast
  have "write_entries (Entry name node es) p d path m = Ret (Inr m')" using nd m1(1) m'(1) by (simp add: andThen_exit_def)
  then show ?thesis using entries_written_Cons [OF l inv nd m1(2,3) m'(2)] by blast
qed

lemma tree_written:
  assumes lay: "tree_layout p"
  shows "node_fits node p \<Longrightarrow> create_file p d m = Ret (t, m1) \<Longrightarrow> file_inv p t 0 m1 \<Longrightarrow> index_block p t m1 = 0 \<Longrightarrow>
      struct_zero p t m1 \<Longrightarrow> clean m1 \<Longrightarrow> name_fits p (node_name node path) \<Longrightarrow> nextbno m1 + node_space node p \<le> NBLOCK \<Longrightarrow>
      \<exists>m'. write_node node p d path m = Ret (Inr m') \<and> slot_filled p t (node_name node path) node m1 m'"
    and "entries_fit es p \<Longrightarrow> dir_inv p lo d rs (dir_size p (length rs)) m \<Longrightarrow> clean m \<Longrightarrow> 0 < lo \<Longrightarrow> lo \<le> nextbno m \<Longrightarrow>
      length rs + entry_count es \<le> NDIRECT p * FILE2BLK p \<Longrightarrow>
      nextbno m + (dir_size p (length rs + entry_count es) - dir_size p (length rs)) + entries_space es p \<le> NBLOCK \<Longrightarrow>
      \<exists>m' ts. write_entries es p d path m = Ret (Inr m') \<and> entries_written p lo d rs es ts m m'"
proof (induction node and es arbitrary: d path m t m1 and lo d path rs m)
  case (Regular f)
  then show ?case using written_file_node [of p d m t m1 f path] lay by (simp add: node_name_def tree_layout_def)
next
  case (Directory es)
  have l: "layout_ok p" using lay by (simp add: tree_layout_def)
  note pre = Directory.prems
  have name: "name_fits p (basename path)" using pre(7) by (simp add: node_name_def)
  obtain m2 where m2: "write_dir_entry p d path m = Ret (Inr (t, m2))" "file_name p t m2 = basename path"
    "the_field t (f_type p) m2 = FTYPE_DIR p" "the_field t (f_size p) m2 = 0" "index_block p t m2 = 0"
    "nextbno m2 = nextbno m1" "\<forall>a i. \<not> in_struct p t a i \<longrightarrow> area_bytes m2 a i = area_bytes m1 a i"
    using write_dir_entry_ok [OF l pre(2,3,5) name] by blast
  have fresh: "fst t \<noteq> In_block b" if "nextbno m1 \<le> b" for b using pre(3) that by (auto simp: file_inv_def allocated_def)
  have "disk_data m2 b i = disk_data m1 b i" if "nextbno m1 \<le> b" for b i
    using m2(7) fresh [OF that] area_bytes.simps(2) by (metis in_struct_def)
  then have cl2: "clean m2" using pre(6) m2(6) by (auto simp: clean_def)
  have "file_inv p t 0 m2" using pre(3) m2(5,6) by (auto simp: file_inv_def allocated_def split: area.splits if_splits)
  then have inv2: "dir_inv p (nextbno m2) t [] (dir_size p (length [])) m2"
    using new_dir_inv m2(4,5) by (simp add: dir_size_0 [OF l])
  have fit: "entries_fit es p" "length [] + entry_count es \<le> NDIRECT p * FILE2BLK p" using pre(1) by simp_all
  have room: "nextbno m2 + (dir_size p (length [] + entry_count es) - dir_size p (length [])) + entries_space es p \<le> NBLOCK"
    using pre(8) m2(6) by (simp add: dir_size_0 [OF l])
  have "0 < nextbno m2" using inv2 by (simp add: dir_inv_def file_inv_def)
  then obtain m' ts where m': "write_entries es p t path m2 = Ret (Inr m')" "entries_written p (nextbno m2) t [] es ts m2 m'"
    using Directory.IH [OF fit(1) inv2 cl2 _ order_refl fit(2) room] by blast
  have "write_node (Directory es) p d path m = Ret (Inr m')" using m2(1) m'(1) by (simp add: andThen_exit_def)
  then show ?case using dir_fills_slot [OF l pre(3,6) m2(2-7) m'(2)] by (simp add: node_name_def)
next
  case Not_opened
  then show ?case by simp
next
  case (Special f)
  then obtain m' where "write_node (Regular f) p d path m = Ret (Inr m')" "slot_filled p t (after_slash path) (Regular f) m1 m'"
    using written_file_node [of p d m t m1 f path] lay by (auto simp: node_name_def tree_layout_def)
  moreover have "slot_filled p t name (Special f) m1 m' = slot_filled p t name (Regular f) m1 m'" for name by (simp add: slot_filled_def)
  moreover have "write_node (Special f) p d path m = write_node (Regular f) p d path m" by simp
  ultimately show ?case by (auto simp only: node_name_def fnode.case)
next
  case No_entry
  then show ?case by (auto simp: entries_written_def written_def intro: added_nil)
next
  case (Entry name node es)
  show ?case
  proof (cases "dots name")
    case True
    then have "entries_written p lo d rs (Entry name node es) = entries_written p lo d rs es"
      by (simp add: entries_written_def written_def fun_eq_iff)
    then show ?thesis using True Entry.IH(2) [of lo d rs m path] Entry.prems by simp
  next
    case False
    then have "entries_fit es p" "name_fits p name" "0x2f \<notin> set name" "node_fits node p" using Entry.prems(1) by simp_all
    then show ?thesis
      using write_Entry [OF lay Entry.prems(2-5) False _ _ _ Entry.prems(6,7) Entry.IH(1) Entry.IH(2)] Entry.prems(4) by blast
  qed
qed

end
