(* ===== verification/FsProgram.thy ===== *)
theory FsProgram
  imports FsTree
begin

text \<open>
  The whole run of tools/fsformat.c: the arguments of the command line in the root directory, the bitmap, and the
  blocks of the image file as a program that has read them finds them.
\<close>

section \<open>The command line\<close>

text \<open>A file of the command line that can be written.\<close>

definition arg_fits :: "fs_h \<Rightarrow> (u8 list \<Rightarrow> fnode option) \<Rightarrow> u8 list \<Rightarrow> bool" where
  "arg_fits p stat name \<longleftrightarrow> (case stat name of None \<Rightarrow> False
     | Some node \<Rightarrow> node_fits node p \<and> name_fits p (node_name node name) \<and> (case node of Special f \<Rightarrow> False | _ \<Rightarrow> True))"

definition args_space :: "fs_h \<Rightarrow> (u8 list \<Rightarrow> fnode option) \<Rightarrow> u8 list list \<Rightarrow> nat" where
  "args_space p stat names = (\<Sum>name\<leftarrow>names. node_space (the (stat name)) p)"

definition holds_args :: "fs_h \<Rightarrow> (u8 list \<Rightarrow> fnode option) \<Rightarrow> u8 list list \<Rightarrow> file_ptr list \<Rightarrow> image \<Rightarrow> bool" where
  "holds_args p stat names rs m \<longleftrightarrow>
     list_all2 (\<lambda>name r. file_name p r m = node_name (the (stat name)) name \<and> holds_node (the (stat name)) p r m) names rs"

lemma main_args_written:
  assumes lay: "tree_layout p"
  shows "list_all (arg_fits p stat) names \<Longrightarrow> dir_inv p lo (In_super, s_root p) rs (dir_size p (length rs)) m \<Longrightarrow> clean m \<Longrightarrow>
      0 < lo \<Longrightarrow> lo \<le> nextbno m \<Longrightarrow> length rs + length names \<le> NDIRECT p * FILE2BLK p \<Longrightarrow>
      nextbno m + (dir_size p (length rs + length names) - dir_size p (length rs)) + args_space p stat names \<le> NBLOCK \<Longrightarrow>
      \<exists>m' ts. main_args p stat names m = Ret (Inr m') \<and> length ts = length names \<and>
        written p lo (In_super, s_root p) rs ts (args_space p stat names) (holds_args p stat names) m m'"
proof (induction names arbitrary: rs m)
  case Nil
  then show ?case by (intro exI [of _ m] exI [of _ "[]"]) (simp add: written_def added_nil args_space_def holds_args_def)
next
  case (Cons name names)
  let ?d = "(In_super, s_root p)" and ?D = "dir_size p"
  note pre = Cons.prems
  have l: "layout_ok p" using lay by (simp add: tree_layout_def)
  obtain node where node: "stat name = Some node" "node_fits node p" "name_fits p (node_name node name)" "\<forall>f. node \<noteq> Special f"
    using pre(1) by (auto simp: arg_fits_def split: option.splits fnode.splits)
  have sp: "args_space p stat (name # names) = node_space node p + args_space p stat names"
    using node(1) by (simp add: args_space_def)
  have mono: "?D (length rs) \<le> ?D (Suc (length rs))" "?D (Suc (length rs)) \<le> ?D (Suc (length rs) + length names)"
    by (simp_all add: dir_size_mono)
  have sum: "nextbno m + (?D (Suc (length rs) + length names) - ?D (length rs)) + node_space node p + args_space p stat names \<le> NBLOCK"
    using pre(7) sp by simp
  have few: "length rs < NDIRECT p * FILE2BLK p" using pre(6) by simp
  have ne: "node_name node name \<noteq> []" using node(3) by (simp add: name_fits_def)
  have room: "nextbno m + (?D (Suc (length rs)) - ?D (length rs)) + node_space node p \<le> NBLOCK" using sum mono by simp
  obtain t m1 where m1: "write_node node p ?d name m = Ret (Inr m1)" "added p lo ?d rs [t] (node_space node p) m m1"
    "\<forall>m2. agree p t (own_blocks p ?d (rs @ [t]) m m1) m1 m2 \<longrightarrow> file_name p t m2 = node_name node name \<and> holds_node node p t m2"
    by (rule add_node [OF lay pre(2-5) few ne room, where W = "write_node node p ?d name m"])
      (use tree_written(1) [OF lay node(2) _ _ _ _ _ node(3)] in auto)
  have step: "main_args p stat (name # names) m = main_args p stat names m1"
  proof (cases node)
    case (Regular f)
    then obtain m2 where "write_file p ?d name f m = Ret m2" "m2 = m1"
      using m1(1) by (cases "write_file p ?d name f m") auto
    then show ?thesis using node(1) Regular by simp
  qed (use node m1(1) in \<open>auto simp: write_directory_def andThen_exit_def [of "Ret (Inr m1)"] simp del: write_node.simps\<close>)
  have nb: "nextbno m1 = nextbno m + (?D (Suc (length rs)) - ?D (length rs)) + node_space node p"
    and inv1: "dir_inv p lo ?d (rs @ [t]) (?D (length (rs @ [t]))) m1" and cl1: "clean m1"
    using m1(2) by (simp_all add: added_def)
  have fits: "list_all (arg_fits p stat) names" using pre(1) by simp
  have "lo \<le> nextbno m1" using pre(5) nb by simp
  moreover have "length (rs @ [t]) + length names \<le> NDIRECT p * FILE2BLK p" using pre(6) by simp
  moreover have "nextbno m1 + (?D (length (rs @ [t]) + length names) - ?D (length (rs @ [t]))) + args_space p stat names \<le> NBLOCK"
    using sum mono nb by simp
  ultimately obtain m' ts where m': "main_args p stat names m1 = Ret (Inr m')" "length ts = length names"
    "written p lo ?d (rs @ [t]) ts (args_space p stat names) (holds_args p stat names) m1 m'"
    using Cons.IH [OF fits inv1 cl1 pre(4)] by blast
  have "written p lo ?d rs (t # ts) (args_space p stat (name # names)) (holds_args p stat (name # names)) m m'"
    using written_Cons [OF l pre(2) m1(2,3) m'(3)] node(1) sp by (simp add: written_def holds_args_def)
  then show ?case using step m'(1,2) by (intro exI [of _ m'] exI [of _ "t # ts"]) simp
qed

section \<open>The image file\<close>

text \<open>The image as a program that has read the file's blocks finds it.\<close>

definition read_image :: "u8 list list \<Rightarrow> image" where
  "read_image out = \<lparr>disk_data = (\<lambda>b i. out ! b ! i), disk_type = (\<lambda>_. BLOCK_FREE), super = (\<lambda>i. out ! 1 ! i), nbitblock = 1,
     nextbno = 0\<rparr>"

definition root_dir :: "fs_h \<Rightarrow> file_ptr" where
  "root_dir p = (In_super, s_root p)"

lemma root_dir_inv: "layout_ok p \<Longrightarrow> dir_inv p 3 (In_super, s_root p) [] (dir_size p 0) (disk0 p)"
  using disk0_super [of p] by (simp add: new_dir_inv)

lemma disk0_clean: "clean (disk0 p)" and disk0_nextbno: "nextbno (disk0 p) = 3"
  by (auto simp: clean_def disk0_def)

lemma finished_image:
  assumes lay: "layout_ok p" and nb: "nextbno m \<le> NBLOCK"
  obtains m1 m2 out where "flush_bitmap p m = Ret m1" "finish_fs p False (\<lambda>_. True) m1 = Ret (out, m2)" "length out = 1024"
    "\<forall>b\<in>{3..<NBLOCK}. \<forall>i<BLOCK_SIZE p. disk_data (read_image out) b i = disk_data m b i"
    "\<forall>i < sizeof_Super p. super (read_image out) i = super m i"
    "\<forall>i<NBLOCK. bitmap_bit p (read_image out) i = (bitmap_bit p m i \<and> nextbno m \<le> i)"
proof -
  obtain m1 where m1: "flush_bitmap p m = Ret m1" "\<forall>i<NBLOCK. bitmap_bit p m1 i = (bitmap_bit p m i \<and> nextbno m \<le> i)"
    "\<And>a. a \<noteq> In_block 2 \<Longrightarrow> area_bytes m1 a = area_bytes m a"
    using flush_bitmap_bits [OF lay nb] by blast
  let ?out = "\<lambda>m2. map (\<lambda>i. map (disk_data m2 i) [0..<BLOCK_SIZE p]) [0..<1024]"
  obtain m2 where m2: "finish_fs p False (\<lambda>_. True) m1 = Ret (?out m2, m2)"
    "\<forall>j < sizeof_Super p. disk_data m2 1 j = super m1 j" "\<forall>b. b \<noteq> 1 \<longrightarrow> disk_data m2 b = disk_data m1 b"
    using finish_fs_plain [OF lay] by blast
  have data: "disk_data (read_image (?out m2)) b i = disk_data m2 b i" if "b < NBLOCK" "i < BLOCK_SIZE p" for b i
    using that by (simp add: read_image_def NBLOCK_def)
  have "disk_data (read_image (?out m2)) b i = disk_data m b i" if "b \<in> {3..<NBLOCK}" "i < BLOCK_SIZE p" for b i
    using that data m2(3) m1(3) [of "In_block b"] by simp
  moreover have "super (read_image (?out m2)) i = super m i" if "i < sizeof_Super p" for i
    using that layout_sizes(6) [OF lay] m2(2) m1(3) [of In_super] by (simp add: read_image_def)
  moreover have "bitmap_bit p (read_image (?out m2)) i = (bitmap_bit p m i \<and> nextbno m \<le> i)" if i: "i < NBLOCK" for i
  proof -
    note one = one_bitmap_block [OF lay i]
    have "word32_at (disk_data (read_image (?out m2)) 2) (4 * (i div 32)) = word32_at (disk_data m1 2) (4 * (i div 32))"
      using one(3) m2(3) data [of 2] by (intro word32_cong) (simp add: NBLOCK_def)
    then have "bitmap_bit p (read_image (?out m2)) i = bitmap_bit p m1 i" using one by (simp add: bitmap_bit_def)
    then show ?thesis using m1(2) i by simp
  qed
  ultimately show thesis using that [OF m1(1) m2(1)] by simp
qed

text \<open>Everything on the command line is in the image, and nothing else.\<close>

lemma super_words_kept:
  assumes lay: "layout_ok p" and ad: "added p lo (In_super, s_root p) [] ts sp m m'"
    and i: "i + 4 \<le> s_root p \<or> s_root p + FILE_STRUCT_SIZE p \<le> i"
  shows "word32_at (super m') i = word32_at (super m) i"
proof (rule word32_cong)
  fix j assume j: "i \<le> j" "j < i + 4"
  have "\<not> in_struct p (In_super, s_root p) In_super j" using i j by (auto simp: in_struct_def)
  then have "\<not> grows_part p (In_super, s_root p) In_super j"
    using links_part_in_struct [OF lay] layout_fields(2) [OF lay] unfolding grows_part_def in_struct_def by fastforce
  moreover have "unused_part p (In_super, s_root p) [] m = {}" by (simp add: unused_part_def dir_size_0 [OF lay] dir_slots_def)
  moreover have "allocated m In_super" by (simp add: allocated_def)
  ultimately have "area_bytes m' In_super j = area_bytes m In_super j" using ad unfolding added_def by blast
  then show "super m' j = super m j" by simp
qed

lemma fsformat_tree:
  assumes lay: "tree_layout p" and argv: "3 \<le> length argv" and fits: "list_all (arg_fits p stat) (drop 2 argv)"
    and few: "length (drop 2 argv) \<le> NDIRECT p * FILE2BLK p"
    and room: "3 + dir_size p (length (drop 2 argv)) + args_space p stat (drop 2 argv) \<le> NBLOCK"
  shows "\<exists>out. fsformat_main p False (\<lambda>_. True) stat argv = Ret (0, Some out) \<and> length out = 1024 \<and>
    word32_at (super (read_image out)) (s_magic p) = FS_MAGIC p \<and> word32_at (super (read_image out)) (s_nblocks p) = 1024 \<and>
    holds_args p stat (drop 2 argv) (used_slots p (root_dir p) (read_image out)) (read_image out) \<and>
    (\<forall>i<NBLOCK. bitmap_bit p (read_image out) i =
       (3 + dir_size p (length (drop 2 argv)) + args_space p stat (drop 2 argv) \<le> i))"
proof -
  let ?names = "drop 2 argv" and ?d = "(In_super, s_root p)"
  have l: "layout_ok p" using lay by (simp add: tree_layout_def)
  note zero = dir_size_0 [OF l]
  have inv: "dir_inv p 3 ?d [] (dir_size p (length [])) (disk0 p)" using root_dir_inv [OF l] by simp
  have "nextbno (disk0 p) + (dir_size p (length [] + length ?names) - dir_size p (length [])) + args_space p stat ?names \<le> NBLOCK"
    using room by (simp add: disk0_nextbno zero)
  then obtain m ts where m: "main_args p stat ?names (disk0 p) = Ret (Inr m)" "length ts = length ?names"
    "written p 3 ?d [] ts (args_space p stat ?names) (holds_args p stat ?names) (disk0 p) m"
    using main_args_written [OF lay fits inv disk0_clean] few by (auto simp: disk0_nextbno)
  have ad: "added p 3 ?d [] ts (args_space p stat ?names) (disk0 p) m"
    and hold: "\<And>m2. \<forall>t\<in>set ts. agree p t {3..<nextbno m} m m2 \<Longrightarrow> holds_args p stat ?names ts m2"
    using m(3) by (simp_all add: written_def disk0_nextbno)
  have nb: "nextbno m = 3 + dir_size p (length ?names) + args_space p stat ?names"
    and dinv: "dir_inv p 3 ?d ts (dir_size p (length ts)) m"
    using ad m(2) by (simp_all add: added_def disk0_nextbno zero)
  have nbl: "nextbno m \<le> NBLOCK" using nb room by simp
  obtain m1 m2 out where out: "flush_bitmap p m = Ret m1" "finish_fs p False (\<lambda>_. True) m1 = Ret (out, m2)" "length out = 1024"
    "\<forall>b\<in>{3..<NBLOCK}. \<forall>i<BLOCK_SIZE p. disk_data (read_image out) b i = disk_data m b i"
    "\<forall>i < sizeof_Super p. super (read_image out) i = super m i"
    "\<forall>i<NBLOCK. bitmap_bit p (read_image out) i = (bitmap_bit p m i \<and> nextbno m \<le> i)"
    by (rule finished_image [OF l nbl])
  have ag: "agree p ?d {3..<nextbno m} m (read_image out)"
    using out(4,5) nbl layout_sizes(7) [OF l] by (simp add: agree_def)
  have slots: "used_slots p (root_dir p) (read_image out) = ts"
    using used_slots_agree [OF l dinv ag] dir_inv_used [OF l dinv] by (simp add: root_dir_def)
  have "unused_part p ?d [] (disk0 p) = {}" by (simp add: unused_part_def zero dir_slots_def)
  moreover have "allocated (disk0 p) (In_block 2)" "\<not> grows_part p ?d (In_block 2) i" for i
    by (simp_all add: allocated_def disk0_nextbno grows_part_def links_part_def)
  ultimately have "area_bytes m (In_block 2) i = area_bytes (disk0 p) (In_block 2) i" for i
    using ad unfolding added_def by blast
  then have "disk_data m 2 = disk_data (disk0 p) 2" by (simp add: fun_eq_iff)
  then have "bitmap_bit p m i" if "i < NBLOCK" for i
    using disk0_bits [OF l that] one_bitmap_block [OF l that] by (simp add: bitmap_bit_def)
  then have "\<forall>i<NBLOCK. bitmap_bit p (read_image out) i = (nextbno m \<le> i)" using out(6) by simp
  moreover have "fsformat_main p False (\<lambda>_. True) stat argv = Ret (0, Some out)"
    using argv init_disk_disk0 [OF l] m(1) out(1,2) by (simp add: fsformat_main_def)
  moreover have "word32_at (super (read_image out)) i = word32_at (super0 p) i"
    if "i + 4 \<le> sizeof_Super p" "i + 4 \<le> s_root p \<or> s_root p + FILE_STRUCT_SIZE p \<le> i" for i
  proof -
    have "word32_at (super (read_image out)) i = word32_at (super m) i" using out(5) that(1) by (intro word32_cong) simp
    then show ?thesis using super_words_kept [OF l ad that(2)] by (simp add: disk0_def)
  qed
  then have "word32_at (super (read_image out)) (s_magic p) = FS_MAGIC p" "word32_at (super (read_image out)) (s_nblocks p) = 1024"
    using layout_super(2,3) [OF l] layout_sizes(9,10) [OF l] disk0_super(1,2) [OF l] by simp_all
  moreover have "holds_args p stat ?names ts (read_image out)" using hold entry_agree [OF l dinv ag] by blast
  ultimately show ?thesis using out(3) slots nb by (intro exI [of _ out]) simp
qed

end
