(* ===== verification/Bintoc.thy ===== *)
theory Bintoc
  imports Print
begin

text \<open>
  tools/bintoc.c, the host program that turns a binary into a C array. The host's files are a function from names
  to contents; a failed \<open>assert\<close> is a \<open>Panic\<close>. The generated text reads back as the binary it was made from.
\<close>

section \<open>The program\<close>

definition BMAX :: nat where "BMAX = 4 * 2 ^ 25"

record options =
  opt_prefix :: "u8 list option"
  opt_bin :: "u8 list option"
  opt_out :: "u8 list option"

definition no_options :: options where
  "no_options = \<lparr>opt_prefix = None, opt_bin = None, opt_out = None\<rparr>"

text \<open>An option takes the next argument, which has to exist, and may be given once. \<open>None\<close> is the help text.\<close>

fun parse_args :: "u8 list list \<Rightarrow> options \<Rightarrow> options option outcome" where
  "parse_args [] opts = Ret (Some opts)"
| "parse_args (a # rest) opts =
     (if a = [] \<or> hd a \<noteq> 0x2d then parse_args rest opts
      else if a = ascii ''-f'' then
        (case rest of
           [] \<Rightarrow> Panic ''assert''
         | v # rest' \<Rightarrow> if opt_bin opts = None then parse_args rest' (opts\<lparr>opt_bin := Some v\<rparr>) else Panic ''assert'')
      else if a = ascii ''-o'' then
        (case rest of
           [] \<Rightarrow> Panic ''assert''
         | v # rest' \<Rightarrow> if opt_out opts = None then parse_args rest' (opts\<lparr>opt_out := Some v\<rparr>) else Panic ''assert'')
      else if a = ascii ''-p'' then
        (case rest of
           [] \<Rightarrow> Panic ''assert''
         | v # rest' \<Rightarrow> if opt_prefix opts = None then parse_args rest' (opts\<lparr>opt_prefix := Some v\<rparr>) else Panic ''assert'')
      else Ret None)"

definition help_text :: "u8 list" where
  "help_text =
     ascii ''convert ELF binary file to C file.'' @ [0x0a] @
     ascii '' -h            print this message'' @ [0x0a] @
     ascii '' -f <file>     tell the binary file  (input)'' @ [0x0a] @
     ascii '' -o <file>     tell the c file       (output)'' @ [0x0a] @
     ascii '' -p <prefix>   add prefix to the array name'' @ [0x0a]"

definition up_to_dot :: "u8 list \<Rightarrow> u8 list" where
  "up_to_dot name = takeWhile (\<lambda>c. c \<noteq> 0x2e) name"

text \<open>The host's \<open>%d\<close> of a number that is not negative, and its \<open>%x\<close>.\<close>

definition dec_text :: "nat \<Rightarrow> u8 list" where
  "dec_text n = rev (num_digits 10 False (word_of_nat n))"

definition hex_text :: "u32 \<Rightarrow> u8 list" where
  "hex_text w = rev (num_digits 16 False (ucast w))"

fun array_text :: "u8 list \<Rightarrow> u8 list" where
  "array_text [] = []"
| "array_text (b # bs) = ascii ''0x'' @ hex_text (ucast b) @ (if bs \<noteq> [] then 0x2c else 0x7d) # array_text bs"

definition c_text :: "u8 list \<Rightarrow> u8 list \<Rightarrow> u8 list \<Rightarrow> u8 list" where
  "c_text prefix name binary =
     ascii ''unsigned int binary_'' @ prefix @ ascii ''_'' @ name @ ascii ''_size = '' @ dec_text (length binary) @
     ascii '';'' @ [0x0a] @
     ascii ''unsigned char binary_'' @ prefix @ ascii ''_'' @ name @ ascii ''_start[] = {'' @
     array_text binary @ ascii '';'' @ [0x0a]"

text \<open>The output file is truncated when it is opened, before the input is read. The result is the exit status, what
  is printed and the file written.\<close>

definition bintoc_main :: "(u8 list \<Rightarrow> u8 list option) \<Rightarrow> (u8 list \<Rightarrow> bool) \<Rightarrow> u8 list list \<Rightarrow>
    (int \<times> u8 list \<times> (u8 list \<times> u8 list) option) outcome" where
  "bintoc_main files writable args =
     andThen (parse_args (drop 1 args) no_options) (\<lambda>r.
       case r of
         None \<Rightarrow> Ret (0, help_text, None)
       | Some opts \<Rightarrow>
           (case (opt_bin opts, opt_out opts) of
              (Some bin_file, Some out_file) \<Rightarrow>
                (let prefix = (case opt_prefix opts of Some s \<Rightarrow> s | None \<Rightarrow> []);
                     bin = files bin_file; name = up_to_dot bin_file in
                 if bin = None \<or> \<not> writable out_file then Panic ''assert''
                 else (let binary = (if out_file = bin_file then [] else the bin) in
                   if length binary < BMAX then Ret (0, [], Some (out_file, c_text prefix name binary))
                   else Panic ''assert''))
            | _ \<Rightarrow> Panic ''assert''))"

section \<open>Reading the text back\<close>

text \<open>What a compiler makes of the initialiser: items that end with a comma or the closing brace, each \<open>0x\<close> and
  digits.\<close>

definition item_value :: "u8 list \<Rightarrow> u8" where
  "item_value cs = word_of_nat (read_nat 16 0 (drop 2 cs))"

fun read_items :: "u8 list \<Rightarrow> u8 list \<Rightarrow> u8 list" where
  "read_items item [] = []"
| "read_items item (c # cs) =
     (if c = 0x2c then item_value item # read_items [] cs
      else if c = 0x7d then [item_value item]
      else read_items (item @ [c]) cs)"

lemma read_items_skip:
  "\<forall>c\<in>set cs. c \<noteq> 0x2c \<and> c \<noteq> 0x7d \<Longrightarrow> read_items item (cs @ t) = read_items (item @ cs) t"
  by (induction cs arbitrary: item) auto

lemma num_digits_char:
  "2 \<le> base \<Longrightarrow> base \<le> 16 \<Longrightarrow> c \<in> set (num_digits base upcase u) \<Longrightarrow> \<exists>t<16. c = digit_char upcase t"
proof (induction base upcase u rule: num_digits.induct)
  case (1 base upcase u)
  then show ?case
    using mod_nibble [OF "1.prems"(1,2)] num_digits.simps [of base upcase u] by (auto split: if_splits)
qed

lemma hex_text_digit: "c \<in> set (hex_text w) \<Longrightarrow> c \<noteq> 0x2c \<and> c \<noteq> 0x7d"
  using num_digits_char [of 16 c False "ucast w"] nibble by (force simp: hex_text_def digit_char_def)

lemma read_hex_text: "read_nat 16 0 (hex_text w) = unat w"
proof -
  have "unat w < 2 ^ 64" using unat_bound [of w] by simp
  then show ?thesis
    using read_num_digits [of 16 False "ucast w"] by (simp add: hex_text_def unsigned_ucast_eq take_bit_nat_eq_self)
qed

lemma item_value_text: "item_value (ascii ''0x'' @ hex_text (ucast b)) = b"
proof -
  have "unat b < 2 ^ 32" using unat_bound [of b] by simp
  then have "unat (ucast b :: u32) = unat b" by (simp add: unsigned_ucast_eq take_bit_nat_eq_self)
  then show ?thesis by (simp add: item_value_def ascii_def read_hex_text)
qed

lemma read_array_text: "bs \<noteq> [] \<Longrightarrow> read_items [] (array_text bs @ t) = bs"
proof (induction bs)
  case (Cons b bs)
  let ?item = "ascii ''0x'' @ hex_text (ucast b)"
  have "\<forall>c\<in>set ?item. c \<noteq> 0x2c \<and> c \<noteq> 0x7d" using hex_text_digit by (auto simp: ascii_def)
  from read_items_skip [OF this, of "[]"] have skip: "read_items [] (?item @ r) = read_items ?item r" for r by simp
  have "read_items [] (array_text (b # bs) @ t) =
      read_items ?item ((if bs \<noteq> [] then 0x2c else 0x7d) # array_text bs @ t)"
    using skip by simp
  then show ?case using Cons item_value_text by simp
qed simp

text \<open>The reader of the whole text: the length after the first equals sign, the bytes after the brace.\<close>

definition after :: "u8 \<Rightarrow> u8 list \<Rightarrow> u8 list" where
  "after c t = tl (dropWhile (\<lambda>d. d \<noteq> c) t)"

definition read_c_text :: "u8 list \<Rightarrow> nat \<times> u8 list" where
  "read_c_text t =
     (read_nat 10 0 (takeWhile (\<lambda>c. c \<noteq> 0x3b) (drop 1 (after 0x3d t))), read_items [] (after 0x7b t))"

lemma after_skip: "c \<notin> set xs \<Longrightarrow> after c (xs @ c # ys) = ys"
  by (induction xs) (auto simp: after_def)

lemma dec_text_digit: "c \<in> set (dec_text n) \<Longrightarrow> c \<noteq> 0x3b \<and> c \<noteq> 0x3d \<and> c \<noteq> 0x7b"
  using num_digits_char [of 10 c False "word_of_nat n"] nibble by (force simp: dec_text_def digit_char_def)

lemma read_dec_text: "n < 2 ^ 64 \<Longrightarrow> read_nat 10 0 (dec_text n) = n"
  using read_num_digits [of 10 False "word_of_nat n"] by (simp add: dec_text_def unat_of_nat)

lemma read_c_text_of:
  assumes "binary \<noteq> []" and "length binary < BMAX"
    and "{0x3d, 0x7b} \<inter> set prefix = {}" and "{0x3d, 0x7b} \<inter> set name = {}"
  shows "read_c_text (c_text prefix name binary) = (length binary, binary)"
proof -
  let ?n = "dec_text (length binary)" and ?head = "ascii ''unsigned int binary_'' @ prefix @ ascii ''_'' @ name @ ascii ''_size ''"
  let ?decl = "[0x0a] @ ascii ''unsigned char binary_'' @ prefix @ ascii ''_'' @ name @ ascii ''_start[] = ''"
  have shape: "c_text prefix name binary =
      ?head @ 0x3d # 0x20 # ?n @ 0x3b # ?decl @ 0x7b # array_text binary @ ascii '';'' @ [0x0a]"
    by (simp add: c_text_def ascii_def)
  have "0x3d \<notin> set ?head" using assms(3,4) by (auto simp: ascii_def)
  then have eq: "after 0x3d (c_text prefix name binary) =
      0x20 # ?n @ 0x3b # ?decl @ 0x7b # array_text binary @ ascii '';'' @ [0x0a]"
    unfolding shape by (rule after_skip)
  have "0x7b \<notin> set (?head @ 0x3d # 0x20 # ?n @ 0x3b # ?decl)"
    using assms(3,4) dec_text_digit by (fastforce simp: ascii_def)
  from after_skip [OF this] have brace: "after 0x7b (c_text prefix name binary) = array_text binary @ ascii '';'' @ [0x0a]"
    unfolding shape by simp
  have "\<forall>c\<in>set ?n. c \<noteq> 0x3b" using dec_text_digit by blast
  then have "takeWhile (\<lambda>c. c \<noteq> 0x3b) (?n @ 0x3b # r) = ?n" for r by (simp add: takeWhile_append2)
  moreover have "length binary < 2 ^ 64" using assms(2) by (simp add: BMAX_def)
  ultimately show ?thesis
    using read_array_text [OF assms(1)] by (simp add: read_c_text_def eq brace read_dec_text)
qed

text \<open>The call of the build: the three options in this order.\<close>

lemma bintoc_build:
  assumes "files bin = Some binary" and "writable out" and "out \<noteq> bin" and "length binary < BMAX"
  shows "bintoc_main files writable [prog, ascii ''-f'', bin, ascii ''-o'', out, ascii ''-p'', prefix] =
    Ret (0, [], Some (out, c_text prefix (up_to_dot bin) binary))"
  using assms by (simp add: bintoc_main_def ascii_def no_options_def Let_def)

end
