(* ===== verification/Tools.thy ===== *)
theory Tools
  imports FsProgram Bintoc Readelf
begin

text \<open>
  The properties of the host tools: the disk image tools/fsformat.c writes, the C file tools/bintoc.c writes and
  the listing of tools/readelf.
\<close>

section \<open>The disk image\<close>

text \<open>C31: a run of fsformat on files and directories of the host, with everything in them, writes an image from
  which the same tree reads back. The root directory has one entry for each argument, in order, with its last
  component as its name; a file has its type, size and bytes; a directory has its type and one entry for each that
  \<open>readdir\<close> gave but itself and its parent, in order, down to the leaves. The super block has its magic number and the
  number of blocks, and the bitmap has as used exactly the blocks the tree takes. The tree fits when its blocks do,
  no directory has more entries than its direct blocks hold, and every name is shorter than \<open>MAXNAMELEN\<close>.\<close>

theorem fsformat_writes_tree:
  assumes "tree_layout p" and "3 \<le> length argv" and "list_all (arg_fits p stat) (drop 2 argv)"
    and "length (drop 2 argv) \<le> NDIRECT p * FILE2BLK p"
    and "3 + dir_size p (length (drop 2 argv)) + args_space p stat (drop 2 argv) \<le> NBLOCK"
  shows "\<exists>out. fsformat_main p False (\<lambda>_. True) stat argv = Ret (0, Some out) \<and> length out = 1024 \<and>
    word32_at (super (read_image out)) (s_magic p) = FS_MAGIC p \<and> word32_at (super (read_image out)) (s_nblocks p) = 1024 \<and>
    holds_args p stat (drop 2 argv) (used_slots p (root_dir p) (read_image out)) (read_image out) \<and>
    (\<forall>i<NBLOCK. bitmap_bit p (read_image out) i =
       (3 + dir_size p (length (drop 2 argv)) + args_space p stat (drop 2 argv) \<le> i))"
  using assms by (rule fsformat_tree)

text \<open>A file of 13 blocks and a directory with what \<open>readdir\<close> gives for itself and its parent, a small file and an
  empty directory.\<close>

definition host_files :: "u8 list \<Rightarrow> fnode option" where
  "host_files name =
     (if name = [0x6d] then Some (Regular (Some (replicate 50000 0x78)))
      else if name = [0x62, 0x2f] then Some (Directory
        (Entry [0x2e] (Directory No_entry) (Entry [0x2e, 0x2e] Not_opened
        (Entry [0x73] (Regular (Some [1, 2, 3])) (Entry [0x65] (Directory No_entry) No_entry)))))
      else None)"

lemma fsformat_writes_tree_witness:
  "\<exists>out rs. fsformat_main mos_fs_h False (\<lambda>_. True) host_files [[0x66], [0x69], [0x6d], [0x62, 0x2f]] = Ret (0, Some out) \<and>
    used_slots mos_fs_h (root_dir mos_fs_h) (read_image out) = rs \<and> map (\<lambda>r. file_name mos_fs_h r (read_image out)) rs = [[0x6d], [0x62]] \<and>
    read_file mos_fs_h (rs ! 0) (read_image out) = replicate 50000 0x78"
proof -
  have size: "NDIRECT mos_fs_h = 10" "NINDIRECT mos_fs_h = 1024" "FILE2BLK mos_fs_h = 16" "MAXNAMELEN mos_fs_h = 128"
    "file_blocks mos_fs_h 50000 = 13" "file_blocks mos_fs_h (Suc (Suc (Suc 0))) = 1" "dir_size mos_fs_h 0 = 0" "dir_size mos_fs_h 2 = 1"
    "dir_size mos_fs_h (Suc (Suc 0)) = 1"
    by (simp_all add: mos_fs_h_def file_blocks_def dir_size_def)
  have stat: "host_files [0x6d] = Some (Regular (Some (replicate 50000 0x78)))"
    "host_files [0x62, 0x2f] = Some (Directory
        (Entry [0x2e] (Directory No_entry) (Entry [0x2e, 0x2e] Not_opened
        (Entry [0x73] (Regular (Some [1, 2, 3])) (Entry [0x65] (Directory No_entry) No_entry)))))"
    by (simp_all add: host_files_def)
  have names: "after_slash [0x6d] = [0x6d]" "basename [0x62, 0x2f] = [0x62]"
    by (simp_all add: after_slash_def basename_def)
  have "tree_layout mos_fs_h" using mos_layout_ok by (simp add: tree_layout_def size) (simp add: mos_fs_h_def)
  moreover have "list_all (arg_fits mos_fs_h host_files) [[0x6d], [0x62, 0x2f]]"
    by (simp add: arg_fits_def stat node_name_def names name_fits_def file_fits_def dots_def size)
  moreover have "args_space mos_fs_h host_files [[0x6d], [0x62, 0x2f]] = 16"
    by (simp add: args_space_def stat file_space_def dots_def size)
  ultimately obtain out where
    "fsformat_main mos_fs_h False (\<lambda>_. True) host_files [[0x66], [0x69], [0x6d], [0x62, 0x2f]] = Ret (0, Some out)"
    "holds_args mos_fs_h host_files [[0x6d], [0x62, 0x2f]] (used_slots mos_fs_h (root_dir mos_fs_h) (read_image out)) (read_image out)"
    using fsformat_writes_tree [of mos_fs_h "[[0x66], [0x69], [0x6d], [0x62, 0x2f]]" host_files]
    by (auto simp: size NBLOCK_def)
  then show ?thesis by (auto simp: holds_args_def list_all2_Cons1 stat node_name_def names)
qed

text \<open>A file \<open>write_file\<close> has put into the image reads back as it was on the host: its name, its type and all
  its bytes, through direct and indirect links; nothing that was allocated before has changed, except the entry
  \<open>create_file\<close> gave it. The file fits when there are blocks and links left for it.\<close>

theorem written_file_reads_back:
  assumes "layout_ok p" and "create_file p dirf m = Ret (t, m1)" and "file_inv p t 0 m1" and "index_block p t m1 = 0"
    and "length (after_slash path) < MAXNAMELEN p" and "0 \<notin> set (after_slash path)"
    and "length content < 2 ^ 32" and "file_blocks p (length content) \<le> NINDIRECT p"
    and "nextbno m1 + file_blocks p (length content) + (if NDIRECT p < file_blocks p (length content) then 1 else 0) \<le> NBLOCK"
  shows "\<exists>m'. write_file p dirf path (Some content) m = Ret m' \<and> file_name p t m' = after_slash path \<and>
    the_field t (f_type p) m' = FTYPE_REG p \<and> read_file p t m' = content \<and>
    (\<forall>a i. allocated m1 a \<longrightarrow> \<not> in_struct p t a i \<longrightarrow> area_bytes m' a i = area_bytes m1 a i)"
  using write_file_ok [OF assms] by blast

text \<open>On a new disk the first file of the root directory gets a block of its own.\<close>

lemma first_file:
  assumes lay: "layout_ok p" and n: "0 < NDIRECT p" "0 < NINDIRECT p"
  obtains m1 where "create_file p (In_super, s_root p) (disk0 p) = Ret ((In_block 3, 0), m1)"
    "file_inv p (In_block 3, 0) 0 m1" "index_block p (In_block 3, 0) m1 = 0" "nextbno m1 = 4"
proof -
  let ?root = "(In_super, s_root p)"
  note d0 = disk0_super [OF lay]
  have next0: "nextbno (disk0 p) = 3" by (simp add: disk0_def)
  obtain m1 where m1: "make_link_block p ?root 0 (disk0 p) = Ret (3, m1)" "nextbno m1 = 4"
    "\<And>a i. a \<noteq> In_super \<Longrightarrow> area_bytes m1 a i = area_bytes (disk0 p) a i"
    using make_link_block_ok [OF lay d0(6) n] by (auto simp: next0 NBLOCK_def links_part_def)
  have "dir_blocks p ?root (disk0 p) = 0" by (simp add: dir_blocks_def d0(4))
  then have "create_file p ?root (disk0 p) = Ret ((In_block 3, 0), m1)"
    using create_file_find [OF lay, of ?root "disk0 p"] m1(1) d0(6) by (simp add: file_inv_def dir_slots_def)
  moreover have "word32_at (area_bytes m1 (In_block 3)) (f_indirect p) = word32_at (\<lambda>_. 0) (f_indirect p)"
    by (rule word32_cong) (simp add: m1(3) del: area_bytes.simps, simp add: disk0_def)
  then have idx: "index_block p (In_block 3, 0) m1 = 0"
    by (simp add: index_block_def the_field_def del: area_bytes.simps) (simp add: word32_at_def)
  moreover have "FILE_STRUCT_SIZE p \<le> BLOCK_SIZE p" using slot_in_block [OF lay, of 0] layout_sizes(8) [OF lay] by simp
  then have "file_inv p (In_block 3, 0) 0 m1" using m1(2) idx by (simp add: file_inv_def allocated_def NBLOCK_def)
  ultimately show thesis using that m1(2) by blast
qed

lemma written_file_reads_back_witness:
  "\<exists>m'. write_file mos_fs_h (In_super, 8) [0x61, 0x2f, 0x62] (Some (replicate 50000 0x78)) (disk0 mos_fs_h) = Ret m' \<and>
    file_name mos_fs_h (In_block 3, 0) m' = [0x62] \<and> read_file mos_fs_h (In_block 3, 0) m' = replicate 50000 0x78"
proof -
  have "0 < NDIRECT mos_fs_h" "0 < NINDIRECT mos_fs_h" by (simp_all add: mos_fs_h_def)
  from first_file [OF mos_layout_ok this] obtain m1 where
    m1: "create_file mos_fs_h (In_super, s_root mos_fs_h) (disk0 mos_fs_h) = Ret ((In_block 3, 0), m1)"
    "file_inv mos_fs_h (In_block 3, 0) 0 m1" "index_block mos_fs_h (In_block 3, 0) m1 = 0" "nextbno m1 = 4" by blast
  have "s_root mos_fs_h = 8" "file_blocks mos_fs_h 50000 = 13" "NDIRECT mos_fs_h = 10" "NINDIRECT mos_fs_h = 1024"
    "MAXNAMELEN mos_fs_h = 128" by (simp_all add: mos_fs_h_def file_blocks_def)
  then show ?thesis
    using written_file_reads_back [OF mos_layout_ok m1(1-3), of "[0x61, 0x2f, 0x62]" "replicate 50000 0x78"] m1(4)
    by (auto simp: after_slash_def NBLOCK_def)
qed

text \<open>\<open>flush_bitmap\<close> marks the blocks handed out so far as used and leaves every other bit, and every other
  block, as it was; on a new disk all bits of the disk are set, so that exactly the blocks not handed out are
  free afterwards.\<close>

theorem flush_bitmap_marks_used:
  assumes "layout_ok p" and "nextbno m \<le> NBLOCK"
  shows "\<exists>m'. flush_bitmap p m = Ret m' \<and>
    (\<forall>i<NBLOCK. bitmap_bit p m' i = (bitmap_bit p m i \<and> nextbno m \<le> i)) \<and>
    (\<forall>a. a \<noteq> In_block 2 \<longrightarrow> area_bytes m' a = area_bytes m a) \<and>
    (\<exists>m0. init_disk p blank_image = Ret m0 \<and> nextbno m0 = 3 \<and> (\<forall>i<NBLOCK. bitmap_bit p m0 i))"
proof -
  have "nextbno (disk0 p) = 3" by (simp add: disk0_def)
  then show ?thesis using flush_bitmap_bits [OF assms] init_disk_disk0 [OF assms(1)] disk0_bits [OF assms(1)] by blast
qed

lemma flush_bitmap_marks_used_witness:
  "\<exists>m'. flush_bitmap mos_fs_h (disk0 mos_fs_h) = Ret m' \<and> \<not> bitmap_bit mos_fs_h m' 2 \<and> bitmap_bit mos_fs_h m' 3"
proof -
  have "nextbno (disk0 mos_fs_h) = 3" "(3 :: nat) \<le> NBLOCK" "(3 :: nat) < NBLOCK" by (simp_all add: disk0_def NBLOCK_def)
  then show ?thesis
    using flush_bitmap_marks_used [OF mos_layout_ok, of "disk0 mos_fs_h"] disk0_bits [OF mos_layout_ok, of 3] by fastforce
qed

text \<open>In a directory of at most \<open>NDIRECT\<close> blocks \<open>create_file\<close> returns the first unused entry, in the order of
  the blocks and of the entries in them, and a new block at the end when there is none.\<close>

theorem create_file_first_unused:
  assumes "layout_ok p" and "snd f + FILE_STRUCT_SIZE p \<le> area_size p (fst f)"
    and "dir_blocks p f m \<le> NDIRECT p" and "\<forall>i<dir_blocks p f m. link p f m i < NBLOCK"
  shows "create_file p f m =
    (case List.find (unused p m) (dir_slots p f m (dir_blocks p f m)) of
       Some r \<Rightarrow> Ret (r, m)
     | None \<Rightarrow> andThen (make_link_block p f (dir_blocks p f m) m) (\<lambda>(b, m). Ret ((In_block b, 0), m)))"
  using assms by (rule create_file_find)

lemma create_file_first_unused_witness:
  "create_file mos_fs_h (In_super, 8) (disk0 mos_fs_h) =
    andThen (make_link_block mos_fs_h (In_super, 8) 0 (disk0 mos_fs_h)) (\<lambda>(b, m). Ret ((In_block b, 0), m))"
proof -
  have "dir_blocks mos_fs_h (In_super, 8) (disk0 mos_fs_h) = 0"
    using disk0_super(4) [OF mos_layout_ok] by (simp add: dir_blocks_def) (simp add: mos_fs_h_def)
  then show ?thesis
    using create_file_first_unused [OF mos_layout_ok, of "(In_super, 8)" "disk0 mos_fs_h"]
    by (simp add: dir_slots_def) (simp add: mos_fs_h_def)
qed

text \<open>C32: in a directory of more blocks, whose direct ones are full, \<open>create_file\<close> hands out the directory's index
  block as if it were an entry: it takes the word behind the direct links for a block of entries.\<close>

theorem create_file_takes_index_block:
  assumes "layout_ok p" and "snd f + FILE_STRUCT_SIZE p \<le> area_size p (fst f)"
    and "NDIRECT p < dir_blocks p f m" and "\<forall>i<NDIRECT p. link p f m i < NBLOCK"
    and "List.find (unused p m) (dir_slots p f m (NDIRECT p)) = None"
    and "f_indirect p = f_direct p + 4 * NDIRECT p"
    and "index_block p f m < NBLOCK" and "disk_data m (index_block p f m) (f_name p) = 0"
  shows "create_file p f m = Ret ((In_block (index_block p f m), 0), m)"
  using assms by (rule create_file_index_block)

text \<open>A root directory of 11 blocks: the direct ones are blocks 10 to 19, all of whose entries are in use, the index
  block is block 30.\<close>

definition full_root :: image where
  "full_root = \<lparr>disk_data = (\<lambda>b i. if 10 \<le> b \<and> b < 20 then 0x61 else 0), disk_type = (\<lambda>_. BLOCK_FILE),
     super = (\<lambda>j. if 144 \<le> j \<and> j < 184 \<and> j mod 4 = 0 then word_of_nat (10 + (j - 144) div 4)
                 else if j = 184 then 30 else if j = 137 then 0xb0 else 0),
     nbitblock = 1, nextbno = 32\<rparr>"

lemma create_file_takes_index_block_witness:
  "create_file mos_fs_h (In_super, 8) full_root = Ret ((In_block 30, 0), full_root)"
proof -
  have "the_field (In_super, 8) 176 full_root = 30" "the_field (In_super, 8) 128 full_root = 45056"
    by (simp_all add: the_field_def word32_at_def full_root_def push_bit_eq_mult)
  then have idx: "index_block mos_fs_h (In_super, 8) full_root = 30" "dir_blocks mos_fs_h (In_super, 8) full_root = 11"
    by (simp_all add: index_block_def dir_blocks_def mos_fs_h_def)
  have links: "link mos_fs_h (In_super, 8) full_root i = 10 + i" if "i < 10" for i
  proof -
    have "(144 + 4 * i - 144) div 4 = i" "144 + 4 * i < 184" "(144 + 4 * i) mod 4 = 0" "(145 + 4 * i) mod 4 = 1"
      "(146 + 4 * i) mod 4 = 2" "(147 + 4 * i) mod 4 = 3" using that by presburger+
    then have "word32_at (super full_root) (144 + 4 * i) = ucast (word_of_nat (10 + i) :: u8)"
      using that by (simp add: word32_at_def full_root_def)
    moreover have "unat (ucast (word_of_nat (10 + i) :: u8) :: u32) = 10 + i"
      using that by (simp only: unsigned_ucast_eq unat_of_nat) (simp add: take_bit_nat_eq_self)
    ultimately show ?thesis using that by (simp add: link_def mos_fs_h_def the_field_def add.commute)
  qed
  have "\<not> unused mos_fs_h full_root r" if "r \<in> set (dir_slots mos_fs_h (In_super, 8) full_root 10)" for r
    using that links by (auto simp: dir_slots_def block_slots_def unused_def full_root_def)
  then have "List.find (unused mos_fs_h full_root) (dir_slots mos_fs_h (In_super, 8) full_root 10) = None"
    by (simp add: find_None_iff)
  moreover have "NDIRECT mos_fs_h = 10" by (simp add: mos_fs_h_def)
  moreover have "disk_data full_root 30 (f_name mos_fs_h) = 0" by (simp add: full_root_def)
  ultimately show ?thesis
    using create_file_takes_index_block [OF mos_layout_ok, of "(In_super, 8)" full_root] links idx
    by (simp add: NBLOCK_def) (simp add: mos_fs_h_def)
qed



section \<open>Binaries as C arrays\<close>

text \<open>C34: called as the build calls it, bintoc writes a C file whose size and array are those of the binary, unless
  the binary is empty.\<close>

theorem bintoc_array_reads_back:
  assumes "files bin = Some binary" and "writable out" and "out \<noteq> bin" and "length binary < BMAX" and "binary \<noteq> []"
    and "{0x3d, 0x7b} \<inter> set prefix = {}" and "{0x3d, 0x7b} \<inter> set bin = {}"
  shows "\<exists>t. bintoc_main files writable [prog, ascii ''-f'', bin, ascii ''-o'', out, ascii ''-p'', prefix] =
      Ret (0, [], Some (out, t)) \<and> read_c_text t = (length binary, binary)"
proof -
  have "{0x3d, 0x7b} \<inter> set (up_to_dot bin) = {}"
    using assms(7) set_takeWhileD by (fastforce simp: up_to_dot_def)
  then show ?thesis
    using bintoc_build [where files = files and writable = writable, OF assms(1-4)] read_c_text_of [OF assms(5,4,6)] by simp
qed

lemma bintoc_array_reads_back_witness:
  "\<exists>t. bintoc_main (\<lambda>f. if f = ascii ''loop.b'' then Some [0x7f, 0x45] else None) (\<lambda>_. True)
      [ascii ''bintoc'', ascii ''-f'', ascii ''loop.b'', ascii ''-o'', ascii ''loop.b.c'', ascii ''-p'', ascii ''user_bare''] =
    Ret (0, [], Some (ascii ''loop.b.c'', t)) \<and> read_c_text t = (2, [0x7f, 0x45])"
  using bintoc_array_reads_back [of "\<lambda>f. if f = ascii ''loop.b'' then Some [0x7f, 0x45] else None" "ascii ''loop.b''"
      "[0x7f, 0x45]" "\<lambda>_. True" "ascii ''loop.b.c''" "ascii ''user_bare''" "ascii ''bintoc''"]
  by (simp add: ascii_def BMAX_def flip: numeral_2_eq_2)

section \<open>The sections of an ELF file\<close>


text \<open>A file with one section at 0x400000, in the order the fields lie in it.\<close>

definition tiny_elf :: "u8 list" where
  "tiny_elf = [127, 69, 76, 70, 0, 0, 0, 0, 0, 0, 0, 0, 0, 0, 0, 0, 0, 0, 0, 0, 0, 0, 0, 0, 0, 0, 0, 0, 0, 0, 0, 0,
     52, 0, 0, 0, 0, 0, 0, 0, 0, 0, 0, 0, 0, 0, 40, 0, 1, 0, 0, 0, 0, 0, 0, 0, 0, 0, 0, 0, 0, 0, 0, 0, 0,
     0, 64, 0, 0, 0, 0, 0, 0, 0, 0, 0, 0, 0, 0, 0, 0, 0, 0, 0, 0, 0, 0, 0, 0, 0, 0, 0]"


text \<open>C36: the program never checks the table against the buffer: the first entry that lies behind its end is read
  all the same.\<close>

theorem readelf_reads_behind_buffer:
  assumes "52 \<le> sz" and "sz \<le> length binary" and "take 4 binary = [0x7f, 0x45, 0x4c, 0x46]"
    and "n < unat (half_at binary 48)" and "n * unat (half_at binary 46) < 2 ^ 31"
    and "\<forall>i<n. i * unat (half_at binary 46) < 2 ^ 31 \<and>
      unat (word_at binary 32) + i * unat (half_at binary 46) + 16 \<le> length binary"
    and "length binary < unat (word_at binary 32) + n * unat (half_at binary 46) + 16"
  shows "readelf binary sz = Fault ''read behind the buffer''"
proof -
  have "list_sections binary (unat (word_at binary 32)) (unat (half_at binary 46)) [0..<unat (half_at binary 48)] [] =
      Fault ''read behind the buffer''"
    using assms(7) by (intro list_sections_fault [OF assms(6,4) _ assms(5)]) simp
  moreover have "is_elf_format binary sz" using is_elf_format_iff [OF assms(2)] assms(1,3) by simp
  ultimately show ?thesis by (simp add: readelf_def ehdr_at_def Let_def)
qed

lemma readelf_reads_behind_buffer_witness:
  "readelf (take 60 tiny_elf) 60 = Fault ''read behind the buffer''"
proof -
  have n: "length (take 60 tiny_elf) = 60" "half_at (take 60 tiny_elf) 48 = 1" "half_at (take 60 tiny_elf) 46 = 40"
    "word_at (take 60 tiny_elf) 32 = 52" "take 4 (take 60 tiny_elf) = [0x7f, 0x45, 0x4c, 0x46]"
    by (simp_all add: tiny_elf_def half_at_def word_at_def bytes_at_def)
  then show ?thesis using readelf_reads_behind_buffer [of 60 "take 60 tiny_elf" 0] by simp
qed

end
