(* ===== verification/ElfFormat.thy ===== *)
theory ElfFormat
  imports Elfloader Readelf
begin

text \<open>
  include/elf.h as the description of a file format: the sizes of its types, the structures as lists of fields, the
  macros that pack and unpack the info fields of symbols and relocations, and the values that identify a file. A
  structure is laid out by the rule of the C ABI: every field at the next multiple of its size. The lemmas derive from
  the declarations the offsets at which the kernel's loader and the readelf tool read.
\<close>

section \<open>Types\<close>

text \<open>The size of each type, in bytes.\<close>

definition Elf32_Half :: nat where "Elf32_Half = 2"
definition Elf64_Half :: nat where "Elf64_Half = 2"
definition Elf32_Word :: nat where "Elf32_Word = 4"
definition Elf64_Word :: nat where "Elf64_Word = 4"
definition Elf32_Sword :: nat where "Elf32_Sword = 4"
definition Elf64_Sword :: nat where "Elf64_Sword = 4"
definition Elf32_Xword :: nat where "Elf32_Xword = 8"
definition Elf64_Xword :: nat where "Elf64_Xword = 8"
definition Elf32_Sxword :: nat where "Elf32_Sxword = 8"
definition Elf64_Sxword :: nat where "Elf64_Sxword = 8"
definition Elf32_Addr :: nat where "Elf32_Addr = 4"
definition Elf64_Addr :: nat where "Elf64_Addr = 8"
definition Elf32_Off :: nat where "Elf32_Off = 4"
definition Elf64_Off :: nat where "Elf64_Off = 8"
definition Elf32_Section :: nat where "Elf32_Section = 2"
definition Elf64_Section :: nat where "Elf64_Section = 2"
definition Elf32_Versym :: nat where "Elf32_Versym = Elf32_Half"
definition Elf64_Versym :: nat where "Elf64_Versym = Elf64_Half"

lemmas elf_types = Elf32_Half_def Elf64_Half_def Elf32_Word_def Elf64_Word_def Elf32_Sword_def Elf64_Sword_def
    Elf32_Xword_def Elf64_Xword_def Elf32_Sxword_def Elf64_Sxword_def Elf32_Addr_def Elf64_Addr_def
    Elf32_Off_def Elf64_Off_def Elf32_Section_def Elf64_Section_def Elf32_Versym_def Elf64_Versym_def

section \<open>Structures\<close>

text \<open>A field has a name, the size of its type, and the number of elements when it is an array.\<close>

type_synonym c_struct = "(string \<times> nat \<times> nat) list"

definition Elf32_Ehdr_fields :: c_struct where
  "Elf32_Ehdr_fields = [(''e_ident'', 1, EI_NIDENT), (''e_type'', Elf32_Half, 1),
     (''e_machine'', Elf32_Half, 1), (''e_version'', Elf32_Word, 1), (''e_entry'', Elf32_Addr, 1),
     (''e_phoff'', Elf32_Off, 1), (''e_shoff'', Elf32_Off, 1), (''e_flags'', Elf32_Word, 1),
     (''e_ehsize'', Elf32_Half, 1), (''e_phentsize'', Elf32_Half, 1), (''e_phnum'', Elf32_Half, 1),
     (''e_shentsize'', Elf32_Half, 1), (''e_shnum'', Elf32_Half, 1), (''e_shstrndx'', Elf32_Half, 1)]"

definition Elf64_Ehdr_fields :: c_struct where
  "Elf64_Ehdr_fields = [(''e_ident'', 1, EI_NIDENT), (''e_type'', Elf64_Half, 1),
     (''e_machine'', Elf64_Half, 1), (''e_version'', Elf64_Word, 1), (''e_entry'', Elf64_Addr, 1),
     (''e_phoff'', Elf64_Off, 1), (''e_shoff'', Elf64_Off, 1), (''e_flags'', Elf64_Word, 1),
     (''e_ehsize'', Elf64_Half, 1), (''e_phentsize'', Elf64_Half, 1), (''e_phnum'', Elf64_Half, 1),
     (''e_shentsize'', Elf64_Half, 1), (''e_shnum'', Elf64_Half, 1), (''e_shstrndx'', Elf64_Half, 1)]"

definition Elf32_Shdr_fields :: c_struct where
  "Elf32_Shdr_fields = [(''sh_name'', Elf32_Word, 1), (''sh_type'', Elf32_Word, 1),
     (''sh_flags'', Elf32_Word, 1), (''sh_addr'', Elf32_Addr, 1), (''sh_offset'', Elf32_Off, 1),
     (''sh_size'', Elf32_Word, 1), (''sh_link'', Elf32_Word, 1), (''sh_info'', Elf32_Word, 1),
     (''sh_addralign'', Elf32_Word, 1), (''sh_entsize'', Elf32_Word, 1)]"

definition Elf64_Shdr_fields :: c_struct where
  "Elf64_Shdr_fields = [(''sh_name'', Elf64_Word, 1), (''sh_type'', Elf64_Word, 1),
     (''sh_flags'', Elf64_Xword, 1), (''sh_addr'', Elf64_Addr, 1), (''sh_offset'', Elf64_Off, 1),
     (''sh_size'', Elf64_Xword, 1), (''sh_link'', Elf64_Word, 1), (''sh_info'', Elf64_Word, 1),
     (''sh_addralign'', Elf64_Xword, 1), (''sh_entsize'', Elf64_Xword, 1)]"

definition Elf32_Chdr_fields :: c_struct where
  "Elf32_Chdr_fields = [(''ch_type'', Elf32_Word, 1), (''ch_size'', Elf32_Word, 1),
     (''ch_addralign'', Elf32_Word, 1)]"

definition Elf64_Chdr_fields :: c_struct where
  "Elf64_Chdr_fields = [(''ch_type'', Elf64_Word, 1), (''ch_reserved'', Elf64_Word, 1),
     (''ch_size'', Elf64_Xword, 1), (''ch_addralign'', Elf64_Xword, 1)]"

definition Elf32_Sym_fields :: c_struct where
  "Elf32_Sym_fields = [(''st_name'', Elf32_Word, 1), (''st_value'', Elf32_Addr, 1),
     (''st_size'', Elf32_Word, 1), (''st_info'', 1, 1), (''st_other'', 1, 1), (''st_shndx'', Elf32_Section, 1)]"

definition Elf64_Sym_fields :: c_struct where
  "Elf64_Sym_fields = [(''st_name'', Elf64_Word, 1), (''st_info'', 1, 1), (''st_other'', 1, 1),
     (''st_shndx'', Elf64_Section, 1), (''st_value'', Elf64_Addr, 1), (''st_size'', Elf64_Xword, 1)]"

definition Elf32_Syminfo_fields :: c_struct where
  "Elf32_Syminfo_fields = [(''si_boundto'', Elf32_Half, 1), (''si_flags'', Elf32_Half, 1)]"

definition Elf64_Syminfo_fields :: c_struct where
  "Elf64_Syminfo_fields = [(''si_boundto'', Elf64_Half, 1), (''si_flags'', Elf64_Half, 1)]"

definition Elf32_Rel_fields :: c_struct where
  "Elf32_Rel_fields = [(''r_offset'', Elf32_Addr, 1), (''r_info'', Elf32_Word, 1)]"

definition Elf64_Rel_fields :: c_struct where
  "Elf64_Rel_fields = [(''r_offset'', Elf64_Addr, 1), (''r_info'', Elf64_Xword, 1)]"

definition Elf32_Rela_fields :: c_struct where
  "Elf32_Rela_fields = [(''r_offset'', Elf32_Addr, 1), (''r_info'', Elf32_Word, 1),
     (''r_addend'', Elf32_Sword, 1)]"

definition Elf64_Rela_fields :: c_struct where
  "Elf64_Rela_fields = [(''r_offset'', Elf64_Addr, 1), (''r_info'', Elf64_Xword, 1),
     (''r_addend'', Elf64_Sxword, 1)]"

definition Elf32_Phdr_fields :: c_struct where
  "Elf32_Phdr_fields = [(''p_type'', Elf32_Word, 1), (''p_offset'', Elf32_Off, 1),
     (''p_vaddr'', Elf32_Addr, 1), (''p_paddr'', Elf32_Addr, 1), (''p_filesz'', Elf32_Word, 1),
     (''p_memsz'', Elf32_Word, 1), (''p_flags'', Elf32_Word, 1), (''p_align'', Elf32_Word, 1)]"

definition Elf64_Phdr_fields :: c_struct where
  "Elf64_Phdr_fields = [(''p_type'', Elf64_Word, 1), (''p_flags'', Elf64_Word, 1),
     (''p_offset'', Elf64_Off, 1), (''p_vaddr'', Elf64_Addr, 1), (''p_paddr'', Elf64_Addr, 1),
     (''p_filesz'', Elf64_Xword, 1), (''p_memsz'', Elf64_Xword, 1), (''p_align'', Elf64_Xword, 1)]"

definition Elf32_Nhdr_fields :: c_struct where
  "Elf32_Nhdr_fields = [(''n_namesz'', Elf32_Word, 1), (''n_descsz'', Elf32_Word, 1),
     (''n_type'', Elf32_Word, 1)]"

definition Elf64_Nhdr_fields :: c_struct where
  "Elf64_Nhdr_fields = [(''n_namesz'', Elf64_Word, 1), (''n_descsz'', Elf64_Word, 1),
     (''n_type'', Elf64_Word, 1)]"

lemmas elf_structs = Elf32_Ehdr_fields_def Elf64_Ehdr_fields_def Elf32_Shdr_fields_def Elf64_Shdr_fields_def
    Elf32_Chdr_fields_def Elf64_Chdr_fields_def Elf32_Sym_fields_def Elf64_Sym_fields_def
    Elf32_Syminfo_fields_def Elf64_Syminfo_fields_def Elf32_Rel_fields_def Elf64_Rel_fields_def
    Elf32_Rela_fields_def Elf64_Rela_fields_def Elf32_Phdr_fields_def Elf64_Phdr_fields_def
    Elf32_Nhdr_fields_def Elf64_Nhdr_fields_def

section \<open>Layout\<close>

definition align_up :: "nat \<Rightarrow> nat \<Rightarrow> nat" where
  "align_up n a = (n + a - 1) div a * a"

fun place :: "nat \<Rightarrow> c_struct \<Rightarrow> (string \<times> nat \<times> nat) list" where
  "place at [] = []"
| "place at ((f, w, n) # fs) = (let off = align_up at w in (f, off, w * n) # place (off + w * n) fs)"

definition offset_of :: "c_struct \<Rightarrow> string \<Rightarrow> nat option" where
  "offset_of s f = map_option fst (map_of (place 0 s) f)"

fun struct_end :: "nat \<Rightarrow> c_struct \<Rightarrow> nat" where
  "struct_end at [] = at"
| "struct_end at ((f, w, n) # fs) = struct_end (align_up at w + w * n) fs"

definition sizeof_struct :: "c_struct \<Rightarrow> nat" where
  "sizeof_struct s = align_up (struct_end 0 s) (fold max (map (\<lambda>(f, w, n). w) s) 1)"

text \<open>A field lies behind the ones before it and inside the structure.\<close>

lemma align_up_ge: "0 < a \<Longrightarrow> n \<le> align_up n a"
  using mod_less_divisor [of a "n + a - 1"] minus_mod_eq_div_mult [of "n + a - 1" a] unfolding align_up_def by linarith

lemma place_bounds:
  "\<forall>(f, w, n) \<in> set s. 0 < w \<Longrightarrow> (f, off, k) \<in> set (place at s) \<Longrightarrow> at \<le> off \<and> off + k \<le> struct_end at s"
proof (induction at s rule: place.induct)
  case (2 at g w n fs)
  have at: "at \<le> align_up at w" using "2.prems"(1) align_up_ge by simp
  have end_ge: "i \<le> struct_end i fs" for i
    using "2.prems"(1)
  proof (induction i fs rule: struct_end.induct)
    case (2 i f' w' n' fs')
    have "i \<le> align_up i w'" using "2.prems" by (intro align_up_ge) auto
    moreover have "align_up i w' + w' * n' \<le> struct_end (align_up i w' + w' * n') fs'" using 2 by simp
    ultimately show ?case by simp
  qed simp
  have "(f, off, k) = (g, align_up at w, w * n) \<or> (f, off, k) \<in> set (place (align_up at w + w * n) fs)"
    using "2.prems"(2) by (auto simp: Let_def)
  then show ?case
  proof
    assume "(f, off, k) = (g, align_up at w, w * n)"
    then show ?thesis using at end_ge by simp
  next
    assume "(f, off, k) \<in> set (place (align_up at w + w * n) fs)"
    then have "align_up at w + w * n \<le> off \<and> off + k \<le> struct_end (align_up at w + w * n) fs"
      using "2.IH" [OF refl] "2.prems"(1) by auto
    then show ?thesis using at by simp
  qed
qed simp

lemma place_apart:
  assumes "\<forall>(f, w, n) \<in> set s. 0 < w"
  shows "sorted_wrt (\<lambda>(f, off, k) (f', o', k'). off + k \<le> o') (place at s)"
  using assms
proof (induction at s rule: place.induct)
  case (2 at g w n fs)
  have "align_up at w + w * n \<le> off" if "(f, off, k) \<in> set (place (align_up at w + w * n) fs)" for f off k
    using place_bounds [of fs f off k] that "2.prems" by auto
  then show ?case using 2 by (auto simp: Let_def)
qed simp

text \<open>None of the structures has a gap: each is as large as its fields together.\<close>

definition elf_struct_list :: "c_struct list" where
  "elf_struct_list =
     [Elf32_Ehdr_fields, Elf64_Ehdr_fields, Elf32_Shdr_fields, Elf64_Shdr_fields, Elf32_Chdr_fields, Elf64_Chdr_fields, Elf32_Sym_fields, Elf64_Sym_fields, Elf32_Syminfo_fields, Elf64_Syminfo_fields, Elf32_Rel_fields, Elf64_Rel_fields, Elf32_Rela_fields, Elf64_Rela_fields, Elf32_Phdr_fields, Elf64_Phdr_fields, Elf32_Nhdr_fields, Elf64_Nhdr_fields]"

lemma elf_structs_packed:
  "\<forall>s \<in> set elf_struct_list. sizeof_struct s = sum_list (map (\<lambda>(f, w, n). w * n) s) \<and>
     map (\<lambda>(f, off, k). off) (place 0 s) = map (\<lambda>i. sum_list (map (\<lambda>(f, w, n). w * n) (take i s))) [0..<length s]"
  by code_simp

text \<open>The offsets the loader and the readelf tool use.\<close>

lemma sizeof_structs:
  "sizeof_struct Elf64_Ehdr_fields = 64" "sizeof_struct Elf64_Phdr_fields = 56"
  "sizeof_struct Elf32_Ehdr_fields = 52" "sizeof_struct Elf32_Shdr_fields = 40"
  by code_simp+

lemma Elf64_Ehdr_offsets:
  "list_all (\<lambda>(f, n). offset_of Elf64_Ehdr_fields f = Some n)
      [(''e_ident'', 0), (''e_type'', 16), (''e_machine'', 18), (''e_version'', 20), (''e_entry'', 24),
       (''e_phoff'', 32), (''e_shoff'', 40), (''e_flags'', 48), (''e_ehsize'', 52), (''e_phentsize'', 54),
       (''e_phnum'', 56), (''e_shentsize'', 58), (''e_shnum'', 60), (''e_shstrndx'', 62)]"
  by code_simp

lemma Elf64_Phdr_offsets:
  "list_all (\<lambda>(f, n). offset_of Elf64_Phdr_fields f = Some n)
      [(''p_type'', 0), (''p_flags'', 4), (''p_offset'', 8), (''p_vaddr'', 16), (''p_paddr'', 24),
       (''p_filesz'', 32), (''p_memsz'', 40), (''p_align'', 48)]"
  by code_simp

lemma Elf32_Ehdr_offsets:
  "list_all (\<lambda>(f, n). offset_of Elf32_Ehdr_fields f = Some n)
      [(''e_ident'', 0), (''e_type'', 16), (''e_machine'', 18), (''e_version'', 20), (''e_entry'', 24),
       (''e_phoff'', 28), (''e_shoff'', 32), (''e_flags'', 36), (''e_ehsize'', 40), (''e_phentsize'', 42),
       (''e_phnum'', 44), (''e_shentsize'', 46), (''e_shnum'', 48), (''e_shstrndx'', 50)]"
  by code_simp

lemma Elf32_Shdr_offsets:
  "list_all (\<lambda>(f, n). offset_of Elf32_Shdr_fields f = Some n)
      [(''sh_name'', 0), (''sh_type'', 4), (''sh_flags'', 8), (''sh_addr'', 12), (''sh_offset'', 16),
       (''sh_size'', 20), (''sh_link'', 24), (''sh_info'', 28), (''sh_addralign'', 32), (''sh_entsize'',
       36)]"
  by code_simp

lemma load_ehdr_offsets:
  "load_ehdr m a =
     (let at = (\<lambda>f. a + word_of_nat (the (offset_of Elf64_Ehdr_fields f))) in
      \<lparr>e_ident = map (\<lambda>i. m (at ''e_ident'' + word_of_nat i)) [0..<EI_NIDENT], e_type = load16 m (at ''e_type''),
       e_machine = load16 m (at ''e_machine''), e_version = load32 m (at ''e_version''),
       e_entry = load64 m (at ''e_entry''), e_phoff = load64 m (at ''e_phoff''), e_shoff = load64 m (at ''e_shoff''),
       e_flags = load32 m (at ''e_flags''), e_ehsize = load16 m (at ''e_ehsize''),
       e_phentsize = load16 m (at ''e_phentsize''), e_phnum = load16 m (at ''e_phnum''),
       e_shentsize = load16 m (at ''e_shentsize''), e_shnum = load16 m (at ''e_shnum''),
       e_shstrndx = load16 m (at ''e_shstrndx'')\<rparr>)"
  "sizeof_Elf64_Ehdr = word_of_nat (sizeof_struct Elf64_Ehdr_fields)"
  using Elf64_Ehdr_offsets by (simp_all add: load_ehdr_def sizeof_Elf64_Ehdr_def sizeof_structs)

lemma load_phdr_offsets:
  "load_phdr m a =
     (let at = (\<lambda>f. a + word_of_nat (the (offset_of Elf64_Phdr_fields f))) in
      \<lparr>p_type = load32 m (at ''p_type''), p_flags = load32 m (at ''p_flags''), p_offset = load64 m (at ''p_offset''),
       p_vaddr = load64 m (at ''p_vaddr''), p_paddr = load64 m (at ''p_paddr''), p_filesz = load64 m (at ''p_filesz''),
       p_memsz = load64 m (at ''p_memsz''), p_align = load64 m (at ''p_align'')\<rparr>)"
  using Elf64_Phdr_offsets by (simp add: load_phdr_def)

lemma ehdr_at_offsets:
  "ehdr_at buf i =
     (let at = (\<lambda>f. i + the (offset_of Elf32_Ehdr_fields f)) in
      \<lparr>e32_ident = bytes_at buf (at ''e_ident'') EI_NIDENT, e32_type = half_at buf (at ''e_type''),
       e32_machine = half_at buf (at ''e_machine''), e32_version = word_at buf (at ''e_version''),
       e32_entry = word_at buf (at ''e_entry''), e32_phoff = word_at buf (at ''e_phoff''),
       e32_shoff = word_at buf (at ''e_shoff''), e32_flags = word_at buf (at ''e_flags''),
       e32_ehsize = half_at buf (at ''e_ehsize''), e32_phentsize = half_at buf (at ''e_phentsize''),
       e32_phnum = half_at buf (at ''e_phnum''), e32_shentsize = half_at buf (at ''e_shentsize''),
       e32_shnum = half_at buf (at ''e_shnum''), e32_shstrndx = half_at buf (at ''e_shstrndx'')\<rparr>)"
  "sizeof_Elf32_Ehdr = sizeof_struct Elf32_Ehdr_fields"
  using Elf32_Ehdr_offsets by (simp_all add: ehdr_at_def sizeof_Elf32_Ehdr_def sizeof_structs EI_NIDENT_def)

lemma shdr_at_offsets:
  "shdr_at buf i =
     (let at = (\<lambda>f. i + the (offset_of Elf32_Shdr_fields f)) in
      \<lparr>sh_name = word_at buf (at ''sh_name''), sh_type = word_at buf (at ''sh_type''),
       sh_flags = word_at buf (at ''sh_flags''), sh_addr = word_at buf (at ''sh_addr''),
       sh_offset = word_at buf (at ''sh_offset''), sh_size = word_at buf (at ''sh_size''),
       sh_link = word_at buf (at ''sh_link''), sh_info = word_at buf (at ''sh_info''),
       sh_addralign = word_at buf (at ''sh_addralign''), sh_entsize = word_at buf (at ''sh_entsize'')\<rparr>)"
  "sizeof_Elf32_Shdr = sizeof_struct Elf32_Shdr_fields"
  using Elf32_Shdr_offsets by (simp_all add: shdr_at_def sizeof_Elf32_Shdr_def sizeof_structs)

section \<open>Info fields\<close>

definition ELF32_ST_BIND :: "u32 \<Rightarrow> u32" where "ELF32_ST_BIND v = drop_bit 4 (ucast (ucast v :: u8))"
definition ELF32_ST_TYPE :: "u32 \<Rightarrow> u32" where "ELF32_ST_TYPE v = v AND 0xf"
definition ELF32_ST_INFO :: "u32 \<Rightarrow> u32 \<Rightarrow> u32" where "ELF32_ST_INFO bnd ty = push_bit 4 bnd + (ty AND 0xf)"
definition ELF64_ST_BIND :: "u32 \<Rightarrow> u32" where "ELF64_ST_BIND v = ELF32_ST_BIND v"
definition ELF64_ST_TYPE :: "u32 \<Rightarrow> u32" where "ELF64_ST_TYPE v = ELF32_ST_TYPE v"
definition ELF64_ST_INFO :: "u32 \<Rightarrow> u32 \<Rightarrow> u32" where "ELF64_ST_INFO bnd ty = ELF32_ST_INFO bnd ty"
definition ELF32_ST_VISIBILITY :: "u32 \<Rightarrow> u32" where "ELF32_ST_VISIBILITY x = x AND 0x03"
definition ELF64_ST_VISIBILITY :: "u32 \<Rightarrow> u32" where "ELF64_ST_VISIBILITY x = ELF32_ST_VISIBILITY x"
definition ELF32_R_SYM :: "u32 \<Rightarrow> u32" where "ELF32_R_SYM v = drop_bit 8 v"
definition ELF32_R_TYPE :: "u32 \<Rightarrow> u32" where "ELF32_R_TYPE v = v AND 0xff"
definition ELF32_R_INFO :: "u32 \<Rightarrow> u32 \<Rightarrow> u32" where "ELF32_R_INFO sy ty = push_bit 8 sy + (ty AND 0xff)"
definition ELF64_R_SYM :: "u64 \<Rightarrow> u64" where "ELF64_R_SYM i = drop_bit 32 i"
definition ELF64_R_TYPE :: "u64 \<Rightarrow> u64" where "ELF64_R_TYPE i = i AND 0xffffffff"
definition ELF64_R_INFO :: "u64 \<Rightarrow> u64 \<Rightarrow> u64" where "ELF64_R_INFO sy ty = push_bit 32 sy + ty"

lemma bit_take_bit_same: "take_bit k x = x \<Longrightarrow> bit x n \<Longrightarrow> n < k"
  for x :: "'a::len word"
  by (metis bit_take_bit_iff)

lemma pack_fields:
  fixes hi lo :: "'a::len word"
  assumes "take_bit k lo = lo"
  shows "push_bit k hi + lo = push_bit k hi OR lo"
proof -
  have "push_bit k hi AND lo = 0"
    by (rule bit_word_eqI) (auto simp: bit_simps dest: bit_take_bit_same [OF assms])
  then show ?thesis by (simp add: disjunctive_add_eq_or)
qed

lemma pack_low: "take_bit k (push_bit k hi + take_bit k lo) = take_bit k lo"
  for hi lo :: "'a::len word"
proof -
  have "take_bit k (take_bit k lo) = take_bit k lo" by simp
  from pack_fields [OF this, of hi] show ?thesis by (intro bit_word_eqI) (auto simp: bit_simps)
qed

lemma pack_unpack:
  fixes hi lo :: "'a::len word"
  assumes "take_bit k lo = lo" and "take_bit (LENGTH('a) - k) hi = hi"
  shows "drop_bit k (push_bit k hi + lo) = hi" and "take_bit k (push_bit k hi + lo) = lo"
proof -
  show "drop_bit k (push_bit k hi + lo) = hi" unfolding pack_fields [OF assms(1)]
    by (rule bit_word_eqI)
      (auto simp: bit_simps dest: bit_take_bit_same [OF assms(1)] bit_take_bit_same [OF assms(2)])
  show "take_bit k (push_bit k hi + lo) = lo" unfolding pack_fields [OF assms(1)]
    by (rule bit_word_eqI) (auto simp: bit_simps dest: bit_take_bit_same [OF assms(1)])
qed

lemma unpack_pack: "push_bit k (drop_bit k v) + take_bit k v = v"
  for v :: "'a::len word"
  by (simp add: pack_fields bits_ident)

text \<open>Unpacking an info field gives what was packed, and packing what was unpacked gives the field. \<open>ELF64_R_INFO\<close> does
  not cut its type to 32 bits.\<close>

lemma info_masks:
  "v AND 0xf = take_bit 4 v" "w AND 0xff = take_bit 8 w" "i AND 0xffffffff = take_bit 32 i"
  for v w :: u32 and i :: u64
  by (simp_all add: take_bit_eq_mask mask_eq_exp_minus_1)

lemma take_bit_small: "unat x < 2 ^ k \<Longrightarrow> take_bit k x = x"
  by (simp add: word_unat_eq_iff unsigned_take_bit_eq take_bit_nat_eq_self)

lemma st_bind: "ELF32_ST_BIND v = drop_bit 4 (take_bit 8 v)"
  unfolding ELF32_ST_BIND_def by (rule bit_word_eqI) (auto simp: bit_simps)

lemma st_info_roundtrip:
  "unat b < 16 \<Longrightarrow> ELF32_ST_BIND (ELF32_ST_INFO b t) = b"
  "ELF32_ST_TYPE (ELF32_ST_INFO b t) = t AND 0xf"
  "unat v < 256 \<Longrightarrow> ELF32_ST_INFO (ELF32_ST_BIND v) (ELF32_ST_TYPE v) = v"
proof -
  show "ELF32_ST_BIND (ELF32_ST_INFO b t) = b" if "unat b < 16"
  proof -
    have b: "take_bit 4 b = b" using that by (simp add: take_bit_small)
    have "take_bit 4 (take_bit 4 t) = take_bit 4 t" by simp
    note low = pack_fields [OF this]
    show ?thesis
      unfolding st_bind ELF32_ST_INFO_def info_masks low
      by (rule bit_word_eqI) (auto simp: bit_simps dest: bit_take_bit_same [OF b])
  qed
  show "ELF32_ST_TYPE (ELF32_ST_INFO b t) = t AND 0xf"
    unfolding ELF32_ST_TYPE_def ELF32_ST_INFO_def info_masks by (simp add: pack_low)
  show "ELF32_ST_INFO (ELF32_ST_BIND v) (ELF32_ST_TYPE v) = v" if "unat v < 256"
    using that unpack_pack [of 4 v]
    by (simp add: st_bind ELF32_ST_INFO_def ELF32_ST_TYPE_def info_masks take_bit_small)
qed

lemma r_info_roundtrip:
  "unat s < 2 ^ 24 \<Longrightarrow> ELF32_R_SYM (ELF32_R_INFO s t) = s"
  "ELF32_R_TYPE (ELF32_R_INFO s t) = t AND 0xff"
  "ELF32_R_INFO (ELF32_R_SYM v) (ELF32_R_TYPE v) = v"
  using pack_unpack(1) [of 8 "take_bit 8 t" s] take_bit_small [of s 24] unpack_pack [of 8 v]
  by (simp_all add: ELF32_R_SYM_def ELF32_R_INFO_def ELF32_R_TYPE_def info_masks pack_low)

lemma r_info64_roundtrip:
  "unat s < 2 ^ 32 \<Longrightarrow> unat t < 2 ^ 32 \<Longrightarrow> ELF64_R_SYM (ELF64_R_INFO s t) = s \<and> ELF64_R_TYPE (ELF64_R_INFO s t) = t"
  "ELF64_R_INFO (ELF64_R_SYM i) (ELF64_R_TYPE i) = i"
  using pack_unpack [of 32 t s] take_bit_small [of s 32] take_bit_small [of t 32] unpack_pack [of 32 i]
  by (simp_all add: ELF64_R_SYM_def ELF64_R_INFO_def ELF64_R_TYPE_def info_masks)

section \<open>Identification\<close>

definition SELFMAG :: nat where "SELFMAG = 4"
definition EI_CLASS :: nat where "EI_CLASS = 4"
definition ELFCLASSNONE :: nat where "ELFCLASSNONE = 0"
definition ELFCLASS32 :: nat where "ELFCLASS32 = 1"
definition ELFCLASS64 :: nat where "ELFCLASS64 = 2"
definition EI_DATA :: nat where "EI_DATA = 5"
definition ELFDATANONE :: nat where "ELFDATANONE = 0"
definition ELFDATA2LSB :: nat where "ELFDATA2LSB = 1"
definition ELFDATA2MSB :: nat where "ELFDATA2MSB = 2"
definition EI_VERSION :: nat where "EI_VERSION = 6"
definition EI_OSABI :: nat where "EI_OSABI = 7"
definition EI_ABIVERSION :: nat where "EI_ABIVERSION = 8"
definition EI_PAD :: nat where "EI_PAD = 9"
definition ET_NONE :: nat where "ET_NONE = 0"
definition ET_REL :: nat where "ET_REL = 1"
definition ET_EXEC :: nat where "ET_EXEC = 2"
definition ET_DYN :: nat where "ET_DYN = 3"
definition ET_CORE :: nat where "ET_CORE = 4"
definition EM_RISCV :: nat where "EM_RISCV = 243"
definition EV_NONE :: nat where "EV_NONE = 0"
definition EV_CURRENT :: nat where "EV_CURRENT = 1"
definition PT_NULL :: nat where "PT_NULL = 0"
definition PT_DYNAMIC :: nat where "PT_DYNAMIC = 2"
definition PT_INTERP :: nat where "PT_INTERP = 3"
definition PT_NOTE :: nat where "PT_NOTE = 4"
definition PT_SHLIB :: nat where "PT_SHLIB = 5"
definition PT_PHDR :: nat where "PT_PHDR = 6"
definition PT_TLS :: nat where "PT_TLS = 7"

end
