(* ===== verification/ElfRecords.thy ===== *)
theory ElfRecords
  imports ElfFormat
begin

text \<open>
  The structures of include/elf.h the kernel does not read: entries of the dynamic section, symbol versions, the
  auxiliary vector, move records, and those of MIPS. A union is a field as large as its largest member. Then the
  macros of move records and of local entry points.
\<close>

section \<open>Structures\<close>

definition Elf32_Dyn_fields :: c_struct where
  "Elf32_Dyn_fields = [(''d_tag'', Elf32_Sword, 1), (''d_un'', max Elf32_Word Elf32_Addr, 1)]"

definition Elf64_Dyn_fields :: c_struct where
  "Elf64_Dyn_fields = [(''d_tag'', Elf64_Sxword, 1), (''d_un'', max Elf64_Xword Elf64_Addr, 1)]"

definition Elf32_Verdef_fields :: c_struct where
  "Elf32_Verdef_fields = [(''vd_version'', Elf32_Half, 1), (''vd_flags'', Elf32_Half, 1),
     (''vd_ndx'', Elf32_Half, 1), (''vd_cnt'', Elf32_Half, 1), (''vd_hash'', Elf32_Word, 1),
     (''vd_aux'', Elf32_Word, 1), (''vd_next'', Elf32_Word, 1)]"

definition Elf64_Verdef_fields :: c_struct where
  "Elf64_Verdef_fields = [(''vd_version'', Elf64_Half, 1), (''vd_flags'', Elf64_Half, 1),
     (''vd_ndx'', Elf64_Half, 1), (''vd_cnt'', Elf64_Half, 1), (''vd_hash'', Elf64_Word, 1),
     (''vd_aux'', Elf64_Word, 1), (''vd_next'', Elf64_Word, 1)]"

definition Elf32_Verdaux_fields :: c_struct where
  "Elf32_Verdaux_fields = [(''vda_name'', Elf32_Word, 1), (''vda_next'', Elf32_Word, 1)]"

definition Elf64_Verdaux_fields :: c_struct where
  "Elf64_Verdaux_fields = [(''vda_name'', Elf64_Word, 1), (''vda_next'', Elf64_Word, 1)]"

definition Elf32_Verneed_fields :: c_struct where
  "Elf32_Verneed_fields = [(''vn_version'', Elf32_Half, 1), (''vn_cnt'', Elf32_Half, 1),
     (''vn_file'', Elf32_Word, 1), (''vn_aux'', Elf32_Word, 1), (''vn_next'', Elf32_Word, 1)]"

definition Elf64_Verneed_fields :: c_struct where
  "Elf64_Verneed_fields = [(''vn_version'', Elf64_Half, 1), (''vn_cnt'', Elf64_Half, 1),
     (''vn_file'', Elf64_Word, 1), (''vn_aux'', Elf64_Word, 1), (''vn_next'', Elf64_Word, 1)]"

definition Elf32_Vernaux_fields :: c_struct where
  "Elf32_Vernaux_fields = [(''vna_hash'', Elf32_Word, 1), (''vna_flags'', Elf32_Half, 1),
     (''vna_other'', Elf32_Half, 1), (''vna_name'', Elf32_Word, 1), (''vna_next'', Elf32_Word, 1)]"

definition Elf64_Vernaux_fields :: c_struct where
  "Elf64_Vernaux_fields = [(''vna_hash'', Elf64_Word, 1), (''vna_flags'', Elf64_Half, 1),
     (''vna_other'', Elf64_Half, 1), (''vna_name'', Elf64_Word, 1), (''vna_next'', Elf64_Word, 1)]"

definition Elf32_Move_fields :: c_struct where
  "Elf32_Move_fields = [(''m_value'', Elf32_Xword, 1), (''m_info'', Elf32_Word, 1),
     (''m_poffset'', Elf32_Word, 1), (''m_repeat'', Elf32_Half, 1), (''m_stride'', Elf32_Half, 1)]"

definition Elf64_Move_fields :: c_struct where
  "Elf64_Move_fields = [(''m_value'', Elf64_Xword, 1), (''m_info'', Elf64_Xword, 1),
     (''m_poffset'', Elf64_Xword, 1), (''m_repeat'', Elf64_Half, 1), (''m_stride'', Elf64_Half, 1)]"

definition Elf32_RegInfo_fields :: c_struct where
  "Elf32_RegInfo_fields = [(''ri_gprmask'', Elf32_Word, 1), (''ri_cprmask'', Elf32_Word, 4),
     (''ri_gp_value'', Elf32_Sword, 1)]"

definition Elf_Options_fields :: c_struct where
  "Elf_Options_fields = [(''kind'', 1, 1), (''size'', 1, 1), (''section'', Elf32_Section, 1),
     (''info'', Elf32_Word, 1)]"

definition Elf_Options_Hw_fields :: c_struct where
  "Elf_Options_Hw_fields = [(''hwp_flags1'', Elf32_Word, 1), (''hwp_flags2'', Elf32_Word, 1)]"

definition Elf32_Lib_fields :: c_struct where
  "Elf32_Lib_fields = [(''l_name'', Elf32_Word, 1), (''l_time_stamp'', Elf32_Word, 1),
     (''l_checksum'', Elf32_Word, 1), (''l_version'', Elf32_Word, 1), (''l_flags'', Elf32_Word, 1)]"

definition Elf64_Lib_fields :: c_struct where
  "Elf64_Lib_fields = [(''l_name'', Elf64_Word, 1), (''l_time_stamp'', Elf64_Word, 1),
     (''l_checksum'', Elf64_Word, 1), (''l_version'', Elf64_Word, 1), (''l_flags'', Elf64_Word, 1)]"

definition Elf_MIPS_ABIFlags_v0_fields :: c_struct where
  "Elf_MIPS_ABIFlags_v0_fields = [(''version'', Elf32_Half, 1), (''isa_level'', 1, 1), (''isa_rev'', 1, 1),
     (''gpr_size'', 1, 1), (''cpr1_size'', 1, 1), (''cpr2_size'', 1, 1), (''fp_abi'', 1, 1),
     (''isa_ext'', Elf32_Word, 1), (''ases'', Elf32_Word, 1), (''flags1'', Elf32_Word, 1),
     (''flags2'', Elf32_Word, 1)]"

definition Elf32_auxv_t_fields :: c_struct where
  "Elf32_auxv_t_fields = [(''a_type'', 4, 1), (''a_un'', 4, 1)]"

definition Elf64_auxv_t_fields :: c_struct where
  "Elf64_auxv_t_fields = [(''a_type'', 8, 1), (''a_un'', 8, 1)]"

text \<open>The union \<open>Elf32_gptab\<close>, by its two views.\<close>

definition Elf32_gptab_header :: c_struct where
  "Elf32_gptab_header = [(''gt_current_g_value'', Elf32_Word, 1), (''gt_unused'', Elf32_Word, 1)]"

definition Elf32_gptab_entry :: c_struct where
  "Elf32_gptab_entry = [(''gt_g_value'', Elf32_Word, 1), (''gt_bytes'', Elf32_Word, 1)]"

text \<open>All but the move records are as large as their fields together.\<close>

definition elf_record_list :: "c_struct list" where
  "elf_record_list =
     [Elf32_Dyn_fields, Elf64_Dyn_fields, Elf32_Verdef_fields, Elf64_Verdef_fields, Elf32_Verdaux_fields,
      Elf64_Verdaux_fields, Elf32_Verneed_fields, Elf64_Verneed_fields, Elf32_Vernaux_fields,
      Elf64_Vernaux_fields, Elf32_RegInfo_fields, Elf_Options_fields, Elf_Options_Hw_fields, Elf32_Lib_fields,
      Elf64_Lib_fields, Elf_MIPS_ABIFlags_v0_fields, Elf32_auxv_t_fields, Elf64_auxv_t_fields,
      Elf32_gptab_header, Elf32_gptab_entry]"

lemma elf_records_packed:
  "\<forall>s \<in> set elf_record_list. sizeof_struct s = sum_list (map (\<lambda>(f, w, n). w * n) s) \<and>
     map (\<lambda>(f, off, k). off) (place 0 s) = map (\<lambda>i. sum_list (map (\<lambda>(f, w, n). w * n) (take i s))) [0..<length s]"
  by code_simp

lemma sizeof_records:
  "sizeof_struct Elf32_Dyn_fields = 8" "sizeof_struct Elf64_Dyn_fields = 16" "sizeof_struct Elf64_auxv_t_fields = 16"
  "sizeof_struct Elf32_gptab_header = sizeof_struct Elf32_gptab_entry" "sizeof_struct Elf_MIPS_ABIFlags_v0_fields = 24"
  by code_simp+

text \<open>A move record ends with two bytes or half words: its size is rounded up to the alignment of its first field.\<close>

lemma move_records_padded:
  "struct_end 0 Elf32_Move_fields = 20" "sizeof_struct Elf32_Move_fields = 24"
  "struct_end 0 Elf64_Move_fields = 28" "sizeof_struct Elf64_Move_fields = 32"
  by code_simp+

section \<open>Move records and local entry points\<close>

definition ELF32_M_SYM :: "u64 \<Rightarrow> u64" where "ELF32_M_SYM info = drop_bit 8 info"
definition ELF32_M_SIZE :: "u64 \<Rightarrow> u8" where "ELF32_M_SIZE info = ucast info"
definition ELF32_M_INFO :: "u64 \<Rightarrow> u64 \<Rightarrow> u64" where "ELF32_M_INFO sy sz = push_bit 8 sy + ucast (ucast sz :: u8)"
definition ELF64_M_SYM :: "u64 \<Rightarrow> u64" where "ELF64_M_SYM info = ELF32_M_SYM info"
definition ELF64_M_SIZE :: "u64 \<Rightarrow> u8" where "ELF64_M_SIZE info = ELF32_M_SIZE info"
definition ELF64_M_INFO :: "u64 \<Rightarrow> u64 \<Rightarrow> u64" where "ELF64_M_INFO sy sz = ELF32_M_INFO sy sz"

lemma ucast_low8: "ucast (ucast v :: u8) = take_bit 8 (v :: u64)"
  by (rule bit_word_eqI) (auto simp: bit_simps)

lemma m_info_roundtrip:
  "unat s < 2 ^ 56 \<Longrightarrow> ELF64_M_SYM (ELF64_M_INFO s z) = s"
  "ELF64_M_SIZE (ELF64_M_INFO s z) = ucast z"
  "ELF64_M_INFO (ELF64_M_SYM v) (ucast (ELF64_M_SIZE v)) = v"
proof -
  show "ELF64_M_SYM (ELF64_M_INFO s z) = s" if "unat s < 2 ^ 56"
    using that pack_unpack(1) [of 8 "take_bit 8 z" s] take_bit_small [of s 56]
    by (simp add: ELF64_M_SYM_def ELF32_M_SYM_def ELF64_M_INFO_def ELF32_M_INFO_def ucast_low8)
  have low: "(ucast (take_bit 8 w) :: u8) = ucast (w :: u64)" for w by (rule bit_word_eqI) (auto simp: bit_simps)
  have "ELF64_M_SIZE (ELF64_M_INFO s z) = ucast (take_bit 8 (push_bit 8 s + take_bit 8 z))"
    unfolding ELF64_M_SIZE_def ELF32_M_SIZE_def ELF64_M_INFO_def ELF32_M_INFO_def ucast_low8 low ..
  then show "ELF64_M_SIZE (ELF64_M_INFO s z) = ucast z" unfolding pack_low low .
  show "ELF64_M_INFO (ELF64_M_SYM v) (ucast (ELF64_M_SIZE v)) = v"
    using unpack_pack [of 8 v]
    by (simp add: ELF64_M_SYM_def ELF32_M_SYM_def ELF64_M_INFO_def ELF32_M_INFO_def ELF64_M_SIZE_def ELF32_M_SIZE_def ucast_low8)
qed

text \<open>The distance of the local entry point: the field \<open>STO_PPC64_LOCAL_MASK\<close> is an exponent; the exponents 0 and 1 mean no
  distance. The macro's \<open>int\<close> arithmetic stays between 0 and 128.\<close>

definition STO_PPC64_LOCAL_BIT :: nat where "STO_PPC64_LOCAL_BIT = 5"
definition STO_PPC64_LOCAL_MASK :: u32 where "STO_PPC64_LOCAL_MASK = push_bit STO_PPC64_LOCAL_BIT 7"
definition PPC64_LOCAL_ENTRY_OFFSET :: "u32 \<Rightarrow> u32" where
  "PPC64_LOCAL_ENTRY_OFFSET other =
     push_bit 2 (drop_bit 2 (push_bit (unat (drop_bit STO_PPC64_LOCAL_BIT (other AND STO_PPC64_LOCAL_MASK))) 1))"

lemma local_entry_offsets:
  "map (\<lambda>k. PPC64_LOCAL_ENTRY_OFFSET (push_bit 5 k)) [0, 1, 2, 3, 4, 5, 6, 7] = [0, 0, 4, 8, 16, 32, 64, 128]"
  by (simp add: PPC64_LOCAL_ENTRY_OFFSET_def STO_PPC64_LOCAL_MASK_def STO_PPC64_LOCAL_BIT_def push_bit_eq_mult drop_bit_eq_div)

text \<open>The version of the ARM ABI in the flags of a file.\<close>

definition EF_ARM_EABIMASK :: u32 where "EF_ARM_EABIMASK = 0xff000000"
definition EF_ARM_EABI_VERSION :: "u32 \<Rightarrow> u32" where "EF_ARM_EABI_VERSION flags = flags AND EF_ARM_EABIMASK"

end
