(* ===== verification/ElfNumbers.thy ===== *)
theory ElfNumbers
  imports ElfRecords
begin

text \<open>
  The numbers of include/elf.h other than relocation types, as tables of names and values in the order of the
  header: files, sections, symbols, segments, notes, tags of the dynamic section, the auxiliary vector, and what
  each processor adds. The macros that turn a dynamic tag into an index count down from the end of their range. The
  lemmas show that the tables respect the ranges and the counts the header reserves.
\<close>

type_synonym numbers = "(string \<times> nat) list"

definition codes :: "numbers \<Rightarrow> nat list" where
  "codes t = map snd t"

definition value_of :: "numbers \<Rightarrow> string \<Rightarrow> nat" where
  "value_of t name = (case map_of t name of Some v \<Rightarrow> v | None \<Rightarrow> 0)"

fun ascending :: "nat list \<Rightarrow> bool" where
  "ascending (x # y # zs) \<longleftrightarrow> x < y \<and> ascending (y # zs)"
| "ascending _ \<longleftrightarrow> True"

lemma ascending_sorted: "ascending xs \<Longrightarrow> sorted_wrt (<) xs"
  by (induction xs rule: ascending.induct) (auto simp: less_trans)

lemma ascending_distinct: "ascending xs \<Longrightarrow> distinct xs"
  using strict_sorted_iff ascending_sorted by blast

section \<open>Files\<close>

definition EI_MAG_values :: numbers where
  "EI_MAG_values = [(''EI_MAG0'', 0), (''ELFMAG0'', 0x7f), (''EI_MAG1'', 1), (''ELFMAG1'', 69), (''EI_MAG2'', 2),
     (''ELFMAG2'', 76), (''EI_MAG3'', 3), (''ELFMAG3'', 70)]"

definition ELFOSABI_values :: numbers where
  "ELFOSABI_values = [(''ELFOSABI_NONE'', 0), (''ELFOSABI_SYSV'', 0), (''ELFOSABI_HPUX'', 1),
     (''ELFOSABI_NETBSD'', 2), (''ELFOSABI_GNU'', 3), (''ELFOSABI_LINUX'', 3), (''ELFOSABI_SOLARIS'', 6),
     (''ELFOSABI_AIX'', 7), (''ELFOSABI_IRIX'', 8), (''ELFOSABI_FREEBSD'', 9), (''ELFOSABI_TRU64'', 10),
     (''ELFOSABI_MODESTO'', 11), (''ELFOSABI_OPENBSD'', 12), (''ELFOSABI_ARM_AEABI'', 64), (''ELFOSABI_ARM'', 97),
     (''ELFOSABI_STANDALONE'', 255)]"

definition ET_ranges :: numbers where
  "ET_ranges = [(''ET_LOOS'', 0xfe00), (''ET_HIOS'', 0xfeff), (''ET_LOPROC'', 0xff00), (''ET_HIPROC'', 0xffff)]"

definition ET_NUM :: nat where "ET_NUM = 5"

definition EM_values_1 :: numbers where
  "EM_values_1 = [(''EM_NONE'', 0), (''EM_M32'', 1), (''EM_SPARC'', 2), (''EM_386'', 3), (''EM_68K'', 4),
     (''EM_88K'', 5), (''EM_IAMCU'', 6), (''EM_860'', 7), (''EM_MIPS'', 8), (''EM_S370'', 9),
     (''EM_MIPS_RS3_LE'', 10), (''EM_PARISC'', 15), (''EM_VPP500'', 17), (''EM_SPARC32PLUS'', 18),
     (''EM_960'', 19), (''EM_PPC'', 20), (''EM_PPC64'', 21), (''EM_S390'', 22), (''EM_SPU'', 23),
     (''EM_V800'', 36), (''EM_FR20'', 37), (''EM_RH32'', 38), (''EM_RCE'', 39), (''EM_ARM'', 40),
     (''EM_FAKE_ALPHA'', 41), (''EM_SH'', 42), (''EM_SPARCV9'', 43), (''EM_TRICORE'', 44), (''EM_ARC'', 45),
     (''EM_H8_300'', 46), (''EM_H8_300H'', 47), (''EM_H8S'', 48), (''EM_H8_500'', 49), (''EM_IA_64'', 50),
     (''EM_MIPS_X'', 51), (''EM_COLDFIRE'', 52), (''EM_68HC12'', 53), (''EM_MMA'', 54), (''EM_PCP'', 55),
     (''EM_NCPU'', 56), (''EM_NDR1'', 57), (''EM_STARCORE'', 58), (''EM_ME16'', 59), (''EM_ST100'', 60),
     (''EM_TINYJ'', 61), (''EM_X86_64'', 62), (''EM_PDSP'', 63), (''EM_PDP10'', 64), (''EM_PDP11'', 65),
     (''EM_FX66'', 66), (''EM_ST9PLUS'', 67), (''EM_ST7'', 68), (''EM_68HC16'', 69), (''EM_68HC11'', 70),
     (''EM_68HC08'', 71), (''EM_68HC05'', 72), (''EM_SVX'', 73), (''EM_ST19'', 74), (''EM_VAX'', 75),
     (''EM_CRIS'', 76), (''EM_JAVELIN'', 77), (''EM_FIREPATH'', 78), (''EM_ZSP'', 79), (''EM_MMIX'', 80),
     (''EM_HUANY'', 81), (''EM_PRISM'', 82), (''EM_AVR'', 83), (''EM_FR30'', 84), (''EM_D10V'', 85),
     (''EM_D30V'', 86), (''EM_V850'', 87), (''EM_M32R'', 88), (''EM_MN10300'', 89), (''EM_MN10200'', 90),
     (''EM_PJ'', 91), (''EM_OPENRISC'', 92), (''EM_ARC_COMPACT'', 93), (''EM_XTENSA'', 94), (''EM_VIDEOCORE'', 95),
     (''EM_TMM_GPP'', 96), (''EM_NS32K'', 97), (''EM_TPC'', 98), (''EM_SNP1K'', 99), (''EM_ST200'', 100),
     (''EM_IP2K'', 101), (''EM_MAX'', 102), (''EM_CR'', 103), (''EM_F2MC16'', 104)]"

definition EM_values_2 :: numbers where
  "EM_values_2 = [(''EM_MSP430'', 105), (''EM_BLACKFIN'', 106), (''EM_SE_C33'', 107), (''EM_SEP'', 108),
     (''EM_ARCA'', 109), (''EM_UNICORE'', 110), (''EM_EXCESS'', 111), (''EM_DXP'', 112),
     (''EM_ALTERA_NIOS2'', 113), (''EM_CRX'', 114), (''EM_XGATE'', 115), (''EM_C166'', 116), (''EM_M16C'', 117),
     (''EM_DSPIC30F'', 118), (''EM_CE'', 119), (''EM_M32C'', 120), (''EM_TSK3000'', 131), (''EM_RS08'', 132),
     (''EM_SHARC'', 133), (''EM_ECOG2'', 134), (''EM_SCORE7'', 135), (''EM_DSP24'', 136), (''EM_VIDEOCORE3'', 137),
     (''EM_LATTICEMICO32'', 138), (''EM_SE_C17'', 139), (''EM_TI_C6000'', 140), (''EM_TI_C2000'', 141),
     (''EM_TI_C5500'', 142), (''EM_TI_ARP32'', 143), (''EM_TI_PRU'', 144), (''EM_MMDSP_PLUS'', 160),
     (''EM_CYPRESS_M8C'', 161), (''EM_R32C'', 162), (''EM_TRIMEDIA'', 163), (''EM_QDSP6'', 164),
     (''EM_8051'', 165), (''EM_STXP7X'', 166), (''EM_NDS32'', 167), (''EM_ECOG1X'', 168), (''EM_MAXQ30'', 169),
     (''EM_XIMO16'', 170), (''EM_MANIK'', 171), (''EM_CRAYNV2'', 172), (''EM_RX'', 173), (''EM_METAG'', 174),
     (''EM_MCST_ELBRUS'', 175), (''EM_ECOG16'', 176), (''EM_CR16'', 177), (''EM_ETPU'', 178), (''EM_SLE9X'', 179),
     (''EM_L10M'', 180), (''EM_K10M'', 181), (''EM_AARCH64'', 183), (''EM_AVR32'', 185), (''EM_STM8'', 186),
     (''EM_TILE64'', 187), (''EM_TILEPRO'', 188), (''EM_MICROBLAZE'', 189), (''EM_CUDA'', 190),
     (''EM_TILEGX'', 191), (''EM_CLOUDSHIELD'', 192), (''EM_COREA_1ST'', 193), (''EM_COREA_2ND'', 194),
     (''EM_ARCV2'', 195), (''EM_OPEN8'', 196), (''EM_RL78'', 197), (''EM_VIDEOCORE5'', 198), (''EM_78KOR'', 199),
     (''EM_56800EX'', 200), (''EM_BA1'', 201), (''EM_BA2'', 202), (''EM_XCORE'', 203), (''EM_MCHP_PIC'', 204),
     (''EM_INTELGT'', 205), (''EM_KM32'', 210), (''EM_KMX32'', 211), (''EM_EMX16'', 212), (''EM_EMX8'', 213),
     (''EM_KVARC'', 214), (''EM_CDP'', 215), (''EM_COGE'', 216), (''EM_COOL'', 217), (''EM_NORC'', 218),
     (''EM_CSR_KALIMBA'', 219), (''EM_Z80'', 220), (''EM_VISIUM'', 221), (''EM_FT32'', 222), (''EM_MOXIE'', 223),
     (''EM_AMDGPU'', 224), (''EM_RISCV'', 243), (''EM_BPF'', 247), (''EM_CSKY'', 252)]"

definition EM_NUM :: nat where "EM_NUM = 253"

definition EM_others :: numbers where
  "EM_others = [(''EM_ARC_A5'', 93), (''EM_ALPHA'', 0x9026)]"

definition ELFCLASSNUM :: nat where "ELFCLASSNUM = 3"

definition ELFDATANUM :: nat where "ELFDATANUM = 3"

definition EV_NUM :: nat where "EV_NUM = 2"

section \<open>Sections and symbols\<close>

definition SHN_values :: numbers where
  "SHN_values = [(''SHN_UNDEF'', 0), (''SHN_LORESERVE'', 0xff00), (''SHN_LOPROC'', 0xff00),
     (''SHN_BEFORE'', 0xff00), (''SHN_AFTER'', 0xff01), (''SHN_HIPROC'', 0xff1f), (''SHN_LOOS'', 0xff20),
     (''SHN_HIOS'', 0xff3f), (''SHN_ABS'', 0xfff1), (''SHN_COMMON'', 0xfff2), (''SHN_XINDEX'', 0xffff),
     (''SHN_HIRESERVE'', 0xffff)]"

definition SHT_values :: numbers where
  "SHT_values = [(''SHT_NULL'', 0), (''SHT_PROGBITS'', 1), (''SHT_SYMTAB'', 2), (''SHT_STRTAB'', 3),
     (''SHT_RELA'', 4), (''SHT_HASH'', 5), (''SHT_DYNAMIC'', 6), (''SHT_NOTE'', 7), (''SHT_NOBITS'', 8),
     (''SHT_REL'', 9), (''SHT_SHLIB'', 10), (''SHT_DYNSYM'', 11), (''SHT_INIT_ARRAY'', 14),
     (''SHT_FINI_ARRAY'', 15), (''SHT_PREINIT_ARRAY'', 16), (''SHT_GROUP'', 17), (''SHT_SYMTAB_SHNDX'', 18)]"

definition SHT_NUM :: nat where "SHT_NUM = 19"

definition SHT_os_values :: numbers where
  "SHT_os_values = [(''SHT_LOOS'', 0x60000000), (''SHT_GNU_ATTRIBUTES'', 0x6ffffff5),
     (''SHT_GNU_HASH'', 0x6ffffff6), (''SHT_GNU_LIBLIST'', 0x6ffffff7), (''SHT_CHECKSUM'', 0x6ffffff8),
     (''SHT_LOSUNW'', 0x6ffffffa), (''SHT_SUNW_move'', 0x6ffffffa), (''SHT_SUNW_COMDAT'', 0x6ffffffb),
     (''SHT_SUNW_syminfo'', 0x6ffffffc), (''SHT_GNU_verdef'', 0x6ffffffd), (''SHT_GNU_verneed'', 0x6ffffffe),
     (''SHT_GNU_versym'', 0x6fffffff), (''SHT_HISUNW'', 0x6fffffff), (''SHT_HIOS'', 0x6fffffff)]"

definition SHT_ranges :: numbers where
  "SHT_ranges = [(''SHT_LOPROC'', 0x70000000), (''SHT_HIPROC'', 0x7fffffff), (''SHT_LOUSER'', 0x80000000),
     (''SHT_HIUSER'', 0x8fffffff)]"

definition SHF_values :: numbers where
  "SHF_values = [(''SHF_WRITE'', 2 ^ 0), (''SHF_ALLOC'', 2 ^ 1), (''SHF_EXECINSTR'', 2 ^ 2),
     (''SHF_MERGE'', 2 ^ 4), (''SHF_STRINGS'', 2 ^ 5), (''SHF_INFO_LINK'', 2 ^ 6), (''SHF_LINK_ORDER'', 2 ^ 7),
     (''SHF_OS_NONCONFORMING'', 2 ^ 8), (''SHF_GROUP'', 2 ^ 9), (''SHF_TLS'', 2 ^ 10),
     (''SHF_COMPRESSED'', 2 ^ 11), (''SHF_MASKOS'', 0x0ff00000), (''SHF_MASKPROC'', 0xf0000000),
     (''SHF_GNU_RETAIN'', 2 ^ 21), (''SHF_ORDERED'', 2 ^ 30), (''SHF_EXCLUDE'', 2 ^ 31)]"

definition ELFCOMPRESS_values :: numbers where
  "ELFCOMPRESS_values = [(''ELFCOMPRESS_ZLIB'', 1), (''ELFCOMPRESS_LOOS'', 0x60000000),
     (''ELFCOMPRESS_HIOS'', 0x6fffffff), (''ELFCOMPRESS_LOPROC'', 0x70000000),
     (''ELFCOMPRESS_HIPROC'', 0x7fffffff)]"

definition GRP_COMDAT :: nat where "GRP_COMDAT = 1"

definition SYMINFO_values :: numbers where
  "SYMINFO_values = [(''SYMINFO_BT_SELF'', 0xffff), (''SYMINFO_BT_PARENT'', 0xfffe),
     (''SYMINFO_BT_LOWRESERVE'', 0xff00), (''SYMINFO_FLG_DIRECT'', 1), (''SYMINFO_FLG_PASSTHRU'', 2),
     (''SYMINFO_FLG_COPY'', 4), (''SYMINFO_FLG_LAZYLOAD'', 8), (''SYMINFO_NONE'', 0), (''SYMINFO_CURRENT'', 1),
     (''SYMINFO_NUM'', 2)]"

definition STB_values :: numbers where
  "STB_values = [(''STB_LOCAL'', 0), (''STB_GLOBAL'', 1), (''STB_WEAK'', 2)]"

definition STB_NUM :: nat where "STB_NUM = 3"

definition STB_os_values :: numbers where
  "STB_os_values = [(''STB_LOOS'', 10), (''STB_GNU_UNIQUE'', 10), (''STB_HIOS'', 12), (''STB_LOPROC'', 13),
     (''STB_HIPROC'', 15)]"

definition STT_values :: numbers where
  "STT_values = [(''STT_NOTYPE'', 0), (''STT_OBJECT'', 1), (''STT_FUNC'', 2), (''STT_SECTION'', 3),
     (''STT_FILE'', 4), (''STT_COMMON'', 5), (''STT_TLS'', 6)]"

definition STT_NUM :: nat where "STT_NUM = 7"

definition STT_os_values :: numbers where
  "STT_os_values = [(''STT_LOOS'', 10), (''STT_GNU_IFUNC'', 10), (''STT_HIOS'', 12), (''STT_LOPROC'', 13),
     (''STT_HIPROC'', 15)]"

definition STN_UNDEF :: nat where "STN_UNDEF = 0"

definition STV_values :: numbers where
  "STV_values = [(''STV_DEFAULT'', 0), (''STV_INTERNAL'', 1), (''STV_HIDDEN'', 2), (''STV_PROTECTED'', 3)]"

section \<open>Segments and notes\<close>

definition PN_XNUM :: nat where "PN_XNUM = 0xffff"

definition PT_values :: numbers where
  "PT_values = [(''PT_NULL'', 0), (''PT_LOAD'', 1), (''PT_DYNAMIC'', 2), (''PT_INTERP'', 3), (''PT_NOTE'', 4),
     (''PT_SHLIB'', 5), (''PT_PHDR'', 6), (''PT_TLS'', 7)]"

definition PT_NUM :: nat where "PT_NUM = 8"

definition PT_os_values :: numbers where
  "PT_os_values = [(''PT_LOOS'', 0x60000000), (''PT_GNU_EH_FRAME'', 0x6474e550), (''PT_GNU_STACK'', 0x6474e551),
     (''PT_GNU_RELRO'', 0x6474e552), (''PT_GNU_PROPERTY'', 0x6474e553), (''PT_LOSUNW'', 0x6ffffffa),
     (''PT_SUNWBSS'', 0x6ffffffa), (''PT_SUNWSTACK'', 0x6ffffffb), (''PT_HISUNW'', 0x6fffffff),
     (''PT_HIOS'', 0x6fffffff)]"

definition PT_ranges :: numbers where
  "PT_ranges = [(''PT_LOPROC'', 0x70000000), (''PT_HIPROC'', 0x7fffffff)]"

definition PF_values :: numbers where
  "PF_values = [(''PF_X'', 2 ^ 0), (''PF_W'', 2 ^ 1), (''PF_R'', 2 ^ 2), (''PF_MASKOS'', 0x0ff00000),
     (''PF_MASKPROC'', 0xf0000000)]"

definition NT_values :: numbers where
  "NT_values = [(''NT_PRSTATUS'', 1), (''NT_PRFPREG'', 2), (''NT_FPREGSET'', 2), (''NT_PRPSINFO'', 3),
     (''NT_PRXREG'', 4), (''NT_TASKSTRUCT'', 4), (''NT_PLATFORM'', 5), (''NT_AUXV'', 6), (''NT_GWINDOWS'', 7),
     (''NT_ASRS'', 8), (''NT_PSTATUS'', 10), (''NT_PSINFO'', 13), (''NT_PRCRED'', 14), (''NT_UTSNAME'', 15),
     (''NT_LWPSTATUS'', 16), (''NT_LWPSINFO'', 17), (''NT_PRFPXREG'', 20), (''NT_SIGINFO'', 0x53494749),
     (''NT_FILE'', 0x46494c45), (''NT_PRXFPREG'', 0x46e62b7f), (''NT_PPC_VMX'', 0x100), (''NT_PPC_SPE'', 0x101),
     (''NT_PPC_VSX'', 0x102), (''NT_PPC_TAR'', 0x103), (''NT_PPC_PPR'', 0x104), (''NT_PPC_DSCR'', 0x105),
     (''NT_PPC_EBB'', 0x106), (''NT_PPC_PMU'', 0x107), (''NT_PPC_TM_CGPR'', 0x108), (''NT_PPC_TM_CFPR'', 0x109),
     (''NT_PPC_TM_CVMX'', 0x10a), (''NT_PPC_TM_CVSX'', 0x10b), (''NT_PPC_TM_SPR'', 0x10c),
     (''NT_PPC_TM_CTAR'', 0x10d), (''NT_PPC_TM_CPPR'', 0x10e), (''NT_PPC_TM_CDSCR'', 0x10f),
     (''NT_PPC_PKEY'', 0x110), (''NT_386_TLS'', 0x200), (''NT_386_IOPERM'', 0x201), (''NT_X86_XSTATE'', 0x202),
     (''NT_S390_HIGH_GPRS'', 0x300), (''NT_S390_TIMER'', 0x301), (''NT_S390_TODCMP'', 0x302),
     (''NT_S390_TODPREG'', 0x303), (''NT_S390_CTRS'', 0x304), (''NT_S390_PREFIX'', 0x305),
     (''NT_S390_LAST_BREAK'', 0x306), (''NT_S390_SYSTEM_CALL'', 0x307), (''NT_S390_TDB'', 0x308),
     (''NT_S390_VXRS_LOW'', 0x309), (''NT_S390_VXRS_HIGH'', 0x30a), (''NT_S390_GS_CB'', 0x30b),
     (''NT_S390_GS_BC'', 0x30c), (''NT_S390_RI_CB'', 0x30d), (''NT_ARM_VFP'', 0x400), (''NT_ARM_TLS'', 0x401),
     (''NT_ARM_HW_BREAK'', 0x402), (''NT_ARM_HW_WATCH'', 0x403), (''NT_ARM_SYSTEM_CALL'', 0x404),
     (''NT_ARM_SVE'', 0x405), (''NT_ARM_PAC_MASK'', 0x406), (''NT_ARM_PACA_KEYS'', 0x407),
     (''NT_ARM_PACG_KEYS'', 0x408), (''NT_ARM_TAGGED_ADDR_CTRL'', 0x409), (''NT_ARM_PAC_ENABLED_KEYS'', 0x40a),
     (''NT_VMCOREDD'', 0x700), (''NT_MIPS_DSP'', 0x800), (''NT_MIPS_FP_MODE'', 0x801), (''NT_MIPS_MSA'', 0x802),
     (''NT_VERSION'', 1)]"

section \<open>The dynamic section\<close>

definition DT_values :: numbers where
  "DT_values = [(''DT_NULL'', 0), (''DT_NEEDED'', 1), (''DT_PLTRELSZ'', 2), (''DT_PLTGOT'', 3), (''DT_HASH'', 4),
     (''DT_STRTAB'', 5), (''DT_SYMTAB'', 6), (''DT_RELA'', 7), (''DT_RELASZ'', 8), (''DT_RELAENT'', 9),
     (''DT_STRSZ'', 10), (''DT_SYMENT'', 11), (''DT_INIT'', 12), (''DT_FINI'', 13), (''DT_SONAME'', 14),
     (''DT_RPATH'', 15), (''DT_SYMBOLIC'', 16), (''DT_REL'', 17), (''DT_RELSZ'', 18), (''DT_RELENT'', 19),
     (''DT_PLTREL'', 20), (''DT_DEBUG'', 21), (''DT_TEXTREL'', 22), (''DT_JMPREL'', 23), (''DT_BIND_NOW'', 24),
     (''DT_INIT_ARRAY'', 25), (''DT_FINI_ARRAY'', 26), (''DT_INIT_ARRAYSZ'', 27), (''DT_FINI_ARRAYSZ'', 28),
     (''DT_RUNPATH'', 29), (''DT_FLAGS'', 30), (''DT_ENCODING'', 32), (''DT_PREINIT_ARRAY'', 32),
     (''DT_PREINIT_ARRAYSZ'', 33), (''DT_SYMTAB_SHNDX'', 34)]"

definition DT_NUM :: nat where "DT_NUM = 35"

definition DT_ranges :: numbers where
  "DT_ranges = [(''DT_LOOS'', 0x6000000d), (''DT_HIOS'', 0x6ffff000), (''DT_LOPROC'', 0x70000000),
     (''DT_HIPROC'', 0x7fffffff)]"

definition DT_PROCNUM :: nat where "DT_PROCNUM = 55"

definition DT_VAL_values :: numbers where
  "DT_VAL_values = [(''DT_VALRNGLO'', 0x6ffffd00), (''DT_GNU_PRELINKED'', 0x6ffffdf5),
     (''DT_GNU_CONFLICTSZ'', 0x6ffffdf6), (''DT_GNU_LIBLISTSZ'', 0x6ffffdf7), (''DT_CHECKSUM'', 0x6ffffdf8),
     (''DT_PLTPADSZ'', 0x6ffffdf9), (''DT_MOVEENT'', 0x6ffffdfa), (''DT_MOVESZ'', 0x6ffffdfb),
     (''DT_FEATURE_1'', 0x6ffffdfc), (''DT_POSFLAG_1'', 0x6ffffdfd), (''DT_SYMINSZ'', 0x6ffffdfe),
     (''DT_SYMINENT'', 0x6ffffdff), (''DT_VALRNGHI'', 0x6ffffdff)]"

definition DT_VALNUM :: nat where "DT_VALNUM = 12"

definition DT_ADDR_values :: numbers where
  "DT_ADDR_values = [(''DT_ADDRRNGLO'', 0x6ffffe00), (''DT_GNU_HASH'', 0x6ffffef5),
     (''DT_TLSDESC_PLT'', 0x6ffffef6), (''DT_TLSDESC_GOT'', 0x6ffffef7), (''DT_GNU_CONFLICT'', 0x6ffffef8),
     (''DT_GNU_LIBLIST'', 0x6ffffef9), (''DT_CONFIG'', 0x6ffffefa), (''DT_DEPAUDIT'', 0x6ffffefb),
     (''DT_AUDIT'', 0x6ffffefc), (''DT_PLTPAD'', 0x6ffffefd), (''DT_MOVETAB'', 0x6ffffefe),
     (''DT_SYMINFO'', 0x6ffffeff), (''DT_ADDRRNGHI'', 0x6ffffeff)]"

definition DT_ADDRNUM :: nat where "DT_ADDRNUM = 11"

definition DT_VERSION_values :: numbers where
  "DT_VERSION_values = [(''DT_VERSYM'', 0x6ffffff0), (''DT_RELACOUNT'', 0x6ffffff9), (''DT_RELCOUNT'', 0x6ffffffa),
     (''DT_FLAGS_1'', 0x6ffffffb), (''DT_VERDEF'', 0x6ffffffc), (''DT_VERDEFNUM'', 0x6ffffffd),
     (''DT_VERNEED'', 0x6ffffffe), (''DT_VERNEEDNUM'', 0x6fffffff)]"

definition DT_VERSIONTAGNUM :: nat where "DT_VERSIONTAGNUM = 16"

definition DT_EXTRA_values :: numbers where
  "DT_EXTRA_values = [(''DT_AUXILIARY'', 0x7ffffffd), (''DT_FILTER'', 0x7fffffff)]"

definition DT_EXTRANUM :: nat where "DT_EXTRANUM = 3"

definition DF_values :: numbers where
  "DF_values = [(''DF_ORIGIN'', 1), (''DF_SYMBOLIC'', 2), (''DF_TEXTREL'', 4), (''DF_BIND_NOW'', 8),
     (''DF_STATIC_TLS'', 0x00000010)]"

definition DF_1_values :: numbers where
  "DF_1_values = [(''DF_1_NOW'', 1), (''DF_1_GLOBAL'', 2), (''DF_1_GROUP'', 4), (''DF_1_NODELETE'', 8),
     (''DF_1_LOADFLTR'', 0x00000010), (''DF_1_INITFIRST'', 0x00000020), (''DF_1_NOOPEN'', 0x00000040),
     (''DF_1_ORIGIN'', 0x00000080), (''DF_1_DIRECT'', 0x00000100), (''DF_1_TRANS'', 0x00000200),
     (''DF_1_INTERPOSE'', 0x00000400), (''DF_1_NODEFLIB'', 0x00000800), (''DF_1_NODUMP'', 0x00001000),
     (''DF_1_CONFALT'', 0x00002000), (''DF_1_ENDFILTEE'', 0x00004000), (''DF_1_DISPRELDNE'', 0x00008000),
     (''DF_1_DISPRELPND'', 0x00010000), (''DF_1_NODIRECT'', 0x00020000), (''DF_1_IGNMULDEF'', 0x00040000),
     (''DF_1_NOKSYMS'', 0x00080000), (''DF_1_NOHDR'', 0x00100000), (''DF_1_EDITED'', 0x00200000),
     (''DF_1_NORELOC'', 0x00400000), (''DF_1_SYMINTPOSE'', 0x00800000), (''DF_1_GLOBAUDIT'', 0x01000000),
     (''DF_1_SINGLETON'', 0x02000000), (''DF_1_STUB'', 0x04000000), (''DF_1_PIE'', 0x08000000),
     (''DF_1_KMOD'', 0x10000000), (''DF_1_WEAKFILTER'', 0x20000000), (''DF_1_NOCOMMON'', 0x40000000)]"

definition DTF_values :: numbers where
  "DTF_values = [(''DTF_1_PARINIT'', 1), (''DTF_1_CONFEXP'', 2)]"

definition DF_P1_values :: numbers where
  "DF_P1_values = [(''DF_P1_LAZYLOAD'', 1), (''DF_P1_GROUPPERM'', 2)]"

definition VER_values :: numbers where
  "VER_values = [(''VER_DEF_NONE'', 0), (''VER_DEF_CURRENT'', 1), (''VER_DEF_NUM'', 2), (''VER_FLG_BASE'', 1),
     (''VER_FLG_WEAK'', 2), (''VER_NDX_LOCAL'', 0), (''VER_NDX_GLOBAL'', 1), (''VER_NDX_LORESERVE'', 0xff00),
     (''VER_NDX_ELIMINATE'', 0xff01)]"

definition VER_NEED_values :: numbers where
  "VER_NEED_values = [(''VER_NEED_NONE'', 0), (''VER_NEED_CURRENT'', 1), (''VER_NEED_NUM'', 2)]"

section \<open>Auxiliary vector and properties\<close>

definition AT_values :: numbers where
  "AT_values = [(''AT_NULL'', 0), (''AT_IGNORE'', 1), (''AT_EXECFD'', 2), (''AT_PHDR'', 3), (''AT_PHENT'', 4),
     (''AT_PHNUM'', 5), (''AT_PAGESZ'', 6), (''AT_BASE'', 7), (''AT_FLAGS'', 8), (''AT_ENTRY'', 9),
     (''AT_NOTELF'', 10), (''AT_UID'', 11), (''AT_EUID'', 12), (''AT_GID'', 13), (''AT_EGID'', 14),
     (''AT_CLKTCK'', 17), (''AT_PLATFORM'', 15), (''AT_HWCAP'', 16), (''AT_FPUCW'', 18), (''AT_DCACHEBSIZE'', 19),
     (''AT_ICACHEBSIZE'', 20), (''AT_UCACHEBSIZE'', 21), (''AT_IGNOREPPC'', 22), (''AT_SECURE'', 23),
     (''AT_BASE_PLATFORM'', 24), (''AT_RANDOM'', 25), (''AT_HWCAP2'', 26), (''AT_EXECFN'', 31),
     (''AT_SYSINFO'', 32), (''AT_SYSINFO_EHDR'', 33), (''AT_L1I_CACHESHAPE'', 34), (''AT_L1D_CACHESHAPE'', 35),
     (''AT_L2_CACHESHAPE'', 36), (''AT_L3_CACHESHAPE'', 37), (''AT_L1I_CACHESIZE'', 40),
     (''AT_L1I_CACHEGEOMETRY'', 41), (''AT_L1D_CACHESIZE'', 42), (''AT_L1D_CACHEGEOMETRY'', 43),
     (''AT_L2_CACHESIZE'', 44), (''AT_L2_CACHEGEOMETRY'', 45), (''AT_L3_CACHESIZE'', 46),
     (''AT_L3_CACHEGEOMETRY'', 47), (''AT_MINSIGSTKSZ'', 51)]"

definition ELF_NOTE_values :: numbers where
  "ELF_NOTE_values = [(''ELF_NOTE_PAGESIZE_HINT'', 1), (''NT_GNU_ABI_TAG'', 1), (''ELF_NOTE_ABI'', 1),
     (''ELF_NOTE_OS_LINUX'', 0), (''ELF_NOTE_OS_GNU'', 1), (''ELF_NOTE_OS_SOLARIS2'', 2),
     (''ELF_NOTE_OS_FREEBSD'', 3), (''NT_GNU_HWCAP'', 2), (''NT_GNU_BUILD_ID'', 3), (''NT_GNU_GOLD_VERSION'', 4),
     (''NT_GNU_PROPERTY_TYPE_0'', 5), (''NT_FDO_PACKAGING_METADATA'', 0xcafe1a7e)]"

definition GNU_PROPERTY_values :: numbers where
  "GNU_PROPERTY_values = [(''GNU_PROPERTY_STACK_SIZE'', 1), (''GNU_PROPERTY_NO_COPY_ON_PROTECTED'', 2),
     (''GNU_PROPERTY_UINT32_AND_LO'', 0xb0000000), (''GNU_PROPERTY_UINT32_AND_HI'', 0xb0007fff),
     (''GNU_PROPERTY_UINT32_OR_LO'', 0xb0008000), (''GNU_PROPERTY_UINT32_OR_HI'', 0xb000ffff),
     (''GNU_PROPERTY_1_NEEDED'', 0xb0008000), (''GNU_PROPERTY_1_NEEDED_INDIRECT_EXTERN_ACCESS'', 2 ^ 0),
     (''GNU_PROPERTY_LOPROC'', 0xc0000000), (''GNU_PROPERTY_HIPROC'', 0xdfffffff),
     (''GNU_PROPERTY_LOUSER'', 0xe0000000), (''GNU_PROPERTY_HIUSER'', 0xffffffff),
     (''GNU_PROPERTY_AARCH64_FEATURE_1_AND'', 0xc0000000), (''GNU_PROPERTY_AARCH64_FEATURE_1_BTI'', 2 ^ 0),
     (''GNU_PROPERTY_AARCH64_FEATURE_1_PAC'', 2 ^ 1), (''GNU_PROPERTY_X86_ISA_1_USED'', 0xc0010002),
     (''GNU_PROPERTY_X86_ISA_1_NEEDED'', 0xc0008002), (''GNU_PROPERTY_X86_FEATURE_1_AND'', 0xc0000002),
     (''GNU_PROPERTY_X86_ISA_1_BASELINE'', 2 ^ 0), (''GNU_PROPERTY_X86_ISA_1_V2'', 2 ^ 1),
     (''GNU_PROPERTY_X86_ISA_1_V3'', 2 ^ 2), (''GNU_PROPERTY_X86_ISA_1_V4'', 2 ^ 3),
     (''GNU_PROPERTY_X86_FEATURE_1_IBT'', 2 ^ 0), (''GNU_PROPERTY_X86_FEATURE_1_SHSTK'', 2 ^ 1)]"

definition ELF_NOTE_SOLARIS :: string where "ELF_NOTE_SOLARIS = ''SUNW Solaris''"

definition ELF_NOTE_GNU :: string where "ELF_NOTE_GNU = ''GNU''"

definition ELF_NOTE_FDO :: string where "ELF_NOTE_FDO = ''FDO''"

definition NOTE_GNU_PROPERTY_SECTION_NAME :: string where "NOTE_GNU_PROPERTY_SECTION_NAME = ''.note.gnu.property''"

section \<open>Processors\<close>

definition EF_SPARC_values :: numbers where
  "EF_SPARC_values = [(''EF_SPARCV9_MM'', 3), (''EF_SPARCV9_TSO'', 0), (''EF_SPARCV9_PSO'', 1),
     (''EF_SPARCV9_RMO'', 2), (''EF_SPARC_LEDATA'', 0x800000), (''EF_SPARC_EXT_MASK'', 0xffff00),
     (''EF_SPARC_32PLUS'', 0x000100), (''EF_SPARC_SUN_US1'', 0x000200), (''EF_SPARC_HAL_R1'', 0x000400),
     (''EF_SPARC_SUN_US3'', 0x000800)]"

definition DT_SPARC_values :: numbers where
  "DT_SPARC_values = [(''DT_SPARC_REGISTER'', 0x70000001)]"

definition EF_MIPS_values :: numbers where
  "EF_MIPS_values = [(''EF_MIPS_NOREORDER'', 1), (''EF_MIPS_PIC'', 2), (''EF_MIPS_CPIC'', 4),
     (''EF_MIPS_XGOT'', 8), (''EF_MIPS_64BIT_WHIRL'', 16), (''EF_MIPS_ABI2'', 32), (''EF_MIPS_ABI_ON32'', 64),
     (''EF_MIPS_FP64'', 512), (''EF_MIPS_NAN2008'', 1024), (''EF_MIPS_ARCH'', 0xf0000000), (''EF_MIPS_ARCH_1'', 0),
     (''EF_MIPS_ARCH_2'', 0x10000000), (''EF_MIPS_ARCH_3'', 0x20000000), (''EF_MIPS_ARCH_4'', 0x30000000),
     (''EF_MIPS_ARCH_5'', 0x40000000), (''EF_MIPS_ARCH_32'', 0x50000000), (''EF_MIPS_ARCH_64'', 0x60000000),
     (''EF_MIPS_ARCH_32R2'', 0x70000000), (''EF_MIPS_ARCH_64R2'', 0x80000000)]"

definition E_MIPS_values :: numbers where
  "E_MIPS_values = [(''E_MIPS_ARCH_1'', 0), (''E_MIPS_ARCH_2'', 0x10000000), (''E_MIPS_ARCH_3'', 0x20000000),
     (''E_MIPS_ARCH_4'', 0x30000000), (''E_MIPS_ARCH_5'', 0x40000000), (''E_MIPS_ARCH_32'', 0x50000000),
     (''E_MIPS_ARCH_64'', 0x60000000)]"

definition SHN_MIPS_values :: numbers where
  "SHN_MIPS_values = [(''SHN_MIPS_ACOMMON'', 0xff00), (''SHN_MIPS_TEXT'', 0xff01), (''SHN_MIPS_DATA'', 0xff02),
     (''SHN_MIPS_SCOMMON'', 0xff03), (''SHN_MIPS_SUNDEFINED'', 0xff04)]"

definition SHT_MIPS_values :: numbers where
  "SHT_MIPS_values = [(''SHT_MIPS_LIBLIST'', 0x70000000), (''SHT_MIPS_MSYM'', 0x70000001),
     (''SHT_MIPS_CONFLICT'', 0x70000002), (''SHT_MIPS_GPTAB'', 0x70000003), (''SHT_MIPS_UCODE'', 0x70000004),
     (''SHT_MIPS_DEBUG'', 0x70000005), (''SHT_MIPS_REGINFO'', 0x70000006), (''SHT_MIPS_PACKAGE'', 0x70000007),
     (''SHT_MIPS_PACKSYM'', 0x70000008), (''SHT_MIPS_RELD'', 0x70000009), (''SHT_MIPS_IFACE'', 0x7000000b),
     (''SHT_MIPS_CONTENT'', 0x7000000c), (''SHT_MIPS_OPTIONS'', 0x7000000d), (''SHT_MIPS_SHDR'', 0x70000010),
     (''SHT_MIPS_FDESC'', 0x70000011), (''SHT_MIPS_EXTSYM'', 0x70000012), (''SHT_MIPS_DENSE'', 0x70000013),
     (''SHT_MIPS_PDESC'', 0x70000014), (''SHT_MIPS_LOCSYM'', 0x70000015), (''SHT_MIPS_AUXSYM'', 0x70000016),
     (''SHT_MIPS_OPTSYM'', 0x70000017), (''SHT_MIPS_LOCSTR'', 0x70000018), (''SHT_MIPS_LINE'', 0x70000019),
     (''SHT_MIPS_RFDESC'', 0x7000001a), (''SHT_MIPS_DELTASYM'', 0x7000001b), (''SHT_MIPS_DELTAINST'', 0x7000001c),
     (''SHT_MIPS_DELTACLASS'', 0x7000001d), (''SHT_MIPS_DWARF'', 0x7000001e), (''SHT_MIPS_DELTADECL'', 0x7000001f),
     (''SHT_MIPS_SYMBOL_LIB'', 0x70000020), (''SHT_MIPS_EVENTS'', 0x70000021),
     (''SHT_MIPS_TRANSLATE'', 0x70000022), (''SHT_MIPS_PIXIE'', 0x70000023), (''SHT_MIPS_XLATE'', 0x70000024),
     (''SHT_MIPS_XLATE_DEBUG'', 0x70000025), (''SHT_MIPS_WHIRL'', 0x70000026),
     (''SHT_MIPS_EH_REGION'', 0x70000027), (''SHT_MIPS_XLATE_OLD'', 0x70000028),
     (''SHT_MIPS_PDR_EXCEPTION'', 0x70000029), (''SHT_MIPS_XHASH'', 0x7000002b)]"

definition SHF_MIPS_values :: numbers where
  "SHF_MIPS_values = [(''SHF_MIPS_GPREL'', 0x10000000), (''SHF_MIPS_MERGE'', 0x20000000),
     (''SHF_MIPS_ADDR'', 0x40000000), (''SHF_MIPS_STRINGS'', 0x80000000), (''SHF_MIPS_NOSTRIP'', 0x08000000),
     (''SHF_MIPS_LOCAL'', 0x04000000), (''SHF_MIPS_NAMES'', 0x02000000), (''SHF_MIPS_NODUPE'', 0x01000000)]"

definition STO_MIPS_values :: numbers where
  "STO_MIPS_values = [(''STO_MIPS_DEFAULT'', 0), (''STO_MIPS_INTERNAL'', 1), (''STO_MIPS_HIDDEN'', 2),
     (''STO_MIPS_PROTECTED'', 3), (''STO_MIPS_PLT'', 8), (''STO_MIPS_SC_ALIGN_UNUSED'', 0xff)]"

definition ODK_values :: numbers where
  "ODK_values = [(''ODK_NULL'', 0), (''ODK_REGINFO'', 1), (''ODK_EXCEPTIONS'', 2), (''ODK_PAD'', 3),
     (''ODK_HWPATCH'', 4), (''ODK_FILL'', 5), (''ODK_TAGS'', 6), (''ODK_HWAND'', 7), (''ODK_HWOR'', 8)]"

definition OEX_values :: numbers where
  "OEX_values = [(''OEX_FPU_MIN'', 0x1f), (''OEX_FPU_MAX'', 0x1f00), (''OEX_PAGE0'', 0x10000),
     (''OEX_SMM'', 0x20000), (''OEX_FPDBUG'', 0x40000), (''OEX_PRECISEFP'', 0x40000), (''OEX_DISMISS'', 0x80000),
     (''OEX_FPU_INVAL'', 0x10), (''OEX_FPU_DIV0'', 8), (''OEX_FPU_OFLO'', 4), (''OEX_FPU_UFLO'', 2),
     (''OEX_FPU_INEX'', 1)]"

definition OHW_values :: numbers where
  "OHW_values = [(''OHW_R4KEOP'', 1), (''OHW_R8KPFETCH'', 2), (''OHW_R5KEOP'', 4), (''OHW_R5KCVTL'', 8)]"

definition OPAD_values :: numbers where
  "OPAD_values = [(''OPAD_PREFIX'', 1), (''OPAD_POSTFIX'', 2), (''OPAD_SYMBOL'', 4)]"

definition OHWA_values :: numbers where
  "OHWA_values = [(''OHWA0_R4KEOP_CHECKED'', 1), (''OHWA1_R4KEOP_CLEAN'', 2)]"

definition PT_MIPS_values :: numbers where
  "PT_MIPS_values = [(''PT_MIPS_REGINFO'', 0x70000000), (''PT_MIPS_RTPROC'', 0x70000001),
     (''PT_MIPS_OPTIONS'', 0x70000002), (''PT_MIPS_ABIFLAGS'', 0x70000003)]"

definition DT_MIPS_values :: numbers where
  "DT_MIPS_values = [(''DT_MIPS_RLD_VERSION'', 0x70000001), (''DT_MIPS_TIME_STAMP'', 0x70000002),
     (''DT_MIPS_ICHECKSUM'', 0x70000003), (''DT_MIPS_IVERSION'', 0x70000004), (''DT_MIPS_FLAGS'', 0x70000005),
     (''DT_MIPS_BASE_ADDRESS'', 0x70000006), (''DT_MIPS_MSYM'', 0x70000007), (''DT_MIPS_CONFLICT'', 0x70000008),
     (''DT_MIPS_LIBLIST'', 0x70000009), (''DT_MIPS_LOCAL_GOTNO'', 0x7000000a),
     (''DT_MIPS_CONFLICTNO'', 0x7000000b), (''DT_MIPS_LIBLISTNO'', 0x70000010), (''DT_MIPS_SYMTABNO'', 0x70000011),
     (''DT_MIPS_UNREFEXTNO'', 0x70000012), (''DT_MIPS_GOTSYM'', 0x70000013), (''DT_MIPS_HIPAGENO'', 0x70000014),
     (''DT_MIPS_RLD_MAP'', 0x70000016), (''DT_MIPS_DELTA_CLASS'', 0x70000017),
     (''DT_MIPS_DELTA_CLASS_NO'', 0x70000018), (''DT_MIPS_DELTA_INSTANCE'', 0x70000019),
     (''DT_MIPS_DELTA_INSTANCE_NO'', 0x7000001a), (''DT_MIPS_DELTA_RELOC'', 0x7000001b),
     (''DT_MIPS_DELTA_RELOC_NO'', 0x7000001c), (''DT_MIPS_DELTA_SYM'', 0x7000001d),
     (''DT_MIPS_DELTA_SYM_NO'', 0x7000001e), (''DT_MIPS_DELTA_CLASSSYM'', 0x70000020),
     (''DT_MIPS_DELTA_CLASSSYM_NO'', 0x70000021), (''DT_MIPS_CXX_FLAGS'', 0x70000022),
     (''DT_MIPS_PIXIE_INIT'', 0x70000023), (''DT_MIPS_SYMBOL_LIB'', 0x70000024),
     (''DT_MIPS_LOCALPAGE_GOTIDX'', 0x70000025), (''DT_MIPS_LOCAL_GOTIDX'', 0x70000026),
     (''DT_MIPS_HIDDEN_GOTIDX'', 0x70000027), (''DT_MIPS_PROTECTED_GOTIDX'', 0x70000028),
     (''DT_MIPS_OPTIONS'', 0x70000029), (''DT_MIPS_INTERFACE'', 0x7000002a),
     (''DT_MIPS_DYNSTR_ALIGN'', 0x7000002b), (''DT_MIPS_INTERFACE_SIZE'', 0x7000002c),
     (''DT_MIPS_RLD_TEXT_RESOLVE_ADDR'', 0x7000002d), (''DT_MIPS_PERF_SUFFIX'', 0x7000002e),
     (''DT_MIPS_COMPACT_SIZE'', 0x7000002f), (''DT_MIPS_GP_VALUE'', 0x70000030),
     (''DT_MIPS_AUX_DYNAMIC'', 0x70000031), (''DT_MIPS_PLTGOT'', 0x70000032), (''DT_MIPS_RWPLT'', 0x70000034),
     (''DT_MIPS_RLD_MAP_REL'', 0x70000035), (''DT_MIPS_XHASH'', 0x70000036)]"

definition RHF_values :: numbers where
  "RHF_values = [(''RHF_NONE'', 0), (''RHF_QUICKSTART'', 2 ^ 0), (''RHF_NOTPOT'', 2 ^ 1),
     (''RHF_NO_LIBRARY_REPLACEMENT'', 2 ^ 2), (''RHF_NO_MOVE'', 2 ^ 3), (''RHF_SGI_ONLY'', 2 ^ 4),
     (''RHF_GUARANTEE_INIT'', 2 ^ 5), (''RHF_DELTA_C_PLUS_PLUS'', 2 ^ 6), (''RHF_GUARANTEE_START_INIT'', 2 ^ 7),
     (''RHF_PIXIE'', 2 ^ 8), (''RHF_DEFAULT_DELAY_LOAD'', 2 ^ 9), (''RHF_REQUICKSTART'', 2 ^ 10),
     (''RHF_REQUICKSTARTED'', 2 ^ 11), (''RHF_CORD'', 2 ^ 12), (''RHF_NO_UNRES_UNDEF'', 2 ^ 13),
     (''RHF_RLD_ORDER_SAFE'', 2 ^ 14)]"

definition LL_values :: numbers where
  "LL_values = [(''LL_NONE'', 0), (''LL_EXACT_MATCH'', 2 ^ 0), (''LL_IGNORE_INT_VER'', 2 ^ 1),
     (''LL_REQUIRE_MINOR'', 2 ^ 2), (''LL_EXPORTS'', 2 ^ 3), (''LL_DELAY_LOAD'', 2 ^ 4), (''LL_DELTA'', 2 ^ 5)]"

definition MIPS_AFL_values :: numbers where
  "MIPS_AFL_values = [(''MIPS_AFL_REG_NONE'', 0), (''MIPS_AFL_REG_32'', 1), (''MIPS_AFL_REG_64'', 2),
     (''MIPS_AFL_REG_128'', 3), (''MIPS_AFL_ASE_DSP'', 1), (''MIPS_AFL_ASE_DSPR2'', 2), (''MIPS_AFL_ASE_EVA'', 4),
     (''MIPS_AFL_ASE_MCU'', 8), (''MIPS_AFL_ASE_MDMX'', 0x00000010), (''MIPS_AFL_ASE_MIPS3D'', 0x00000020),
     (''MIPS_AFL_ASE_MT'', 0x00000040), (''MIPS_AFL_ASE_SMARTMIPS'', 0x00000080),
     (''MIPS_AFL_ASE_VIRT'', 0x00000100), (''MIPS_AFL_ASE_MSA'', 0x00000200),
     (''MIPS_AFL_ASE_MIPS16'', 0x00000400), (''MIPS_AFL_ASE_MICROMIPS'', 0x00000800),
     (''MIPS_AFL_ASE_XPA'', 0x00001000), (''MIPS_AFL_ASE_MASK'', 0x00001fff), (''MIPS_AFL_EXT_XLR'', 1),
     (''MIPS_AFL_EXT_OCTEON2'', 2), (''MIPS_AFL_EXT_OCTEONP'', 3), (''MIPS_AFL_EXT_LOONGSON_3A'', 4),
     (''MIPS_AFL_EXT_OCTEON'', 5), (''MIPS_AFL_EXT_5900'', 6), (''MIPS_AFL_EXT_4650'', 7),
     (''MIPS_AFL_EXT_4010'', 8), (''MIPS_AFL_EXT_4100'', 9), (''MIPS_AFL_EXT_3900'', 10),
     (''MIPS_AFL_EXT_10000'', 11), (''MIPS_AFL_EXT_SB1'', 12), (''MIPS_AFL_EXT_4111'', 13),
     (''MIPS_AFL_EXT_4120'', 14), (''MIPS_AFL_EXT_5400'', 15), (''MIPS_AFL_EXT_5500'', 16),
     (''MIPS_AFL_EXT_LOONGSON_2E'', 17), (''MIPS_AFL_EXT_LOONGSON_2F'', 18), (''MIPS_AFL_FLAGS1_ODDSPREG'', 1)]"

definition EF_PARISC_values :: numbers where
  "EF_PARISC_values = [(''EF_PARISC_TRAPNIL'', 0x00010000), (''EF_PARISC_EXT'', 0x00020000),
     (''EF_PARISC_LSB'', 0x00040000), (''EF_PARISC_WIDE'', 0x00080000), (''EF_PARISC_NO_KABP'', 0x00100000),
     (''EF_PARISC_LAZYSWAP'', 0x00400000), (''EF_PARISC_ARCH'', 0x0000ffff), (''EFA_PARISC_1_0'', 0x020b),
     (''EFA_PARISC_1_1'', 0x0210), (''EFA_PARISC_2_0'', 0x0214)]"

definition SHN_PARISC_values :: numbers where
  "SHN_PARISC_values = [(''SHN_PARISC_ANSI_COMMON'', 0xff00), (''SHN_PARISC_HUGE_COMMON'', 0xff01)]"

definition SHT_PARISC_values :: numbers where
  "SHT_PARISC_values = [(''SHT_PARISC_EXT'', 0x70000000), (''SHT_PARISC_UNWIND'', 0x70000001),
     (''SHT_PARISC_DOC'', 0x70000002)]"

definition SHF_PARISC_values :: numbers where
  "SHF_PARISC_values = [(''SHF_PARISC_SHORT'', 0x20000000), (''SHF_PARISC_HUGE'', 0x40000000),
     (''SHF_PARISC_SBP'', 0x80000000)]"

definition STT_PARISC_values :: numbers where
  "STT_PARISC_values = [(''STT_PARISC_MILLICODE'', 13), (''STT_HP_OPAQUE'', 0xa + 1), (''STT_HP_STUB'', 0xa + 2)]"

definition PT_HP_values :: numbers where
  "PT_HP_values = [(''PT_HP_TLS'', 0x60000000 + 0), (''PT_HP_CORE_NONE'', 0x60000000 + 1),
     (''PT_HP_CORE_VERSION'', 0x60000000 + 2), (''PT_HP_CORE_KERNEL'', 0x60000000 + 3),
     (''PT_HP_CORE_COMM'', 0x60000000 + 4), (''PT_HP_CORE_PROC'', 0x60000000 + 5),
     (''PT_HP_CORE_LOADABLE'', 0x60000000 + 6), (''PT_HP_CORE_STACK'', 0x60000000 + 7),
     (''PT_HP_CORE_SHM'', 0x60000000 + 8), (''PT_HP_CORE_MMF'', 0x60000000 + 9),
     (''PT_HP_PARALLEL'', 0x60000000 + 0x10), (''PT_HP_FASTBIND'', 0x60000000 + 0x11),
     (''PT_HP_OPT_ANNOT'', 0x60000000 + 0x12), (''PT_HP_HSL_ANNOT'', 0x60000000 + 0x13),
     (''PT_HP_STACK'', 0x60000000 + 0x14)]"

definition PT_PARISC_values :: numbers where
  "PT_PARISC_values = [(''PT_PARISC_ARCHEXT'', 0x70000000), (''PT_PARISC_UNWIND'', 0x70000001)]"

definition PF_PARISC_values :: numbers where
  "PF_PARISC_values = [(''PF_PARISC_SBP'', 0x08000000), (''PF_HP_PAGE_SIZE'', 0x00100000),
     (''PF_HP_FAR_SHARED'', 0x00200000), (''PF_HP_NEAR_SHARED'', 0x00400000), (''PF_HP_CODE'', 0x01000000),
     (''PF_HP_MODIFY'', 0x02000000), (''PF_HP_LAZYSWAP'', 0x04000000), (''PF_HP_SBP'', 0x08000000)]"

definition EF_ALPHA_values :: numbers where
  "EF_ALPHA_values = [(''EF_ALPHA_32BIT'', 1), (''EF_ALPHA_CANRELAX'', 2)]"

definition SHT_ALPHA_values :: numbers where
  "SHT_ALPHA_values = [(''SHT_ALPHA_DEBUG'', 0x70000001), (''SHT_ALPHA_REGINFO'', 0x70000002)]"

definition SHF_ALPHA_values :: numbers where
  "SHF_ALPHA_values = [(''SHF_ALPHA_GPREL'', 0x10000000)]"

definition STO_ALPHA_values :: numbers where
  "STO_ALPHA_values = [(''STO_ALPHA_NOPV'', 0x80), (''STO_ALPHA_STD_GPLOAD'', 0x88)]"

definition LITUSE_values :: numbers where
  "LITUSE_values = [(''LITUSE_ALPHA_ADDR'', 0), (''LITUSE_ALPHA_BASE'', 1), (''LITUSE_ALPHA_BYTOFF'', 2),
     (''LITUSE_ALPHA_JSR'', 3), (''LITUSE_ALPHA_TLS_GD'', 4), (''LITUSE_ALPHA_TLS_LDM'', 5)]"

definition DT_ALPHA_values :: numbers where
  "DT_ALPHA_values = [(''DT_ALPHA_PLTRO'', 0x70000000 + 0)]"

definition EF_PPC_values :: numbers where
  "EF_PPC_values = [(''EF_PPC_EMB'', 0x80000000), (''EF_PPC_RELOCATABLE'', 0x00010000),
     (''EF_PPC_RELOCATABLE_LIB'', 0x00008000)]"

definition DT_PPC_values :: numbers where
  "DT_PPC_values = [(''DT_PPC_GOT'', 0x70000000 + 0), (''DT_PPC_OPT'', 0x70000000 + 1)]"

definition EF_PPC64_values :: numbers where
  "EF_PPC64_values = [(''EF_PPC64_ABI'', 3)]"

definition DT_PPC64_values :: numbers where
  "DT_PPC64_values = [(''DT_PPC64_GLINK'', 0x70000000 + 0), (''DT_PPC64_OPD'', 0x70000000 + 1),
     (''DT_PPC64_OPDSZ'', 0x70000000 + 2), (''DT_PPC64_OPT'', 0x70000000 + 3)]"

definition PPC64_OPT_values :: numbers where
  "PPC64_OPT_values = [(''PPC64_OPT_TLS'', 1), (''PPC64_OPT_MULTI_TOC'', 2), (''PPC64_OPT_LOCALENTRY'', 4)]"

definition EF_ARM_values :: numbers where
  "EF_ARM_values = [(''EF_ARM_RELEXEC'', 1), (''EF_ARM_HASENTRY'', 2), (''EF_ARM_INTERWORK'', 4),
     (''EF_ARM_APCS_26'', 8), (''EF_ARM_APCS_FLOAT'', 0x10), (''EF_ARM_PIC'', 0x20), (''EF_ARM_ALIGN8'', 0x40),
     (''EF_ARM_NEW_ABI'', 0x80), (''EF_ARM_OLD_ABI'', 0x100), (''EF_ARM_SOFT_FLOAT'', 0x200),
     (''EF_ARM_VFP_FLOAT'', 0x400), (''EF_ARM_MAVERICK_FLOAT'', 0x800), (''EF_ARM_ABI_FLOAT_SOFT'', 0x200),
     (''EF_ARM_ABI_FLOAT_HARD'', 0x400), (''EF_ARM_SYMSARESORTED'', 4), (''EF_ARM_DYNSYMSUSESEGIDX'', 8),
     (''EF_ARM_MAPSYMSFIRST'', 0x10), (''EF_ARM_EABIMASK'', 0xff000000), (''EF_ARM_BE8'', 0x00800000),
     (''EF_ARM_LE8'', 0x00400000), (''EF_ARM_EABI_UNKNOWN'', 0), (''EF_ARM_EABI_VER1'', 0x01000000),
     (''EF_ARM_EABI_VER2'', 0x02000000), (''EF_ARM_EABI_VER3'', 0x03000000), (''EF_ARM_EABI_VER4'', 0x04000000),
     (''EF_ARM_EABI_VER5'', 0x05000000)]"

definition STT_ARM_values :: numbers where
  "STT_ARM_values = [(''STT_ARM_TFUNC'', 13), (''STT_ARM_16BIT'', 15)]"

definition SHF_ARM_values :: numbers where
  "SHF_ARM_values = [(''SHF_ARM_ENTRYSECT'', 0x10000000), (''SHF_ARM_COMDEF'', 0x80000000)]"

definition PF_ARM_values :: numbers where
  "PF_ARM_values = [(''PF_ARM_SB'', 0x10000000), (''PF_ARM_PI'', 0x20000000), (''PF_ARM_ABS'', 0x40000000)]"

definition PT_ARM_values :: numbers where
  "PT_ARM_values = [(''PT_ARM_EXIDX'', 0x70000000 + 1)]"

definition SHT_ARM_values :: numbers where
  "SHT_ARM_values = [(''SHT_ARM_EXIDX'', 0x70000000 + 1), (''SHT_ARM_PREEMPTMAP'', 0x70000000 + 2),
     (''SHT_ARM_ATTRIBUTES'', 0x70000000 + 3)]"

definition DT_AARCH64_values :: numbers where
  "DT_AARCH64_values = [(''DT_AARCH64_BTI_PLT'', 0x70000000 + 1), (''DT_AARCH64_PAC_PLT'', 0x70000000 + 3),
     (''DT_AARCH64_VARIANT_PCS'', 0x70000000 + 5)]"

definition EF_CSKY_values :: numbers where
  "EF_CSKY_values = [(''EF_CSKY_ABIMASK'', 0xf0000000), (''EF_CSKY_OTHER'', 0x0fff0000),
     (''EF_CSKY_PROCESSOR'', 0x0000ffff), (''EF_CSKY_ABIV1'', 0x10000000), (''EF_CSKY_ABIV2'', 0x20000000)]"

definition SHT_CSKY_values :: numbers where
  "SHT_CSKY_values = [(''SHT_CSKY_ATTRIBUTES'', 0x70000000 + 1)]"

definition EF_IA_64_values :: numbers where
  "EF_IA_64_values = [(''EF_IA_64_MASKOS'', 0x0000000f), (''EF_IA_64_ABI64'', 0x00000010),
     (''EF_IA_64_ARCH'', 0xff000000)]"

definition PT_IA_64_values :: numbers where
  "PT_IA_64_values = [(''PT_IA_64_ARCHEXT'', 0x70000000 + 0), (''PT_IA_64_UNWIND'', 0x70000000 + 1)]"

definition PT_IA_64_HP_values :: numbers where
  "PT_IA_64_HP_values = [(''PT_IA_64_HP_OPT_ANOT'', 0x60000000 + 0x12),
     (''PT_IA_64_HP_HSL_ANOT'', 0x60000000 + 0x13), (''PT_IA_64_HP_STACK'', 0x60000000 + 0x14)]"

definition SHT_IA_64_values :: numbers where
  "SHT_IA_64_values = [(''SHT_IA_64_EXT'', 0x70000000 + 0), (''SHT_IA_64_UNWIND'', 0x70000000 + 1)]"

definition SHF_IA_64_values :: numbers where
  "SHF_IA_64_values = [(''SHF_IA_64_SHORT'', 0x10000000), (''SHF_IA_64_NORECOV'', 0x20000000)]"

definition DT_IA_64_values :: numbers where
  "DT_IA_64_values = [(''DT_IA_64_PLT_RESERVE'', 0x70000000 + 0)]"

definition EF_SH_values :: numbers where
  "EF_SH_values = [(''EF_SH_MACH_MASK'', 0x1f), (''EF_SH_UNKNOWN'', 0), (''EF_SH1'', 1), (''EF_SH2'', 2),
     (''EF_SH3'', 3), (''EF_SH_DSP'', 4), (''EF_SH3_DSP'', 5), (''EF_SH4AL_DSP'', 6), (''EF_SH3E'', 8),
     (''EF_SH4'', 9), (''EF_SH2E'', 0xb), (''EF_SH4A'', 0xc), (''EF_SH2A'', 0xd), (''EF_SH4_NOFPU'', 0x10),
     (''EF_SH4A_NOFPU'', 0x11), (''EF_SH4_NOMMU_NOFPU'', 0x12), (''EF_SH2A_NOFPU'', 0x13),
     (''EF_SH3_NOMMU'', 0x14), (''EF_SH2A_SH4_NOFPU'', 0x15), (''EF_SH2A_SH3_NOFPU'', 0x16),
     (''EF_SH2A_SH4'', 0x17), (''EF_SH2A_SH3E'', 0x18)]"

definition SHT_X86_64_values :: numbers where
  "SHT_X86_64_values = [(''SHT_X86_64_UNWIND'', 0x70000001)]"

definition DT_NIOS2_values :: numbers where
  "DT_NIOS2_values = [(''DT_NIOS2_GP'', 0x70000002)]"

definition EF_RISCV_values :: numbers where
  "EF_RISCV_values = [(''EF_RISCV_RVC'', 1), (''EF_RISCV_FLOAT_ABI'', 6), (''EF_RISCV_FLOAT_ABI_SOFT'', 0),
     (''EF_RISCV_FLOAT_ABI_SINGLE'', 2), (''EF_RISCV_FLOAT_ABI_DOUBLE'', 4), (''EF_RISCV_FLOAT_ABI_QUAD'', 6)]"

definition DT_SPARC_NUM :: nat where "DT_SPARC_NUM = 2"

definition DT_MIPS_NUM :: nat where "DT_MIPS_NUM = 0x37"

definition DT_ALPHA_NUM :: nat where "DT_ALPHA_NUM = 1"

definition DT_PPC_NUM :: nat where "DT_PPC_NUM = 2"

definition DT_PPC64_NUM :: nat where "DT_PPC64_NUM = 4"

definition DT_AARCH64_NUM :: nat where "DT_AARCH64_NUM = 6"

definition DT_IA_64_NUM :: nat where "DT_IA_64_NUM = 1"

definition EF_CPU32 :: nat where "EF_CPU32 = 0x00810000"

definition PPC_OPT_TLS :: nat where "PPC_OPT_TLS = 1"

definition STT_SPARC_REGISTER :: nat where "STT_SPARC_REGISTER = 13"

definition STB_MIPS_SPLIT_COMMON :: nat where "STB_MIPS_SPLIT_COMMON = 13"

definition PF_MIPS_LOCAL :: nat where "PF_MIPS_LOCAL = 0x10000000"

definition STO_AARCH64_VARIANT_PCS :: nat where "STO_AARCH64_VARIANT_PCS = 0x80"

definition PF_IA_64_NORECOV :: nat where "PF_IA_64_NORECOV = 0x80000000"

definition EF_S390_HIGH_GPRS :: nat where "EF_S390_HIGH_GPRS = 1"

definition Val_GNU_MIPS_ABI_values :: numbers where
  "Val_GNU_MIPS_ABI_values = [(''Val_GNU_MIPS_ABI_FP_ANY'', 0),
     (''Val_GNU_MIPS_ABI_FP_DOUBLE'', 1),
     (''Val_GNU_MIPS_ABI_FP_SINGLE'', 2),
     (''Val_GNU_MIPS_ABI_FP_SOFT'', 3),
     (''Val_GNU_MIPS_ABI_FP_OLD_64'', 4),
     (''Val_GNU_MIPS_ABI_FP_XX'', 5),
     (''Val_GNU_MIPS_ABI_FP_64'', 6),
     (''Val_GNU_MIPS_ABI_FP_64A'', 7),
     (''Val_GNU_MIPS_ABI_FP_MAX'', 7)]"

section \<open>Indices of dynamic tags\<close>

definition DT_VALTAGIDX :: "nat \<Rightarrow> nat" where "DT_VALTAGIDX tag = value_of DT_VAL_values ''DT_VALRNGHI'' - tag"

definition DT_ADDRTAGIDX :: "nat \<Rightarrow> nat" where "DT_ADDRTAGIDX tag = value_of DT_ADDR_values ''DT_ADDRRNGHI'' - tag"

definition DT_VERSIONTAGIDX :: "nat \<Rightarrow> nat" where "DT_VERSIONTAGIDX tag = value_of DT_VERSION_values ''DT_VERNEEDNUM'' - tag"

definition DT_EXTRATAGIDX :: "u32 \<Rightarrow> u32" where "DT_EXTRATAGIDX tag = - signed_drop_bit 1 (push_bit 1 tag) - 1"

section \<open>Counts\<close>

lemmas generic_values = SHT_values_def STB_values_def STT_values_def PT_values_def DT_values_def EM_values_1_def EM_values_2_def
lemmas counts = SHT_NUM_def STB_NUM_def STT_NUM_def PT_NUM_def DT_NUM_def EM_NUM_def

text \<open>The generic values of a field are below the count the header gives for them.\<close>

lemma counts_bound:
  "list_all (\<lambda>v. v < SHT_NUM) (codes SHT_values)" "list_all (\<lambda>v. v < STB_NUM) (codes STB_values)"
  "list_all (\<lambda>v. v < STT_NUM) (codes STT_values)" "list_all (\<lambda>v. v < PT_NUM) (codes PT_values)"
  "list_all (\<lambda>v. v < DT_NUM) (codes DT_values)" "list_all (\<lambda>v. v < EM_NUM) (codes (EM_values_1 @ EM_values_2))"
  by (simp_all add: codes_def generic_values counts)

lemma generic_ascending:
  "list_all (\<lambda>t. ascending (codes t)) [SHT_values, STB_values, STT_values, PT_values, EM_values_1 @ EM_values_2]"
  by (simp add: codes_def generic_values)

text \<open>The four bytes of the magic number are those of the string \<open>ELFMAG\<close>, at the indices given.\<close>

lemma magic_bytes:
  "map snd (filter (\<lambda>(n, v). take 3 n = ''ELF'') EI_MAG_values) = map unat ELFMAG"
  "map snd (filter (\<lambda>(n, v). take 3 n = ''EI_'') EI_MAG_values) = [0..<SELFMAG]"
  by (simp_all add: EI_MAG_values_def ELFMAG_def SELFMAG_def upt_rec)

section \<open>Ranges of the processors\<close>

definition within :: "nat \<Rightarrow> nat \<Rightarrow> numbers \<Rightarrow> bool" where
  "within lo hi t \<longleftrightarrow> list_all (\<lambda>v. lo \<le> v \<and> v \<le> hi) (codes t)"

text \<open>What a processor adds to the types of sections, segments and tags lies in the range kept for processors.\<close>

lemma processor_sections:
  "list_all (within (value_of SHT_ranges ''SHT_LOPROC'') (value_of SHT_ranges ''SHT_HIPROC''))
     [SHT_MIPS_values, SHT_PARISC_values, SHT_ALPHA_values, SHT_ARM_values, SHT_CSKY_values, SHT_IA_64_values, SHT_X86_64_values]"
  by (simp add: within_def codes_def value_of_def SHT_ranges_def SHT_MIPS_values_def SHT_PARISC_values_def
      SHT_ALPHA_values_def SHT_ARM_values_def SHT_CSKY_values_def SHT_IA_64_values_def SHT_X86_64_values_def)

lemma processor_segments:
  "list_all (within (value_of PT_ranges ''PT_LOPROC'') (value_of PT_ranges ''PT_HIPROC''))
     [PT_MIPS_values, PT_PARISC_values, PT_ARM_values, PT_IA_64_values]"
  "list_all (within (value_of PT_os_values ''PT_LOOS'') (value_of PT_os_values ''PT_HIOS'')) [PT_os_values, PT_HP_values, PT_IA_64_HP_values]"
  by (simp_all add: within_def codes_def value_of_def PT_ranges_def PT_os_values_def PT_MIPS_values_def PT_PARISC_values_def
      PT_ARM_values_def PT_IA_64_values_def PT_HP_values_def PT_IA_64_HP_values_def)

text \<open>The tags of a processor are as many as it says, and none has more than \<open>DT_PROCNUM\<close>.\<close>

definition processor_tags :: "(numbers \<times> nat) list" where
  "processor_tags = [(DT_SPARC_values, DT_SPARC_NUM), (DT_MIPS_values, DT_MIPS_NUM), (DT_ALPHA_values, DT_ALPHA_NUM),
     (DT_PPC_values, DT_PPC_NUM), (DT_PPC64_values, DT_PPC64_NUM), (DT_AARCH64_values, DT_AARCH64_NUM),
     (DT_IA_64_values, DT_IA_64_NUM)]"

lemma processor_tags_counted:
  "list_all (\<lambda>(t, n). ascending (codes t) \<and> n \<le> DT_PROCNUM \<and> list_all (\<lambda>v. 0x70000000 \<le> v \<and> v < 0x70000000 + n) (codes t)) processor_tags"
  "value_of DT_ranges ''DT_LOPROC'' = 0x70000000"
  by (simp_all add: processor_tags_def codes_def value_of_def DT_PROCNUM_def DT_ranges_def DT_SPARC_values_def DT_SPARC_NUM_def
      DT_MIPS_values_def DT_MIPS_NUM_def DT_ALPHA_values_def DT_ALPHA_NUM_def DT_PPC_values_def DT_PPC_NUM_def
      DT_PPC64_values_def DT_PPC64_NUM_def DT_AARCH64_values_def DT_AARCH64_NUM_def DT_IA_64_values_def DT_IA_64_NUM_def)

section \<open>Indices and flags\<close>

text \<open>The tags of a range have different indices below the count of the range.\<close>

lemma tag_indices:
  "map DT_VALTAGIDX (drop 1 (codes DT_VAL_values)) = [10, 9, 8, 7, 6, 5, 4, 3, 2, 1, 0, 0]" "10 < DT_VALNUM"
  "map DT_ADDRTAGIDX (drop 1 (codes DT_ADDR_values)) = [10, 9, 8, 7, 6, 5, 4, 3, 2, 1, 0, 0]" "10 < DT_ADDRNUM"
  "map DT_VERSIONTAGIDX (codes DT_VERSION_values) = [15, 6, 5, 4, 3, 2, 1, 0]" "15 < DT_VERSIONTAGNUM"
  by (simp_all add: codes_def value_of_def DT_VALTAGIDX_def DT_ADDRTAGIDX_def DT_VERSIONTAGIDX_def DT_VAL_values_def
      DT_ADDR_values_def DT_VERSION_values_def DT_VALNUM_def DT_ADDRNUM_def DT_VERSIONTAGNUM_def)

lemma extra_tag_indices:
  "map (\<lambda>v. DT_EXTRATAGIDX (word_of_nat v)) (codes DT_EXTRA_values) = [2, 0]" "2 < DT_EXTRANUM"
proof -
  have "signed_drop_bit 1 (0xfffffffa :: u32) = - 3" "signed_drop_bit 1 (0xfffffffe :: u32) = - 1"
    by (rule signed_word_eqI, simp add: sint_signed_drop_bit_eq)+
  then show "map (\<lambda>v. DT_EXTRATAGIDX (word_of_nat v)) (codes DT_EXTRA_values) = [2, 0]"
    by (simp add: codes_def DT_EXTRA_values_def DT_EXTRATAGIDX_def push_bit_eq_mult)
qed (simp add: DT_EXTRANUM_def)

text \<open>Flags that are single bits, in order.\<close>

lemma flag_bits:
  "codes DF_values = map ((^) 2) [0..<5]" "codes DF_1_values = map ((^) 2) [0..<31]" "codes RHF_values = 0 # map ((^) 2) [0..<15]"
  "codes LL_values = 0 # map ((^) 2) [0..<6]" "take 12 (codes EF_ARM_values) = map ((^) 2) [0..<12]"
  by (simp_all add: codes_def DF_values_def DF_1_values_def RHF_values_def LL_values_def EF_ARM_values_def upt_rec)

end
