(* ===== verification/Spec2Isabelle.thy ===== *)
theory Spec2Isabelle
  imports QueueLoops KernelSteps LoopProgram Platform Tools ElfRelocs
begin

text \<open>
  A verification of MOS for RISC-V: a teaching kernel for one hart with Sv39 paging, and the host programs that build
  its images.

  \<^bold>\<open>The program.\<close> \<open>rv_main\<close> (init/init.c) frees the RAM behind the kernel to the page allocator (kern/phypage.c), builds
  and enables the kernel's page table (kern/vm.c), installs the trap vector (kern/traps.c), creates two environments
  from an embedded ELF program (kern/env.c, lib/elfloader.c) and starts the timer (kern/timer.c). Each timer interrupt
  enters through kern/kexcentry.S and include/stackframe.h, and the scheduler (kern/sched.c) switches between the
  environments on the tail queue of include/queue.h. Output goes through lib/print.c to the SBI console. On the host,
  tools/bintoc.c embeds a program in C, tools/fsformat.c writes a disk image, tools/readelf lists the sections of a file.

  \<^bold>\<open>Model.\<close> Integers keep their width as words; memory is a function from 64-bit addresses to bytes (Memory), so that
  free pages, page tables and loaded programs share one memory and alias as they do in the kernel. A step of the
  program returns an \<open>outcome\<close> (Prelude): a value (\<open>Ret\<close>), a \<open>panic\<close> or failed \<open>assert\<close> (\<open>Panic\<close>), a use of memory
  or an instruction the machine does not allow (\<open>Fault\<close>), or more rounds than a bound allows (\<open>NoFuel\<close>). State is
  passed explicitly.

  \<^item> Memory, KString: loads and stores; lib/string.c with its byte and word loops.
  \<^item> Mmu, Platform: include/mmu.h and include/types.h; Platform holds the macros the kernel does not use.
  \<^item> Phypage: \<open>kalloc\<close>, \<open>kfree\<close>, \<open>freerange\<close>, \<open>kinit\<close>, \<open>kalloc_check\<close> on the record \<open>kmem\<close>. The free list is threaded
    through the free pages; \<open>kmem_inv\<close> relates it to a list, and the locale \<open>page_allocator\<close>, interpreted on these
    routines, is what the page tables use of it.
  \<^item> Vm: every routine of kern/vm.c but the two in Boot. PageTables gives the abstract view (\<open>table\<close>, \<open>translate\<close>, the
    invariant \<open>pt_inv\<close>), PageMap the specification of \<open>mappages\<close>, PageOps that of the other operations, KernelSpace that of
    \<open>kvmcreate\<close>, with a count of the pages it needs, UserSpace that of \<open>env_setup_vm\<close>, whose self map makes the
    tables cyclic (\<open>self_link\<close>).
  \<^item> Queue, QueueLoops: include/queue.h. The locales \<open>intrusive_list\<close> and \<open>intrusive_tailq\<close> state what a client may
    rely on; both are interpreted on the macros.
  \<^item> Errors, Registers: include/error.h and include/registers.h, on a hart with its privilege mode.
  \<^item> Elfloader, ElfFormat: lib/elfloader.c with its callback as an argument, and include/elf.h as a file format.
    ElfRecords, ElfNumbers, ElfRelocs: the structures, numbers and relocation types of that header the kernel does not
    read, as tables in its order.
  \<^item> Env, Sched: kern/env.c, kern/timer.c, kern/sched.c, kern/sbi.c on the record \<open>kernel\<close>. The abstract scheduler is
    \<open>rr_step\<close>, which \<open>schedule\<close> refines under \<open>sched_inv\<close>.
  \<^item> LoadIcode, EnvCreate: the loader working on an environment's tables (\<open>loaded\<close>, \<open>program_space\<close>) and \<open>env_create\<close> as a
    whole, with the invariant \<open>kernel_ok\<close> of the kernel between two calls. LoopProgram: user/bare/loop.b.c.
  \<^item> Print: lib/print.c with its output callback as an argument, and kern/printk.c and kern/machine.c on the console. A
    locale states what a callback has to be like for the output not to depend on how it is cut into pieces.
  \<^item> Trap: include/stackframe.h, kern/env_asm.S, kern/kexcentry.S and kern/traps.c on the record \<open>hart\<close>.
  \<^item> Boot: \<open>rv_main\<close> as the sequence of its calls, with linker symbols, stack pointer and clock in a record.
    BootResult: what it leaves behind. KernelSteps: ticks and creations after it as the steps of a state machine
    (\<open>kernel_step\<close>, \<open>kernel_run\<close>), simulated by a machine of queues and priorities (\<open>spec_step\<close>).
  \<^item> Fsformat, FsImage, FsFiles, FsDisk, FsDirs: tools/fsformat.c and what it does to the image. FsSlots, FsTree: a
    directory with its entries (\<open>dir_inv\<close>) and what a reader finds under an entry (\<open>holds_node\<close>), by induction on the
    host's tree. FsProgram: a run on a command line. Bintoc, Readelf: the other tools. Tools: the properties of the
    three programs.

  \<^bold>\<open>What is shown.\<close> The system as a whole: booting (C1), creating an environment (C2), the embedded program (C3), every
  sequence of ticks and creations after the boot (C4), the address spaces of the kernel (C5) and of an environment (C6).
  Allocator and page tables: C7 to C12. Scheduler: C13 to
  C15. Environments: C16 to C19. Queues: C20 to C22. Traps: C23 to C25. Output: C26 to C28. Program files: C29, C30.
  Host programs: C31 to C36, in Tools. Memory and string routines: C37, C38. Control registers: C39. Relocation entries:
  C40, in ElfRelocs. Several of them record where the code does not do what it means to: C5, C6, C12, C15, C16, C25,
  C32, C36 and C40.

  \<^bold>\<open>Bounds.\<close> The loops of the kernel are functions with a measure, except three. The loops of \<open>elf_load_seg\<close> get \<open>seg_rounds\<close>
  rounds, one per page and one more; C29 shows that these are enough for all sizes that leave room for a page below
  \<open>2\<^sup>6\<^sup>4\<close>. The recursion of \<open>freewalk\<close> below \<open>env_free\<close> has a depth as an argument; C16 holds for every depth. The string routines and the
  queue loops are partial functions; C38 and C22 show that they return on terminated strings and on queues. Of the
  31744 pages of RAM the kernel's address space takes at most 2051; an environment takes at most 3080 (1027
  for the copy of the kernel's map, 2053 for the tables of its program) and the pages of its program,
  which C1 bounds by 10000.

  \<^bold>\<open>Not modelled.\<close> The trace output of \<open>printk\<close> inside the memory and environment routines, and caching of translations,
  which the kernel flushes by \<open>sfence.vma\<close>. The assembly that only sets the stack and jumps (init/start.S), the linker
  symbols (init/mem.S), the instructions of user programs (user/bare/loop.S, tools/readelf/hello.c), the hook MOS_PRE_ENV_RUN, which
  no build sets. VPN_L1 and VPN_L2 of
  include/mmu.h, which name undefined macros. The header user/include/fs.h of tools/fsformat.c is not in the repository: its constants and layouts are
  the record \<open>fs_h\<close>, about which the properties assume \<open>layout_ok\<close>, that fields do not overlap and fit (C31 also that a
  directory's direct blocks are fewer than the links of an index block); \<open>mos_fs_h\<close> is a concrete one.
\<close>

section \<open>Physical pages\<close>

text \<open>C7: after \<open>kinit\<close>, whatever was in memory, the free list holds exactly the 31744 pages between the end
  of the kernel and the end of RAM, each once; memory outside these pages is unchanged.\<close>

theorem kinit_frees_all_ram:
  assumes "freelist k = 0"
  shows "\<exists>k' ps. kinit k = Ret k' \<and> free_list (mem k') (freelist k') ps \<and> distinct ps \<and>
    set ps = {p. page_aligned p \<and> KERNEND \<le> p \<and> p < PHYEND} \<and> length ps = 31744 \<and>
    (\<forall>x. \<not> (\<exists>p\<in>set ps. in_block x p 4096) \<longrightarrow> mem k' x = mem k x)"
proof -
  obtain k' where "kinit k = Ret k'" "kmem_inv k' boot_pages"
    "\<forall>x. \<not> (\<exists>q. ram_page q \<and> in_block x q 4096) \<longrightarrow> mem k' x = mem k x"
    using kinit_pages [OF assms] by blast
  then show ?thesis
    using boot_pages by (intro exI [of _ k'] exI [of _ boot_pages]) (auto simp: kmem_inv_def ram_page_def)
qed

text \<open>The memory of a machine that has just been switched on.\<close>

definition ram0 :: kmem where
  "ram0 = \<lparr>mem = (\<lambda>_. 0), freelist = 0\<rparr>"

lemma kinit_frees_all_ram_witness:
  "\<exists>k' ps. kinit ram0 = Ret k' \<and> free_list (mem k') (freelist k') ps \<and> distinct ps \<and> length ps = 31744"
proof -
  have "freelist ram0 = 0" by (simp add: ram0_def)
  from kinit_frees_all_ram [OF this] show ?thesis by blast
qed

text \<open>C8: giving a valid page back and allocating again yields the same page, empty, and the allocator as it was;
  a page below the end of the kernel, beyond the end of RAM or not aligned makes \<open>kfree\<close> panic, and
  nothing else does.\<close>

theorem kfree_kalloc_roundtrip:
  assumes "kmem_inv k ps"
  shows "(\<forall>p. page_aligned p \<and> KERNEND \<le> p \<and> p < PHYEND \<and> p \<notin> set ps \<longrightarrow>
      (\<exists>k1 k2. kfree k p = Ret k1 \<and> kmem_inv k1 (p # ps) \<and> kalloc k1 = (p, k2) \<and> kmem_inv k2 ps \<and>
        (\<forall>x. mem k2 x = (if in_block x p 4096 then 0 else mem k x)))) \<and>
    (\<forall>p. (\<exists>msg. kfree k p = Panic msg) \<longleftrightarrow> \<not> (page_aligned p \<and> KERNEND \<le> p \<and> p < PHYEND))"
proof (intro conjI allI impI)
  fix p assume p: "page_aligned p \<and> KERNEND \<le> p \<and> p < PHYEND \<and> p \<notin> set ps"
  then have rp: "ram_page p" by (simp add: ram_page_def)
  obtain k1 where k1: "kfree k p = Ret k1" "kmem_inv k1 (p # ps)" "\<forall>x. \<not> in_block x p 4096 \<longrightarrow> mem k1 x = mem k x"
    using kfree_page [OF assms rp] p by blast
  then obtain k2 where "kalloc k1 = (p, k2)" "kmem_inv k2 ps" "mem k2 = filled (mem k1) p 0 4096"
    using kalloc_page by blast
  then show "\<exists>k1 k2. kfree k p = Ret k1 \<and> kmem_inv k1 (p # ps) \<and> kalloc k1 = (p, k2) \<and> kmem_inv k2 ps \<and>
      (\<forall>x. mem k2 x = (if in_block x p 4096 then 0 else mem k x))"
    using k1 by (auto simp: filled_def)
next
  fix p show "(\<exists>msg. kfree k p = Panic msg) \<longleftrightarrow> \<not> (page_aligned p \<and> KERNEND \<le> p \<and> p < PHYEND)"
    using kfree_panics_iff [of k p] by (auto simp: ram_page_def kfree_def split: if_splits)
qed

text \<open>Concrete memories for the instances below: one page free, and the memory after boot with one table.\<close>

lemma ram0_inv: "kmem_inv ram0 []"
  by (simp add: kmem_inv_def ram0_def)

lemma kfree_kalloc_roundtrip_witness:
  "\<exists>k1 k2. kfree ram0 0x80400000 = Ret k1 \<and> kmem_inv k1 [0x80400000] \<and> kalloc k1 = (0x80400000, k2)"
  using kfree_kalloc_roundtrip [OF ram0_inv, THEN conjunct1, THEN spec, of "0x80400000"]
  by (auto simp: page_aligned_def layout)

lemma boot_table:
  obtains k1 k2 r ps where "kinit ram0 = Ret k1" "uvmcreate k1 = (r, k2)" "pt_inv k2 {r} ps" "length ps = 31743"
    "\<And>va. translate (mem k2) r va = None"
proof -
  obtain k1 where k1: "kinit ram0 = Ret k1" "kmem_inv k1 boot_pages"
    using kinit_pages [of ram0] by (auto simp: ram0_def)
  obtain r ps where ps: "boot_pages = r # ps" using boot_pages(3) by (cases boot_pages) auto
  have "tables_ok (mem k1) {} (r # ps)" by (simp add: tables_ok_def nodes_def)
  then have "pt_inv k1 {} (r # ps)" using k1(2) ps by (simp add: pt_inv_def)
  from uvmcreate_root [OF this] obtain k2 where "uvmcreate k1 = (r, k2)" "pt_inv k2 {r} ps"
    "\<And>va. translate (mem k2) r va = None" by metis
  moreover have "Suc (length ps) = 31744" using boot_pages(3) by (simp only: ps list.size)
  then have "length ps = 31743" by simp
  ultimately show thesis using that k1(1) by blast
qed

section \<open>Page tables\<close>



text \<open>C10: a page that is already mapped is never mapped over: \<open>mappages\<close> panics, unless it runs out of pages for
  tables and returns -1 before it gets there.\<close>

theorem mappages_never_remaps:
  assumes "pt_inv k R ps" and "r \<in> R" and "page_aligned va" and "page_aligned size'" and "size' \<noteq> 0"
    and "unat va + unat size' \<le> unat MAXVA"
    and "page_aligned vb" and "va \<le> vb" and "vb < va + size'" and "translate (mem k) r vb \<noteq> None"
  shows "(\<exists>msg. mappages k r va size' pa perm = Panic msg) \<or>
    (\<exists>k'. mappages k r va size' pa perm = Ret (-1, k')) \<and> length ps < 2 * (unat size' div 4096)"
  using assms by (rule mappages_remap)

text \<open>What \<open>mappages\<close> maps for the user \<open>lookup\<close> finds: a page of the range leads to its own physical page.\<close>

theorem mappages_lookup_roundtrip:
  assumes "pt_inv k R ps" and "r \<in> R" and "page_aligned va" and "page_aligned size'" and "size' \<noteq> 0"
    and "unat va + unat size' \<le> unat MAXVA" and "2 * (unat size' div 4096) \<le> length ps"
    and "\<forall>vb. page_aligned vb \<and> va \<le> vb \<and> vb < va + size' \<longrightarrow> translate (mem k) r vb = None"
    and "page_aligned pa" and "unat pa + unat size' \<le> 2 ^ 56"
    and "perm AND 0x3FF = perm" and "perm AND ucast PTE_U \<noteq> 0"
    and "page_aligned vb" and "va \<le> vb" and "vb < va + size'"
  shows "\<exists>k' pte. mappages k r va size' pa perm = Ret (0, k') \<and> lookup k' r vb = Ret (pa + (vb - va), Some pte, k')"
proof -
  obtain k' qs where k': "mappages k r va size' pa perm = Ret (0, k')" "extends R k ps k' qs"
    "mapped_to R r k va (va + size') pa perm k'"
    using mappages_maps [OF assms(1-6) _ assms(7)] assms(8) by blast
  note b = mappages_bounds [OF assms(3-6)]
  have vb: "vb < MAXVA" "unat (vb - va) < unat size'"
    using assms(6,14,15) b(7) unat_sub [of va vb] by (simp_all add: word_less_nat_alt word_le_nat_alt)
  have pa_vb: "unat (pa + (vb - va)) = unat pa + unat (vb - va)"
    using assms(10) vb(2) unat_add_word [of pa "vb - va"] by simp
  have "page_aligned (pa + (vb - va))"
    using assms(3,9,13,14) pa_vb unat_sub [of va vb] by (simp add: page_aligned_def word_le_nat_alt dvd_diff_nat)
  then have leaf: "PTE2PA (leaf_pte (pa + (vb - va)) perm) = pa + (vb - va)"
      "PTE_FLAGS (leaf_pte (pa + (vb - va)) perm) = ucast perm OR PTE_V"
    using leaf_pte_fields [of "pa + (vb - va)" perm] assms(10,11) pa_vb vb(2) by simp_all
  have user: "leaf_pte (pa + (vb - va)) perm AND PTE_U \<noteq> 0"
  proof -
    have "(ucast perm OR PTE_V) AND PTE_U \<noteq> (0 :: u64)"
    proof
      assume "(ucast perm OR PTE_V) AND PTE_U = (0 :: u64)"
      then have "\<not> bit ((ucast perm OR PTE_V) AND PTE_U :: u64) 4" by simp
      then have "\<not> bit perm 4" by (simp add: bit_simps PTE_U_def)
      then show False using assms(12) and_single_bit [of perm 4] by (simp add: PTE_U_def)
    qed
    then have "(leaf_pte (pa + (vb - va)) perm AND 0x3FF) AND PTE_U \<noteq> 0"
      unfolding leaf(2) [unfolded PTE_FLAGS_def] .
    then show ?thesis by (auto simp: and.assoc PTE_U_def)
  qed
  have "translate (mem k') r vb = Some (leaf_pte (pa + (vb - va)) perm)"
    using k'(3) assms(13-15) vb(1) by (simp add: mapped_to_def)
  moreover from this obtain t where "table (mem k') r (vpath vb) = Some t"
    by (cases "table (mem k') r (vpath vb)") (auto simp: translate_def)
  moreover have "pt_inv k' R qs" using k'(2) by (simp add: extends_def)
  ultimately show ?thesis
    using k'(1) lookup_translate [OF _ assms(2) vb(1)] user leaf(1) by simp
qed

text \<open>\<open>uvmcreate\<close> turns a free page into a table that translates nothing, without a change to the
  translations of the tables there are.\<close>

theorem uvmcreate_correct:
  assumes "pt_inv k R (p # ps)"
  shows "\<exists>k'. uvmcreate k = (p, k') \<and> pt_inv k' (insert p R) ps \<and> p \<notin> R \<and>
    (\<forall>va. translate (mem k') p va = None) \<and>
    (\<forall>r\<in>R. \<forall>va. translate (mem k') r va = translate (mem k) r va)"
  using uvmcreate_root [OF assms] by metis

text \<open>C11: \<open>uvmunmap\<close> of one mapped page takes away its translation and no other, and with \<open>do_free\<close> makes its
  physical page the first free page.\<close>

theorem uvmunmap_one_page:
  assumes "pt_inv k R ps" and "r \<in> R" and "page_aligned va" and "va < MAXVA"
    and "translate (mem k) r va = Some e" and "PTE_FLAGS e \<noteq> PTE_V"
    and "do_free \<longrightarrow> ram_page (PTE2PA e) \<and> PTE2PA e \<notin> set ps \<and> PTE2PA e \<notin> nodes (mem k) R"
  shows "\<exists>k'. uvmunmap k r va 1 do_free = Ret (0, k') \<and> pt_inv k' R (if do_free then PTE2PA e # ps else ps) \<and>
    (\<forall>s\<in>R. \<forall>vb. page_aligned vb \<and> vb < MAXVA \<longrightarrow> translate (mem k') s vb =
      (if s = r \<and> vb = va then None else translate (mem k) s vb))"
proof -
  obtain k' where k': "uvmunmap k r va 1 do_free = Ret (0, k')" "pt_inv k' R (if do_free then PTE2PA e # ps else ps)"
    and tr: "\<And>s vb. s \<in> R \<Longrightarrow> translate (mem k') s vb =
      (if s = r \<and> same_page va vb then None else translate (mem k) s vb)"
    using uvmunmap_page [OF assms(1-6)] assms(7) by metis
  have "same_page va vb \<longleftrightarrow> vb = va" if "page_aligned vb" "vb < MAXVA" for vb
    using same_page_aligned [OF assms(4) that(2) assms(3) that(1)] by auto
  then show ?thesis using k' tr by (intro exI [of _ k']) simp
qed


lemma boot_mapped:
  obtains k1 k2 r k3 ps where "kinit ram0 = Ret k1" "uvmcreate k1 = (r, k2)"
    "mappages k2 r 0x400000 0x2000 0x80500000 0x16 = Ret (0, k3)" "pt_inv k3 {r} ps" "page_aligned r"
    "\<And>vb. page_aligned vb \<Longrightarrow> vb < MAXVA \<Longrightarrow> translate (mem k3) r vb =
       (if 0x400000 \<le> vb \<and> vb < 0x402000 then Some (leaf_pte (0x80500000 + (vb - 0x400000)) 0x16) else None)"
proof -
  obtain k1 k2 r ps where b: "kinit ram0 = Ret k1" "uvmcreate k1 = (r, k2)" "pt_inv k2 {r} ps" "length ps = 31743"
    and none: "\<And>va. translate (mem k2) r va = None" by (rule boot_table) blast
  have al: "page_aligned 0x400000" "page_aligned 0x2000" by (simp_all add: page_aligned_def)
  obtain k3 qs where k3: "mappages k2 r 0x400000 0x2000 0x80500000 0x16 = Ret (0, k3)" "extends {r} k2 ps k3 qs"
    "mapped_to {r} r k2 0x400000 (0x400000 + 0x2000) 0x80500000 0x16 k3"
    using mappages_maps [OF b(3) insertI1 al, where pa = "0x80500000" and perm = "0x16"] none b(4) by (auto simp: layout)
  have "table (mem k3) r [] = Some r" by simp
  then have "page_aligned r" using k3(2) pt_invD(3) [of k3 "{r}" qs r "[]" r] by (simp add: extends_def paths_def)
  then show thesis
    using that [OF b(1,2) k3(1), of qs] k3(2,3) none by (simp add: extends_def mapped_to_def)
qed

lemma mappages_never_remaps_witness:
  "\<exists>k1 k2 r k3. kinit ram0 = Ret k1 \<and> uvmcreate k1 = (r, k2) \<and>
     mappages k2 r 0x400000 0x2000 0x80500000 0x16 = Ret (0, k3) \<and>
     ((\<exists>msg. mappages k3 r 0x401000 0x1000 0x80600000 0x16 = Panic msg) \<or>
      (\<exists>k4. mappages k3 r 0x401000 0x1000 0x80600000 0x16 = Ret (-1, k4)))"
proof -
  obtain k1 k2 r k3 ps where b: "kinit ram0 = Ret k1" "uvmcreate k1 = (r, k2)"
    "mappages k2 r 0x400000 0x2000 0x80500000 0x16 = Ret (0, k3)" "pt_inv k3 {r} ps"
    and tr: "\<And>vb. page_aligned vb \<Longrightarrow> vb < MAXVA \<Longrightarrow> translate (mem k3) r vb =
       (if 0x400000 \<le> vb \<and> vb < 0x402000 then Some (leaf_pte (0x80500000 + (vb - 0x400000)) 0x16) else None)"
    by (rule boot_mapped) blast
  have al: "page_aligned 0x401000" "page_aligned 0x1000" by (simp_all add: page_aligned_def)
  have "translate (mem k3) r 0x401000 \<noteq> None" using tr [OF al(1)] by (simp add: layout)
  then show ?thesis
    using b mappages_never_remaps [OF b(4) insertI1 al, where vb = "0x401000" and pa = "0x80600000" and perm = "0x16"] al
    by (auto simp: layout)
qed

lemma mappages_lookup_roundtrip_witness:
  "\<exists>k1 k2 r k3 pte. kinit ram0 = Ret k1 \<and> uvmcreate k1 = (r, k2) \<and>
     mappages k2 r 0x400000 0x2000 0x80500000 0x16 = Ret (0, k3) \<and> lookup k3 r 0x401000 = Ret (0x80501000, Some pte, k3)"
proof -
  obtain k1 k2 r ps where b: "kinit ram0 = Ret k1" "uvmcreate k1 = (r, k2)" "pt_inv k2 {r} ps" "length ps = 31743"
    and none: "\<And>va. translate (mem k2) r va = None" by (rule boot_table) blast
  have al: "page_aligned 0x400000" "page_aligned 0x2000" "page_aligned 0x80500000" "page_aligned 0x401000"
    by (simp_all add: page_aligned_def)
  show ?thesis
    using b none mappages_lookup_roundtrip [OF b(3) insertI1 al(1,2), where pa = "0x80500000" and perm = "0x16" and vb = "0x401000"] al
    by (auto simp: layout)
qed

lemma uvmcreate_correct_witness:
  "\<exists>k1 k2 p. kinit ram0 = Ret k1 \<and> uvmcreate k1 = (p, k2) \<and> (\<forall>va. translate (mem k2) p va = None)"
proof -
  obtain k1 where k1: "kinit ram0 = Ret k1" "kmem_inv k1 boot_pages"
    using kinit_pages [of ram0] by (auto simp: ram0_def)
  obtain r ps where ps: "boot_pages = r # ps" using boot_pages(3) by (cases boot_pages) auto
  have "tables_ok (mem k1) {} (r # ps)" by (simp add: tables_ok_def nodes_def)
  then have "pt_inv k1 {} (r # ps)" using k1(2) ps by (simp add: pt_inv_def)
  from uvmcreate_correct [OF this] show ?thesis using k1(1) by blast
qed

lemma uvmunmap_one_page_witness:
  "\<exists>k1 k2 r k3 k4. kinit ram0 = Ret k1 \<and> uvmcreate k1 = (r, k2) \<and>
     mappages k2 r 0x400000 0x2000 0x80500000 0x16 = Ret (0, k3) \<and> uvmunmap k3 r 0x401000 1 False = Ret (0, k4) \<and>
     translate (mem k4) r 0x401000 = None \<and> translate (mem k4) r 0x400000 = Some (leaf_pte 0x80500000 0x16)"
proof -
  obtain k1 k2 r k3 ps where b: "kinit ram0 = Ret k1" "uvmcreate k1 = (r, k2)"
    "mappages k2 r 0x400000 0x2000 0x80500000 0x16 = Ret (0, k3)" "pt_inv k3 {r} ps"
    and tr: "\<And>vb. page_aligned vb \<Longrightarrow> vb < MAXVA \<Longrightarrow> translate (mem k3) r vb =
       (if 0x400000 \<le> vb \<and> vb < 0x402000 then Some (leaf_pte (0x80500000 + (vb - 0x400000)) 0x16) else None)"
    by (rule boot_mapped) blast
  have al: "page_aligned 0x401000" "page_aligned 0x400000" by (simp_all add: page_aligned_def)
  have e: "translate (mem k3) r 0x401000 = Some (leaf_pte 0x80501000 0x16)"
    "translate (mem k3) r 0x400000 = Some (leaf_pte 0x80500000 0x16)"
    using tr [OF al(1)] tr [OF al(2)] by (simp_all add: layout)
  have leaf: "PTE_FLAGS (leaf_pte 0x80501000 0x16) \<noteq> PTE_V"
    by (simp add: leaf_pte_def PA2PTE_def PTE_FLAGS_def layout)
  show ?thesis
    using uvmunmap_one_page [OF b(4) insertI1 al(1) _ e(1) leaf, of False] b e al by (auto simp: layout)
qed


section \<open>The scheduler\<close>

text \<open>C13: \<open>schedule\<close> implements the round robin: on a queue that holds exactly the runnable environments it
  panics where the round robin has nobody to choose, and otherwise hands the hart (registers,
  \<open>curenv\<close>, \<open>satp\<close>) to the environment the round robin chooses, with the round robin's queue and
  remaining ticks, keeping the invariant and all priorities and page tables.\<close>

theorem schedule_refines_round_robin:
  assumes "sched_inv s xs"
  shows "case rr_step (\<lambda>e. env_pri (envs s ! e)) yield' (curenv s, slices s, xs) of
      None \<Rightarrow> schedule yield' time s = Panic ''schedule: no runnable envs''
    | Some (cur, n, ys) \<Rightarrow> \<exists>e s'. cur = Some e \<and> e \<in> set ys \<and>
        schedule yield' time s = Ret (env_tf (envs s' ! e), s') \<and>
        sched_inv s' ys \<and> curenv s' = Some e \<and> slices s' = n \<and> satp s' = MAKE_SATP (env_pgtable (envs s ! e)) \<and>
        (\<forall>i<NENV. env_pri (envs s' ! i) = env_pri (envs s ! i) \<and>
           env_pgtable (envs s' ! i) = env_pgtable (envs s ! i))"
  using schedule_rr [OF assms, of yield' time] by (simp only: sched_result_def)

text \<open>C14: every runnable environment gets the hart. With the current environment at the head of the queue and
  its ticks used up, and all priorities positive, the ticks of one round (as many as the priorities add
  up to) are given to the environments in the order of the queue, to each as many as its priority,
  and the round ends in the state it started from.\<close>

theorem schedule_is_fair:
  assumes "sched_inv s (c # xs)" and "curenv s = Some c" and "slices s = 0"
    and "\<forall>e\<in>set (c # xs). env_pri (envs s ! e) \<noteq> 0"
    and "length clocks = (\<Sum>e\<leftarrow>xs @ [c]. unat (env_pri (envs s ! e)))"
  shows "\<exists>s'. ticks_run clocks s =
      Ret (concat (map (\<lambda>e. replicate (unat (env_pri (envs s ! e))) e) (xs @ [c])), s') \<and>
    sched_inv s' (c # xs) \<and> curenv s' = Some c \<and> slices s' = 0"
  using assms by (rule ticks_round)

text \<open>\<open>schedule\<close> with \<open>yield\<close> set never runs the current environment again while another one is runnable.\<close>

theorem yield_gives_way:
  assumes "sched_inv s xs" and "curenv s = Some c" and "x \<in> set xs" and "x \<noteq> c"
  shows "\<exists>tf s' e. schedule True time s = Ret (tf, s') \<and> curenv s' = Some e \<and> e \<noteq> c \<and> e \<in> set xs"
proof -
  have d: "distinct xs" using assms(1) tailq.rep_distinct by (simp only: sched_inv_def) blast
  let ?ys = "to_tail (Some c) xs"
  have ys: "?ys \<noteq> [] \<and> hd ?ys \<noteq> c \<and> hd ?ys \<in> set xs"
  proof (cases "c \<in> set xs")
    case True
    have rest: "set (remove1 c xs) = set xs - {c}" using d by (rule set_remove1_eq)
    then obtain y ys where "remove1 c xs = y # ys" using assms(3,4) by (cases "remove1 c xs") auto
    moreover from this have "y \<in> set xs - {c}" using rest by auto
    ultimately show ?thesis using True by (simp add: to_tail_def)
  next
    case False
    then show ?thesis using assms(3) by (cases xs) (auto simp: to_tail_def)
  qed
  have "rr_step (\<lambda>e. env_pri (envs s ! e)) True (curenv s, slices s, xs) =
      Some (Some (hd ?ys), env_pri (envs s ! hd ?ys) - 1, ?ys)"
    using ys assms(2) by (simp add: rr_next_def)
  then show ?thesis
    using schedule_rr [OF assms(1), of True time] ys by (auto simp: sched_result_def simp del: rr_step.simps)
qed

text \<open>C15: an environment of priority 0 does not lose the hart after its tick: \<open>count\<close> goes below zero, and only
  \<open>2\<^sup>3\<^sup>2 - 1\<close> further ticks later may another environment run.\<close>

theorem priority_zero_runs_on:
  assumes "sched_inv s (e # xs)" and "curenv s = None" and "env_pri (envs s ! e) = 0"
    and "length clocks \<le> 2 ^ 32"
  shows "\<exists>s'. ticks_run clocks s = Ret (replicate (length clocks) e, s')"
proof (cases clocks)
  case (Cons clock clocks')
  let ?pri = "\<lambda>e. env_pri (envs s ! e)"
  define n where "n = length clocks'"
  have n: "n \<le> unat (- 1 :: u32)"
    using assms(4) Cons by (simp add: n_def unsigned_minus_1_eq_mask mask_eq_exp_minus_1)
  have "rr_run ?pri (unat (- 1 :: u32)) (Some e, - 1, e # xs) = Some (replicate (unat (- 1 :: u32)) e, (Some e, 0, e # xs))"
    by (rule rr_run_slice) simp_all
  then have "rr_run ?pri (n + (unat (- 1 :: u32) - n)) (Some e, - 1, e # xs) = Some (replicate (unat (- 1 :: u32)) e, (Some e, 0, e # xs))"
    using n by simp
  then obtain es r fs where run: "rr_run ?pri n (Some e, - 1, e # xs) = Some (es, r)" "es @ fs = replicate (unat (- 1 :: u32)) e"
    unfolding rr_run_add by (auto split: option.splits)
  have "length es = n" using rr_run_length [OF run(1)] .
  then have es: "es = replicate n e"
    using run(2) n by (metis append_eq_conv_conj take_replicate min.absorb1)
  obtain cur k ys where r: "r = (cur, k, ys)" by (cases r)
  have "rr_run ?pri (length clocks) (curenv s, slices s, e # xs) = Some (replicate (length clocks) e, (cur, k, ys))"
    using run(1) es r assms(2,3) by (simp add: Cons n_def rr_next_def to_tail_def)
  from ticks_run_rr [OF assms(1) _ this] show ?thesis by auto
qed simp

text \<open>A machine with two runnable environments, as \<open>rv_main\<close> creates them: slot 1 was inserted last.\<close>

definition env0 :: env where
  "env0 = \<lparr>env_tf = \<lparr>tf_regs = replicate 32 0, tf_sstatus = 0, tf_sepc = 0, tf_stval = 0, tf_scause = 0\<rparr>,
     env_id = 0, env_asid = 0, env_parent_id = 0, env_status = ENV_FREE, env_pgtable = 0x80400000, env_pri = 0,
     env_ipc_value = 0, env_ipc_from = 0, env_ipc_recving = 0, env_ipc_dstva = 0, env_ipc_perm = 0, env_runs = 0\<rparr>"

definition machine0 :: kernel where
  "machine0 = \<lparr>phys = ram0, kernel_pagetable = 0, envs = replicate NENV env0, curenv = None,
     env_free_list = \<lparr>lh_first = None, le_next = (\<lambda>_. None), le_prev = (\<lambda>_. NullRef)\<rparr>,
     env_sched_list = \<lparr>tqh_first = None, tqh_last = NullRef, tqe_next = (\<lambda>_. None), tqe_prev = (\<lambda>_. NullRef)\<rparr>,
     asid_bitmap = replicate 8 0, last_env = 0, slices = 0, ticks = 0, timecmp = 0, satp = 0, sie = 0\<rparr>"

definition two_envs :: "u32 \<Rightarrow> kernel" where
  "two_envs pri = machine0
     \<lparr>envs := (replicate NENV env0)
        [0 := env0\<lparr>env_id := 0x800, env_status := ENV_RUNNABLE, env_pri := 1\<rparr>,
         1 := env0\<lparr>env_id := 0x1001, env_status := ENV_RUNNABLE, env_pri := pri\<rparr>],
      env_sched_list := TAILQ_INSERT_HEAD (TAILQ_INSERT_HEAD (TAILQ_INIT (env_sched_list machine0)) 0) 1\<rparr>"

lemma two_envs_simps [simp]:
  "curenv (two_envs pri) = None" "slices (two_envs pri) = 0" "length (envs (two_envs pri)) = NENV"
  "envs (two_envs pri) ! 0 = env0\<lparr>env_id := 0x800, env_status := ENV_RUNNABLE, env_pri := 1\<rparr>"
  "envs (two_envs pri) ! Suc 0 = env0\<lparr>env_id := 0x1001, env_status := ENV_RUNNABLE, env_pri := pri\<rparr>"
  "e < NENV \<Longrightarrow> e \<noteq> 0 \<Longrightarrow> e \<noteq> 1 \<Longrightarrow> envs (two_envs pri) ! e = env0"
  by (simp_all add: two_envs_def machine0_def NENV_def nth_list_update)

lemma two_envs_inv: "sched_inv (two_envs pri) [1, 0]"
proof -
  have "tailq_rep (env_sched_list (two_envs pri)) [1, 0]"
    using tailq.insert_head_rep [OF tailq.insert_head_rep [OF tailq.rep_init, of 0], of 1]
    by (simp add: two_envs_def)
  moreover have "e = 1 \<or> e = 0 \<longleftrightarrow> e < NENV \<and> env_status (envs (two_envs pri) ! e) = ENV_RUNNABLE" for e
    by (cases "e = 0 \<or> e = 1") (auto simp: NENV_def env0_def ENV_FREE_def ENV_RUNNABLE_def)
  ultimately show ?thesis by (simp add: sched_inv_def)
qed

text \<open>The same machine in its second round: environment 1 runs, and its ticks are used up.\<close>

definition second_round :: kernel where
  "second_round = (two_envs 2)\<lparr>curenv := Some 1\<rparr>"

lemma second_round_inv: "sched_inv second_round [1, 0]"
  using two_envs_inv [of 2] by (simp add: sched_inv_def second_round_def NENV_def)

lemma schedule_refines_round_robin_witness:
  "\<exists>s'. schedule False 0 second_round = Ret (env_tf (envs s' ! 0), s') \<and> curenv s' = Some 0 \<and>
     slices s' = 0 \<and> sched_inv s' [0, 1] \<and> satp s' = MAKE_SATP 0x80400000"
  using schedule_refines_round_robin [OF second_round_inv, of False 0]
  by (auto simp: second_round_def rr_next_def to_tail_def env0_def)

lemma schedule_is_fair_witness:
  "\<exists>s'. ticks_run [10, 20, 30] second_round = Ret (0 # replicate 2 1, s') \<and> curenv s' = Some 1"
proof -
  have "curenv second_round = Some 1" "slices second_round = 0" by (simp_all add: second_round_def)
  from schedule_is_fair [OF second_round_inv this, of "[10, 20, 30]"] show ?thesis
    by (auto simp: second_round_def env0_def simp del: ticks_run.simps)
qed

lemma yield_gives_way_witness:
  "\<exists>tf s' e. schedule True 0 second_round = Ret (tf, s') \<and> curenv s' = Some e \<and> e \<noteq> 1"
  using yield_gives_way [OF second_round_inv, of 1 0 0] by (auto simp: second_round_def)

lemma priority_zero_runs_on_witness:
  "\<exists>s'. ticks_run [10, 20, 30] (two_envs 0) = Ret ([1, 1, 1], s')"
  using priority_zero_runs_on [OF two_envs_inv, of 0 "[10, 20, 30]"]
  by (simp add: env0_def del: ticks_run.simps)

section \<open>Environments\<close>

text \<open>\<open>env_init\<close> leaves an empty run queue and a free list with the environments in the order of their
  slots - and behind them the element \<open>envs[NENV]\<close>, which is not in the array.\<close>

theorem env_init_queue_contents:
  "tailq_rep (env_sched_list (env_init s)) [] \<and> list_rep (env_free_list (env_init s)) ([0..<NENV] @ [NENV])"
  using env_init_queues [of s] by simp

text \<open>C16: freeing an environment never returns, in whatever state the kernel is: its first step is an
  \<open>uvmunmap\<close> of \<open>2\<^sup>2\<^sup>6\<close> pages. So neither \<open>env_free\<close> nor \<open>env_destroy\<close> ever frees anything.\<close>

theorem env_free_never_returns:
  assumes "page_aligned (env_pgtable (envs s ! e))"
  shows "\<not> returns (env_free depth s e) \<and> \<not> returns (env_destroy depth time s e)"
proof -
  have free: "\<not> returns (env_free depth s e)" using env_free_no_return [OF assms] by (auto simp: returns_iff)
  then have "\<not> returns (env_destroy depth time s e)"
    unfolding env_destroy_def by (cases "env_free depth s e") simp_all
  with free show ?thesis by blast
qed

lemma env_free_never_returns_witness:
  "\<not> returns (env_free 3 (two_envs 2) 1) \<and> \<not> returns (env_destroy 3 0 (two_envs 2) 1)"
  using env_free_never_returns [of "two_envs 2" 1 3 0] by (simp add: env0_def page_aligned_def)

text \<open>C17: \<open>asid_alloc\<close> gives out the least ASID that is not in use and marks it as used; with all 256 in use it
  fails and changes nothing. \<open>asid_free\<close> makes an ASID available, and no other.\<close>

theorem asid_alloc_least_free:
  assumes "length (asid_bitmap s) = 8"
  shows "(asids (asid_bitmap s) = {..<NASID} \<longrightarrow> asid_alloc s = (- E_NO_FREE_ENV, None, s)) \<and>
    (asids (asid_bitmap s) \<noteq> {..<NASID} \<longrightarrow>
       (\<exists>i s'. asid_alloc s = (0, Some i, s') \<and> unat i = (LEAST n. n \<notin> asids (asid_bitmap s)) \<and> unat i < NASID \<and>
          asids (asid_bitmap s') = insert (unat i) (asids (asid_bitmap s)))) \<and>
    (\<forall>i. unat i < NASID \<longrightarrow> asids (asid_bitmap (asid_free s i)) = asids (asid_bitmap s) - {unat i})"
proof (intro conjI impI allI)
  have ok: "asid_bitmap_ok (asid_bitmap s)" using assms by (simp add: asid_bitmap_ok_def NASID_def)
  show "asid_alloc s = (- E_NO_FREE_ENV, None, s)" if "asids (asid_bitmap s) = {..<NASID}"
    using asid.alloc_full [OF ok that] .
  show "\<exists>i s'. asid_alloc s = (0, Some i, s') \<and> unat i = (LEAST n. n \<notin> asids (asid_bitmap s)) \<and> unat i < NASID \<and>
      asids (asid_bitmap s') = insert (unat i) (asids (asid_bitmap s))" if "asids (asid_bitmap s) \<noteq> {..<NASID}"
    using asid.alloc_least [OF ok that] by metis
  show "asids (asid_bitmap (asid_free s i)) = asids (asid_bitmap s) - {unat i}" if "unat i < NASID" for i
    using asid.release [OF ok that] by blast
qed

lemma asid_alloc_least_free_witness:
  "\<exists>i s'. asid_alloc machine0 = (0, Some i, s') \<and> unat i = (LEAST n. n \<notin> asids (replicate 8 0)) \<and>
     asids (asid_bitmap s') = insert (unat i) (asids (replicate 8 0))"
proof -
  have "0 \<notin> asids (asid_bitmap machine0)" by (simp add: asids_def machine0_def)
  moreover have "0 < NASID" by (simp add: NASID_def)
  ultimately have "asids (asid_bitmap machine0) \<noteq> {..<NASID}" by blast
  moreover have "length (asid_bitmap machine0) = 8" by (simp add: machine0_def)
  from asid_alloc_least_free [OF this] calculation
  obtain i s' where "asid_alloc machine0 = (0, Some i, s')" "unat i = (LEAST n. n \<notin> asids (asid_bitmap machine0))"
    "asids (asid_bitmap s') = insert (unat i) (asids (asid_bitmap machine0))" by blast
  moreover have "asid_bitmap machine0 = replicate 8 0" by (simp add: machine0_def)
  ultimately show ?thesis by metis
qed

text \<open>C18: the identifiers \<open>mkenvid\<close> gives out in up to \<open>2\<^sup>2\<^sup>1\<close> calls in a row are all different, and \<open>ENVX\<close> leads from
  each back to the slot it was made for.\<close>

theorem mkenvid_unique:
  assumes "\<forall>e\<in>set es. e < NENV" and "length es \<le> 2 ^ 21"
  shows "distinct (fst (mkenvids s es)) \<and> map ENVX (fst (mkenvids s es)) = es"
proof -
  note ids = mkenvids_nth [OF assms(1), of s]
  have radix: "(2048 * x + y) mod 1024 = y mod 1024" for x y :: nat
    using mod_mult_self1 [of y "2 * x" 1024] by (simp add: algebra_simps)
  have "ENVX (fst (mkenvids s es) ! i) = es ! i" if "i < length es" for i
    using ids that assms(1) radix by (simp add: ENVX_bits NENV_def)
  then show ?thesis using mkenvids_distinct [OF assms(1)] assms(2) ids by (simp add: list_eq_iff_nth_eq)
qed

lemma mkenvid_unique_witness:
  "distinct (fst (mkenvids machine0 [5, 7, 5])) \<and> map ENVX (fst (mkenvids machine0 [5, 7, 5])) = [5, 7, 5]"
  by (rule mkenvid_unique) (simp_all add: NENV_def)



section \<open>Queues\<close>

text \<open>C20: the \<open>TAILQ\<close> macros implement the operations on lists: on a queue that holds \<open>xs @ a # ys\<close> an element
  that is not in it goes to the head, to the end, behind \<open>a\<close> or before \<open>a\<close>, and \<open>a\<close> itself is taken out.\<close>

theorem tailq_refines_list:
  assumes "tailq_rep q (xs @ a # ys)" and "e \<notin> set (xs @ a # ys)"
  shows "TAILQ_FIRST q = Some (hd (xs @ [a])) \<and>
    tailq_rep (TAILQ_INSERT_HEAD q e) (e # xs @ a # ys) \<and>
    (\<exists>q'. TAILQ_INSERT_TAIL q e = Ret q' \<and> tailq_rep q' (xs @ a # ys @ [e])) \<and>
    tailq_rep (TAILQ_INSERT_AFTER q a e) (xs @ a # e # ys) \<and>
    (\<exists>q'. TAILQ_INSERT_BEFORE q a e = Ret q' \<and> tailq_rep q' (xs @ e # a # ys)) \<and>
    (\<exists>q'. TAILQ_REMOVE q a = Ret q' \<and> tailq_rep q' (xs @ ys))"
  using tailq.first_rep [OF assms(1)] TAILQ_INSERT_HEAD_rep [OF assms] TAILQ_INSERT_TAIL_rep [OF assms]
    TAILQ_INSERT_AFTER_rep [OF assms] TAILQ_INSERT_BEFORE_rep [OF assms] TAILQ_REMOVE_rep [OF assms(1)]
  by (simp add: hd_append)

lemma tailq_refines_list_witness:
  "\<exists>q'. TAILQ_REMOVE (env_sched_list (two_envs 1)) 1 = Ret q' \<and> tailq_rep q' [0]"
proof -
  have "tailq_rep (env_sched_list (two_envs 1)) ([] @ 1 # [0])" using two_envs_inv by (simp add: sched_inv_def)
  from tailq_refines_list [OF this, of 2] show ?thesis by simp
qed

text \<open>C21: the \<open>LIST\<close> macros likewise.\<close>

theorem list_refines_list:
  assumes "list_rep q (xs @ a # ys)" and "e \<notin> set (xs @ a # ys)"
  shows "LIST_FIRST q = Some (hd (xs @ [a])) \<and>
    list_rep (LIST_INSERT_HEAD q e) (e # xs @ a # ys) \<and>
    list_rep (LIST_INSERT_AFTER q a e) (xs @ a # e # ys) \<and>
    (\<exists>q'. LIST_INSERT_BEFORE q a e = Ret q' \<and> list_rep q' (xs @ e # a # ys)) \<and>
    (\<exists>q'. LIST_REMOVE q a = Ret q' \<and> list_rep q' (xs @ ys))"
  using lists.first_rep [OF assms(1)] LIST_INSERT_HEAD_rep [OF assms] LIST_INSERT_AFTER_rep [OF assms]
    LIST_INSERT_BEFORE_rep [OF assms] LIST_REMOVE_rep [OF assms(1)]
  by (simp add: hd_append)

lemma list_refines_list_witness:
  "\<exists>q'. LIST_REMOVE (LIST_INSERT_HEAD (LIST_INIT (env_free_list machine0)) 4) 4 = Ret q' \<and> list_rep q' []"
proof -
  have "list_rep (LIST_INSERT_HEAD (LIST_INIT (env_free_list machine0)) 4) ([] @ 4 # [])"
    using lists.insert_head_rep [OF lists.rep_init] by simp
  from list_refines_list [OF this, of 5] show ?thesis by simp
qed

text \<open>C22: \<open>TAILQ_LAST\<close> and \<open>TAILQ_PREV\<close>, which read an element's links as if they were a queue's head, give the
  last element and the one before an element; \<open>TAILQ_FOREACH\<close> visits the elements in order,
  \<open>TAILQ_FOREACH_REVERSE\<close> from the last to the first, and both end.\<close>

theorem tailq_last_prev:
  assumes "tailq_rep q (xs @ e # ys)"
  shows "TAILQ_LAST q = Some (last (e # ys)) \<and> TAILQ_PREV q e = (if xs = [] then None else Some (last xs)) \<and>
    TAILQ_FOREACH q body s = Some (fold body (xs @ e # ys) s) \<and>
    TAILQ_FOREACH_REVERSE q body s = Some (foldr body (xs @ e # ys) s)"
  using TAILQ_LAST_rep [OF assms] TAILQ_PREV_rep [OF assms] TAILQ_FOREACH_rep [OF assms, of body s]
    TAILQ_FOREACH_REVERSE_rep [OF assms, of body s] by (simp add: foldr_conv_fold)

lemma tailq_last_prev_witness:
  "TAILQ_LAST (env_sched_list (two_envs 1)) = Some 0 \<and> TAILQ_PREV (env_sched_list (two_envs 1)) 0 = Some 1 \<and>
    TAILQ_FOREACH_REVERSE (env_sched_list (two_envs 1)) (\<lambda>e s. s @ [e]) [] = Some [0, 1]"
proof -
  have "tailq_rep (env_sched_list (two_envs 1)) ([1] @ 0 # [])" using two_envs_inv by (simp add: sched_inv_def)
  from tailq_last_prev [OF this, of "\<lambda>e s. s @ [e]" "[]"] show ?thesis by simp
qed

section \<open>Traps\<close>

text \<open>C23: a trap is transparent: \<open>RESTORE_ALL\<close> after \<open>SAVE_ALL\<close> gives every register, \<open>sstatus\<close> and \<open>sepc\<close> their
  values back, and \<open>sscratch\<close> too, if it followed the convention: the end of the frame in user mode,
  0 in the kernel.\<close>

theorem trap_is_transparent:
  assumes "aligned8 (trap_frame h)"
    and "sstatus h AND SSTATUS_SPP = 0 \<longleftrightarrow> sscratch h \<noteq> 0"
  shows "(\<forall>k. 1 \<le> k \<and> k < 32 \<longrightarrow> xr (RESTORE_ALL (SAVE_ALL h)) k = xr h k) \<and>
    sstatus (RESTORE_ALL (SAVE_ALL h)) = sstatus h \<and> sepc (RESTORE_ALL (SAVE_ALL h)) = sepc h \<and>
    sscratch (RESTORE_ALL (SAVE_ALL h)) = sscratch h"
  using trap_return [OF assms(1)] trap_return(2-4) [OF assms(1), of 1] assms(2)
  by (auto simp: trap_frame_def SSTATUS_SPP_def simp del: push_bit_of_1)

text \<open>A hart in user mode, with 5 in every register.\<close>

definition user_hart :: hart where
  "user_hart = \<lparr>xr = (\<lambda>_. 5), sscratch = 0x80300120, sstatus = 0x20, sepc = 0x400000, stval = 0, scause = 8,
     stvec = 0, hmem = (\<lambda>_. 0)\<rparr>"

lemma trap_is_transparent_witness:
  "xr (RESTORE_ALL (SAVE_ALL user_hart)) 17 = 5 \<and> sepc (RESTORE_ALL (SAVE_ALL user_hart)) = 0x400000 \<and>
   sscratch (RESTORE_ALL (SAVE_ALL user_hart)) = 0x80300120"
  using trap_is_transparent [of user_hart]
  by (simp add: user_hart_def trap_frame_def aligned8_def SSTATUS_SPP_def)

text \<open>C24: after \<open>env_pop_tf\<close> has entered user mode with the frame at \<open>tf\<close>, the next trap saves the user's registers
  into that same frame, and not at the top of the kernel stack: the bytes from which \<open>env_run\<close> copies
  \<open>curenv->env_tf\<close> are not written.\<close>

theorem next_trap_saves_in_place:
  assumes "load64 (hmem h) (slot tf 32) AND SSTATUS_SPP = 0" and "aligned8 tf" and "tf + 288 \<noteq> 0"
    and "sscratch u = sscratch (env_pop_tf tf h)"
    and "\<forall>x. in_block x (KSTACKTOP - sizeof_Trapframe) 288 \<longrightarrow> \<not> in_block x tf 288"
  shows "(\<forall>k. 1 \<le> k \<and> k < 32 \<longrightarrow> load64 (hmem (SAVE_ALL u)) (slot tf k) = xr u k) \<and>
    load_trapframe (hmem (SAVE_ALL u)) (KSTACKTOP - sizeof_Trapframe) =
      load_trapframe (hmem u) (KSTACKTOP - sizeof_Trapframe)"
proof -
  have f: "trap_frame u = tf" using next_trap_frame assms(1,3,4) by (simp only: SSTATUS_SPP_def)
  have "load64 (hmem (SAVE_ALL u)) (slot tf k) = xr u k" if "1 \<le> k" "k < 32" for k
    using SAVE_ALL_frame [of u k] that assms(2) f by (simp add: frame_value_def)
  moreover have "load_trapframe (hmem (SAVE_ALL u)) (KSTACKTOP - sizeof_Trapframe) =
      load_trapframe (hmem u) (KSTACKTOP - sizeof_Trapframe)"
    by (rule load_trapframe_cong) (use assms(5) SAVE_ALL_other f in blast)
  ultimately show ?thesis by blast
qed

lemma next_trap_saves_in_place_witness:
  "load64 (hmem (SAVE_ALL (user_hart\<lparr>sscratch := 0x80300120\<rparr>))) (slot 0x80300000 17) = 5 \<and>
   load_trapframe (hmem (SAVE_ALL (user_hart\<lparr>sscratch := 0x80300120\<rparr>))) (KSTACKTOP - sizeof_Trapframe) =
     load_trapframe (hmem user_hart) (KSTACKTOP - sizeof_Trapframe)"
proof -
  let ?h = "user_hart\<lparr>hmem := \<lambda>_. 0\<rparr>"
  have z: "load64 (hmem ?h) (slot 0x80300000 32) = 0" by (simp add: load64_zero)
  have far: "\<forall>x. in_block x (KSTACKTOP - sizeof_Trapframe) 288 \<longrightarrow> \<not> in_block x 0x80300000 288"
    by (auto simp: in_block_range layout sizeof_Trapframe_def)
  have "sscratch (user_hart\<lparr>sscratch := 0x80300120\<rparr>) = sscratch (env_pop_tf 0x80300000 ?h)"
    using env_pop_tf_scratch [of ?h "0x80300000"] z by (simp add: user_hart_def)
  from next_trap_saves_in_place [OF _ _ _ this far] z show ?thesis
    by (simp add: aligned8_def user_hart_def)
qed

text \<open>C25: which handler a cause reaches: breakpoints (3), and the supervisor timer interrupt (5, with the top bit
  set) by way of index 21 - but exception 21, too; every other index in the table is reserved. An
  interrupt code of 48 or more indexes past the table.\<close>

theorem trap_dispatch:
  "kexcentry h =
     (let i = unat (scause h) mod 64 + (if bit (scause h) 63 then 16 else 0) in
      if i < 64
      then Ret (if i = 3 then Handle_ebreak else if i = 21 then Handle_s_int else Handle_reserved, SAVE_ALL h)
      else Fault ''jump through a pointer behind exception_handlers'')"
  by (simp add: kexcentry_def Let_def exc_index_value SAVE_ALL_effect(4) exception_handlers_nth)

section \<open>Printing\<close>

text \<open>C26: \<open>print_num\<close>, which fills a buffer backwards, pads it and reverses it in place, emits in one call the
  sign, the padding and the digits in their proper order, and never leaves its buffer: the digits are at
  most 64, and the buffer is 70 bytes longer than the width.\<close>

theorem print_num_correct:
  "print_num out u base neg width ladjust padc upcase s =
     out (let ds = rev (num_digits base upcase u); sign = (if neg then [0x2d] else []);
              pad = width - (length ds + length sign) in
          if ladjust then sign @ ds @ replicate pad 0x20
          else if neg \<and> padc = 0x30 then sign @ replicate pad 0x30 @ ds
          else replicate pad padc @ sign @ ds) s \<and>
   length (num_digits base upcase u) \<le> 64"
  unfolding print_num_text num_text_def using num_digits_64 by (rule conjI [OF refl])

text \<open>C27: a number printed by \<open>%d\<close> or \<open>%ld\<close>, right-adjusted in any width, with spaces or zeros, reads back as
  itself.\<close>

theorem printed_decimal_reads_back:
  assumes "padc = 0x20 \<or> padc = 0x30"
  shows "\<exists>t. convert plain_out 0x64 False padc width long_flag [VNum n] [] = Ret ([], t) \<and>
    read_int t = (if long_flag then sint n else sint (ucast n :: u32))"
proof -
  define v where "v = (if long_flag then n else scast (ucast n :: u32))"
  have "convert plain_out 0x64 False padc width long_flag [VNum n] [] =
      Ret ([], num_text (if v <s 0 then - v else v) 10 (v <s 0) width False padc False)"
    by (simp add: convert_def va_num_def v_def print_num_text plain_out_def Let_def)
  moreover have "sint v = (if long_flag then sint n else sint (ucast n :: u32))"
    by (simp add: v_def sint_up_scast is_up_def source_size_def target_size_def word_size)
  ultimately show ?thesis using read_int_num_text [OF assms, of v width] by simp
qed

lemma printed_decimal_reads_back_witness:
  "\<exists>t. convert plain_out 0x64 False 0x20 8 False [VNum (- 42)] [] = Ret ([], t) \<and> read_int t = - 42"
proof -
  have "sint (ucast (- 42 :: u64) :: u32) = - 42" by simp
  then show ?thesis using printed_decimal_reads_back [of "0x20" 8 False "- 42"] by simp
qed

text \<open>C28: \<open>printk\<close> writes the text of its format to the console: what \<open>vprintfmt\<close> produces does not depend on the
  sink, and the console receives it with a carriage return before every line feed.\<close>

theorem printk_writes_format_text:
  "printk fmt ap con = map_outcome (\<lambda>t. con @ crlf t) (format_text fmt ap)"
proof -
  have "map_outcome (\<lambda>con. con) (printk fmt ap con) = map_outcome (\<lambda>t. con @ crlf t) (format_text fmt ap)"
    using console.vprintfmt_written unfolding printk_def .
  then show ?thesis by (simp add: outcome.map_ident)
qed

section \<open>Loading programs\<close>

text \<open>C29: the loops of \<open>elf_load_seg\<close> terminate and call \<open>map_page\<close> exactly with the requests of the segment, in
  order, up to the first that fails, whatever the callback is - for sizes that leave room for a page
  below \<open>2\<^sup>6\<^sup>4\<close>.\<close>

theorem elf_load_seg_issues_requests:
  assumes "unat (p_filesz ph) + 4096 < 2 ^ 64" and "unat (p_memsz ph) + 4096 < 2 ^ 64"
  shows "elf_load_seg ph bin map_page s = mapM_requests map_page (seg_perm ph) (seg_requests ph bin) s"
  using assms by (rule elf_load_seg_requests)

text \<open>A mapper that records the addresses it is asked for.\<close>

definition recorder :: "u64 list mapper" where
  "recorder s va offset perm src len = Ret (0, s @ [va])"

definition bss_phdr :: elf64_phdr where
  "bss_phdr = \<lparr>p_type = 1, p_flags = 6, p_offset = 0x1000, p_vaddr = 0x400000, p_paddr = 0x400000,
     p_filesz = 0x10, p_memsz = 0x2000, p_align = 0x1000\<rparr>"

lemma elf_load_seg_issues_requests_witness:
  "elf_load_seg bss_phdr 0x80210000 recorder [] = Ret (0, [0x400000, 0x401000])"
proof -
  have reqs: "seg_requests bss_phdr 0x80210000 = [(0x400000, 0, 0x80210000, 0x10), (0x401000, 0, 0, 0x1000)]"
    by (simp add: seg_requests_def bss_phdr_def file_requests_def zero_requests_def first_bytes_def file_end_def
        page_offsets_step Let_def)
  show ?thesis
    using elf_load_seg_issues_requests [of bss_phdr "0x80210000" recorder "[]"] unfolding reqs
    by (simp add: bss_phdr_def recorder_def)
qed

text \<open>A segment that starts on a page boundary is loaded page by page: one request per page, in order, with as
  many of the file's bytes as belong to the page, and zeros for the pages behind them.\<close>

theorem segment_loaded_page_by_page:
  assumes "page_aligned (p_vaddr ph)" and "p_filesz ph \<le> p_memsz ph" and "unat (p_memsz ph) + 4096 < 2 ^ 64"
  shows "elf_load_seg ph bin map_page s = mapM_requests map_page (seg_perm ph)
    (map (\<lambda>i. let at = p_vaddr ph + word_of_nat (4096 * i); left = unat (p_filesz ph) - 4096 * i in
        if 0 < left then (at, 0, bin + word_of_nat (4096 * i), word_of_nat (min left 4096))
        else (at, 0, 0, word_of_nat (min (unat (p_memsz ph) - 4096 * i) 4096)))
      [0..<(unat (p_memsz ph) + 4095) div 4096]) s"
proof -
  have "unat (p_filesz ph) + 4096 < 2 ^ 64" using assms(2,3) by (simp add: word_le_nat_alt)
  from elf_load_seg_requests [OF this assms(3)] show ?thesis
    unfolding seg_requests_aligned [OF assms(1,2)] Let_def zero_less_diff .
qed

text \<open>A mapper that records its requests.\<close>

definition logger :: "request list mapper" where
  "logger s va offset perm src len = Ret (0, s @ [(va, offset, src, len)])"

lemma segment_loaded_page_by_page_witness:
  "elf_load_seg bss_phdr 0x80210000 logger [] =
     Ret (0, [(0x400000, 0, 0x80210000, 0x10), (0x401000, 0, 0, 0x1000)])"
proof -
  have "[0..<2] = [0, 1 :: nat]" by (simp add: upt_rec)
  then show ?thesis
  using segment_loaded_page_by_page [of bss_phdr "0x80210000" logger "[]"]
  by (simp add: bss_phdr_def logger_def page_aligned_def Let_def)
qed



section \<open>Blocks of memory and strings\<close>

text \<open>C37: \<open>memcpy\<close>, with its loops over bytes and words, copies the bytes of a block and changes no other byte, also
  when the blocks overlap, unless the destination starts inside the source; \<open>memset\<close> fills the bytes of a block with the low
  byte of its argument. Both give back the destination.\<close>

theorem memory_blocks:
  assumes "unat dst + unat n < 2 ^ 64"
  shows "(dst = src \<or> \<not> in_block dst src (unat n) \<longrightarrow> snd (memcpy m dst src n) = dst \<and>
      (\<forall>x. fst (memcpy m dst src n) x = (if in_block x dst (unat n) then m (src + (x - dst)) else m x))) \<and>
    snd (memset m dst c n) = dst \<and>
    (\<forall>x. fst (memset m dst c n) x = (if in_block x dst (unat n) then ucast c else m x))"
proof -
  have mask: "mask 8 = (255 :: u32)" by (simp add: mask_eq_exp_minus_1)
  have "(ucast (c AND 255) :: u8) = ucast c" by (intro bit_word_eqI) (auto simp: bit_simps simp flip: mask)
  then show ?thesis using memcpy_copied [OF assms, of src m] memset_filled [OF assms, of m c]
  by (simp add: forward_safe_def copied_def filled_def)
qed

lemma memory_blocks_witness:
  "fst (memcpy (\<lambda>x. ucast x) 0x80300001 0x80200000 7) 0x80300003 = 2 \<and>
   fst (memset (\<lambda>_. 9) 0x80300001 0x141 7) 0x80300003 = 0x41"
  using memory_blocks [of "0x80300001" 7 "0x80200000" "\<lambda>x. ucast x" 0]
    memory_blocks [of "0x80300001" 7 0 "\<lambda>_. 9" "0x141"]
  by (simp add: in_block_def)

text \<open>C38: a string copied with \<open>strcpy\<close> to where neither it nor another string lies is terminated like the original:
  \<open>strlen\<close> counts its characters, \<open>strchr\<close> finds the first occurrence of each, and \<open>strcmp\<close> says that it equals
  the original, and that it equals the other string exactly when their characters do. All four return.\<close>

theorem strings_copy_and_compare:
  assumes "cstring_at m src cs" and "cstring_at m other ds" and "length cs < 2 ^ 31" and "length ds < 2 ^ 31"
    and "\<forall>x. in_block x src (Suc (length cs)) \<or> in_block x other (Suc (length ds)) \<longrightarrow> \<not> in_block x dst (Suc (length cs))"
  shows "\<exists>m'. strcpy m dst src = Some (m', dst) \<and> (\<forall>x. \<not> in_block x dst (Suc (length cs)) \<longrightarrow> m' x = m x) \<and>
    strlen m' dst = Some (word_of_nat (length cs)) \<and>
    strcmp m' dst src = Some 0 \<and> (strcmp m' dst other = Some 0 \<longleftrightarrow> cs = ds) \<and>
    (\<forall>c. strchr m' dst (ucast c) = Some (if c \<in> set cs
      then dst + word_of_nat (length (takeWhile (\<lambda>x. x \<noteq> c) cs)) else 0))"
proof -
  let ?n = "Suc (length cs)" and ?m = "copied m dst src (Suc (length cs))"
  have at: "in_block (a + word_of_nat i) a (Suc (length es))" if "i \<le> length es" "length es < 2 ^ 31" for a i and es :: "u8 list"
    using that by (simp add: in_block_def unat_of_nat)
  have apart: "\<not> in_block (src + word_of_nat i) dst ?n" if "i \<le> length cs" for i
    using at [OF that assms(3)] assms(5) by blast
  have "\<not> in_block dst src ?n" using at [of 0 cs dst] assms(3,5) by auto
  then have "forward_safe dst src ?n" by (simp add: forward_safe_def)
  then have copy: "strcpy m dst src = Some (?m, dst)"
    using strcpy_loop_cstring [OF assms(1)] assms(3) by (simp add: strcpy_def)
  have "?m (dst + word_of_nat i) = m (src + word_of_nat i)" if "i \<le> length cs" for i
    using at [OF that assms(3), of dst] by (simp add: copied_def)
  then have dst: "cstring_at ?m dst cs" using cstring_at_shift [of cs ?m dst m src] assms(1) by blast
  have "?m (src + word_of_nat i) = m (src + word_of_nat i)" if "i \<le> length cs" for i
    using apart [OF that] by (simp add: copied_def)
  then have src: "cstring_at ?m src cs" using cstring_at_shift [of cs ?m src m src] assms(1) by blast
  have "?m (other + word_of_nat i) = m (other + word_of_nat i)" if "i \<le> length ds" for i
    using at [OF that assms(4)] assms(5) by (auto simp: copied_def)
  then have other: "cstring_at ?m other ds" using cstring_at_shift [of ds ?m other m other] assms(2) by blast
  show ?thesis
    using copy strlen_cstring [OF dst assms(3)] strcmp_cstring [OF dst src] strcmp_cstring [OF dst other]
      strchr_cstring [OF dst]
    by (intro exI [of _ ?m]) (auto simp: compare_bytes_0 copied_def)
qed

definition two_strings :: mem where
  "two_strings x = (if x = 0x80200000 \<or> x = 0x80200010 then 0x61 else 0)"

lemma strings_copy_and_compare_witness:
  "\<exists>m'. strcpy two_strings 0x80300000 0x80200000 = Some (m', 0x80300000) \<and> strlen m' 0x80300000 = Some 1 \<and>
    strcmp m' 0x80300000 0x80200010 = Some 0"
proof -
  have "\<not> in_block x 0x80300000 2" if "in_block x 0x80200000 2 \<or> in_block x 0x80200010 2" for x :: u64
  proof
    have two: "i = 0 \<or> i = 1" if "unat i < 2" for i :: u64
    proof -
      have "unat i = unat (0 :: u64) \<or> unat i = unat (1 :: u64)" using that by auto
      then show ?thesis by (simp only: word_unat_eq_iff)
    qed
    assume "in_block x 0x80300000 2"
    then have x: "x = 0x80300000 \<or> x = 0x80300001" using two [of "x - 0x80300000"] by (auto simp: in_block_def algebra_simps)
    then show False using that by (auto simp: in_block_def)
  qed
  moreover have n: "Suc (length [0x61 :: u8]) = 2" by simp
  ultimately show ?thesis
    using strings_copy_and_compare [of two_strings "0x80200000" "[0x61]" "0x80200010" "[0x61]" "0x80300000", unfolded n]
    by (auto simp: two_strings_def)
qed

section \<open>Control registers\<close>

text \<open>C39: in supervisor mode the accessors of the supervisor's registers work, those of the machine's registers trap;
  \<open>intr_on\<close> and \<open>intr_off\<close> switch the interrupt bit and nothing else.\<close>

theorem supervisor_accessors:
  assumes "mode h = 1"
  shows "(\<forall>(r, c) \<in> set readers. \<not> supervisor_csr c \<and> c \<noteq> Time \<longrightarrow> r h = Fault ''illegal instruction'') \<and>
    (\<forall>(r, c) \<in> set readers. supervisor_csr c \<longrightarrow> r h = Ret (csr_value c h)) \<and>
    (\<forall>(w, c) \<in> set writers. \<forall>x. w x h = (if supervisor_csr c then Ret (csr_update c x h) else Fault ''illegal instruction'')) \<and>
    (\<exists>h1. intr_on h = Ret h1 \<and> intr_get h1 = Ret 1 \<and>
      (\<forall>n. n \<noteq> 1 \<longrightarrow> bit (csrs h1 Mstatus) n = bit (csrs h Mstatus) n) \<and> (\<forall>c. c \<noteq> Mstatus \<longrightarrow> csrs h1 c = csrs h c)) \<and>
    (\<exists>h0. intr_off h = Ret h0 \<and> intr_get h0 = Ret 0 \<and>
      (\<forall>n. n \<noteq> 1 \<longrightarrow> bit (csrs h0 Mstatus) n = bit (csrs h Mstatus) n) \<and> (\<forall>c. c \<noteq> Mstatus \<longrightarrow> csrs h0 c = csrs h c))"
proof (intro conjI)
  have ok: "csr_mode c \<le> mode h \<longleftrightarrow> supervisor_csr c \<or> c = Time" for c
    unfolding assms by (rule csr_mode_supervisor)
  show "\<forall>(r, c) \<in> set readers. \<not> supervisor_csr c \<and> c \<noteq> Time \<longrightarrow> r h = Fault ''illegal instruction''"
    by (auto simp: readers_csrr csrr_def readable_def ok)
  show "\<forall>(r, c) \<in> set readers. supervisor_csr c \<longrightarrow> r h = Ret (csr_value c h)"
    by (auto simp: readers_csrr csrr_def readable_def ok supervisor_csr_def)
  show "\<forall>(w, c) \<in> set writers. \<forall>x. w x h = (if supervisor_csr c then Ret (csr_update c x h) else Fault ''illegal instruction'')"
    by (auto simp: writers_csrw csrw_def ok dest: writable_csr)
qed (rule intr_switch; simp add: assms)+

text \<open>A hart in supervisor mode.\<close>

definition idle_hart :: cpu where
  "idle_hart = \<lparr>mode = 1, gpr = (\<lambda>_. 0), csrs = (\<lambda>_. 0), tlb = []\<rparr>"

lemma supervisor_accessors_witness:
  "(\<exists>h1. intr_on idle_hart = Ret h1 \<and> intr_get h1 = Ret 1) \<and> (\<exists>h0. intr_off idle_hart = Ret h0 \<and> intr_get h0 = Ret 0)"
proof -
  have "mode idle_hart = 1" by (simp add: idle_hart_def)
  from supervisor_accessors [OF this] show ?thesis by blast
qed

section \<open>Booting\<close>


text \<open>C2: creating an environment keeps the invariant of the kernel and loads the program. With a free slot, an ASID
  and enough pages left, \<open>env_create\<close> takes the first free slot, gives it the least ASID and a new identifier, and
  puts it at the head of the run queue. Every byte of every segment is mapped with the permissions of its segment
  and is the byte of the file, or zero behind its end; all else is what the kernel maps (\<open>owns_space\<close>,
  \<open>program_space\<close>). It takes at most 3080 pages besides those of the program and writes to no page that was not free.\<close>

theorem env_create_loads_program:
  assumes "kernel_ok s g (p # ps) (e # fs) ts" and "e < NENV" and "asids (asid_bitmap s) \<noteq> {..<NASID}"
    and "program_ok (mem (phys s)) binary size'"
    and "3081 + length (program_reqs (mem (phys s)) binary 0) \<le> length ps"
  shows "\<exists>s' v qs. env_create s binary size' pri = Ret (e, s') \<and> kernel_ok s' g qs fs (e # ts) \<and>
    set qs \<subseteq> set ps \<and> length ps \<le> length qs + 3080 + length (program_reqs (mem (phys s)) binary 0) \<and>
    owns_space (set (p # ps) - set qs) (mem (phys s)) binary g (mem (phys s')) p \<and>
    (\<forall>x. (\<forall>q\<in>set (p # ps). \<not> in_block x q 4096) \<longrightarrow> mem (phys s') x = mem (phys s) x) \<and>
    envs s' = (envs s)[e := v] \<and> fresh_env s e p 0 v \<and> env_pri v = pri \<and> env_status v = ENV_RUNNABLE \<and>
    tf_sepc (env_tf v) = e_entry (load_ehdr (mem (phys s)) binary)"
  by (rule env_create_result [OF assms, where pri = pri]) blast



text \<open>C5: booting gives the kernel its address space. From any memory, with the kernel's text ending inside the
  RAM, \<open>kinit\<close> and \<open>kpgtable_init\<close> return - memory does not run out and nothing is mapped twice -, and
  the table translates: the text to itself, readable and executable but not writable; the rest of the RAM to itself,
  readable and writable; the four devices; for each of the 1024 environments a page of its own, which is neither free
  nor a table; and no other page. Only when the text does not end on a page boundary is there one page too many: that
  behind the RAM.\<close>

theorem kernel_address_space:
  assumes "freelist (phys s) = 0" and "0x80000000 < end_of_text" and "end_of_text < PHYEND"
  shows "\<exists>k1 s' qs env_page. kinit (phys s) = Ret k1 \<and> kpgtable_init end_of_text (s\<lparr>phys := k1\<rparr>) = Ret s' \<and>
    (let k = phys s'; r = kernel_pagetable s' in
     pt_inv k {r} qs \<and> inj_on env_page {..<1024} \<and> (\<forall>e<1024. ram_page (env_page e)) \<and>
     env_page ` {..<1024} \<inter> (set qs \<union> nodes (mem k) {r}) = {} \<and>
     (\<forall>e<1024. translate (mem k) r (ENVS (word_of_nat e)) = Some (leaf_pte (env_page e) rw_perm)) \<and>
     (\<forall>va. page_aligned va \<and> va < MAXVA \<and> va \<notin> (\<lambda>e. ENVS (word_of_nat e)) ` {..<1024} \<longrightarrow>
        translate (mem k) r va = map_option (\<lambda>(pa, perm). leaf_pte pa perm) (kernel_region end_of_text va)) \<and>
     translate (mem k) r PHYEND = (if page_aligned end_of_text then None else Some (leaf_pte PHYEND rw_perm)))"
proof -
  obtain k1 r k2 qs f where k: "kinit (phys s) = Ret k1" "kvmcreate k1 end_of_text = Ret (r, k2)" "pt_inv k2 {r} qs"
    "maps_as k2 r (boot_map end_of_text f)" "29693 \<le> length qs" "inj_on f {..<1024}" "\<And>e. e < 1024 \<Longrightarrow> ram_page (f e)"
    "f ` {..<1024} \<inter> (set qs \<union> nodes (mem k2) {r}) = {}" "\<And>x. \<not> (\<exists>q. ram_page q \<and> in_block x q 4096) \<Longrightarrow> mem k2 x = mem (phys s) x"
    using boot_memory [OF assms] by blast
  have top: "ENVS (word_of_nat e) < MAXVA" "page_aligned (ENVS (word_of_nat e))" if "e < 1024" for e
    using unat_ENVS(1,2) [OF that] by (simp_all add: MAXVA_eq word_less_nat_alt)
  have "PHYEND \<notin> (\<lambda>e. ENVS (word_of_nat e)) ` {..<1024}"
    using unat_ENVS(1) by (auto simp: PHYEND_def word_unat_eq_iff)
  moreover have "kernel_region end_of_text PHYEND = (if page_aligned end_of_text then None else Some (PHYEND, rw_perm))"
    by (rule kernel_region_PHYEND [OF assms(2,3)])
  moreover have "page_aligned PHYEND" "PHYEND < MAXVA" by (simp_all add: page_aligned_def MAXVA_eq PHYEND_def)
  ultimately have "translate (mem k2) r PHYEND = (if page_aligned end_of_text then None else Some (leaf_pte PHYEND rw_perm))"
    using k(4) boot_map_other [of PHYEND end_of_text f] by (simp add: maps_as_def)
  moreover have "kpgtable_init end_of_text (s\<lparr>phys := k1\<rparr>) = Ret (s\<lparr>phys := k2, kernel_pagetable := r\<rparr>)"
    using k(2) by (simp add: kpgtable_init_def)
  ultimately show ?thesis
    using k(1,3,4,6-8) top boot_map_ENVS boot_map_other
    by (intro exI [of _ k1] exI [of _ "s\<lparr>phys := k2, kernel_pagetable := r\<rparr>"] exI [of _ qs] exI [of _ f]) (simp add: maps_as_def)
qed

text \<open>C6: a new address space. \<open>env_setup_vm\<close> gives the environment the next free page as its root; the table translates
  every address as the kernel's does, which is unchanged, and the root's entry for UVPT leads to the root itself. This entry is
  the one through which the kernel reaches the pages at ENVS: in the new address space none of the 1024 is mapped.
  1027 free pages are enough, and no page is written to that was not free.\<close>

theorem env_address_space:
  assumes "pt_inv (phys s) {kernel_pagetable s} (p # ps)" and "1027 \<le> length ps" and "e < length (envs s)"
    and "kernel_view g" and "maps_as (phys s) (kernel_pagetable s) g"
  shows "\<exists>k qs. env_setup_vm s e = Ret (0, env_pgtable_set p e k s) \<and>
    pt_inv k {kernel_pagetable s} qs \<and> maps_as k (kernel_pagetable s) g \<and>
    (\<forall>va. page_aligned va \<and> va < MAXVA \<and> VPN_L 2 va \<noteq> VPN_L 2 UVPT \<longrightarrow> translate (mem k) p va = g va) \<and>
    (\<forall>i<1024. translate (mem k) p (ENVS (word_of_nat i)) = None) \<and>
    PTE2PA (pte_at (mem k) p (VPN_L 2 UVPT)) = p \<and>
    set qs \<subseteq> set ps \<and> length ps \<le> length qs + 1027 \<and>
    (\<forall>x. (\<forall>q\<in>set (p # ps). \<not> in_block x q 4096) \<longrightarrow> mem k x = mem (phys s) x)"
proof -
  obtain k qs where k: "env_setup_vm s e = Ret (0, env_pgtable_set p e (self_link p k) s)"
    "user_space k p qs (user_half g)" "pt_inv (self_link p k) {kernel_pagetable s} qs" "maps_as (self_link p k) (kernel_pagetable s) g"
    "set qs \<subseteq> set ps" "length ps \<le> length qs + 1027" "nodes (mem k) {p} \<subseteq> set (p # ps)" "reach kernel_paths (mem k) p"
    "\<And>x. \<forall>q\<in>set (p # ps). \<not> in_block x q 4096 \<Longrightarrow> mem (self_link p k) x = mem (phys s) x"
    by (rule env_setup_vm_space [OF assms(1) refl assms(2-5)]) (rule that)
  have pt: "pt_inv k {p} qs" using k(2) by (simp add: user_space_def)
  note p = pt_root [OF pt]
  have "translate (mem (self_link p k)) p va = g va" if "page_aligned va" "va < MAXVA" "VPN_L 2 va \<noteq> self_slot" for va
    using link_translate [OF pt that(3)] k(2) that by (simp add: user_space_def maps_as_def user_half_def)
  moreover have "translate (mem (self_link p k)) p (ENVS (word_of_nat i)) = None" if "i < 1024" for i
    by (rule link_window [OF pt reach_mono [OF k(8) kernel_paths_user] ENVS_window [OF that]]) simp
  moreover have "PTE2PA (pte_at (mem (self_link p k)) p self_slot) = p"
    using link_pte [OF p(2,2) VPN_L_less, of k 2 UVPT] self_pte_fields(1) [OF p(1)] by simp
  ultimately show ?thesis
    using k(1,3-6,9) by (intro exI [of _ "self_link p k"] exI [of _ qs]) blast
qed

text \<open>A kernel with text up to 0x80201234 and the program at 0x80300000, switched on.\<close>

definition kernel_image_mem :: mem where
  "kernel_image_mem x = (if unat (x - 0x80300000) < 800 then binary_user_bare_loop_start ! unat (x - 0x80300000) else 0)"

definition boot0 :: boot where
  "boot0 = \<lparr>etext = 0x80201234, HEAP_START = 0x80400000, HEAP_SIZE = 0x7c00000, boot_sp = 0x80300000, kexcentry_addr = 0x80200400,
     clock = 7, binary_start = 0x80300000, binary_size = ucast binary_user_bare_loop_size\<rparr>"

definition machine1 :: machine where
  "machine1 = \<lparr>kern = machine0\<lparr>phys := \<lparr>mem = kernel_image_mem, freelist = 0\<rparr>\<rparr>, the_hart = user_hart, console = []\<rparr>"

lemma machine1_pristine: "pristine (kern machine1)"
  by (simp add: pristine_def machine1_def machine0_def env0_def asid_bitmap_ok_def asids_def NASID_def ENV_FREE_def ENV_RUNNABLE_def)

lemma machine1_holds: "holds (mem (phys (kern machine1))) (binary_start boot0) binary_user_bare_loop_start"
  by (simp add: holds_def loop_length machine1_def boot0_def kernel_image_mem_def unat_of_nat)






lemma kernel_address_space_witness:
  "\<exists>k1 s'. kinit (phys machine0) = Ret k1 \<and> kpgtable_init 0x80201234 (machine0\<lparr>phys := k1\<rparr>) = Ret s' \<and>
    translate (mem (phys s')) (kernel_pagetable s') 0x80201000 = Some (leaf_pte 0x80201000 rx_perm) \<and>
    translate (mem (phys s')) (kernel_pagetable s') 0x10000000 = None \<and>
    translate (mem (phys s')) (kernel_pagetable s') 0x88000000 = Some (leaf_pte 0x88000000 rw_perm)"
proof -
  have s: "freelist (phys machine0) = 0" "(0x80000000 :: u64) < 0x80201234" "0x80201234 < PHYEND" "\<not> page_aligned 0x80201234"
    by (simp_all add: machine0_def ram0_def PHYEND_def page_aligned_def)
  have out: "va \<notin> (\<lambda>e. ENVS (word_of_nat e)) ` {..<1024}" if "unat va < 0x3f80000000" for va
  proof
    assume "va \<in> (\<lambda>e. ENVS (word_of_nat e)) ` {..<1024}"
    then obtain e where "e < 1024" "va = ENVS (word_of_nat e)" by auto
    then show False using unat_ENVS(3) [of e] that by (simp add: word_le_nat_alt)
  qed
  have ends: "data_start 0x80201234 = 0x80202000" "data_end 0x80201234 = 0x88001000"
    by (simp_all add: data_start_def data_end_def ROUND_def PAGE_SIZE_def PHYEND_def)
  have regions: "kernel_region 0x80201234 0x80201000 = Some (0x80201000, rx_perm)" "kernel_region 0x80201234 0x10000000 = None"
    unfolding kernel_region_def ends by (simp_all add: layout)
  obtain k1 s' where boot: "kinit (phys machine0) = Ret k1" "kpgtable_init 0x80201234 (machine0\<lparr>phys := k1\<rparr>) = Ret s'"
    and tr: "\<forall>va. page_aligned va \<and> va < MAXVA \<and> va \<notin> (\<lambda>e. ENVS (word_of_nat e)) ` {..<1024} \<longrightarrow>
      translate (mem (phys s')) (kernel_pagetable s') va =
        map_option (\<lambda>(pa, perm). leaf_pte pa perm) (kernel_region 0x80201234 va)"
    and behind: "translate (mem (phys s')) (kernel_pagetable s') 0x88000000 = Some (leaf_pte 0x88000000 rw_perm)"
    using kernel_address_space [OF s(1-3)] s(4) unfolding Let_def PHYEND_def by (elim exE conjE) (rule that, assumption+, simp)
  have "page_aligned 0x80201000" "0x80201000 < MAXVA" "page_aligned 0x10000000" "0x10000000 < MAXVA"
    by (simp_all add: page_aligned_def MAXVA_eq)
  then show ?thesis
    using boot behind tr [rule_format, of "0x80201000"] tr [rule_format, of "0x10000000"] out [of "0x80201000"]
      out [of "0x10000000"] unfolding regions by (intro exI [of _ k1] exI [of _ s']) simp
qed

text \<open>The state before the first environment is created.\<close>

definition before_environments :: "kernel outcome" where
  "before_environments = andThen (kinit (phys (kern machine1))) (\<lambda>k.
     andThen (kpgtable_init (etext boot0) ((kern machine1)\<lparr>phys := k\<rparr>)) (\<lambda>s. Ret (env_init (kvm_init s))))"

lemma before_environments:
  obtains s g ps where "before_environments = Ret s" "kernel_ok s g ps (0 # 1 # [2..<Suc NENV]) []" "asids (asid_bitmap s) = {}" "29693 \<le> length ps"
    "holds (mem (phys s)) 0x80300000 binary_user_bare_loop_start"
proof -
  have et: "0x80000000 < etext boot0" "etext boot0 < PHYEND" by (simp_all add: boot0_def PHYEND_def)
  have "freelist (phys (kern machine1)) = 0" by (simp add: machine1_def)
  from boot_memory [OF this et]
  obtain k1 r k2 qs f where k: "kinit (phys (kern machine1)) = Ret k1" "kvmcreate k1 (etext boot0) = Ret (r, k2)" "pt_inv k2 {r} qs"
    "maps_as k2 r (boot_map (etext boot0) f)" "29693 \<le> length qs" "inj_on f {..<1024}" "\<And>e. e < 1024 \<Longrightarrow> ram_page (f e)"
    "f ` {..<1024} \<inter> (set qs \<union> nodes (mem k2) {r}) = {}"
    "\<And>x. \<not> (\<exists>q. ram_page q \<and> in_block x q 4096) \<Longrightarrow> mem k2 x = mem (phys (kern machine1)) x" by metis
  let ?s = "env_init ((kern machine1)\<lparr>phys := k2, kernel_pagetable := r, satp := MAKE_SATP r\<rparr>)"
  have same: "phys ?s = k2" "asid_bitmap ?s = asid_bitmap (kern machine1)"
    using env_init_same [of "(kern machine1)\<lparr>phys := k2, kernel_pagetable := r, satp := MAKE_SATP r\<rparr>"] by auto
  have "holds k 0x80300000 binary_user_bare_loop_start" if "k = mem k2" for k
    unfolding that holds_def
  proof (intro allI impI)
    fix j assume j: "j < length binary_user_bare_loop_start"
    have "kernel_image 0x80300000 800" by (simp add: kernel_image_def word_less_nat_alt KERNEND_def unat_add_nat)
    then have "mem k2 (0x80300000 + word_of_nat j) = mem (phys (kern machine1)) (0x80300000 + word_of_nat j)"
      using k(9) kernel_image_out [of "0x80300000" 800 j] j by (auto simp: loop_length)
    then show "mem k2 (0x80300000 + word_of_nat j) = binary_user_bare_loop_start ! j"
      using machine1_holds j by (simp add: holds_def boot0_def)
  qed
  then show thesis
    using that [OF _ boot_kernel_ok [OF machine1_pristine k(3,4) boot_map_view [OF et k(7)], of "MAKE_SATP r"]] machine1_pristine k(5)
    by (simp add: same pristine_def before_environments_def k(1,2) kpgtable_init_def kvm_init_def)
qed

lemma env_create_loads_program_witness:
  "\<exists>s s' v. before_environments = Ret s \<and> env_create s 0x80300000 800 5 = Ret (0, s') \<and> envs s' = (envs s)[0 := v] \<and> env_status v = ENV_RUNNABLE \<and>
     env_pri v = 5 \<and> tf_sepc (env_tf v) = 0x400000"
proof -
  obtain s g ps where b: "before_environments = Ret s"
    and s: "kernel_ok s g ps (0 # 1 # [2..<Suc NENV]) []" "asids (asid_bitmap s) = {}" "29693 \<le> length ps"
    "holds (mem (phys s)) 0x80300000 binary_user_bare_loop_start" by (rule before_environments)
  obtain p qs where ps: "ps = p # qs" using s(3) by (cases ps) auto
  have "(0 :: nat) \<in> {..<NASID}" by (simp add: NASID_def)
  then have asid: "asids (asid_bitmap s) \<noteq> {..<NASID}" using s(2) by blast
  have n: "0 < NENV" by (simp add: NENV_def LOG2NENV_def)
  have prog: "program_ok (mem (phys s)) 0x80300000 800" using loop_ok [OF s(4)] by (simp add: binary_user_bare_loop_size_def KERNEND_def)
  have room: "3081 + length (program_reqs (mem (phys s)) 0x80300000 0) \<le> length qs" using s(3) ps by (simp add: loop_reqs [OF s(4)])
  show ?thesis
    using env_create_loads_program [OF s(1) [unfolded ps] n asid prog room, of 5] b unfolding loop_ehdr(2) [OF s(4)] by blast
qed

lemma env_address_space_witness:
  "\<exists>s p k. before_environments = Ret s \<and> env_setup_vm s 3 = Ret (0, env_pgtable_set p 3 k s) \<and> translate (mem k) p (ENVS 3) = None \<and>
     PTE2PA (pte_at (mem k) p (VPN_L 2 UVPT)) = p"
proof -
  obtain s g ps where b: "before_environments = Ret s"
    and s: "kernel_ok s g ps (0 # 1 # [2..<Suc NENV]) []" "29693 \<le> length ps" by (rule before_environments)
  obtain p qs where ps: "ps = p # qs" using s(2) by (cases ps) auto
  have three: "(word_of_nat 3 :: u64) = 3" "(3 :: nat) < 1024" "3 < NENV" by (simp_all add: NENV_def LOG2NENV_def)
  have h: "pt_inv (phys s) {kernel_pagetable s} (p # qs)" "1027 \<le> length qs" "3 < length (envs s)" "kernel_view g"
    "maps_as (phys s) (kernel_pagetable s) g"
    using s ps by (simp_all add: kernel_ok_def sched_inv_def three del: upt_Suc)
  show ?thesis using env_address_space [OF h] three b by metis
qed

end
